(* ===== verification/Prelude.thy ===== *)
theory Prelude
  imports Main "HOL-Library.Word"
begin

text \<open>
  Shared vocabulary of the development: the machine integers of the Rust sources, the ways a Rust
  program stops abnormally, the error-passing combinators every stateful operation is written
  with, checked arithmetic, unchecked slice accesses, and the word lemmas about the two low bits
  of a timestamp that all the timestamp proofs share.
\<close>

unbundle bit_operations_syntax

named_theorems vm_defs \<open>definitions of the virtual machine's small helpers\<close>

section \<open>Machine integers\<close>

type_synonym u8 = "8 word"
type_synonym u16 = "16 word"
type_synonym u32 = "32 word"
type_synonym u64 = "64 word"

section \<open>Abnormal ends of a Rust program\<close>

text \<open>
  \<open>Panic\<close> is an explicit \<open>panic!\<close>, \<open>expect\<close> or \<open>unreachable!\<close>; \<open>AssertFailed\<close> an \<open>assert!\<close>;
  \<open>DebugAssertFailed\<close> a \<open>debug_assert!\<close>; \<open>ArithOverflow\<close> an arithmetic overflow check;
  \<open>IndexOutOfBounds\<close> a checked slice access; \<open>UndefinedBehaviour\<close> an unchecked one outside its slice,
  or a reached \<open>unreachable_unchecked\<close>.  The model is the debug profile of the program, where
  debug assertions and overflow checks are executed.
\<close>

datatype rust_error =
    Panic
  | AssertFailed
  | DebugAssertFailed
  | ArithOverflow
  | IndexOutOfBounds
  | UndefinedBehaviour

type_synonym 'a res = "rust_error + 'a"

definition bindE :: "'a res \<Rightarrow> ('a \<Rightarrow> 'b res) \<Rightarrow> 'b res" where
  "bindE m f = (case m of Inl e \<Rightarrow> Inl e | Inr x \<Rightarrow> f x)"

definition guardE :: "bool \<Rightarrow> rust_error \<Rightarrow> unit res" where
  "guardE b e = (if b then Inr () else Inl e)"

lemma bindE_Inr [simp]: "bindE (Inr x) f = f x"
  by (simp add: bindE_def)

lemma bindE_Inl [simp]: "bindE (Inl e) f = Inl e"
  by (simp add: bindE_def)

lemma bindE_eq_Inr [simp]: "bindE m f = Inr y \<longleftrightarrow> (\<exists>x. m = Inr x \<and> f x = Inr y)"
  by (cases m) auto

lemma guardE_eq_Inr [simp]: "guardE b e = Inr u \<longleftrightarrow> b"
  by (simp add: guardE_def)

lemma guardE_True [simp]: "guardE True e = Inr ()"
  by (simp add: guardE_def)

lemma guardE_False [simp]: "guardE False e = Inl e"
  by (simp add: guardE_def)

lemma bindE_assoc: "bindE (bindE m f) g = bindE m (\<lambda>x. bindE (f x) g)"
  by (cases m) auto

lemma bindE_cong [fundef_cong]:
  "m = m' \<Longrightarrow> (\<And>x. m' = Inr x \<Longrightarrow> f x = f' x) \<Longrightarrow> bindE m f = bindE m' f'"
  by (cases m') auto

section \<open>Checked arithmetic and slice accesses\<close>

definition add_u32 :: "u32 \<Rightarrow> u32 \<Rightarrow> u32 res" where
  "add_u32 a b = (if unat a + unat b < 2 ^ 32 then Inr (a + b) else Inl ArithOverflow)"

definition add_u64 :: "u64 \<Rightarrow> u64 \<Rightarrow> u64 res" where
  "add_u64 a b = (if unat a + unat b < 2 ^ 64 then Inr (a + b) else Inl ArithOverflow)"

definition mul_u64 :: "u64 \<Rightarrow> u64 \<Rightarrow> u64 res" where
  "mul_u64 a b = (if unat a * unat b < 2 ^ 64 then Inr (a * b) else Inl ArithOverflow)"

text \<open>\<open>slice[i]\<close> panics out of bounds; \<open>slice.get_unchecked(i)\<close> is undefined behaviour there.\<close>

definition index :: "'a list \<Rightarrow> nat \<Rightarrow> 'a res" where
  "index xs i = (if i < length xs then Inr (xs ! i) else Inl IndexOutOfBounds)"

definition get_unchecked :: "'a list \<Rightarrow> nat \<Rightarrow> 'a res" where
  "get_unchecked xs i = (if i < length xs then Inr (xs ! i) else Inl UndefinedBehaviour)"

lemma add_u32_eq_Inr: "add_u32 a b = Inr c \<longleftrightarrow> unat a + unat b < 2 ^ 32 \<and> c = a + b"
  by (auto simp: add_u32_def)

lemma add_u64_eq_Inr: "add_u64 a b = Inr c \<longleftrightarrow> unat a + unat b < 2 ^ 64 \<and> c = a + b"
  by (auto simp: add_u64_def)

lemma unat_add_u64: "add_u64 a b = Inr c \<Longrightarrow> unat c = unat a + unat b"
  by (auto simp: add_u64_eq_Inr unat_word_ariths)

lemma unat_add_u32: "add_u32 a b = Inr c \<Longrightarrow> unat c = unat a + unat b"
  by (auto simp: add_u32_eq_Inr unat_word_ariths)

lemma get_unchecked_eq_Inr: "get_unchecked xs i = Inr x \<longleftrightarrow> i < length xs \<and> x = xs ! i"
  by (auto simp: get_unchecked_def)

lemma index_eq_Inr: "index xs i = Inr x \<longleftrightarrow> i < length xs \<and> x = xs ! i"
  by (auto simp: index_def)

section \<open>Words\<close>

text \<open>Divisibility of words is left as the test \<open>a mod n = 0\<close> the program makes.\<close>

declare mod_0_imp_dvd [rule del]

lemma word_of_nat_unat_less: "n < 2 ^ LENGTH('a) \<Longrightarrow> unat (word_of_nat n :: 'a::len word) = n"
  by (simp add: unat_of_nat)

lemma unat_drop_bit: "unat (drop_bit n (w :: 'a::len word)) = unat w div 2 ^ n"
  using drop_bit_eq_div [of n "unat w"] by (simp only: unat_drop_bit_eq)

lemma unat_and_mask: "unat ((w :: 'a::len word) AND mask n) = unat w mod 2 ^ n"
  using take_bit_eq_mod [of n "unat w"]
  by (simp only: take_bit_eq_mask [symmetric] unsigned_take_bit_eq)

lemma sint_if:
  "sint (x :: 'a::len word) =
    (if 2 ^ (LENGTH('a) - 1) \<le> unat x then int (unat x) - 2 ^ LENGTH('a) else int (unat x))"
proof -
  define n where "n = LENGTH('a) - 1"
  have L: "LENGTH('a) = Suc n" by (simp add: n_def)
  have lt: "uint x < 2 * 2 ^ n" using uint_lt2p [of x] by (simp add: L)
  have "bit (uint x) n \<longleftrightarrow> 2 ^ n \<le> uint x"
  proof (cases "2 ^ n \<le> uint x")
    case True
    then have "uint x div 2 ^ n = 1" using lt by (intro int_div_pos_eq [of _ _ _ "uint x - 2 ^ n"]) auto
    then show ?thesis using True by (simp add: bit_iff_odd)
  next
    case False
    then show ?thesis by (simp add: bit_iff_odd div_pos_pos_trivial)
  qed
  moreover have "sint x = uint x - 2 ^ Suc n * of_bool (bit (uint x) n)"
    using lt by (simp add: sint_uint L signed_take_bit_eq_take_bit_minus take_bit_int_eq_self)
  moreover have "2 ^ n \<le> unat x \<longleftrightarrow> 2 ^ n \<le> uint x"
    using of_nat_le_iff [of "2 ^ n" "unat x", where ?'a = int] by simp
  ultimately show ?thesis by (simp add: L n_def [symmetric])
qed

text \<open>
  A cycle timestamp is a multiple of 4; the offsets 0 to 3 of the accesses within a cycle are
  set by \<open>OR\<close>, which is then addition.
\<close>

lemma nat_and_low:
  assumes "n mod 4 = 0"
  shows "n AND (1::nat) = 0" "n AND (2::nat) = 0" "n AND (3::nat) = 0"
proof -
  show 3: "n AND 3 = 0"
    using assms take_bit_eq_mask [of 2 n] by (simp add: take_bit_eq_mod mask_eq_exp_minus_1)
  show "n AND 1 = 0" using assms by (simp add: and_one_eq) presburger
  have "n AND 2 = (n AND 3) AND 2" by (simp add: and.assoc)
  with 3 show "n AND 2 = 0" by simp
qed

lemma nat_or_low:
  assumes "n mod 4 = 0"
  shows "n OR (1::nat) = n + 1" "n OR (2::nat) = n + 2" "n OR (3::nat) = n + 3"
  using disjunctive_add_eq_or [of n 1] disjunctive_add_eq_or [of n 2]
    disjunctive_add_eq_or [of n 3] nat_and_low [OF assms] by simp_all

lemma unat_or_low:
  assumes "unat (t :: u64) mod 4 = 0"
  shows "unat (t OR 1) = unat t + 1" "unat (t OR 2) = unat t + 2" "unat (t OR 3) = unat t + 3"
  using nat_or_low [OF assms] by (simp_all add: unsigned_or_eq)

lemma or_low_or [simp]:
  "(t OR 1) OR 1 = t OR (1 :: u64)" "(t OR 2) OR 2 = t OR (2 :: u64)"
  "(t OR 3) OR 1 = t OR (3 :: u64)" "(t OR 3) OR 2 = t OR (3 :: u64)"
  by (simp_all add: or.assoc)

end
