(* ===== verification/IR_Decode.thy ===== *)
theory IR_Decode
  imports IR_Encoding
begin

text \<open>
  The bytecode preprocessor \<open>preprocess_bytecode\<close> of \<open>riscv_transpiler/src/ir/mod.rs\<close>.  The
  \<open>match\<close> on the major opcode is \<open>decode_opcode\<close>, one definition per arm; an arm either yields one
  instruction, or recognises the first call of a batch of delegation calls, for which the loop
  counts the repetitions of the word, emits one instruction and skips the batch.  A \<open>panic!\<close> or a
  failed \<open>assert!\<close> of the decoder is an \<open>Inl\<close>.
\<close>

section \<open>Constants\<close>

definition OP_IMM_SUBMASK :: u8 where "OP_IMM_SUBMASK = 0b0010011"
definition OP_SUBMASK :: u8 where "OP_SUBMASK = 0b0110011"
definition OPCODE_LUI :: u8 where "OPCODE_LUI = 0b0110111"
definition OPCODE_AUIPC :: u8 where "OPCODE_AUIPC = 0b0010111"
definition OPCODE_JAL :: u8 where "OPCODE_JAL = 0b1101111"
definition OPCODE_JALR :: u8 where "OPCODE_JALR = 0b1100111"
definition OPCODE_BRANCH :: u8 where "OPCODE_BRANCH = 0b1100011"
definition OPCODE_LOAD :: u8 where "OPCODE_LOAD = 0b0000011"
definition OPCODE_STORE :: u8 where "OPCODE_STORE = 0b0100011"
definition OPCODE_SYSTEM :: u8 where "OPCODE_SYSTEM = 0b1110011"

definition SUB_FUNCT7 :: u8 where "SUB_FUNCT7 = 0b0100000"
definition SLL_FUNCT7 :: u8 where "SLL_FUNCT7 = 0"
definition SRL_FUNCT7 :: u8 where "SRL_FUNCT7 = 0"
definition SRA_FUNCT7 :: u8 where "SRA_FUNCT7 = 0b0100000"
definition ROT_FUNCT7 :: u8 where "ROT_FUNCT7 = 0b0110000"
definition M_EXT_FUNCT7 :: u8 where "M_EXT_FUNCT7 = 0b0000001"

definition NON_DETERMINISM_CSR :: u32 where "NON_DETERMINISM_CSR = 0x7c0"
definition BLAKE2S_DELEGATION_CSR_REGISTER :: u32 where
  "BLAKE2S_DELEGATION_CSR_REGISTER = NON_DETERMINISM_CSR + 7"
definition BIGINT_OPS_WITH_CONTROL_CSR_REGISTER :: u32 where
  "BIGINT_OPS_WITH_CONTROL_CSR_REGISTER = NON_DETERMINISM_CSR + 10"
definition KECCAK_SPECIAL5_CSR_REGISTER :: u32 where
  "KECCAK_SPECIAL5_CSR_REGISTER = NON_DETERMINISM_CSR + 11"
definition CYCLE_CSR_INDEX :: u32 where "CYCLE_CSR_INDEX = 3072"
definition NUM_DELEGATION_CALLS_FOR_KECCAK_F1600 :: nat where
  "NUM_DELEGATION_CALLS_FOR_KECCAK_F1600 = 649"

lemmas opcode_defs =
  OP_IMM_SUBMASK_def OP_SUBMASK_def OPCODE_LUI_def OPCODE_AUIPC_def OPCODE_JAL_def
  OPCODE_JALR_def OPCODE_BRANCH_def OPCODE_LOAD_def OPCODE_STORE_def OPCODE_SYSTEM_def

lemmas funct7_defs =
  SUB_FUNCT7_def SLL_FUNCT7_def SRL_FUNCT7_def SRA_FUNCT7_def ROT_FUNCT7_def M_EXT_FUNCT7_def

lemmas csr_defs =
  NON_DETERMINISM_CSR_def BLAKE2S_DELEGATION_CSR_REGISTER_def
  BIGINT_OPS_WITH_CONTROL_CSR_REGISTER_def KECCAK_SPECIAL5_CSR_REGISTER_def CYCLE_CSR_INDEX_def

section \<open>Decoder configurations\<close>

record decoding_options =
  SUPPORT_SUBWORD_MEM_ACCESS :: bool
  SUPPORT_MUL_DIV :: bool
  SUPPORT_SIGNED_MUL_DIV :: bool
  SUPPORT_MOP :: bool

definition FullMachineDecoderConfig :: decoding_options where
  "FullMachineDecoderConfig =
     \<lparr>SUPPORT_SUBWORD_MEM_ACCESS = True, SUPPORT_MUL_DIV = True,
      SUPPORT_SIGNED_MUL_DIV = True, SUPPORT_MOP = False\<rparr>"

definition FullUnsignedMachineDecoderConfig :: decoding_options where
  "FullUnsignedMachineDecoderConfig =
     \<lparr>SUPPORT_SUBWORD_MEM_ACCESS = True, SUPPORT_MUL_DIV = True,
      SUPPORT_SIGNED_MUL_DIV = False, SUPPORT_MOP = False\<rparr>"

definition ReducedMachineDecoderConfig :: decoding_options where
  "ReducedMachineDecoderConfig =
     \<lparr>SUPPORT_SUBWORD_MEM_ACCESS = False, SUPPORT_MUL_DIV = False,
      SUPPORT_SIGNED_MUL_DIV = False, SUPPORT_MOP = True\<rparr>"

definition DebugReducedMachineDecoderConfig :: decoding_options where
  "DebugReducedMachineDecoderConfig =
     \<lparr>SUPPORT_SUBWORD_MEM_ACCESS = True, SUPPORT_MUL_DIV = False,
      SUPPORT_SIGNED_MUL_DIV = False, SUPPORT_MOP = True\<rparr>"

section \<open>The arms of the opcode match\<close>

definition illegal_instr :: instruction where
  "illegal_instr = from_imm Illegal 0 0 0 0"

definition supported :: "bool \<Rightarrow> instruction \<Rightarrow> instruction res" where
  "supported b i = Inr (if b then i else illegal_instr)"

definition decode_branch :: "u32 \<Rightarrow> instruction res" where
  "decode_branch opcode =
     (let formal_rs1 = get_formal_rs1_bits opcode; formal_rs2 = get_formal_rs2_bits opcode;
          funct3 = funct3_bits opcode; imm = sign_extend (BType_imm opcode) 13
      in bindE (guardE (funct3 \<in> {0, 1, 4, 5, 6, 7}) Panic) (\<lambda>_.
         Inr (from_imm Branch formal_rs1 formal_rs2 funct3 imm)))"

definition decode_op_imm :: "u32 \<Rightarrow> instruction res" where
  "decode_op_imm opcode =
     (let rd = get_rd_bits opcode; formal_rs1 = get_formal_rs1_bits opcode;
          funct3 = funct3_bits opcode; funct7 = funct7_bits opcode;
          imm = sign_extend (IType_imm opcode) 12
      in if funct3 = 0b000 then Inr (from_imm Addi formal_rs1 0 rd imm)
         else if funct3 = 0b001 \<and> funct7 = SLL_FUNCT7
           then Inr (from_imm Slli formal_rs1 0 rd (imm AND 0x1f))
         else if funct3 = 0b101 \<and> funct7 = SRL_FUNCT7
           then Inr (from_imm Srli formal_rs1 0 rd (imm AND 0x1f))
         else if funct3 = 0b101 \<and> funct7 = SRA_FUNCT7
           then Inr (from_imm Srai formal_rs1 0 rd (imm AND 0x1f))
         else if funct3 = 0b101 \<and> funct7 = ROT_FUNCT7 then Inl Panic
         else if funct3 = 0b010 then Inr (from_imm Slti formal_rs1 0 rd imm)
         else if funct3 = 0b011 then Inr (from_imm Sltiu formal_rs1 0 rd imm)
         else if funct3 = 0b100 then Inr (from_imm Xori formal_rs1 0 rd imm)
         else if funct3 = 0b110 then Inr (from_imm Ori formal_rs1 0 rd imm)
         else if funct3 = 0b111 then Inr (from_imm Andi formal_rs1 0 rd imm)
         else Inl Panic)"

definition decode_m_ext :: "decoding_options \<Rightarrow> u32 \<Rightarrow> instruction res" where
  "decode_m_ext opt opcode =
     (let rd = get_rd_bits opcode; formal_rs1 = get_formal_rs1_bits opcode;
          formal_rs2 = get_formal_rs2_bits opcode; funct3 = funct3_bits opcode;
          mul_div = SUPPORT_MUL_DIV opt;
          signed = SUPPORT_MUL_DIV opt \<and> SUPPORT_SIGNED_MUL_DIV opt
      in if funct3 = 0b000 then supported mul_div (from_imm Mul formal_rs1 formal_rs2 rd 0)
         else if funct3 = 0b001 then supported signed (from_imm Mulh formal_rs1 formal_rs2 rd 0)
         else if funct3 = 0b010 then supported signed (from_imm Mulhsu formal_rs1 formal_rs2 rd 0)
         else if funct3 = 0b011 then supported mul_div (from_imm Mulhu formal_rs1 formal_rs2 rd 0)
         else if funct3 = 0b100 then supported signed (from_imm Div formal_rs1 formal_rs2 rd 0)
         else if funct3 = 0b101 then supported mul_div (from_imm Divu formal_rs1 formal_rs2 rd 0)
         else if funct3 = 0b110 then supported signed (from_imm Rem formal_rs1 formal_rs2 rd 0)
         else if funct3 = 0b111 then supported mul_div (from_imm Remu formal_rs1 formal_rs2 rd 0)
         else Inl Panic)"

definition decode_basic_op :: "u32 \<Rightarrow> instruction res" where
  "decode_basic_op opcode =
     (let rd = get_rd_bits opcode; formal_rs1 = get_formal_rs1_bits opcode;
          formal_rs2 = get_formal_rs2_bits opcode; funct3 = funct3_bits opcode;
          funct7 = funct7_bits opcode
      in if funct3 = 0b000 \<and> funct7 = 0 then Inr (from_imm Add formal_rs1 formal_rs2 rd 0)
         else if funct3 = 0b000 \<and> funct7 = SUB_FUNCT7
           then Inr (from_imm Sub formal_rs1 formal_rs2 rd 0)
         else if funct3 = 0b001 \<and> funct7 = SLL_FUNCT7
           then Inr (from_imm Sll formal_rs1 formal_rs2 rd 0)
         else if funct3 = 0b001 \<and> funct7 = ROT_FUNCT7 then Inl Panic
         else if funct3 = 0b101 \<and> funct7 = SRL_FUNCT7
           then Inr (from_imm Srl formal_rs1 formal_rs2 rd 0)
         else if funct3 = 0b101 \<and> funct7 = SRA_FUNCT7
           then Inr (from_imm Sra formal_rs1 formal_rs2 rd 0)
         else if funct3 = 0b101 \<and> funct7 = ROT_FUNCT7 then Inl Panic
         else if funct3 = 0b010 then Inr (from_imm Slt formal_rs1 formal_rs2 rd 0)
         else if funct3 = 0b011 then Inr (from_imm Sltu formal_rs1 formal_rs2 rd 0)
         else if funct3 = 0b100 then Inr (from_imm Xor formal_rs1 formal_rs2 rd 0)
         else if funct3 = 0b110 then Inr (from_imm Or formal_rs1 formal_rs2 rd 0)
         else if funct3 = 0b111 then Inr (from_imm And formal_rs1 formal_rs2 rd 0)
         else Inl Panic)"

definition decode_op :: "decoding_options \<Rightarrow> u32 \<Rightarrow> instruction res" where
  "decode_op opt opcode =
     (if funct7_bits opcode = M_EXT_FUNCT7 then decode_m_ext opt opcode
      else decode_basic_op opcode)"

definition decode_load :: "decoding_options \<Rightarrow> u32 \<Rightarrow> instruction res" where
  "decode_load opt opcode =
     (let rd = get_rd_bits opcode; formal_rs1 = get_formal_rs1_bits opcode;
          funct3 = funct3_bits opcode; imm = sign_extend (IType_imm opcode) 12;
          subword = SUPPORT_SUBWORD_MEM_ACCESS opt
      in if funct3 = 0 then supported subword (from_imm Lb formal_rs1 0 rd imm)
         else if funct3 = 1 then supported subword (from_imm Lh formal_rs1 0 rd imm)
         else if funct3 = 2 then Inr (from_imm Lw formal_rs1 0 rd imm)
         else if funct3 = 4 then supported subword (from_imm Lbu formal_rs1 0 rd imm)
         else if funct3 = 5 then supported subword (from_imm Lhu formal_rs1 0 rd imm)
         else Inl Panic)"

definition decode_store :: "decoding_options \<Rightarrow> u32 \<Rightarrow> instruction res" where
  "decode_store opt opcode =
     (let formal_rs1 = get_formal_rs1_bits opcode; formal_rs2 = get_formal_rs2_bits opcode;
          funct3 = funct3_bits opcode; imm = sign_extend (SType_imm opcode) 12;
          subword = SUPPORT_SUBWORD_MEM_ACCESS opt
      in if funct3 = 0 then supported subword (from_imm Sb formal_rs1 formal_rs2 0 imm)
         else if funct3 = 1 then supported subword (from_imm Sh formal_rs1 formal_rs2 0 imm)
         else if funct3 = 2 then Inr (from_imm Sw formal_rs1 formal_rs2 0 imm)
         else Inl Panic)"

definition mop_number :: "u8 \<Rightarrow> u8" where
  "mop_number funct7 = drop_bit 1 (funct7 AND 0b110) OR drop_bit 5 (funct7 AND 0b100000)"

definition decode_mop :: "decoding_options \<Rightarrow> u32 \<Rightarrow> instruction res" where
  "decode_mop opt opcode =
     (let rd = get_rd_bits opcode; formal_rs1 = get_formal_rs1_bits opcode;
          formal_rs2 = get_formal_rs2_bits opcode; funct7 = funct7_bits opcode;
          mop = SUPPORT_MOP opt
      in if funct7 AND 0b1000001 = 0b1000001
         then (if mop_number funct7 = 0
                 then supported mop (from_imm ZimopAdd formal_rs1 formal_rs2 rd 0)
               else if mop_number funct7 = 1
                 then supported mop (from_imm ZimopSub formal_rs1 formal_rs2 rd 0)
               else if mop_number funct7 = 2
                 then supported mop (from_imm ZimopMul formal_rs1 formal_rs2 rd 0)
               else Inl Panic)
         else Inl Panic)"

text \<open>
  An opcode is one instruction, or the first word of a batch of Blake or Keccak delegation calls,
  which the loop consumes as a whole (the arms of the source that end in \<open>continue\<close>).
\<close>

datatype decoded = Single instruction | BlakeBatch | KeccakBatch

definition single :: "instruction res \<Rightarrow> decoded res" where
  "single m = bindE m (\<lambda>i. Inr (Single i))"

definition decode_csr :: "u32 \<Rightarrow> decoded res" where
  "decode_csr opcode =
     (let rd = get_rd_bits opcode; formal_rs1 = get_formal_rs1_bits opcode;
          funct3 = funct3_bits opcode; csr_number = IType_imm opcode;
          csrrw_only = (\<lambda>i. bindE (guardE (funct3 = 0b001) Panic) (\<lambda>_. Inr (Single i)))
      in if csr_number = NON_DETERMINISM_CSR
         then bindE (guardE (formal_rs1 = 0 \<or> rd = 0) AssertFailed) (\<lambda>_.
              if formal_rs1 = 0 then csrrw_only (from_imm ZicsrNonDeterminismRead 0 0 rd 0)
              else bindE (guardE (rd = 0) AssertFailed) (\<lambda>_.
                   csrrw_only (from_imm ZicsrNonDeterminismWrite formal_rs1 0 0 0)))
         else if csr_number = BLAKE2S_DELEGATION_CSR_REGISTER
         then bindE (guardE (formal_rs1 = 0) AssertFailed) (\<lambda>_.
              bindE (guardE (rd = 0) AssertFailed) (\<lambda>_. Inr BlakeBatch))
         else if csr_number = BIGINT_OPS_WITH_CONTROL_CSR_REGISTER
         then bindE (guardE (formal_rs1 = 0) AssertFailed) (\<lambda>_.
              bindE (guardE (rd = 0) AssertFailed) (\<lambda>_.
              csrrw_only (from_imm ZicsrDelegation 0 0 0 (delegation_code BigInt))))
         else if csr_number = KECCAK_SPECIAL5_CSR_REGISTER
         then bindE (guardE (formal_rs1 = 0) AssertFailed) (\<lambda>_.
              bindE (guardE (rd = 0) AssertFailed) (\<lambda>_. Inr KeccakBatch))
         else if csr_number = CYCLE_CSR_INDEX then csrrw_only illegal_instr
         else Inl Panic)"

definition decode_system :: "decoding_options \<Rightarrow> u32 \<Rightarrow> decoded res" where
  "decode_system opt opcode =
     (let funct3 = funct3_bits opcode
      in if funct3 = 0b100 then single (decode_mop opt opcode)
         else if funct3 AND 0x3 \<noteq> 0 then decode_csr opcode
         else Inl Panic)"

definition decode_opcode :: "decoding_options \<Rightarrow> u32 \<Rightarrow> decoded res" where
  "decode_opcode opt opcode =
     (let rd = get_rd_bits opcode; formal_rs1 = get_formal_rs1_bits opcode;
          op = get_opcode_bits opcode
      in if op = OPCODE_LUI then Inr (Single (from_imm Lui 0 0 rd (UType_imm opcode)))
         else if op = OPCODE_AUIPC then Inr (Single (from_imm Auipc 0 0 rd (UType_imm opcode)))
         else if op = OPCODE_JAL
           then Inr (Single (from_imm Jal 0 0 rd (sign_extend (JType_imm opcode) 21)))
         else if op = OPCODE_JALR
           then Inr (Single (from_imm Jalr formal_rs1 0 rd (sign_extend (IType_imm opcode) 12)))
         else if op = OPCODE_BRANCH then single (decode_branch opcode)
         else if op = OP_IMM_SUBMASK then single (decode_op_imm opcode)
         else if op = OP_SUBMASK then single (decode_op opt opcode)
         else if op = OPCODE_LOAD then single (decode_load opt opcode)
         else if op = OPCODE_STORE then single (decode_store opt opcode)
         else if op = OPCODE_SYSTEM then decode_system opt opcode
         else Inr (Single illegal_instr))"

section \<open>The loop over the bytecode\<close>

text \<open>
  \<open>count_calls bytecode i opcode j k\<close> is the scan \<open>for j in j..j+k\<close> for the first word after
  position \<open>i\<close> that differs from \<open>opcode\<close>; it is \<open>0\<close> when no such word is found, and a checked
  access past the end of the bytecode panics.
\<close>

fun count_calls :: "u32 list \<Rightarrow> nat \<Rightarrow> u32 \<Rightarrow> nat \<Rightarrow> nat \<Rightarrow> nat res" where
  "count_calls bytecode i opcode j 0 = Inr 0"
| "count_calls bytecode i opcode j (Suc k) =
     bindE (index bytecode (i + j)) (\<lambda>w.
       if w = opcode then count_calls bytecode i opcode (Suc j) k else Inr j)"

text \<open>The instruction stored at position \<open>i\<close> and the number of words the loop advances by.\<close>

definition decode_at :: "decoding_options \<Rightarrow> u32 list \<Rightarrow> nat \<Rightarrow> (instruction \<times> nat) res" where
  "decode_at opt bytecode i =
     bindE (index bytecode i) (\<lambda>opcode.
     bindE (decode_opcode opt opcode) (\<lambda>d.
     case d of
       Single instr \<Rightarrow> Inr (instr, 1)
     | BlakeBatch \<Rightarrow>
         bindE (count_calls bytecode i opcode 1 10) (\<lambda>num_calls.
         bindE (guardE (num_calls = 7 \<or> num_calls = 10) AssertFailed) (\<lambda>_.
         Inr (from_imm ZicsrDelegation 0 0 0 (delegation_code Blake), num_calls)))
     | KeccakBatch \<Rightarrow>
         bindE (count_calls bytecode i opcode 1 NUM_DELEGATION_CALLS_FOR_KECCAK_F1600)
           (\<lambda>num_calls.
         bindE (guardE (num_calls = NUM_DELEGATION_CALLS_FOR_KECCAK_F1600) AssertFailed) (\<lambda>_.
         Inr (from_imm ZicsrDelegation 0 0 0 (delegation_code Keccak), num_calls)))))"

lemma decode_at_advances: "decode_at opt bytecode i = Inr (instr, n) \<Longrightarrow> 0 < n"
  unfolding decode_at_def bindE_eq_Inr
  by (elim exE conjE, rename_tac opcode d, case_tac d)
    (auto simp: NUM_DELEGATION_CALLS_FOR_KECCAK_F1600_def)

function preprocess_loop ::
  "decoding_options \<Rightarrow> u32 list \<Rightarrow> nat \<Rightarrow> instruction list \<Rightarrow> instruction list res" where
  "preprocess_loop opt bytecode i instructions =
     (if i < length bytecode
      then bindE (decode_at opt bytecode i) (\<lambda>(instr, n).
           preprocess_loop opt bytecode (i + n) (instructions[i := instr]))
      else Inr instructions)"
  by pat_completeness auto
termination
  by (relation "measure (\<lambda>(opt, bytecode, i, instructions). length bytecode - i)")
    (auto dest!: decode_at_advances)

declare preprocess_loop.simps [simp del]

definition preprocess_bytecode :: "decoding_options \<Rightarrow> u32 list \<Rightarrow> instruction list res" where
  "preprocess_bytecode opt bytecode =
     preprocess_loop opt bytecode 0 (replicate (length bytecode) illegal_instr)"

end
