(* ===== verification/IR_Roundtrip.thy ===== *)
theory IR_Roundtrip
  imports IR_Decode
begin

text \<open>
  The decoder against the RISC-V encoding tables.  \<open>rv_encode\<close> is a reference assembler, written
  from the instruction formats R, I, S, B, U and J of the RISC-V manual and not from the decoder;
  \<open>canonical\<close> says which operands an instruction of the transpiler can carry.  The decoder turns
  the encoding of a canonical instruction back into that instruction, yields canonical
  instructions only, and (outside the may-be-operations, of which it inspects a few bits only)
  accepts no other word for it.
\<close>

section \<open>Bits of the fields and immediates\<close>

named_theorems field_bits \<open>single bits of fields and immediates\<close>

lemma bit_shift_right [field_bits]:
  "bit (get_bits_and_shift_right w f k s) n \<longleftrightarrow>
     f \<le> s + n \<and> s + n < f + k \<and> s + n < 32 \<and> bit w (s + n)"
  by (auto simp: get_bits_and_shift_right_def bit_simps Let_def mask_eq_exp_minus_1 [symmetric]
      push_bit_of_1)

lemma bit_shift_left [field_bits]:
  "bit (get_bits_and_shift_left w f k s) n \<longleftrightarrow>
     s \<le> n \<and> n < 32 \<and> f + s \<le> n \<and> n < f + k + s \<and> bit w (n - s)"
  by (auto simp: get_bits_and_shift_left_def bit_simps Let_def mask_eq_exp_minus_1 [symmetric]
      push_bit_of_1)

lemma bit_align_right [field_bits]:
  "bit (get_bits_and_align_right w f k) n \<longleftrightarrow> n < k \<and> f + n < 32 \<and> bit w (f + n)"
  by (auto simp: get_bits_and_align_right_def bit_simps Let_def mask_eq_exp_minus_1 [symmetric]
      push_bit_of_1)

lemma bit_sign_extend:
  assumes "0 < t" "t < 32"
  shows "bit (sign_extend w t) n \<longleftrightarrow>
    n < 32 \<and> (if n < t then bit w n else bit w (t - 1) \<or> bit w n)"
proof -
  have "w AND push_bit (t - 1) 1 \<noteq> 0 \<longleftrightarrow> bit w (t - 1)"
    using assms by (auto simp: bit_word_iff_drop_bit_and and_exp_eq_0_iff_not_bit push_bit_eq_mult)
  then show ?thesis
    using assms by (auto simp: sign_extend_def bit_simps push_bit_of_1
        mask_eq_exp_minus_1 [symmetric] dest: bit_imp_le_length)
qed

lemma bit_sign_extend_imm [field_bits]:
  "bit (sign_extend w 12) n \<longleftrightarrow> n < 32 \<and> (if n < 12 then bit w n else bit w 11 \<or> bit w n)"
  "bit (sign_extend w 13) n \<longleftrightarrow> n < 32 \<and> (if n < 13 then bit w n else bit w 12 \<or> bit w n)"
  "bit (sign_extend w 21) n \<longleftrightarrow> n < 32 \<and> (if n < 21 then bit w n else bit w 20 \<or> bit w n)"
  by (simp_all add: bit_sign_extend)

lemma bit_signed_take_bit_imm [field_bits]:
  "bit (signed_take_bit 11 (w :: u32)) n \<longleftrightarrow>
     n < 32 \<and> (if n < 12 then bit w n else bit w 11)"
  "bit (signed_take_bit 12 (w :: u32)) n \<longleftrightarrow>
     n < 32 \<and> (if n < 13 then bit w n else bit w 12)"
  "bit (signed_take_bit 20 (w :: u32)) n \<longleftrightarrow>
     n < 32 \<and> (if n < 21 then bit w n else bit w 20)"
  by (cases "n = 11"; cases "n = 12"; cases "n = 20";
      auto simp: bit_signed_take_bit_iff min_def dest: bit_imp_le_length)+

lemma masks: "(7 :: u32) = mask 3" "(31 :: u32) = mask 5" "(127 :: u32) = mask 7"
  by (simp_all add: mask_eq_exp_minus_1)

lemma bit_fields [field_bits]:
  "bit (funct3_bits w) n \<longleftrightarrow> n < 3 \<and> bit w (12 + n)"
  "bit (funct7_bits w) n \<longleftrightarrow> n < 7 \<and> bit w (25 + n)"
  "bit (get_opcode_bits w) n \<longleftrightarrow> n < 7 \<and> bit w n"
  "bit (get_rd_bits w) n \<longleftrightarrow> n < 5 \<and> bit w (7 + n)"
  "bit (get_formal_rs1_bits w) n \<longleftrightarrow> n < 5 \<and> bit w (15 + n)"
  "bit (get_formal_rs2_bits w) n \<longleftrightarrow> n < 5 \<and> bit w (20 + n)"
  by (auto simp: funct3_bits_def funct7_bits_def get_opcode_bits_def get_rd_bits_def
      get_formal_rs1_bits_def get_formal_rs2_bits_def masks bit_simps dest: bit_imp_le_length)

lemma bit_immediates [field_bits]:
  "bit (UType_imm w) n \<longleftrightarrow> 12 \<le> n \<and> n < 32 \<and> bit w n"
  "bit (IType_imm w) n \<longleftrightarrow> n < 12 \<and> bit w (20 + n)"
  "bit (SType_imm w) n \<longleftrightarrow> (if n < 5 then bit w (7 + n) else n < 12 \<and> bit w (20 + n))"
  "bit (BType_imm w) n \<longleftrightarrow>
     (if n = 0 then False else if n \<le> 4 then bit w (7 + n) else if n \<le> 10 then bit w (20 + n)
      else if n = 11 then bit w 7 else n = 12 \<and> bit w 31)"
  "bit (JType_imm w) n \<longleftrightarrow>
     (if n = 0 then False else if n \<le> 10 then bit w (20 + n) else if n = 11 then bit w 20
      else if n < 20 then bit w n else n = 20 \<and> bit w 31)"
  by (cases "n = 12"; cases "n = 20";
      auto simp: UType_imm_def IType_imm_def SType_imm_def BType_imm_def JType_imm_def
        bit_shift_right bit_shift_left bit_align_right bit_or_iff)+

section \<open>Ranges of the fields\<close>

lemma take_bit_u8 [simp]:
  "take_bit 5 w = w \<longleftrightarrow> w < 32" "take_bit 3 w = w \<longleftrightarrow> w < 8" "take_bit 7 w = w \<longleftrightarrow> w < 128"
  for w :: u8
  by (simp_all add: word_unat_eq_iff unsigned_take_bit_eq take_bit_nat_eq_self_iff
      word_less_nat_alt)

lemmas take_bit_u8_less [simp] = take_bit_u8 [THEN iffD2]

lemma field_ranges:
  "get_rd_bits w < 32" "get_formal_rs1_bits w < 32" "get_formal_rs2_bits w < 32"
  "funct3_bits w < 8" "funct7_bits w < 128"
  unfolding take_bit_u8 [symmetric]
  by (rule bit_word_eqI; auto simp: field_bits bit_simps)+

section \<open>The reference assembler\<close>

definition enc_R :: "u8 \<Rightarrow> u8 \<Rightarrow> u8 \<Rightarrow> u8 \<Rightarrow> u8 \<Rightarrow> u8 \<Rightarrow> u32" where
  "enc_R f7 rs2 rs1 f3 rd op =
     push_bit 25 (take_bit 7 (ucast f7)) OR push_bit 20 (take_bit 5 (ucast rs2))
     OR push_bit 15 (take_bit 5 (ucast rs1)) OR push_bit 12 (take_bit 3 (ucast f3))
     OR push_bit 7 (take_bit 5 (ucast rd)) OR take_bit 7 (ucast op)"

definition enc_I :: "u32 \<Rightarrow> u8 \<Rightarrow> u8 \<Rightarrow> u8 \<Rightarrow> u8 \<Rightarrow> u32" where
  "enc_I imm rs1 f3 rd op =
     push_bit 20 (take_bit 12 imm)
     OR push_bit 15 (take_bit 5 (ucast rs1)) OR push_bit 12 (take_bit 3 (ucast f3))
     OR push_bit 7 (take_bit 5 (ucast rd)) OR take_bit 7 (ucast op)"

definition enc_S :: "u32 \<Rightarrow> u8 \<Rightarrow> u8 \<Rightarrow> u8 \<Rightarrow> u8 \<Rightarrow> u32" where
  "enc_S imm rs2 rs1 f3 op =
     push_bit 25 (take_bit 7 (drop_bit 5 imm)) OR push_bit 20 (take_bit 5 (ucast rs2))
     OR push_bit 15 (take_bit 5 (ucast rs1)) OR push_bit 12 (take_bit 3 (ucast f3))
     OR push_bit 7 (take_bit 5 imm) OR take_bit 7 (ucast op)"

definition enc_B :: "u32 \<Rightarrow> u8 \<Rightarrow> u8 \<Rightarrow> u8 \<Rightarrow> u8 \<Rightarrow> u32" where
  "enc_B imm rs2 rs1 f3 op =
     push_bit 31 (drop_bit 12 imm) OR push_bit 25 (take_bit 6 (drop_bit 5 imm))
     OR push_bit 20 (take_bit 5 (ucast rs2))
     OR push_bit 15 (take_bit 5 (ucast rs1)) OR push_bit 12 (take_bit 3 (ucast f3))
     OR push_bit 8 (take_bit 4 (drop_bit 1 imm)) OR push_bit 7 (take_bit 1 (drop_bit 11 imm))
     OR take_bit 7 (ucast op)"

definition enc_U :: "u32 \<Rightarrow> u8 \<Rightarrow> u8 \<Rightarrow> u32" where
  "enc_U imm rd op =
     push_bit 12 (drop_bit 12 imm) OR push_bit 7 (take_bit 5 (ucast rd)) OR take_bit 7 (ucast op)"

definition enc_J :: "u32 \<Rightarrow> u8 \<Rightarrow> u8 \<Rightarrow> u32" where
  "enc_J imm rd op =
     push_bit 31 (drop_bit 20 imm) OR push_bit 21 (take_bit 10 (drop_bit 1 imm))
     OR push_bit 20 (take_bit 1 (drop_bit 11 imm)) OR push_bit 12 (take_bit 8 (drop_bit 12 imm))
     OR push_bit 7 (take_bit 5 (ucast rd)) OR take_bit 7 (ucast op)"

lemmas enc_defs = enc_R_def enc_I_def enc_S_def enc_B_def enc_U_def enc_J_def

lemma opcode_of_enc [simp]:
  "get_opcode_bits (enc_R f7 rs2 rs1 f3 rd op) = take_bit 7 op"
  "get_opcode_bits (enc_I imm rs1 f3 rd op) = take_bit 7 op"
  "get_opcode_bits (enc_S imm rs2 rs1 f3 op) = take_bit 7 op"
  "get_opcode_bits (enc_B imm rs2 rs1 f3 op) = take_bit 7 op"
  "get_opcode_bits (enc_U imm rd op) = take_bit 7 op"
  "get_opcode_bits (enc_J imm rd op) = take_bit 7 op"
  by (rule bit_word_eqI; auto simp: field_bits enc_defs bit_simps)+

lemma rd_of_enc [simp]:
  "get_rd_bits (enc_R f7 rs2 rs1 f3 rd op) = take_bit 5 rd"
  "get_rd_bits (enc_I imm rs1 f3 rd op) = take_bit 5 rd"
  "get_rd_bits (enc_U imm rd op) = take_bit 5 rd"
  "get_rd_bits (enc_J imm rd op) = take_bit 5 rd"
  by (rule bit_word_eqI; auto simp: field_bits enc_defs bit_simps)+

lemma rs1_of_enc [simp]:
  "get_formal_rs1_bits (enc_R f7 rs2 rs1 f3 rd op) = take_bit 5 rs1"
  "get_formal_rs1_bits (enc_I imm rs1 f3 rd op) = take_bit 5 rs1"
  "get_formal_rs1_bits (enc_S imm rs2 rs1 f3 op) = take_bit 5 rs1"
  "get_formal_rs1_bits (enc_B imm rs2 rs1 f3 op) = take_bit 5 rs1"
  by (rule bit_word_eqI; auto simp: field_bits enc_defs bit_simps)+

lemma rs2_of_enc [simp]:
  "get_formal_rs2_bits (enc_R f7 rs2 rs1 f3 rd op) = take_bit 5 rs2"
  "get_formal_rs2_bits (enc_S imm rs2 rs1 f3 op) = take_bit 5 rs2"
  "get_formal_rs2_bits (enc_B imm rs2 rs1 f3 op) = take_bit 5 rs2"
  by (rule bit_word_eqI; auto simp: field_bits enc_defs bit_simps)+

lemma funct_of_enc [simp]:
  "funct3_bits (enc_R f7 rs2 rs1 f3 rd op) = take_bit 3 f3"
  "funct3_bits (enc_I imm rs1 f3 rd op) = take_bit 3 f3"
  "funct3_bits (enc_S imm rs2 rs1 f3 op) = take_bit 3 f3"
  "funct3_bits (enc_B imm rs2 rs1 f3 op) = take_bit 3 f3"
  "funct7_bits (enc_R f7 rs2 rs1 f3 rd op) = take_bit 7 f7"
  by (rule bit_word_eqI; auto simp: field_bits enc_defs bit_simps)+

lemma imm_of_enc:
  "sign_extend (take_bit 12 imm) 12 = signed_take_bit 11 imm"
  "IType_imm (enc_I imm rs1 f3 rd op) = take_bit 12 imm"
  "sign_extend (SType_imm (enc_S imm rs2 rs1 f3 op)) 12 = signed_take_bit 11 imm"
  "UType_imm (enc_U imm rd op) = push_bit 12 (drop_bit 12 imm)"
  by (rule bit_word_eqI; auto simp: field_bits enc_defs bit_simps split: if_splits)+

lemma jump_imm_of_enc:
  assumes "\<not> bit imm 0"
  shows "sign_extend (BType_imm (enc_B imm rs2 rs1 f3 op)) 13 = signed_take_bit 12 imm"
    "sign_extend (JType_imm (enc_J imm rd op)) 21 = signed_take_bit 20 imm"
  using assms
  by (rule_tac [!] bit_word_eqI, rename_tac [!] n, case_tac [!] "n = 11", case_tac [!] "n = 12",
      case_tac [!] "n = 20")
    (auto simp: field_bits enc_defs bit_simps bit_iff_odd_drop_bit [symmetric])

datatype format =
    Fmt_U u8
  | Fmt_J u8
  | Fmt_B u8
  | Fmt_I u8 u8
  | Fmt_S u8 u8
  | Fmt_Shift u8 u8
  | Fmt_R u8 u8 u8
  | Fmt_CsrRead u32
  | Fmt_CsrWrite u32
  | Fmt_CsrCall u32
  | Fmt_None

text \<open>Opcode, \<open>funct3\<close> and \<open>funct7\<close> of each instruction, as tabulated in the RISC-V manual.\<close>

fun rv_format :: "InstructionName \<Rightarrow> format" where
  "rv_format Lui = Fmt_U 0x37"
| "rv_format Auipc = Fmt_U 0x17"
| "rv_format Jal = Fmt_J 0x6f"
| "rv_format Jalr = Fmt_I 0x67 0"
| "rv_format Branch = Fmt_B 0x63"
| "rv_format Lb = Fmt_I 0x03 0"
| "rv_format Lh = Fmt_I 0x03 1"
| "rv_format Lw = Fmt_I 0x03 2"
| "rv_format Lbu = Fmt_I 0x03 4"
| "rv_format Lhu = Fmt_I 0x03 5"
| "rv_format Sb = Fmt_S 0x23 0"
| "rv_format Sh = Fmt_S 0x23 1"
| "rv_format Sw = Fmt_S 0x23 2"
| "rv_format Addi = Fmt_I 0x13 0"
| "rv_format Slti = Fmt_I 0x13 2"
| "rv_format Sltiu = Fmt_I 0x13 3"
| "rv_format Xori = Fmt_I 0x13 4"
| "rv_format Ori = Fmt_I 0x13 6"
| "rv_format Andi = Fmt_I 0x13 7"
| "rv_format Slli = Fmt_Shift 0x00 1"
| "rv_format Srli = Fmt_Shift 0x00 5"
| "rv_format Srai = Fmt_Shift 0x20 5"
| "rv_format Add = Fmt_R 0x33 0 0x00"
| "rv_format Sub = Fmt_R 0x33 0 0x20"
| "rv_format Sll = Fmt_R 0x33 1 0x00"
| "rv_format Slt = Fmt_R 0x33 2 0x00"
| "rv_format Sltu = Fmt_R 0x33 3 0x00"
| "rv_format Xor = Fmt_R 0x33 4 0x00"
| "rv_format Srl = Fmt_R 0x33 5 0x00"
| "rv_format Sra = Fmt_R 0x33 5 0x20"
| "rv_format Or = Fmt_R 0x33 6 0x00"
| "rv_format And = Fmt_R 0x33 7 0x00"
| "rv_format Mul = Fmt_R 0x33 0 0x01"
| "rv_format Mulh = Fmt_R 0x33 1 0x01"
| "rv_format Mulhsu = Fmt_R 0x33 2 0x01"
| "rv_format Mulhu = Fmt_R 0x33 3 0x01"
| "rv_format Div = Fmt_R 0x33 4 0x01"
| "rv_format Divu = Fmt_R 0x33 5 0x01"
| "rv_format Rem = Fmt_R 0x33 6 0x01"
| "rv_format Remu = Fmt_R 0x33 7 0x01"
| "rv_format ZimopAdd = Fmt_R 0x73 4 0x41"
| "rv_format ZimopSub = Fmt_R 0x73 4 0x43"
| "rv_format ZimopMul = Fmt_R 0x73 4 0x45"
| "rv_format ZicsrNonDeterminismRead = Fmt_CsrRead 0x7c0"
| "rv_format ZicsrNonDeterminismWrite = Fmt_CsrWrite 0x7c0"
| "rv_format ZicsrDelegation = Fmt_CsrCall 0x7ca"
| "rv_format _ = Fmt_None"

definition rv_encode :: "instruction \<Rightarrow> u32" where
  "rv_encode i =
     (let rs1 = i_rs1 i; rs2 = i_rs2 i; rd = i_rd i; imm = i_imm i
      in case rv_format (i_name i) of
           Fmt_U op \<Rightarrow> enc_U imm rd op
         | Fmt_J op \<Rightarrow> enc_J imm rd op
         | Fmt_B op \<Rightarrow> enc_B imm rs2 rs1 rd op
         | Fmt_I op f3 \<Rightarrow> enc_I imm rs1 f3 rd op
         | Fmt_S op f3 \<Rightarrow> enc_S imm rs2 rs1 f3 op
         | Fmt_Shift f7 f3 \<Rightarrow> enc_R f7 (ucast imm) rs1 f3 rd 0x13
         | Fmt_R op f3 f7 \<Rightarrow> enc_R f7 rs2 rs1 f3 rd op
         | Fmt_CsrRead csr \<Rightarrow> enc_I csr 0 1 rd 0x73
         | Fmt_CsrWrite csr \<Rightarrow> enc_I csr rs1 1 0 0x73
         | Fmt_CsrCall csr \<Rightarrow> enc_I csr 0 1 0 0x73
         | Fmt_None \<Rightarrow> 0)"

text \<open>The operands an instruction can have: registers below 32, a representable immediate, and
  zero in the fields its format does not have.  A branch keeps its condition in \<open>i_rd\<close>.\<close>

definition canonical :: "instruction \<Rightarrow> bool" where
  "canonical i \<longleftrightarrow>
     (let rs1 = i_rs1 i; rs2 = i_rs2 i; rd = i_rd i; imm = i_imm i
      in rs1 < 32 \<and> rs2 < 32 \<and> rd < 32 \<and>
         (case rv_format (i_name i) of
           Fmt_U op \<Rightarrow> rs1 = 0 \<and> rs2 = 0 \<and> push_bit 12 (drop_bit 12 imm) = imm
         | Fmt_J op \<Rightarrow> rs1 = 0 \<and> rs2 = 0 \<and> \<not> bit imm 0 \<and> signed_take_bit 20 imm = imm
         | Fmt_B op \<Rightarrow> rd \<in> {0, 1, 4, 5, 6, 7} \<and> \<not> bit imm 0 \<and> signed_take_bit 12 imm = imm
         | Fmt_I op f3 \<Rightarrow> rs2 = 0 \<and> signed_take_bit 11 imm = imm
         | Fmt_S op f3 \<Rightarrow> rd = 0 \<and> signed_take_bit 11 imm = imm
         | Fmt_Shift f7 f3 \<Rightarrow> rs2 = 0 \<and> imm < 32
         | Fmt_R op f3 f7 \<Rightarrow> imm = 0
         | Fmt_CsrRead csr \<Rightarrow> rs1 = 0 \<and> rs2 = 0 \<and> imm = 0
         | Fmt_CsrWrite csr \<Rightarrow> rs1 \<noteq> 0 \<and> rs2 = 0 \<and> rd = 0 \<and> imm = 0
         | Fmt_CsrCall csr \<Rightarrow> rs1 = 0 \<and> rs2 = 0 \<and> rd = 0 \<and> imm = delegation_code BigInt
         | Fmt_None \<Rightarrow> False))"

definition supported_name :: "decoding_options \<Rightarrow> InstructionName \<Rightarrow> bool" where
  "supported_name opt n \<longleftrightarrow>
     (n \<in> {Mul, Mulhu, Divu, Remu, Mulh, Mulhsu, Div, Rem} \<longrightarrow> SUPPORT_MUL_DIV opt) \<and>
     (n \<in> {Mulh, Mulhsu, Div, Rem} \<longrightarrow> SUPPORT_SIGNED_MUL_DIV opt) \<and>
     (n \<in> {Lb, Lbu, Lh, Lhu, Sb, Sh} \<longrightarrow> SUPPORT_SUBWORD_MEM_ACCESS opt) \<and>
     (n \<in> {ZimopAdd, ZimopSub, ZimopMul} \<longrightarrow> SUPPORT_MOP opt)"

section \<open>Round trips\<close>

lemma shift_imm_eq [simp]: "imm < 32 \<Longrightarrow> take_bit 5 (ucast (ucast imm :: u8)) = (imm :: u32)"
proof -
  assume "imm < 32"
  then have "take_bit 5 imm = imm"
    by (simp add: word_unat_eq_iff unsigned_take_bit_eq take_bit_nat_eq_self_iff word_less_nat_alt)
  moreover have "take_bit 5 (ucast (ucast imm :: u8)) = take_bit 5 imm"
    by (rule bit_word_eqI) (auto simp: bit_simps)
  ultimately show ?thesis by simp
qed

lemma shift_imm_of_enc:
  "sign_extend (IType_imm (enc_R f7 rs2 rs1 f3 rd op)) 12 AND 0x1f = take_bit 5 (ucast rs2)"
  unfolding masks
  by (rule bit_word_eqI) (auto simp: field_bits enc_defs bit_simps)

lemmas decode_defs =
  decode_opcode_def decode_branch_def decode_op_imm_def decode_op_def decode_m_ext_def
  decode_basic_op_def decode_load_def decode_store_def decode_system_def decode_mop_def
  decode_csr_def single_def supported_def

lemma decode_encode:
  assumes "canonical i" "supported_name opt (i_name i)"
  shows "decode_opcode opt (rv_encode i) = Inr (Single i)"
  using assms
  by (cases i; cases "i_name i")
    (auto simp: canonical_def supported_name_def rv_encode_def decode_defs opcode_defs funct7_defs csr_defs Let_def
      imm_of_enc jump_imm_of_enc shift_imm_of_enc mop_number_def from_imm_def)

text \<open>An instruction word is put together from its fields.\<close>

lemma u32_bits_eqI:
  assumes "list_all (\<lambda>n. bit v n = bit w n)
    [0, 1, 2, 3, 4, 5, 6, 7, 8, 9, 10, 11, 12, 13, 14, 15,
     16, 17, 18, 19, 20, 21, 22, 23, 24, 25, 26, 27, 28, 29, 30, 31]"
  shows "v = (w :: u32)"
proof (rule bit_word_eqI)
  fix n :: nat
  assume "n < LENGTH(32)"
  then have "n \<in> set [0..<32]" by simp
  moreover have "[0..<32] = [0, 1, 2, 3, 4, 5, 6, 7, 8, 9, 10, 11, 12, 13, 14, 15,
       16, 17, 18, 19, 20, 21, 22, 23, 24, 25, 26, 27, 28, 29, 30, 31]"
    by (simp add: upt_rec)
  ultimately show "bit v n = bit w n"
    using assms by (simp only: list_all_iff)
qed

lemma enc_of_fields:
  assumes "get_opcode_bits w = op"
  shows "funct7_bits w = f7 \<Longrightarrow> funct3_bits w = f3 \<Longrightarrow>
      enc_R f7 (get_formal_rs2_bits w) (get_formal_rs1_bits w) f3 (get_rd_bits w) op = w"
    "funct3_bits w = f3 \<Longrightarrow>
      enc_I (sign_extend (IType_imm w) 12) (get_formal_rs1_bits w) f3 (get_rd_bits w) op = w"
    "funct3_bits w = f3 \<Longrightarrow> IType_imm w = imm \<Longrightarrow>
      enc_I imm (get_formal_rs1_bits w) f3 (get_rd_bits w) op = w"
    "funct3_bits w = f3 \<Longrightarrow>
      enc_S (sign_extend (SType_imm w) 12) (get_formal_rs2_bits w) (get_formal_rs1_bits w) f3 op = w"
    "funct3_bits w = f3 \<Longrightarrow>
      enc_B (sign_extend (BType_imm w) 13) (get_formal_rs2_bits w) (get_formal_rs1_bits w) f3 op = w"
    "enc_U (UType_imm w) (get_rd_bits w) op = w"
    "enc_J (sign_extend (JType_imm w) 21) (get_rd_bits w) op = w"
  unfolding assms [symmetric]
  by ((hypsubst)?, rule u32_bits_eqI,
      simp add: enc_defs field_bits bit_simps bit_iff_odd_drop_bit [symmetric])+

lemma imm_fields_canonical [simp]:
  "signed_take_bit 11 (sign_extend (IType_imm w) 12) = sign_extend (IType_imm w) 12"
  "signed_take_bit 11 (sign_extend (SType_imm w) 12) = sign_extend (SType_imm w) 12"
  "signed_take_bit 12 (sign_extend (BType_imm w) 13) = sign_extend (BType_imm w) 13"
  "signed_take_bit 20 (sign_extend (JType_imm w) 21) = sign_extend (JType_imm w) 21"
  "\<not> bit (sign_extend (BType_imm w) 13) 0" "\<not> bit (sign_extend (JType_imm w) 21) 0"
  "push_bit 12 (drop_bit 12 (UType_imm w)) = UType_imm w"
  "sign_extend (IType_imm w) 12 AND 0x1f = ucast (get_formal_rs2_bits w)"
  unfolding masks
  by (rule bit_word_eqI | auto simp: field_bits bit_simps)+

lemma rs2_imm_less [simp]:
  "(ucast (get_formal_rs2_bits w) :: u32) < 32" 
  using field_ranges(3) [of w]
  by (simp add: word_less_nat_alt unsigned_ucast_eq le_less_trans [OF take_bit_nat_less_eq_self])

lemma ucast_rs2 [simp]: "ucast (ucast (get_formal_rs2_bits w) :: u32) = get_formal_rs2_bits w"
  by (rule bit_word_eqI) (auto simp: bit_simps)

lemma enc_I_of_fields:
  "get_opcode_bits w = op \<Longrightarrow> funct3_bits w = f3 \<Longrightarrow> IType_imm w = imm \<Longrightarrow>
     get_formal_rs1_bits w = rs1 \<Longrightarrow> get_rd_bits w = rd \<Longrightarrow> enc_I imm rs1 f3 rd op = w"
  using enc_of_fields(3) by blast

section \<open>What the decoder accepts\<close>

text \<open>
  The decoder does not look at every bit of a word: \<open>funct3\<close> of \<open>jalr\<close>, \<open>funct7\<close> of five register
  operations, and parts of \<open>funct7\<close> of the may-be-operations.  \<open>ignored_bits\<close> are the bits in which an
  accepted word may differ from the manual's encoding.
\<close>

fun ignored_bits :: "InstructionName \<Rightarrow> u32" where
  "ignored_bits Jalr = 0x00007000"
| "ignored_bits Slt = 0xfe000000"
| "ignored_bits Sltu = 0xfe000000"
| "ignored_bits Xor = 0xfe000000"
| "ignored_bits Or = 0xfe000000"
| "ignored_bits And = 0xfe000000"
| "ignored_bits ZimopAdd = 0x30000000"
| "ignored_bits ZimopSub = 0x74000000"
| "ignored_bits ZimopMul = 0x30000000"
| "ignored_bits _ = 0"

definition same_encoding :: "InstructionName \<Rightarrow> u32 \<Rightarrow> u32 \<Rightarrow> bool" where
  "same_encoding n v w \<longleftrightarrow> v AND NOT (ignored_bits n) = w AND NOT (ignored_bits n)"

lemma same_encoding_refl [simp]: "same_encoding n w w"
  by (simp add: same_encoding_def)

definition decodes_as :: "decoding_options \<Rightarrow> u32 \<Rightarrow> instruction \<Rightarrow> bool" where
  "decodes_as opt w i \<longleftrightarrow>
     i = illegal_instr \<or>
     canonical i \<and> supported_name opt (i_name i) \<and> same_encoding (i_name i) (rv_encode i) w"

lemma same_encoding_jalr:
  "get_opcode_bits w = op \<Longrightarrow>
    same_encoding Jalr
      (enc_I (sign_extend (IType_imm w) 12) (get_formal_rs1_bits w) f3 (get_rd_bits w) op) w"
  unfolding same_encoding_def
  by (hypsubst, rule u32_bits_eqI)
    (simp add: enc_defs field_bits bit_simps)

lemma same_encoding_R:
  "get_opcode_bits w = op \<Longrightarrow> funct3_bits w = f3 \<Longrightarrow> n \<in> {Slt, Sltu, Xor, Or, And} \<Longrightarrow>
    same_encoding n
      (enc_R f7 (get_formal_rs2_bits w) (get_formal_rs1_bits w) f3 (get_rd_bits w) op) w"
proof -
  assume *: "get_opcode_bits w = op" "funct3_bits w = f3" "n \<in> {Slt, Sltu, Xor, Or, And}"
  have "enc_R f7 (get_formal_rs2_bits w) (get_formal_rs1_bits w) (funct3_bits w) (get_rd_bits w)
      (get_opcode_bits w) AND NOT 0xfe000000 = w AND NOT 0xfe000000"
    by (rule u32_bits_eqI) (simp add: enc_defs field_bits bit_simps)
  then show ?thesis using * by (auto simp: same_encoding_def)
qed

lemma bit_mop_number:
  "bit (mop_number f) 0 \<longleftrightarrow> bit f 1 \<or> bit f 5" "bit (mop_number f) 1 \<longleftrightarrow> bit f 2"
  by (simp_all add: mop_number_def bit_simps numeral_2_eq_2)

lemma mop_word_bits:
  assumes "funct7_bits w AND 65 = 65" "mop_number (funct7_bits w) = k"
  shows "bit w 25" "bit w 31" "bit k 0 \<longleftrightarrow> bit w 26 \<or> bit w 30" "bit k 1 \<longleftrightarrow> bit w 27"
proof -
  have "bit (funct7_bits w AND 65) 0" "bit (funct7_bits w AND 65) 6"
    unfolding assms(1) by simp_all
  then show "bit w 25" "bit w 31" by (simp_all add: bit_and_iff field_bits)
  show "bit k 0 \<longleftrightarrow> bit w 26 \<or> bit w 30" "bit k 1 \<longleftrightarrow> bit w 27"
    unfolding assms(2) [symmetric] bit_mop_number by (simp_all add: field_bits)
qed

lemma same_encoding_mop:
  assumes "get_opcode_bits w = op" "funct3_bits w = f3" "funct7_bits w AND 65 = 65"
  shows "mop_number (funct7_bits w) = 0 \<Longrightarrow> same_encoding ZimopAdd
      (enc_R 65 (get_formal_rs2_bits w) (get_formal_rs1_bits w) f3 (get_rd_bits w) op) w"
    "mop_number (funct7_bits w) = 1 \<Longrightarrow> same_encoding ZimopSub
      (enc_R 67 (get_formal_rs2_bits w) (get_formal_rs1_bits w) f3 (get_rd_bits w) op) w"
    "mop_number (funct7_bits w) = 2 \<Longrightarrow> same_encoding ZimopMul
      (enc_R 69 (get_formal_rs2_bits w) (get_formal_rs1_bits w) f3 (get_rd_bits w) op) w"
  unfolding same_encoding_def assms(1,2) [symmetric]
  by (rule u32_bits_eqI, frule mop_word_bits(1) [OF assms(3)], frule mop_word_bits(2) [OF assms(3)],
      frule mop_word_bits(3) [OF assms(3)], drule mop_word_bits(4) [OF assms(3)],
      simp add: enc_defs field_bits bit_simps)+

lemmas accept_defs = decodes_as_def canonical_def supported_name_def rv_encode_def Let_def

lemma decode_branch_accepts:
  "decode_branch w = Inr i \<Longrightarrow> get_opcode_bits w = OPCODE_BRANCH \<Longrightarrow> decodes_as opt w i"
  by (auto simp: decode_branch_def accept_defs opcode_defs field_ranges enc_of_fields enc_I_of_fields
      same_encoding_R same_encoding_jalr same_encoding_mop)

lemma decode_op_imm_accepts:
  "decode_op_imm w = Inr i \<Longrightarrow> get_opcode_bits w = OP_IMM_SUBMASK \<Longrightarrow> decodes_as opt w i"
  by (auto simp: decode_op_imm_def accept_defs opcode_defs funct7_defs field_ranges enc_of_fields enc_I_of_fields
      same_encoding_R same_encoding_jalr same_encoding_mop
      split: if_splits)

lemma decode_op_accepts:
  "decode_op opt w = Inr i \<Longrightarrow> get_opcode_bits w = OP_SUBMASK \<Longrightarrow> decodes_as opt w i"
  by (auto simp: decode_op_def decode_m_ext_def decode_basic_op_def supported_def accept_defs
      opcode_defs funct7_defs field_ranges enc_of_fields enc_I_of_fields
      same_encoding_R same_encoding_jalr same_encoding_mop split: if_splits)

lemma decode_load_accepts:
  "decode_load opt w = Inr i \<Longrightarrow> get_opcode_bits w = OPCODE_LOAD \<Longrightarrow> decodes_as opt w i"
  by (auto simp: decode_load_def supported_def accept_defs opcode_defs field_ranges enc_of_fields enc_I_of_fields
      same_encoding_R same_encoding_jalr same_encoding_mop
      split: if_splits)

lemma decode_store_accepts:
  "decode_store opt w = Inr i \<Longrightarrow> get_opcode_bits w = OPCODE_STORE \<Longrightarrow> decodes_as opt w i"
  by (auto simp: decode_store_def supported_def accept_defs opcode_defs field_ranges enc_of_fields enc_I_of_fields
      same_encoding_R same_encoding_jalr same_encoding_mop
      split: if_splits)

lemma decode_system_accepts:
  "decode_system opt w = Inr (Single i) \<Longrightarrow> get_opcode_bits w = OPCODE_SYSTEM \<Longrightarrow>
     decodes_as opt w i"
  by (auto simp: decode_system_def decode_mop_def decode_csr_def single_def supported_def
      accept_defs opcode_defs csr_defs field_ranges enc_of_fields enc_I_of_fields
      same_encoding_R same_encoding_jalr same_encoding_mop split: if_splits)

lemma decode_opcode_accepts:
  assumes "decode_opcode opt w = Inr (Single i)"
  shows "decodes_as opt w i"
  using assms
  by (auto simp: decode_opcode_def Let_def single_def
      intro: decode_branch_accepts decode_op_imm_accepts decode_op_accepts decode_load_accepts
        decode_store_accepts decode_system_accepts split: if_splits)
    (auto simp: accept_defs opcode_defs field_ranges enc_of_fields enc_I_of_fields
      same_encoding_R same_encoding_jalr same_encoding_mop)

end
