(* ===== verification/IR_Properties.thy ===== *)
theory IR_Properties
  imports IR_Roundtrip
begin

text \<open>
  The properties of the bytecode preprocessor: the two round trips between the decoder and the
  RISC-V encoding tables, the shape of the instruction list it produces slot by slot, the round
  trip of whole programs, and what each decoder configuration can emit.
\<close>

section \<open>The loop, slot by slot\<close>

text \<open>
  \<open>slot_from opt code i j\<close>: the loop, standing at word \<open>i\<close>, comes to stand at word \<open>j\<close>.  The words
  of a batch of delegation calls after its first are skipped.
\<close>

inductive slot_from :: "decoding_options \<Rightarrow> u32 list \<Rightarrow> nat \<Rightarrow> nat \<Rightarrow> bool"
  for opt code where
  here: "slot_from opt code i i"
| there: "i < length code \<Longrightarrow> decode_at opt code i = Inr (instr, n) \<Longrightarrow>
    slot_from opt code (i + n) j \<Longrightarrow> slot_from opt code i j"

inductive_cases slot_fromE: "slot_from opt code i j"

lemma slot_from_le: "slot_from opt code i j \<Longrightarrow> i \<le> j"
  by (induction rule: slot_from.induct) auto

lemma slot_from_step:
  "i < length code \<Longrightarrow> decode_at opt code i = Inr (instr, n) \<Longrightarrow>
    slot_from opt code i j \<longleftrightarrow> j = i \<or> slot_from opt code (i + n) j"
  by (auto elim: slot_fromE intro: slot_from.intros)

lemma slot_from_end: "length code \<le> i \<Longrightarrow> slot_from opt code i j \<longleftrightarrow> j = i"
  by (auto elim: slot_fromE intro: slot_from.intros)

lemma preprocess_loop_slots:
  assumes "preprocess_loop opt code i acc = Inr res" "length acc = length code"
  shows "length res = length code \<and>
    (\<forall>j < length code. if slot_from opt code i j then \<exists>n. decode_at opt code j = Inr (res ! j, n)
       else res ! j = acc ! j)"
  using assms
proof (induction opt code i acc rule: preprocess_loop.induct)
  case (1 opt code i acc)
  show ?case
  proof (cases "i < length code")
    case True
    then obtain instr n where d: "decode_at opt code i = Inr (instr, n)"
      and loop: "preprocess_loop opt code (i + n) (acc[i := instr]) = Inr res"
      using "1.prems"(1) by (subst (asm) preprocess_loop.simps) auto
    have IH: "length res = length code \<and>
      (\<forall>j < length code. if slot_from opt code (i + n) j
         then \<exists>n. decode_at opt code j = Inr (res ! j, n) else res ! j = acc[i := instr] ! j)"
      using "1.IH" [OF True d refl loop] "1.prems"(2) by simp
    have "\<not> slot_from opt code (i + n) i"
      using slot_from_le decode_at_advances [OF d] by fastforce
    then show ?thesis
      using IH True d "1.prems"(2) by (auto simp: slot_from_step [OF True d] split: if_splits)
  next
    case False
    then show ?thesis
      using "1.prems" by (subst (asm) preprocess_loop.simps) (auto simp: slot_from_end)
  qed
qed

lemma preprocess_slots:
  assumes "preprocess_bytecode opt code = Inr instrs"
  shows "length instrs = length code \<and>
    (\<forall>j < length code. if slot_from opt code 0 j then \<exists>n. decode_at opt code j = Inr (instrs ! j, n)
       else instrs ! j = illegal_instr)"
  using preprocess_loop_slots [OF assms [unfolded preprocess_bytecode_def]]
  by (auto split: if_splits)

lemma decode_at_kinds:
  assumes "decode_at opt code j = Inr (instr, n)"
  shows "decodes_as opt (code ! j) instr \<or>
    instr = from_imm ZicsrDelegation 0 0 0 (delegation_code Blake) \<or>
    instr = from_imm ZicsrDelegation 0 0 0 (delegation_code Keccak)"
  using assms unfolding decode_at_def bindE_eq_Inr
  by (elim exE conjE, rename_tac opcode d, case_tac d)
    (auto simp: index_eq_Inr dest: decode_opcode_accepts)

lemma preprocess_loop_encoded:
  assumes "\<forall>i \<in> set instrs. canonical i \<and> supported_name opt (i_name i)"
    "k \<le> length instrs" "length acc = length instrs" "take k acc = take k instrs"
  shows "preprocess_loop opt (map rv_encode instrs) k acc = Inr instrs"
  using assms
proof (induction "length instrs - k" arbitrary: k acc)
  case 0
  then show ?case by (subst preprocess_loop.simps) simp
next
  case (Suc m)
  then have k: "k < length instrs" by simp
  have "decode_at opt (map rv_encode instrs) k = Inr (instrs ! k, 1)"
    using k Suc.prems(1) by (simp add: decode_at_def index_def decode_encode)
  moreover have "take (k + 1) (acc[k := instrs ! k]) = take (k + 1) instrs"
    using k Suc.prems(3,4) by (simp add: take_Suc_conv_app_nth)
  ultimately show ?case
    using Suc.hyps(1) [of "k + 1" "acc[k := instrs ! k]"] Suc.hyps(2) Suc.prems k
    by (subst preprocess_loop.simps) simp
qed

section \<open>Properties\<close>

text \<open>
  C1: the decoder inverts the RISC-V encoding: for every supported instruction with operands its
  format can carry (registers below 32, a representable immediate), decoding the word the manual
  assigns to it gives back exactly that instruction.
\<close>

theorem decode_inverts_encoding:
  assumes "canonical i" "supported_name opt (i_name i)"
  shows "decode_opcode opt (rv_encode i) = Inr (Single i)"
  using assms by (rule decode_encode)

theorem decode_inverts_encoding_witness:
  "decode_opcode ReducedMachineDecoderConfig (rv_encode (from_imm Jal 0 0 1 0xfffffff8)) =
     Inr (Single (from_imm Jal 0 0 1 0xfffffff8))"
  by (rule decode_inverts_encoding)
    (simp_all add: canonical_def supported_name_def Let_def signed_take_bit_eq_if_negative
      bit_simps mask_eq_exp_minus_1)

text \<open>
  C2: conversely, whatever single instruction the decoder yields for a word is either the illegal
  instruction, or a canonical and supported one whose encoding in the manual is that word, up to
  the bits listed by \<open>ignored_bits\<close>: no word is taken for an instruction it does not encode.
\<close>

theorem decode_accepts_encodings_only:
  assumes "decode_opcode opt w = Inr (Single i)"
  shows "i = illegal_instr \<or>
    canonical i \<and> supported_name opt (i_name i) \<and>
    rv_encode i AND NOT (ignored_bits (i_name i)) = w AND NOT (ignored_bits (i_name i))"
  using decode_opcode_accepts [OF assms] by (simp add: decodes_as_def same_encoding_def)

theorem decode_accepts_encodings_only_witness:
  "(let i = from_imm Lw 2 0 10 4 in canonical i \<and> rv_encode i = 0x00412503)"
proof -
  have "decode_opcode ReducedMachineDecoderConfig 0x00412503 = Inr (Single (from_imm Lw 2 0 10 4))"
    by code_simp
  from decode_accepts_encodings_only [OF this] show ?thesis
    by (simp add: illegal_instr_def from_imm_def Let_def)
qed

text \<open>
  C3: the preprocessor returns one instruction per word of the bytecode: where its loop stands,
  the decoding of the word (or of the batch of delegation calls starting there); in the words of a
  batch that the loop skips, the illegal instruction.
\<close>

theorem preprocess_fills_slots:
  assumes "preprocess_bytecode opt code = Inr instrs"
  shows "length instrs = length code \<and>
    (\<forall>j < length code. if slot_from opt code 0 j then \<exists>n. decode_at opt code j = Inr (instrs ! j, n)
       else instrs ! j = illegal_instr)"
  using assms by (rule preprocess_slots)

theorem preprocess_fills_slots_witness:
  "(let code = replicate 7 0x7c701073 @ [0x00412503 :: u32];
        call = from_imm ZicsrDelegation 0 0 0 0; load = from_imm Lw 2 0 10 4
    in preprocess_bytecode ReducedMachineDecoderConfig code =
         Inr (call # replicate 6 illegal_instr @ [load]) \<and>
       length (call # replicate 6 illegal_instr @ [load]) = length code)"
proof -
  have p: "preprocess_bytecode ReducedMachineDecoderConfig
      (replicate 7 0x7c701073 @ [0x00412503]) =
    Inr (from_imm ZicsrDelegation 0 0 0 0 # replicate 6 illegal_instr @ [from_imm Lw 2 0 10 4])"
    by code_simp
  with preprocess_fills_slots [OF p] show ?thesis by (simp add: Let_def)
qed

text \<open>
  C4: a program assembled from supported instructions is preprocessed back into the same list of
  instructions.
\<close>

theorem preprocess_inverts_assembly:
  assumes "\<forall>i \<in> set instrs. canonical i \<and> supported_name opt (i_name i)"
  shows "preprocess_bytecode opt (map rv_encode instrs) = Inr instrs"
  unfolding preprocess_bytecode_def by (rule preprocess_loop_encoded) (use assms in simp_all)

theorem preprocess_inverts_assembly_witness:
  "preprocess_bytecode FullUnsignedMachineDecoderConfig
     (map rv_encode [from_imm Addi 0 0 5 7, from_imm Divu 5 6 7 0]) =
   Inr [from_imm Addi 0 0 5 7, from_imm Divu 5 6 7 0]"
  by (rule preprocess_inverts_assembly)
    (simp add: canonical_def supported_name_def FullUnsignedMachineDecoderConfig_def Let_def
      signed_take_bit_def bit_simps mask_eq_exp_minus_1)



section \<open>Words the decoder takes for something else\<close>

text \<open>
  C6: the bits of the number of a may-be-operation are folded wrongly: its third bit lands on its
  first, so \<open>mop.rr.4\<close> executes as the field subtraction \<open>mop.rr.1\<close>.  And \<open>andn\<close>, \<open>orn\<close> and \<open>xnor\<close> of
  the bit manipulation extension, which no configuration supports, are executed as \<open>and\<close>, \<open>or\<close> and
  \<open>xor\<close>, since \<open>funct7\<close> is not checked there.
\<close>

theorem decoder_takes_foreign_words:
  "decode_opcode ReducedMachineDecoderConfig (enc_R 0x61 rs2 rs1 4 rd 0x73) =
     Inr (Single (from_imm ZimopSub (take_bit 5 rs1) (take_bit 5 rs2) (take_bit 5 rd) 0)) \<and>
   decode_opcode opt (enc_R 0x20 rs2 rs1 7 rd 0x33) =
     Inr (Single (from_imm And (take_bit 5 rs1) (take_bit 5 rs2) (take_bit 5 rd) 0)) \<and>
   decode_opcode opt (enc_R 0x20 rs2 rs1 6 rd 0x33) =
     Inr (Single (from_imm Or (take_bit 5 rs1) (take_bit 5 rs2) (take_bit 5 rd) 0)) \<and>
   decode_opcode opt (enc_R 0x20 rs2 rs1 4 rd 0x33) =
     Inr (Single (from_imm Xor (take_bit 5 rs1) (take_bit 5 rs2) (take_bit 5 rd) 0))"
  by (simp add: decode_defs opcode_defs funct7_defs ReducedMachineDecoderConfig_def Let_def
      mop_number_def)

end
