(* ===== verification/Mersenne31.thy ===== *)
theory Mersenne31
  imports Prelude
begin

text \<open>
  The base field of order \<open>2\<^sup>3\<^sup>1 - 1\<close> (\<open>field/src/base.rs\<close> and the portable routines of
  \<open>field/src/ops.rs\<close>, in the configuration without hardware division, where zero has the two
  representations 0 and \<open>ORDER\<close>).  An element is the word the source's newtype wraps; \<open>fval\<close> is the
  residue it stands for, and \<open>canon31\<close> the range every operation keeps it in.  Operations that can
  overflow on arguments outside that range return a result.
\<close>

section \<open>Definitions\<close>

definition ORDER :: u32 where "ORDER = push_bit 31 1 - 1"
definition MSBITMASK :: u32 where "MSBITMASK = push_bit 31 1"

definition sub_u32 :: "u32 \<Rightarrow> u32 \<Rightarrow> u32 res" where
  "sub_u32 a b = (if b \<le> a then Inr (a - b) else Inl ArithOverflow)"

text \<open>\<open>ops.rs\<close>: the sums that the source checks for overflow are below \<open>2\<^sup>3\<^sup>1\<close> once their top bit
  is cleared.\<close>

definition add_mod :: "u32 \<Rightarrow> u32 \<Rightarrow> u32" where
  "add_mod a b =
     (let sum = a + b; msb = sum AND push_bit 31 1; sum = sum XOR msb
      in sum + (if msb \<noteq> 0 then 1 else 0))"

definition sub_mod :: "u32 \<Rightarrow> u32 \<Rightarrow> u32 res" where
  "sub_mod a b =
     (let sum = a - b; msb = sum AND push_bit 31 1; sum = sum XOR msb
      in sub_u32 sum (if msb \<noteq> 0 then 1 else 0))"

definition mul_mod :: "u32 \<Rightarrow> u32 \<Rightarrow> u32" where
  "mul_mod a b =
     (let product = (ucast a :: u64) * ucast b;
          product_low = ucast product AND (push_bit 31 1 - 1);
          product_high = ucast (drop_bit 31 product)
      in add_mod product_low product_high)"

definition fma_mod :: "u32 \<Rightarrow> u32 \<Rightarrow> u32 \<Rightarrow> u32" where
  "fma_mod a b c =
     (let product = (ucast a :: u64) * ucast b + ucast c;
          product_low = ucast product AND (push_bit 31 1 - 1);
          product_high = ucast (drop_bit 31 product)
      in add_mod product_low product_high)"

text \<open>\<open>base.rs\<close>\<close>

definition m31_new :: "u32 \<Rightarrow> u32 res" where
  "m31_new value = bindE (guardE (drop_bit 31 value = 0) DebugAssertFailed) (\<lambda>_. Inr value)"

definition to_reduced_u32 :: "u32 \<Rightarrow> u32" where
  "to_reduced_u32 a = (if a = ORDER then 0 else a)"

definition from_nonreduced_u32 :: "u32 \<Rightarrow> u32 res" where
  "from_nonreduced_u32 c =
     (let c = (if ORDER \<le> c then c - ORDER else c);
          c = (if ORDER \<le> c then c - ORDER else c)
      in m31_new c)"

definition mul_2exp_u64 :: "u32 \<Rightarrow> u64 \<Rightarrow> u32 res" where
  "mul_2exp_u64 a exp =
     (let exp = unat (exp mod 31);
          left = push_bit exp a AND (push_bit 31 1 - 1);
          right = drop_bit (31 - exp) a
      in m31_new (left OR right))"

definition div_2exp_u64 :: "u32 \<Rightarrow> u64 \<Rightarrow> u32 res" where
  "div_2exp_u64 a exp =
     (let exp = unat (exp mod 31);
          left = drop_bit exp a;
          right = push_bit (31 - exp) a AND (push_bit 31 1 - 1)
      in m31_new (left OR right))"

definition from_negative_u64_with_reduction :: "u64 \<Rightarrow> u32 res" where
  "from_negative_u64_with_reduction x =
     (let x_low = ucast x AND (push_bit 31 1 - 1);
          x_high = ucast (drop_bit 31 x) AND (push_bit 31 1 - 1);
          x_sign = ucast (drop_bit 63 x)
      in bindE (sub_u32 (x_low + x_high) x_sign) (\<lambda>res_wrapped.
         let msb = res_wrapped AND push_bit 31 1; sum = res_wrapped XOR msb;
             res = sum + (if msb \<noteq> 0 then 1 else 0)
         in Inr (if ORDER \<le> res then res - ORDER else res)))"

definition from_u62 :: "u64 \<Rightarrow> u32" where
  "from_u62 x =
     (let product_low = ucast x AND (push_bit 31 1 - 1);
          product_high = ucast (drop_bit 31 x)
      in add_mod product_low product_high)"

definition m31_eq :: "u32 \<Rightarrow> u32 \<Rightarrow> bool" where
  "m31_eq a b \<longleftrightarrow> to_reduced_u32 a = to_reduced_u32 b"

definition is_zero_impl :: "u32 \<Rightarrow> bool" where
  "is_zero_impl a \<longleftrightarrow> a = 0 \<or> a = ORDER"

definition is_one_impl :: "u32 \<Rightarrow> bool" where
  "is_one_impl a \<longleftrightarrow> a = 1"

definition add_assign_impl :: "u32 \<Rightarrow> u32 \<Rightarrow> u32" where "add_assign_impl a b = add_mod a b"
definition sub_assign_impl :: "u32 \<Rightarrow> u32 \<Rightarrow> u32 res" where "sub_assign_impl a b = sub_mod a b"
definition mul_assign_impl :: "u32 \<Rightarrow> u32 \<Rightarrow> u32" where "mul_assign_impl a b = mul_mod a b"
definition square_impl :: "u32 \<Rightarrow> u32" where "square_impl a = mul_assign_impl a a"

fun exp_power_of_2_impl :: "u32 \<Rightarrow> nat \<Rightarrow> u32" where
  "exp_power_of_2_impl a 0 = a"
| "exp_power_of_2_impl a (Suc power_log) = exp_power_of_2_impl (square_impl a) power_log"

definition negate_impl :: "u32 \<Rightarrow> u32 res" where
  "negate_impl a = sub_u32 ORDER a"

definition double_impl :: "u32 \<Rightarrow> u32" where
  "double_impl a =
     (let sum = push_bit 1 a; msb = sum AND MSBITMASK; sum = sum XOR msb
      in sum + (if msb \<noteq> 0 then 1 else 0))"

definition mul_by_non_residue_impl :: "u32 \<Rightarrow> u32 res" where
  "mul_by_non_residue_impl a = negate_impl a"

definition fused_mul_add_assign :: "u32 \<Rightarrow> u32 \<Rightarrow> u32 \<Rightarrow> u32" where
  "fused_mul_add_assign self a b = fma_mod self a b"

definition add_assign_product :: "u32 \<Rightarrow> u32 \<Rightarrow> u32 \<Rightarrow> u32" where
  "add_assign_product self a b = fma_mod a b self"

definition mul_by_two :: "u32 \<Rightarrow> u32 res" where "mul_by_two a = mul_2exp_u64 a 1"
definition div_by_two :: "u32 \<Rightarrow> u32 res" where "div_by_two a = div_2exp_u64 a 1"

definition inverse_impl :: "u32 \<Rightarrow> u32 option" where
  "inverse_impl a =
     (if is_zero_impl a then None
      else
        let p101 = mul_assign_impl (exp_power_of_2_impl a 2) a;
            p1111 = mul_assign_impl (square_impl p101) p101;
            p11111111 = mul_assign_impl (exp_power_of_2_impl p1111 4) p1111;
            p111111110000 = exp_power_of_2_impl p11111111 4;
            p111111111111 = mul_assign_impl p111111110000 p1111;
            p1111111111111111 = mul_assign_impl (exp_power_of_2_impl p111111110000 4) p11111111;
            p1111111111111111111111111111 =
              mul_assign_impl (exp_power_of_2_impl p1111111111111111 12) p111111111111
        in Some (mul_assign_impl (exp_power_of_2_impl p1111111111111111111111111111 3) p101))"

definition m31_sqrt :: "u32 \<Rightarrow> u32 option" where
  "m31_sqrt a =
     (let candidate = exp_power_of_2_impl a 29; t = square_impl candidate
      in if m31_eq t a then Some candidate else None)"

definition m31_from_u64 :: "u64 \<Rightarrow> u32 option" where
  "m31_from_u64 value = (if ORDER \<le> ucast value then None else Some (ucast value))"

definition m31_from_u64_with_reduction :: "u64 \<Rightarrow> u32" where
  "m31_from_u64_with_reduction value = ucast (value mod ucast ORDER)"

section \<open>Arithmetic\<close>

abbreviation P :: nat where "P \<equiv> 2147483647"

definition fval :: "u32 \<Rightarrow> nat" where "fval a = unat a mod P"
definition canon31 :: "u32 \<Rightarrow> bool" where "canon31 a \<longleftrightarrow> unat a \<le> P"

lemma unat_ORDER [simp]: "unat ORDER = P"
  by (simp add: ORDER_def)

lemma ORDER_eq: "ORDER = 2147483647"
  by (simp add: ORDER_def)

lemma unat_take_bit: "unat (take_bit n (w :: 'a::len word)) = unat w mod 2 ^ n"
  unfolding unsigned_take_bit_eq by (rule take_bit_eq_mod)

lemma clear_msb:
  fixes w :: u32
  shows "w AND push_bit 31 1 \<noteq> 0 \<longleftrightarrow> 2 ^ 31 \<le> unat w"
    and "w XOR (w AND push_bit 31 1) = take_bit 31 w"
    and "unat (w XOR (w AND push_bit 31 1)) = unat w mod 2 ^ 31"
proof -
  have b: "w AND push_bit 31 1 \<noteq> 0 \<longleftrightarrow> bit w 31"
    unfolding push_bit_of_1 by (simp only: and_exp_eq_0_iff_not_bit not_not)
  have "bit w 31 \<longleftrightarrow> odd (unat w div 2 ^ 31)"
  proof -
    have "bit (unat w) 31 \<longleftrightarrow> bit w 31" by (simp add: bit_unsigned_iff)
    then show ?thesis by (simp only: bit_iff_odd)
  qed
  moreover have "unat w < 2 ^ 32" using unsigned_less [of w] by simp
  then have "unat w div 2 ^ 31 < 2" by (simp add: div_less_iff_less_mult)
  ultimately show "w AND push_bit 31 1 \<noteq> 0 \<longleftrightarrow> 2 ^ 31 \<le> unat w"
    using b by (auto simp: less_2_cases_iff)
  show t: "w XOR (w AND push_bit 31 1) = take_bit 31 w"
    by (rule bit_word_eqI)
      (auto simp only: bit_xor_iff bit_and_iff bit_push_bit_iff bit_take_bit_iff bit_1_iff, simp_all)
  show "unat (w XOR (w AND push_bit 31 1)) = unat w mod 2 ^ 31"
    unfolding t by (rule unat_take_bit)
qed

lemma clear_msb_literal:
  fixes w :: u32
  shows "w AND 2147483648 \<noteq> 0 \<longleftrightarrow> 2 ^ 31 \<le> unat w"
    and "unat (w XOR (w AND 2147483648)) = unat w mod 2 ^ 31"
  using clear_msb(1,3) [of w] by simp_all

lemma fold_mod:
  assumes "n < 2 ^ 32"
  shows "(n mod 2 ^ 31 + (if 2 ^ 31 \<le> n then 1 else 0)) mod P = n mod P"
proof (cases "2 ^ 31 \<le> n")
  case True
  then have "n mod 2 ^ 31 = n - 2 ^ 31" using assms by (simp add: mod_if)
  then have "n = (n mod 2 ^ 31 + 1) + P" using True by simp
  then show ?thesis using True mod_add_self2 [of "n mod 2 ^ 31 + 1" P] by simp
qed simp

lemma unat_add_mod:
  assumes "unat a + unat b < 2 ^ 32"
  shows "unat (add_mod a b) = (unat a + unat b) mod 2 ^ 31 + (if 2 ^ 31 \<le> unat a + unat b then 1 else 0)"
proof -
  have s: "unat (a + b) = unat a + unat b" using assms by (simp add: unat_word_ariths)
  have "(unat a + unat b) mod 2 ^ 31 + 1 < 2 ^ 32" 
    using mod_less_divisor [of "2 ^ 31" "unat a + unat b"] by simp
  then show ?thesis
    unfolding add_mod_def Let_def clear_msb(1) s
    using s by (auto simp: unat_word_ariths(1) clear_msb_literal)
qed

lemma fval_add_mod:
  assumes "unat a + unat b < 2 ^ 32"
  shows "fval (add_mod a b) = (unat a + unat b) mod P"
  using fold_mod [OF assms] by (simp add: fval_def unat_add_mod [OF assms])

lemma canon31_add_mod:
  assumes "unat a + unat b \<le> 2 * P"
  shows "canon31 (add_mod a b)"
proof -
  have "unat a + unat b < 2 ^ 32" using assms by simp
  moreover have "(unat a + unat b) mod 2 ^ 31 + 1 \<le> P" if "2 ^ 31 \<le> unat a + unat b"
    using that assms by (simp add: mod_if) linarith
  moreover have "(unat a + unat b) mod 2 ^ 31 \<le> P"
    using mod_less_divisor [of "2 ^ 31" "unat a + unat b"] by simp
  ultimately show ?thesis by (simp add: canon31_def unat_add_mod)
qed

lemma unat_sub_u32: "sub_u32 a b = Inr c \<longleftrightarrow> unat b \<le> unat a \<and> c = a - b"
  by (auto simp: sub_u32_def word_le_nat_alt)

lemma sub_mod_cases:
  "unat (a - b) < 2 ^ 31 \<Longrightarrow> sub_mod a b = Inr (a - b)"
  "2 ^ 31 \<le> unat (a - b) \<Longrightarrow> sub_mod a b = sub_u32 (take_bit 31 (a - b)) 1"
proof -
  show "sub_mod a b = Inr (a - b)" if *: "unat (a - b) < 2 ^ 31"
  proof -
    have "(a - b) AND push_bit 31 1 = 0" using clear_msb(1) [of "a - b"] * by simp
    then show ?thesis by (simp add: sub_mod_def sub_u32_def)
  qed
  show "sub_mod a b = sub_u32 (take_bit 31 (a - b)) 1" if "2 ^ 31 \<le> unat (a - b)"
    unfolding sub_mod_def Let_def clear_msb(2) using clear_msb(1) [of "a - b"] that by simp
qed

lemma sub_mod_ok:
  assumes "canon31 a" "canon31 b"
  shows "\<exists>c. sub_mod a b = Inr c \<and> canon31 c \<and> fval c = (unat a + P - unat b) mod P"
proof -
  have a: "unat a \<le> P" and b: "unat b \<le> P" using assms by (simp_all add: canon31_def)
  show ?thesis
  proof (cases "unat b \<le> unat a")
    case True
    then have u: "unat (a - b) = unat a - unat b" by (simp add: unat_sub word_le_nat_alt)
    then have "unat (a - b) < 2 ^ 31" using a by simp
    then have "sub_mod a b = Inr (a - b)" by (rule sub_mod_cases)
    moreover have "unat a + P - unat b = (unat a - unat b) + P" using True by simp
    then have "fval (a - b) = (unat a + P - unat b) mod P"
      unfolding fval_def u by (metis mod_add_self2)
    moreover have "canon31 (a - b)" unfolding canon31_def u using a by simp
    ultimately show ?thesis by blast
  next
    case False
    then have u: "unat (a - b) = 2 ^ 32 + unat a - unat b"
      by (simp add: unat_sub_if_size word_size)
    let ?w = "take_bit 31 (a - b)"
    have big: "2 ^ 31 \<le> unat (a - b)" using u b by simp
    have w: "unat ?w = 2 ^ 31 + unat a - unat b"
      unfolding unat_take_bit using u a b False by (simp add: mod_if)
    then have "sub_mod a b = Inr (?w - 1)"
      using sub_mod_cases(2) [OF big] b by (simp only: unat_sub_u32) simp
    moreover have "?w \<noteq> 0" using w b by (intro notI) (simp only: unat_0, simp)
    then have "unat (?w - 1) = unat ?w - 1" by (rule unat_minus_one)
    then have "unat (?w - 1) = P + unat a - unat b" unfolding w using b by simp
    then have "canon31 (?w - 1)" "fval (?w - 1) = (unat a + P - unat b) mod P"
      unfolding canon31_def fval_def using False by (simp_all only: add.commute)
    ultimately show ?thesis by blast
  qed
qed

text \<open>A product splits into its low 31 bits and the rest.\<close>

lemma product_halves:
  fixes x :: u64
  shows "unat (ucast x AND (push_bit 31 1 - 1) :: u32) = unat x mod 2 ^ 31"
    and "unat x < 2 ^ 63 \<Longrightarrow> unat (ucast (drop_bit 31 x) :: u32) = unat x div 2 ^ 31"
proof -
  have "(ucast x AND (push_bit 31 1 - 1) :: u32) = take_bit 31 (ucast x)"
    by (simp add: take_bit_eq_mask mask_eq_exp_minus_1)
  then have "(ucast x AND (push_bit 31 1 - 1) :: u32) = ucast (take_bit 31 x)"
    by (auto intro!: bit_word_eqI simp: bit_simps)
  then show "unat (ucast x AND (push_bit 31 1 - 1) :: u32) = unat x mod 2 ^ 31"
    by (simp only: unsigned_ucast_eq unsigned_take_bit_eq take_bit_take_bit) (simp add: take_bit_eq_mod)
  show "unat (ucast (drop_bit 31 x) :: u32) = unat x div 2 ^ 31" if "unat x < 2 ^ 63"
  proof -
    have "unat x div 2 ^ 31 < 2 ^ 32" using that by (simp add: div_less_iff_less_mult)
    then show ?thesis
      by (simp add: unsigned_ucast_eq unat_drop_bit take_bit_nat_eq_self)
  qed
qed

lemma mersenne_split: "(n mod 2 ^ 31 + n div 2 ^ 31) mod P = n mod P"
proof -
  have "n = n mod 2 ^ 31 + n div 2 ^ 31 + P * (n div 2 ^ 31)"
    using mod_div_mult_eq [of n "2 ^ 31"] by simp
  then show ?thesis by (metis mod_mult_self2)
qed

lemma add_halves:
  fixes x :: u64
  assumes "unat x \<le> P * 2 ^ 31"
  defines "r \<equiv> add_mod (ucast x AND (push_bit 31 1 - 1)) (ucast (drop_bit 31 x))"
  shows "canon31 r \<and> fval r = unat x mod P"
proof -
  have lo: "unat x mod 2 ^ 31 \<le> P" using mod_less_divisor [of "2 ^ 31" "unat x"] by simp
  have hi: "unat x div 2 ^ 31 \<le> P" using assms(1) div_le_mono [of "unat x" "P * 2 ^ 31" "2 ^ 31"] by simp
  have h: "unat (ucast (drop_bit 31 x) :: u32) = unat x div 2 ^ 31"
    using assms(1) by (intro product_halves(2)) simp
  show ?thesis
    unfolding r_def using canon31_add_mod fval_add_mod mersenne_split lo hi
    by (simp add: product_halves(1) h del: push_bit_of_1) 
qed

section \<open>The operations\<close>

lemma canon31_mult: "canon31 a \<Longrightarrow> canon31 b \<Longrightarrow> unat a * unat b \<le> P * P"
  using mult_le_mono [of "unat a" P "unat b" P] by (simp add: canon31_def)

lemma unat_ucast_u64 [simp]: "unat (ucast (a :: u32) :: u64) = unat a"
proof -
  have "unat a < 2 ^ 32" using unsigned_less [of a] by simp
  then have "unat a < 2 ^ 64" by simp
  then show ?thesis by (simp add: unsigned_ucast_eq take_bit_nat_eq_self)
qed

lemma unat_product:
  assumes "canon31 a" "canon31 b"
  shows "unat ((ucast a :: u64) * ucast b) = unat a * unat b"
proof -
  have "unat a * unat b < 2 ^ 64" using canon31_mult [OF assms] by simp
  then show ?thesis by (simp add: unat_word_ariths)
qed

lemma mul_mod_ok:
  assumes "canon31 a" "canon31 b"
  shows "canon31 (mul_mod a b) \<and> fval (mul_mod a b) = (unat a * unat b) mod P"
proof -
  have "unat ((ucast a :: u64) * ucast b) \<le> P * 2 ^ 31"
    unfolding unat_product [OF assms] using canon31_mult [OF assms] by simp
  from add_halves [OF this] show ?thesis
    by (simp only: mul_mod_def Let_def unat_product [OF assms])
qed

lemma fma_mod_ok:
  assumes "canon31 a" "canon31 b" "canon31 c"
  shows "canon31 (fma_mod a b c) \<and> fval (fma_mod a b c) = (unat a * unat b + unat c) mod P"
proof -
  have le: "unat a * unat b + unat c \<le> P * 2 ^ 31"
    using canon31_mult [OF assms(1,2)] assms(3) by (simp add: canon31_def)
  then have u: "unat ((ucast a :: u64) * ucast b + ucast c) = unat a * unat b + unat c"
    using unat_product [OF assms(1,2)]
    by (simp add: unat_word_ariths(1))
  from add_halves [of "(ucast a :: u64) * ucast b + ucast c"] le show ?thesis
    by (simp only: fma_mod_def Let_def u)
qed

lemma add_mod_ok:
  assumes "canon31 a" "canon31 b"
  shows "canon31 (add_mod a b) \<and> fval (add_mod a b) = (unat a + unat b) mod P"
  using assms canon31_add_mod [of a b] fval_add_mod [of a b] by (simp add: canon31_def)

lemma double_impl_ok:
  assumes "canon31 a"
  shows "canon31 (double_impl a) \<and> fval (double_impl a) = (2 * unat a) mod P"
proof -
  have "push_bit 1 a = a + a" by (simp add: push_bit_eq_mult)
  then have "double_impl a = add_mod a a"
    by (simp only: double_impl_def add_mod_def MSBITMASK_def)
  then show ?thesis using add_mod_ok [OF assms assms] by (simp add: mult_2)
qed

lemma negate_impl_ok:
  assumes "canon31 a"
  shows "\<exists>c. negate_impl a = Inr c \<and> canon31 c \<and> fval c = (P - unat a) mod P"
  using assms by (simp add: negate_impl_def unat_sub_u32 canon31_def fval_def unat_sub word_le_nat_alt)

lemma to_reduced_ok: "canon31 a \<Longrightarrow> unat (to_reduced_u32 a) = fval a"
  by (auto simp: to_reduced_u32_def canon31_def fval_def word_unat_eq_iff)

lemma from_nonreduced_ok:
  "\<exists>c. from_nonreduced_u32 a = Inr c \<and> canon31 c \<and> fval c = unat a mod P"
proof -
  define b where "b = (if ORDER \<le> a then a - ORDER else a)"
  define c where "c = (if ORDER \<le> b then b - ORDER else b)"
  have b: "unat b = (if P \<le> unat a then unat a - P else unat a)"
    by (simp add: b_def word_le_nat_alt unat_sub)
  have c: "unat c = (if P \<le> unat b then unat b - P else unat b)"
    by (simp add: c_def word_le_nat_alt unat_sub)
  have a: "unat a < 2 ^ 32" using unsigned_less [of a] by simp
  have "unat c < P" using a b c by (simp split: if_splits)
  moreover have "unat c mod P = unat a mod P"
    unfolding b c by (simp add: le_mod_geq)
  moreover have "drop_bit 31 c = 0" using \<open>unat c < P\<close>
    by (simp add: word_unat_eq_iff unat_drop_bit)
  ultimately show ?thesis
    unfolding from_nonreduced_u32_def Let_def b_def [symmetric] c_def [symmetric]
    by (simp add: m31_new_def canon31_def fval_def)
qed

section \<open>Powers\<close>

lemma fval_less [simp]: "fval a < P"
  by (simp add: fval_def)

lemma mul_assign_ok:
  assumes "canon31 a" "canon31 b"
  shows "canon31 (mul_assign_impl a b)" "fval (mul_assign_impl a b) = (fval a * fval b) mod P"
  using mul_mod_ok [OF assms] by (simp_all add: mul_assign_impl_def fval_def mod_mult_eq)

lemma square_ok:
  assumes "canon31 a"
  shows "canon31 (square_impl a)" "fval (square_impl a) = fval a ^ 2 mod P"
  using mul_assign_ok [OF assms assms] by (simp_all add: square_impl_def power2_eq_square)

lemma exp_power_of_2_ok:
  "canon31 a \<Longrightarrow> canon31 (exp_power_of_2_impl a k) \<and>
    fval (exp_power_of_2_impl a k) = fval a ^ (2 ^ k) mod P"
proof (induction k arbitrary: a)
  case 0
  then show ?case by (simp add: fval_def)
next
  case (Suc k)
  then show ?case
    using square_ok [OF Suc.prems] by (simp add: power_mod power_mult [symmetric])
qed

text \<open>The value of a chain of multiplications and repeated squarings, as a power of its start.\<close>

definition power_of :: "u32 \<Rightarrow> nat \<Rightarrow> u32 \<Rightarrow> bool" where
  "power_of a n b \<longleftrightarrow> canon31 b \<and> fval b = fval a ^ n mod P"

lemma power_of_self: "canon31 a \<Longrightarrow> power_of a 1 a"
  by (simp add: power_of_def)

lemma power_of_mul: "power_of a m b \<Longrightarrow> power_of a n c \<Longrightarrow> power_of a (m + n) (mul_assign_impl b c)"
  by (simp add: power_of_def mul_assign_ok power_add mod_mult_eq)

lemma power_of_exp: "power_of a m b \<Longrightarrow> power_of a (m * 2 ^ k) (exp_power_of_2_impl b k)"
  by (simp add: power_of_def exp_power_of_2_ok power_mod power_mult)

lemma power_of_square: "power_of a m b \<Longrightarrow> power_of a (m * 2) (square_impl b)"
  by (simp add: power_of_def square_ok power_mod power_mult)

lemma inverse_impl_power:
  assumes "canon31 a" "\<not> is_zero_impl a"
  shows "\<exists>b. inverse_impl a = Some b \<and> power_of a (P - 2) b"
proof -
  define p101 where "p101 = mul_assign_impl (exp_power_of_2_impl a 2) a"
  define p4 where "p4 = mul_assign_impl (square_impl p101) p101"
  define p8 where "p8 = mul_assign_impl (exp_power_of_2_impl p4 4) p4"
  define p80 where "p80 = exp_power_of_2_impl p8 4"
  define p12 where "p12 = mul_assign_impl p80 p4"
  define p16 where "p16 = mul_assign_impl (exp_power_of_2_impl p80 4) p8"
  define p28 where "p28 = mul_assign_impl (exp_power_of_2_impl p16 12) p12"
  note a = power_of_self [OF assms(1)]
  have 5: "power_of a 5 p101"
    using power_of_mul [OF power_of_exp [OF a, of 2] a] by (simp add: p101_def)
  have 15: "power_of a 15 p4"
    using power_of_mul [OF power_of_square [OF 5] 5] by (simp add: p4_def)
  have 255: "power_of a 255 p8"
    using power_of_mul [OF power_of_exp [OF 15, of 4] 15] by (simp add: p8_def)
  have 4080: "power_of a 4080 p80"
    using power_of_exp [OF 255, of 4] by (simp add: p80_def)
  have 4095: "power_of a 4095 p12"
    using power_of_mul [OF 4080 15] by (simp add: p12_def)
  have 65535: "power_of a 65535 p16"
    using power_of_mul [OF power_of_exp [OF 4080, of 4] 255] by (simp add: p16_def)
  have "power_of a 268435455 p28"
    using power_of_mul [OF power_of_exp [OF 65535, of 12] 4095] by (simp add: p28_def)
  then have "power_of a (P - 2) (mul_assign_impl (exp_power_of_2_impl p28 3) p101)"
    using power_of_mul [OF power_of_exp [of a 268435455 p28 3] 5] by simp
  moreover have "inverse_impl a = Some (mul_assign_impl (exp_power_of_2_impl p28 3) p101)"
    using assms(2) by (simp only: inverse_impl_def Let_def if_False p101_def p4_def p8_def p80_def
        p12_def p16_def p28_def)
  ultimately show ?thesis by blast
qed

section \<open>Rotations and reductions\<close>

lemma unat_or_disjoint:
  "(v :: u32) AND w = 0 \<Longrightarrow> unat (v OR w) = unat v + unat w"
proof -
  assume "v AND w = 0"
  then have "unat v AND unat w = 0" by (metis unsigned_and_eq unat_0)
  then show ?thesis by (simp add: unsigned_or_eq disjunctive_add_eq_or)
qed

lemma mul_2exp_ok:
  assumes "canon31 a"
  shows "\<exists>c. mul_2exp_u64 a e = Inr c \<and> canon31 c \<and> fval c = (unat a * 2 ^ (unat e mod 31)) mod P"
proof -
  define k where "k = unat (e mod 31)"
  have k: "k = unat e mod 31" "k < 31" by (simp_all add: k_def unat_mod)
  have a: "unat a < 2 ^ 31" using assms by (simp add: canon31_def)
  define l r where "l = take_bit 31 (push_bit k a)" and "r = drop_bit (31 - k) a"
  have ab: "bit a m \<Longrightarrow> m < 31" for m
  proof -
    have "take_bit 31 a = a"
      using a by (simp only: word_unat_eq_iff unat_take_bit) simp
    then show "bit a m \<Longrightarrow> m < 31" by (metis bit_take_bit_iff)
  qed
  have lr: "l AND r = 0"
    by (rule bit_word_eqI) (use k(2) in \<open>auto simp: l_def r_def bit_simps dest: ab\<close>)
  have "unat (word_of_nat (2 ^ k) :: u32) = 2 ^ k"
    using power_strict_increasing [of k 32 "2 :: nat"] k(2) by (intro word_of_nat_unat_less) simp
  then have "unat ((2 :: u32) ^ k) = 2 ^ k" by simp
  then have "unat l = (unat a * 2 ^ k) mod 2 ^ 31"
    unfolding l_def unat_take_bit push_bit_eq_mult unat_word_ariths
    by (simp add: mod_mod_cancel)
  moreover have "unat r = (unat a * 2 ^ k) div 2 ^ 31"
  proof -
    have e: "(2 :: nat) ^ 31 = 2 ^ (31 - k) * 2 ^ k" using k(2) by (simp flip: power_add)
    have "unat a * 2 ^ k div (2 ^ (31 - k) * 2 ^ k) = unat a div 2 ^ (31 - k)" by simp
    then show ?thesis by (simp only: r_def unat_drop_bit e)
  qed
  ultimately have u: "unat (l OR r) = (unat a * 2 ^ k) mod 2 ^ 31 + (unat a * 2 ^ k) div 2 ^ 31"
    using unat_or_disjoint [OF lr] by simp
  have t: "take_bit 31 (l OR r) = l OR r"
    by (rule bit_word_eqI) (use k(2) in \<open>auto simp: l_def r_def bit_simps dest: ab\<close>)
  then have lt: "unat (l OR r) < 2 ^ 31" using unat_take_bit [of 31 "l OR r"] by (metis mod_less_divisor zero_less_numeral zero_less_power)
  have "push_bit k a AND (push_bit 31 1 - 1) = l"
    by (simp add: l_def take_bit_eq_mask mask_eq_exp_minus_1)
  moreover have "drop_bit 31 (l OR r) = 0"
    using t by (simp only: take_bit_eq_self_iff_drop_bit_eq_0)
  ultimately have "mul_2exp_u64 a e = Inr (l OR r)"
    unfolding mul_2exp_u64_def Let_def k_def [symmetric] r_def [symmetric] by (simp add: m31_new_def)
  moreover have "fval (l OR r) = (unat a * 2 ^ k) mod P"
    unfolding fval_def u by (rule mersenne_split)
  ultimately show ?thesis using lt k(1) by (simp add: canon31_def)
qed

text \<open>A right rotation by \<open>k\<close> is the left rotation by \<open>31 - k\<close>.\<close>

lemma div_2exp_ok:
  assumes "canon31 a"
  shows "\<exists>c. div_2exp_u64 a e = Inr c \<and> canon31 c \<and> (fval c * 2 ^ (unat e mod 31)) mod P = fval a"
proof (cases "unat e mod 31 = 0")
  case True
  have "take_bit 31 a = a"
    using assms by (simp only: word_unat_eq_iff unat_take_bit canon31_def) simp
  then have "drop_bit 31 a = 0" by (simp only: take_bit_eq_self_iff_drop_bit_eq_0)
  moreover have "push_bit 31 a AND (push_bit 31 1 - 1) = 0"
  proof -
    have "push_bit 31 a AND (push_bit 31 1 - 1) = take_bit 31 (push_bit 31 a)"
      by (simp only: take_bit_eq_mask mask_eq_exp_minus_1 push_bit_of_1)
    then show ?thesis by (simp only: take_bit_push_bit) simp
  qed
  ultimately show ?thesis
    using assms True by (simp add: div_2exp_u64_def Let_def unat_mod m31_new_def fval_def del: push_bit_numeral)
next
  case False
  define k where "k = unat e mod 31"
  have k: "0 < k" "k < 31" using False by (simp_all add: k_def)
  define e' :: u64 where "e' = word_of_nat (31 - k)"
  have "unat e' = 31 - k"
    unfolding e'_def by (rule word_of_nat_unat_less) simp
  then have e': "unat (e' mod 31) = 31 - k" using k by (simp add: unat_mod)
  have "div_2exp_u64 a e = mul_2exp_u64 a e'"
    unfolding div_2exp_u64_def mul_2exp_u64_def Let_def e'
    using k by (simp add: unat_mod k_def [symmetric] or.commute)
  moreover obtain c where c: "mul_2exp_u64 a e' = Inr c" "canon31 c"
    "fval c = (unat a * 2 ^ (31 - k)) mod P"
    using mul_2exp_ok [OF assms, of e'] \<open>unat e' = 31 - k\<close> k by auto
  moreover have "(fval c * 2 ^ k) mod P = fval a"
  proof -
    have "(2 :: nat) ^ (31 - k) * 2 ^ k = 2 ^ 31" using k by (simp flip: power_add)
    then have "(fval c * 2 ^ k) mod P = (unat a * 2 ^ 31) mod P"
      unfolding c(3) by (simp add: mod_mult_left_eq mult.assoc)
    also have "\<dots> = unat a mod P" using mod_mult_self2 [of "unat a" "P" "unat a"] by (simp add: mult.commute)
    finally show ?thesis by (simp add: fval_def)
  qed
  ultimately show ?thesis by (simp add: k_def)
qed

text \<open>A 64-bit word read as a signed integer of absolute value below \<open>2\<^sup>6\<^sup>2\<close> is reduced to its residue.\<close>

lemma u64_fields:
  fixes x :: u64
  shows "unat (ucast x AND (push_bit 31 1 - 1) :: u32) = unat x mod 2 ^ 31"
    and "unat (ucast (drop_bit 31 x) AND (push_bit 31 1 - 1) :: u32) = unat x div 2 ^ 31 mod 2 ^ 31"
    and "unat (ucast (drop_bit 63 x) :: u32) = unat x div 2 ^ 63"
proof -
  have "unat x < 2 ^ 64" using unsigned_less [of x] by simp
  then have "unat x div 2 ^ 63 < 2 ^ 32" by (simp add: div_less_iff_less_mult)
  then show "unat (ucast (drop_bit 63 x) :: u32) = unat x div 2 ^ 63"
    by (simp add: unsigned_ucast_eq unat_drop_bit take_bit_nat_eq_self)
qed (use product_halves(1) [of x] product_halves(1) [of "drop_bit 31 x"] in
  \<open>simp_all add: unat_drop_bit\<close>)

lemma reduce_tail:
  fixes w :: u32
  assumes "unat w \<le> 2 * P"
  defines "res \<equiv> (w XOR (w AND push_bit 31 1)) + (if w AND push_bit 31 1 \<noteq> 0 then 1 else 0)"
  shows "unat (if ORDER \<le> res then res - ORDER else res) = unat w mod P"
proof -
  have m: "unat w mod 2 ^ 31 + (if 2 ^ 31 \<le> unat w then 1 else 0) \<le> P"
  proof (cases "2 ^ 31 \<le> unat w")
    case True
    then show ?thesis using assms(1) by (simp add: mod_if) linarith
  next
    case False
    then show ?thesis by simp
  qed
  have r: "unat res = unat w mod 2 ^ 31 + (if 2 ^ 31 \<le> unat w then 1 else 0)"
    unfolding res_def clear_msb(1) using m by (auto simp: unat_word_ariths(1) clear_msb_literal)
  then have "unat res mod P = unat w mod P"
    using fold_mod [of "unat w"] assms(1) by simp
  moreover have "unat res \<le> P" using m r by simp
  ultimately show ?thesis
    by (cases "unat res = P") (auto simp: word_le_nat_alt unat_sub)
qed

lemma from_negative_ok:
  fixes x :: u64
  shows "unat x < 2 ^ 62 \<Longrightarrow>
      \<exists>r. from_negative_u64_with_reduction x = Inr r \<and> unat r = unat x mod P"
    and "2 ^ 64 - 2 ^ 62 < unat x \<Longrightarrow>
      \<exists>r. from_negative_u64_with_reduction x = Inr r \<and> unat r < P \<and>
        (unat r + (2 ^ 64 - unat x)) mod P = 0"
proof -
  define l where "l = unat x mod 2 ^ 31"
  define h where "h = unat x div 2 ^ 31 mod 2 ^ 31"
  have lh: "l + h \<le> 2 * P"
    using mod_less_divisor [of "2 ^ 31" "unat x"] mod_less_divisor [of "2 ^ 31" "unat x div 2 ^ 31"]
    by (simp add: l_def h_def)
  define w :: u32 where
    "w = (ucast x AND (push_bit 31 1 - 1)) + (ucast (drop_bit 31 x) AND (push_bit 31 1 - 1))"
  have w: "unat w = l + h"
    unfolding w_def unat_word_ariths(1) u64_fields(1) unat_drop_bit l_def [symmetric] h_def [symmetric] using lh by simp
  have run: "from_negative_u64_with_reduction x = Inr r \<and> unat r = (l + h - s) mod P"
    if s: "s = unat x div 2 ^ 63" "s \<le> l + h"
      and r: "r = (let v = w - ucast (drop_bit 63 x); msb = v AND push_bit 31 1;
        res = (v XOR msb) + (if msb \<noteq> 0 then 1 else 0) in if ORDER \<le> res then res - ORDER else res)"
    for s r
  proof -
    have "unat (ucast (drop_bit 63 x) :: u32) = s" using s(1) by (simp only: u64_fields(3))
    then have v: "sub_u32 w (ucast (drop_bit 63 x)) = Inr (w - ucast (drop_bit 63 x))"
      "unat (w - ucast (drop_bit 63 x)) = l + h - s"
      using s(2) w by (simp_all only: unat_sub_u32 unat_sub word_le_nat_alt simp_thms)
    have "from_negative_u64_with_reduction x = Inr r"
      unfolding from_negative_u64_with_reduction_def Let_def w_def [symmetric] v(1) bindE_Inr r ..
    moreover have "unat r = (l + h - s) mod P"
      unfolding r Let_def using reduce_tail [of "w - ucast (drop_bit 63 x)"] lh by (simp only: v(2))
    ultimately show ?thesis by blast
  qed
  have x: "unat x = unat x div 2 ^ 62 * 2 ^ 62 + h * 2 ^ 31 + l"
  proof -
    define q where "q = unat x div 2 ^ 31"
    have "unat x = q * 2 ^ 31 + l" unfolding q_def l_def by simp
    moreover have "q = q div 2 ^ 31 * 2 ^ 31 + h"
      unfolding h_def q_def [symmetric] by (rule div_mult_mod_eq [symmetric])
    moreover have "q div 2 ^ 31 = unat x div 2 ^ 62" unfolding q_def by (simp flip: div_mult2_eq)
    ultimately show ?thesis by simp
  qed
  show "\<exists>r. from_negative_u64_with_reduction x = Inr r \<and> unat r = unat x mod P" if "unat x < 2 ^ 62"
  proof -
    have "unat x div 2 ^ 63 = 0" "unat x div 2 ^ 62 = 0" using that by simp_all
    moreover have "(h * 2 ^ 31 + l) mod P = (l + h) mod P"
      using mod_mult_self2 [of "l + h" P h] by (simp add: algebra_simps)
    ultimately show ?thesis using run [OF _ _ refl, of 0] x by auto
  qed
  show "\<exists>r. from_negative_u64_with_reduction x = Inr r \<and> unat r < P \<and>
      (unat r + (2 ^ 64 - unat x)) mod P = 0" if *: "2 ^ 64 - 2 ^ 62 < unat x"
  proof -
    have lt: "unat x < 2 ^ 64" using unsigned_less [of x] by simp
    have d: "unat x div 2 ^ 63 = 1" "unat x div 2 ^ 62 = 3"
      using * lt by (simp_all add: div_nat_eqI)
    then have pos: "1 \<le> l + h" using x * by (cases "l + h = 0") auto
    have "(l + h - 1) + (2 ^ 64 - unat x) + P * h = P * (2 ^ 31 + 1)"
      using x d(2) pos lt by simp
    then have "((l + h - 1) + (2 ^ 64 - unat x)) mod P = 0"
      by (metis mod_mult_self2 mod_mult_self1_is_0)
    then have "((l + h - 1) mod P + (2 ^ 64 - unat x)) mod P = 0" by (simp only: mod_add_left_eq)
    then show ?thesis using run [OF _ _ refl, of 1] d pos by auto
  qed
qed

end
