(* ===== verification/M31_Fermat.thy ===== *)
theory M31_Fermat
  imports Mersenne31
begin

text \<open>
  The multiplicative group of the residues modulo \<open>2\<^sup>3\<^sup>1 - 1\<close>, from first principles: 7 generates it
  (its powers at the exponents \<open>(P - 1) / q\<close>, \<open>q\<close> the prime divisors of \<open>P - 1\<close>, are not 1), so every
  residue but 0 is a power of 7 and its \<open>(P - 1)\<close>-st power is 1.  This is what makes the addition
  chain of \<open>inverse_impl\<close> an inverse.
\<close>

section \<open>Powers of 7\<close>

fun times7 :: "bool \<Rightarrow> nat \<Rightarrow> nat" where
  "times7 True s = s * 7 mod P"
| "times7 False s = s"

fun pow7 :: "bool list \<Rightarrow> nat \<Rightarrow> nat" where
  "pow7 [] acc = acc"
| "pow7 (b # bs) acc = pow7 bs (times7 b (acc * acc mod P))"

fun bits_val :: "bool list \<Rightarrow> nat \<Rightarrow> nat" where
  "bits_val [] n = n"
| "bits_val (b # bs) n = bits_val bs (2 * n + (if b then 1 else 0))"

lemma pow7_eq: "acc = 7 ^ n mod P \<Longrightarrow> pow7 bs acc = 7 ^ bits_val bs n mod P"
proof (induction bs arbitrary: acc n)
  case (Cons b bs)
  have s: "acc * acc mod P = 7 ^ (2 * n) mod P"
    unfolding Cons.prems by (simp add: mod_mult_eq mult_2 power_add)
  have "times7 b (acc * acc mod P) = 7 ^ (2 * n + (if b then 1 else 0)) mod P"
    unfolding s by (cases b) (simp_all add: mod_mult_left_eq mod_mult_right_eq mult.commute)
  from Cons.IH [OF this] show ?case by simp
qed simp

text \<open>The bits of an exponent, most significant first.\<close>

fun bits_of :: "nat \<Rightarrow> bool list \<Rightarrow> bool list" where
  "bits_of n bs = (if n = 0 then bs else bits_of (n div 2) (odd n # bs))"

declare bits_of.simps [simp del]

lemma bits_val_bits_of: "bits_val (bits_of n bs) 0 = bits_val bs n"
proof (induction n bs rule: bits_of.induct)
  case (1 n bs)
  then show ?case by (subst bits_of.simps) simp
qed

definition power7 :: "nat \<Rightarrow> nat" where "power7 n = pow7 (bits_of n []) 1"

lemma power7_eq: "power7 n = 7 ^ n mod P"
  using pow7_eq [of 1 0 "bits_of n []"] by (simp add: power7_def bits_val_bits_of)

text \<open>The order of the group, kept folded so that no power of this exponent is ever computed.\<close>

definition N :: nat where "N = P - 1"

lemma generator_power: "power7 2147483646 = 1"
  by (simp add: power7_def bits_of.simps)

lemma cofactor_powers:
  "power7 1073741823 \<noteq> 1" "power7 715827882 \<noteq> 1" "power7 306783378 \<noteq> 1" "power7 195225786 \<noteq> 1"
  "power7 69273666 \<noteq> 1" "power7 14221746 \<noteq> 1" "power7 6487866 \<noteq> 1"
  by (simp_all add: power7_def bits_of.simps)

lemma seven_order_divides: "(7 :: nat) ^ N mod P = 1"
proof -
  have "power7 N = 1" using generator_power by (simp add: N_def)
  then show ?thesis by (simp only: power7_eq)
qed

lemma seven_order_exact:
  assumes "q \<in> {2, 3, 7, 11, 31, 151, 331}"
  shows "(7 :: nat) ^ (N div q) mod P \<noteq> 1"
proof -
  have "power7 (N div q) \<noteq> 1" using assms cofactor_powers by (auto simp: N_def)
  then show ?thesis by (simp only: power7_eq not_False_eq_True)
qed

section \<open>The order of 7\<close>

lemma small_primes:
  "list_all (\<lambda>q. list_all (\<lambda>d. d < q \<longrightarrow> \<not> d dvd q) [2..<19]) [2, 3, 7, 11, 31, 151, 331 :: nat]"
  by (simp add: upt_rec_numeral)

lemma prime_factor:
  assumes "q \<in> {2, 3, 7, 11, 31, 151, 331}" "\<not> q dvd (m :: nat)"
  shows "coprime m q"
proof (rule ccontr)
  assume c: "\<not> coprime m q"
  have small: "\<not> d dvd q" if "2 \<le> d" "d < q" "d < 19" for d
  proof -
    have "d \<in> set [2..<19]" using that by (simp only: set_upt atLeastLessThan_iff simp_thms)
    moreover have "q \<in> set [2, 3, 7, 11, 31, 151, 331]" using assms(1) by simp
    ultimately show ?thesis using small_primes that(2) unfolding list_all_iff by blast
  qed
  define g where "g = gcd m q"
  obtain h where h: "q = g * h" using gcd_dvd2 [of m q] unfolding g_def by blast
  have "g \<noteq> 1" using c by (simp add: g_def coprime_iff_gcd_eq_1)
  moreover have "g \<noteq> q" using assms(2) by (metis g_def gcd_dvd1)
  moreover have "q \<noteq> 0" "q \<le> 331" using assms(1) by auto
  ultimately have gh: "2 \<le> g" "2 \<le> h" using h by (cases g; cases h; auto)+
  then have "g < q" "h < q" using h by simp_all
  moreover have "g < 19 \<or> h < 19"
    using mult_le_mono [of 19 g 19 h] \<open>q \<le> 331\<close> h by linarith
  ultimately show False using small gh h by (metis dvd_triv_left dvd_triv_right)
qed

lemma divisor_has_factor:
  assumes "m dvd N" "m \<noteq> 1"
  shows "\<exists>q \<in> {2, 3, 7, 11, 31, 151, 331}. q dvd m"
proof (rule ccontr)
  assume "\<not> ?thesis"
  then have "coprime m q" if "q \<in> {2, 3, 7, 11, 31, 151, 331}" for q
    using prime_factor that by blast
  then have "coprime m 2" "coprime m 3" "coprime m 7" "coprime m 11" "coprime m 31"
    "coprime m 151" "coprime m 331"
    by blast+
  then have "coprime m (2 * 3 * 3 * 7 * 11 * 31 * 151 * 331)"
    by (simp only: coprime_mult_right_iff simp_thms)
  then have "coprime m N" by (simp add: N_def)
  then show False using assms by (metis coprime_common_divisor_nat dvd_refl)
qed

lemma seven_no_smaller_order:
  assumes "0 < k" "k < N"
  shows "(7 :: nat) ^ k mod P \<noteq> 1"
proof
  assume k: "(7 :: nat) ^ k mod P = 1"
  define d where "d = gcd k N"
  obtain x y where xy: "k * x = N * y + d"
    using bezout_nat [of k N] assms(1) unfolding d_def by auto
  have "(7 :: nat) ^ (k * x) mod P = 1"
    using k power_mod [of "7 ^ k" P x] by (simp add: power_mult)
  moreover have "(7 :: nat) ^ (N * y) mod P = 1"
    using seven_order_divides power_mod [of "7 ^ N" P y] by (simp only: power_mult) simp
  ultimately have d1: "(7 :: nat) ^ d mod P = 1"
    unfolding xy power_add by (metis mod_mult_left_eq mult_1)
  have "d dvd N" by (simp add: d_def)
  then obtain m where m: "N = d * m" by blast
  have "d \<le> k" using assms(1) gcd_le1_nat by (simp add: d_def)
  then have "m \<noteq> 1" using m assms(2) by auto
  moreover have "m dvd N" unfolding m by simp
  ultimately obtain q where q: "q \<in> {2, 3, 7, 11, 31, 151, 331}" "q dvd m"
    using divisor_has_factor by blast
  then obtain r where r: "m = q * r" by blast
  have "N div q = d * r" using q(1) m r by auto
  then have "(7 :: nat) ^ (N div q) mod P = 1"
    using d1 power_mod [of "7 ^ d" P r] by (simp add: power_mult)
  then show False using seven_order_exact [OF q(1)] by simp
qed

section \<open>Every residue is a power of 7\<close>

lemma mult_one_mod: "x mod P = 1 \<Longrightarrow> (x * y) mod P = y mod P"
  using mod_mult_left_eq [of x P y] by simp

lemma seven_powers_inj: "inj_on (\<lambda>i. (7 :: nat) ^ i mod P) {..<N}"
proof (rule linorder_inj_onI)
  fix i j :: nat
  assume ij: "i < j" and N: "i \<in> {..<N}" "j \<in> {..<N}"
  show "(7 :: nat) ^ i mod P \<noteq> 7 ^ j mod P"
  proof
    assume eq: "(7 :: nat) ^ i mod P = 7 ^ j mod P"
    let ?c = "N - i"
    have "(7 :: nat) ^ (i + ?c) mod P = 7 ^ (j + ?c) mod P"
      unfolding power_add using eq by (rule mod_mult_cong) (rule refl)
    moreover have "i + ?c = N" "j + ?c = N + (j - i)" using ij N by simp_all
    ultimately have "(7 :: nat) ^ (N + (j - i)) mod P = 1"
      using seven_order_divides by simp
    then have "(7 :: nat) ^ (j - i) mod P = 1"
      unfolding power_add mult_one_mod [OF seven_order_divides] .
    moreover have "0 < j - i" "j - i < N" using ij N by auto
    ultimately show False using seven_no_smaller_order by blast
  qed
qed (rule linear)

lemma seven_generates: "(\<lambda>i. (7 :: nat) ^ i mod P) ` {..<N} = {1..<P}"
proof (rule card_subset_eq)
  show "(\<lambda>i. (7 :: nat) ^ i mod P) ` {..<N} \<subseteq> {1..<P}"
  proof
    fix a
    assume "a \<in> (\<lambda>i. (7 :: nat) ^ i mod P) ` {..<N}"
    then obtain i where i: "i < N" "a = 7 ^ i mod P" by auto
    have "a \<noteq> 0"
    proof
      assume "a = 0"
      then have "(7 :: nat) ^ (i + (N - i)) mod P = 0"
        unfolding power_add using i(2) by (metis mod_0 mod_mult_left_eq mult_0)
      then show False using i(1) seven_order_divides by simp
    qed
    then show "a \<in> {1..<P}" using i(2) by simp
  qed
  show "card ((\<lambda>i. (7 :: nat) ^ i mod P) ` {..<N}) = card {1..<P}"
    using card_image [OF seven_powers_inj] by (simp add: N_def)
qed simp

theorem fermat_m31:
  assumes "0 < a" "a < P"
  shows "a ^ N mod P = 1"
proof -
  have "a \<in> (\<lambda>i. (7 :: nat) ^ i mod P) ` {..<N}" using assms seven_generates by simp
  then obtain i where i: "a = 7 ^ i mod P" by auto
  have "a ^ N mod P = (7 ^ N) ^ i mod P"
    unfolding i power_mod by (simp only: power_mult [symmetric] mult.commute)
  also have "\<dots> = 1" using power_mod [of "7 ^ N" P i] seven_order_divides by simp
  finally show ?thesis by simp
qed

section \<open>The inverse\<close>

lemma inverse_impl_ok:
  assumes "canon31 a" "fval a \<noteq> 0"
  shows "\<exists>b. inverse_impl a = Some b \<and> canon31 b \<and> (fval a * fval b) mod P = 1"
proof -
  have "\<not> is_zero_impl a" using assms(2) by (auto simp: is_zero_impl_def fval_def)
  then obtain b where b: "inverse_impl a = Some b" "canon31 b" "fval b = fval a ^ (P - 2) mod P"
    using inverse_impl_power [OF assms(1)] by (auto simp: power_of_def)
  have "Suc (P - 2) = N" by (simp add: N_def)
  then have "(fval a * fval b) mod P = fval a ^ N mod P"
    unfolding b(3) mod_mult_right_eq by (metis power_Suc)
  also have "\<dots> = 1" using fermat_m31 [of "fval a"] assms(2) by simp
  finally show ?thesis using b by blast
qed

end
