(* ===== verification/M31_Properties.thy ===== *)
theory M31_Properties
  imports M31_Fermat
begin

text \<open>
  What the prime field guarantees.  A field element is a 32-bit word of at most \<open>P = 2\<^sup>3\<^sup>1 - 1\<close>
  (\<open>canon31\<close>), where 0 and \<open>P\<close> both stand for zero; \<open>fval\<close> is its residue.
\<close>

section \<open>Arithmetic\<close>

text \<open>
  C11: addition, subtraction, multiplication, the fused operations, negation and doubling never leave
  the field elements, never overflow, and compute the operation on residues modulo \<open>P\<close>.
\<close>

theorem m31_arithmetic:
  assumes "canon31 a" "canon31 b" "canon31 c"
  shows "canon31 (add_assign_impl a b) \<and> fval (add_assign_impl a b) = (fval a + fval b) mod P \<and>
    (\<exists>d. sub_assign_impl a b = Inr d \<and> canon31 d \<and> (fval d + fval b) mod P = fval a) \<and>
    canon31 (mul_assign_impl a b) \<and> fval (mul_assign_impl a b) = (fval a * fval b) mod P \<and>
    canon31 (fused_mul_add_assign a b c) \<and>
    fval (fused_mul_add_assign a b c) = (fval a * fval b + fval c) mod P \<and>
    (\<exists>d. negate_impl a = Inr d \<and> canon31 d \<and> (fval d + fval a) mod P = 0) \<and>
    canon31 (double_impl a) \<and> fval (double_impl a) = (2 * fval a) mod P"
proof -
  obtain d where d: "sub_mod a b = Inr d" "canon31 d" "fval d = (unat a + P - unat b) mod P"
    using sub_mod_ok [OF assms(1,2)] by blast
  have "(fval d + fval b) mod P = (unat a + P - unat b + unat b) mod P"
    unfolding d(3) by (simp add: fval_def mod_add_eq)
  also have "\<dots> = fval a" using assms(2) by (simp add: canon31_def fval_def)
  finally have sub: "\<exists>d. sub_assign_impl a b = Inr d \<and> canon31 d \<and> (fval d + fval b) mod P = fval a"
    using d by (simp add: sub_assign_impl_def)
  obtain e where e: "negate_impl a = Inr e" "canon31 e" "fval e = (P - unat a) mod P"
    using negate_impl_ok [OF assms(1)] by blast
  have "(fval e + fval a) mod P = (P - unat a + unat a) mod P"
    unfolding e(3) by (simp add: fval_def mod_add_eq)
  also have "\<dots> = 0" using assms(1) by (simp add: canon31_def)
  finally have neg: "\<exists>d. negate_impl a = Inr d \<and> canon31 d \<and> (fval d + fval a) mod P = 0"
    using e by blast
  have fma: "fval (fused_mul_add_assign a b c) = (fval a * fval b + fval c) mod P"
  proof -
    have "(fval a * fval b + fval c) mod P = (fval a * fval b mod P + fval c) mod P"
      by (rule mod_add_left_eq [symmetric])
    also have "\<dots> = (unat a * unat b mod P + fval c) mod P" unfolding fval_def by (simp only: mod_mult_eq)
    also have "\<dots> = (unat a * unat b + unat c) mod P"
      unfolding fval_def by (simp only: mod_add_left_eq mod_add_right_eq)
    finally show ?thesis using fma_mod_ok [OF assms] by (simp only: fused_mul_add_assign_def)
  qed
  have add: "fval (add_assign_impl a b) = (fval a + fval b) mod P"
    and double: "fval (double_impl a) = (2 * fval a) mod P"
    using add_mod_ok [OF assms(1,2)] double_impl_ok [OF assms(1)]
    by (simp_all add: add_assign_impl_def fval_def mod_add_eq mod_mult_right_eq)
  show ?thesis
    using sub neg fma add double add_mod_ok [OF assms(1,2)] mul_assign_ok [OF assms(1,2)]
      fma_mod_ok [OF assms] double_impl_ok [OF assms(1)]
    unfolding add_assign_impl_def fused_mul_add_assign_def by blast
qed

theorem m31_arithmetic_witness:
  "canon31 2147483646 \<and> fval (mul_assign_impl 2147483646 2147483646) = 1"
  using m31_arithmetic [of 2147483646 2147483646 5] by (simp add: canon31_def fval_def)

text \<open>
  C12: the inverse, computed by an addition chain for the exponent \<open>P - 2\<close>, exists exactly for the
  elements that are not zero, and the product with it is one.
\<close>

theorem m31_inverse:
  assumes "canon31 a"
  shows "case inverse_impl a of
      None \<Rightarrow> fval a = 0
    | Some b \<Rightarrow> canon31 b \<and> fval (mul_assign_impl a b) = 1"
proof (cases "fval a = 0")
  case True
  then have "unat a = 0 \<or> unat a = P" using assms by (auto simp: fval_def canon31_def le_less)
  then have "is_zero_impl a" by (auto simp: is_zero_impl_def word_unat_eq_iff)
  then show ?thesis using True by (simp add: inverse_impl_def)
next
  case False
  then obtain b where "inverse_impl a = Some b" "canon31 b" "(fval a * fval b) mod P = 1"
    using inverse_impl_ok [OF assms] by blast
  then show ?thesis using mul_assign_ok [OF assms] by simp
qed

theorem m31_inverse_witness: "\<exists>b. inverse_impl 2 = Some b \<and> fval (mul_assign_impl 2 b) = 1"
proof -
  have "canon31 2" "fval 2 \<noteq> 0" by (simp_all add: canon31_def fval_def)
  with m31_inverse [of 2] show ?thesis by (auto split: option.splits)
qed

text \<open>
  C13: the square root, computed as the power \<open>2\<^sup>2\<^sup>9\<close>, is right and complete: what it returns squares
  to the argument, and when it returns nothing no field element does.
\<close>

theorem m31_sqrt_correct:
  assumes "canon31 a"
  shows "case m31_sqrt a of
      None \<Rightarrow> \<forall>x. canon31 x \<longrightarrow> fval (square_impl x) \<noteq> fval a
    | Some b \<Rightarrow> canon31 b \<and> fval (square_impl b) = fval a"
proof -
  let ?r = "exp_power_of_2_impl a 29"
  have r: "canon31 ?r" "fval ?r = fval a ^ (2 ^ 29) mod P" using exp_power_of_2_ok [OF assms] by blast+
  have eq: "m31_eq (square_impl ?r) a \<longleftrightarrow> fval (square_impl ?r) = fval a"
    using to_reduced_ok [OF square_ok(1) [OF r(1)]] to_reduced_ok [OF assms]
    by (simp add: m31_eq_def word_unat_eq_iff)
  have "fval (square_impl ?r) = fval a" if x: "canon31 x" "fval (square_impl x) = fval a" for x
  proof -
    have a: "fval a = fval x ^ 2 mod P" using x square_ok by simp
    have e: "(2 :: nat) * 2 ^ 29 * 2 = N + 2" by (simp add: N_def)
    have "fval (square_impl ?r) = ((fval x ^ 2) ^ (2 ^ 29)) ^ 2 mod P"
      unfolding square_ok(2) [OF r(1)] r(2) a by (simp only: power_mod)
    also have "\<dots> = fval x ^ (N + 2) mod P" by (simp only: power_mult [symmetric] e)
    also have "\<dots> = fval x ^ 2 mod P"
    proof (cases "fval x = 0")
      case False
      then have "fval x ^ N mod P = 1" by (intro fermat_m31) simp_all
      then show ?thesis unfolding power_add by (rule mult_one_mod)
    qed (simp add: N_def)
    finally show ?thesis using a by simp
  qed
  then show ?thesis using r eq by (auto simp: m31_sqrt_def Let_def)
qed

theorem m31_sqrt_correct_witness: "\<exists>b. m31_sqrt 4 = Some b \<and> fval (square_impl b) = 4"
proof -
  have "canon31 4" "fval 4 = 4" by (simp_all add: canon31_def fval_def)
  moreover have "canon31 2" "fval (square_impl 2) = 4"
    using square_ok [of 2] by (simp_all add: canon31_def fval_def)
  ultimately show ?thesis using m31_sqrt_correct [of 4] by (auto split: option.splits)
qed

text \<open>
  C14: multiplication and division by a power of two, which rotate the 31 bits of the element, never
  fail, and dividing what was multiplied gives the element back.
\<close>

theorem m31_shifts:
  assumes "canon31 a"
  shows "\<exists>b c. mul_2exp_u64 a e = Inr b \<and> canon31 b \<and>
      fval b = (fval a * 2 ^ (unat e mod 31)) mod P \<and>
    div_2exp_u64 b e = Inr c \<and> canon31 c \<and> (fval c * 2 ^ (unat e mod 31)) mod P = fval b"
proof -
  obtain b where b: "mul_2exp_u64 a e = Inr b" "canon31 b" "fval b = (unat a * 2 ^ (unat e mod 31)) mod P"
    using mul_2exp_ok [OF assms] by blast
  then show ?thesis using div_2exp_ok [OF b(2), of e] by (auto simp: fval_def mod_mult_left_eq)
qed

theorem m31_shifts_witness: "\<exists>b. mul_2exp_u64 3 33 = Inr b \<and> fval b = 12"
  using m31_shifts [of 3 33] by (auto simp: canon31_def fval_def)

section \<open>Conversions\<close>



text \<open>
  C16: the conversion \<open>from_u64\<close> compares only the low 32 bits of its argument with the order of the
  field, so it accepts integers far above the order and returns another number for them: \<open>2\<^sup>3\<^sup>2\<close>
  becomes 0, while its residue is 2, which the reducing conversion returns.
\<close>

theorem m31_from_u64_truncates:
  "(m31_from_u64 w = Some r \<longleftrightarrow> unat w mod 2 ^ 32 < P \<and> unat r = unat w mod 2 ^ 32) \<and>
   unat (m31_from_u64_with_reduction w) = unat w mod P \<and>
   m31_from_u64 0x100000000 = Some 0 \<and> m31_from_u64_with_reduction 0x100000000 = 2"
proof -
  have u: "unat (ucast w :: u32) = unat w mod 2 ^ 32"
    by (simp add: unsigned_ucast_eq take_bit_eq_mod)
  have o: "unat (ucast ORDER :: u64) = P" by simp
  have "unat (w mod ucast ORDER) = unat w mod P" unfolding unat_mod o by simp
  moreover have "unat w mod P mod 2 ^ 32 = unat w mod P"
    using mod_less_divisor [of P "unat w"] by simp
  ultimately have r: "unat (m31_from_u64_with_reduction w) = unat w mod P"
    by (simp add: m31_from_u64_with_reduction_def unsigned_ucast_eq take_bit_eq_mod)
  have s: "m31_from_u64 w = Some r \<longleftrightarrow> unat w mod 2 ^ 32 < P \<and> unat r = unat w mod 2 ^ 32"
    using u by (auto simp: m31_from_u64_def word_le_nat_alt not_le word_unat_eq_iff)
  have "m31_from_u64 0x100000000 = Some 0" "m31_from_u64_with_reduction 0x100000000 = 2"
    by (simp_all add: m31_from_u64_def m31_from_u64_with_reduction_def ORDER_eq)
  then show ?thesis using r s by simp
qed

end
