(* ===== verification/VM_State.thy ===== *)
theory VM_State
  imports Prelude
begin

text \<open>
  The machine state of \<open>riscv_transpiler/src/vm/mod.rs\<close>, the traits the machine is generic in (as
  records of operations, one per trait), and the register helpers of \<open>vm/instructions/mod.rs\<close>, through which
  every instruction reads and writes registers.  The lemmas are the calculus of timestamps within
  a cycle: \<open>cycle_at k st\<close> says that the cycle of \<open>st\<close> has made no access at offset \<open>k\<close> or later.
\<close>

type_synonym usize = u64

section \<open>Constants\<close>

definition TIMESTAMP_STEP :: u64 where "TIMESTAMP_STEP = 4"
definition INITIAL_TIMESTAMP :: u64 where "INITIAL_TIMESTAMP = 4"

datatype circuit_family =
    ADD_SUB_LUI_AUIPC_MOP
  | JUMP_BRANCH_SLT
  | SHIFT_BINARY_CSR
  | MUL_DIV
  | LOAD_STORE_WORD_ONLY
  | LOAD_STORE_SUBWORD_ONLY
  | REDUCED_MACHINE

section \<open>State\<close>

record Register =
  reg_ts :: u64
  reg_val :: u32

record 'c State =
  st_regs :: "Register list"
  st_ts :: u64
  st_pc :: u32
  st_counters :: 'c

definition initial_with_counters :: "'c \<Rightarrow> 'c State" where
  "initial_with_counters counters =
     \<lparr>st_regs = replicate 32 \<lparr>reg_ts = 0, reg_val = 0\<rparr>, st_ts = INITIAL_TIMESTAMP,
      st_pc = 0, st_counters = counters\<rparr>"

section \<open>Traits\<close>

text \<open>\<open>Counters\<close>: a family constant of the source is a value of \<^typ>\<open>circuit_family\<close> here.\<close>

record 'c counter_ops =
  c_bump_bigint :: "usize \<Rightarrow> 'c \<Rightarrow> 'c res"
  c_bump_blake :: "usize \<Rightarrow> 'c \<Rightarrow> 'c res"
  c_bump_keccak :: "usize \<Rightarrow> 'c \<Rightarrow> 'c res"
  c_log_family :: "circuit_family \<Rightarrow> 'c \<Rightarrow> 'c res"
  c_log_multiple :: "circuit_family \<Rightarrow> usize \<Rightarrow> 'c \<Rightarrow> 'c res"
  c_get_calls :: "circuit_family \<Rightarrow> 'c \<Rightarrow> usize res"

text \<open>\<open>Snapshotter\<close>, \<open>RAM\<close> (with its super-trait \<open>RamPeek\<close>) and \<open>NonDeterminismCSRSource\<close>, whose
  write operation gets a read-only view of the memory.\<close>

record ('c, 's) snapshotter_ops =
  s_take_snapshot_if_needed :: "'c State \<Rightarrow> 's \<Rightarrow> (bool \<times> 's) res"
  s_take_final_snapshot :: "'c State \<Rightarrow> 's \<Rightarrow> 's res"
  s_append_arbitrary_value :: "u32 \<Rightarrow> 's \<Rightarrow> 's res"
  s_append_memory_read :: "u32 \<Rightarrow> u32 \<Rightarrow> u64 \<Rightarrow> u64 \<Rightarrow> 's \<Rightarrow> 's res"

record 'r ram_ops =
  r_peek_word :: "u32 \<Rightarrow> 'r \<Rightarrow> u32 res"
  r_read_word :: "u32 \<Rightarrow> u64 \<Rightarrow> 'r \<Rightarrow> ((u64 \<times> u32) \<times> 'r) res"
  r_mask_read_for_witness :: "'r \<Rightarrow> u32 \<Rightarrow> u32 \<Rightarrow> (u32 \<times> u32) res"
  r_write_word :: "u32 \<Rightarrow> u32 \<Rightarrow> u64 \<Rightarrow> 'r \<Rightarrow> ((u64 \<times> u32) \<times> 'r) res"
  r_skip_if_replaying :: "nat \<Rightarrow> 'r \<Rightarrow> 'r res"

record 'n nd_ops =
  n_read :: "'n \<Rightarrow> (u32 \<times> 'n) res"
  n_write_with_memory_access :: "(u32 \<Rightarrow> u32 res) \<Rightarrow> u32 \<Rightarrow> 'n \<Rightarrow> 'n res"

text \<open>The implementations for the unit type: nothing is recorded, and every non-deterministic
  read returns 0.\<close>

definition unit_snapshotter :: "('c, unit) snapshotter_ops" where
  "unit_snapshotter =
     \<lparr>s_take_snapshot_if_needed = (\<lambda>st s. Inr (False, s)),
      s_take_final_snapshot = (\<lambda>st s. Inr s),
      s_append_arbitrary_value = (\<lambda>v s. Inr s),
      s_append_memory_read = (\<lambda>a v rt wt s. Inr s)\<rparr>"

definition unit_nd :: "unit nd_ops" where
  "unit_nd = \<lparr>n_read = (\<lambda>n. Inr (0, n)), n_write_with_memory_access = (\<lambda>ram v n. Inr n)\<rparr>"

section \<open>Register helpers\<close>

definition touch_x0 :: "u64 \<Rightarrow> 'c State \<Rightarrow> 'c State res" where
  "touch_x0 offset st =
     bindE (get_unchecked (st_regs st) 0) (\<lambda>reg.
     bindE (guardE (reg_ts reg < (st_ts st OR offset)) DebugAssertFailed) (\<lambda>_.
     Inr (st\<lparr>st_regs := (st_regs st)[0 := reg\<lparr>reg_ts := st_ts st OR offset\<rparr>]\<rparr>)))"

definition read_register :: "u64 \<Rightarrow> u8 \<Rightarrow> 'c State \<Rightarrow> (u32 \<times> 'c State) res" where
  "read_register offset reg_idx st =
     bindE (get_unchecked (st_regs st) (unat reg_idx)) (\<lambda>reg.
     bindE (guardE (reg_ts reg < (st_ts st OR offset)) DebugAssertFailed) (\<lambda>_.
     Inr (reg_val reg,
       st\<lparr>st_regs := (st_regs st)[unat reg_idx := reg\<lparr>reg_ts := st_ts st OR offset\<rparr>]\<rparr>)))"

text \<open>The value is passed by mutable reference and zeroed for register 0: the value the caller
  continues with is returned.\<close>

definition write_register :: "u64 \<Rightarrow> u8 \<Rightarrow> u32 \<Rightarrow> 'c State \<Rightarrow> (u32 \<times> 'c State) res" where
  "write_register offset reg_idx value st =
     (let value = (if reg_idx = 0 then 0 else value)
      in bindE (get_unchecked (st_regs st) (unat reg_idx)) (\<lambda>reg.
         bindE (guardE (reg_ts reg < (st_ts st OR offset)) DebugAssertFailed) (\<lambda>_.
         Inr (value, st\<lparr>st_regs := (st_regs st)
           [unat reg_idx := \<lparr>reg_ts = st_ts st OR offset, reg_val = value\<rparr>]\<rparr>))))"

definition default_increase_pc :: "'c State \<Rightarrow> 'c State" where
  "default_increase_pc st = st\<lparr>st_pc := st_pc st + 4\<rparr>"

definition increment_family_counter ::
  "'c counter_ops \<Rightarrow> circuit_family \<Rightarrow> 'c State \<Rightarrow> 'c State res" where
  "increment_family_counter C fam st =
     bindE (c_log_family C fam (st_counters st)) (\<lambda>c. Inr (st\<lparr>st_counters := c\<rparr>))"

definition increment_family_counter_by ::
  "'c counter_ops \<Rightarrow> circuit_family \<Rightarrow> usize \<Rightarrow> 'c State \<Rightarrow> 'c State res" where
  "increment_family_counter_by C fam by st =
     bindE (c_log_multiple C fam by (st_counters st)) (\<lambda>c. Inr (st\<lparr>st_counters := c\<rparr>))"

definition illegal :: "'c State \<Rightarrow> 'c State res" where
  "illegal st = Inl Panic"

section \<open>The calculus of a cycle\<close>

definition reg_vals :: "'c State \<Rightarrow> u32 list" where
  "reg_vals st = map reg_val (st_regs st)"

definition cycle_at :: "nat \<Rightarrow> 'c State \<Rightarrow> bool" where
  "cycle_at k st \<longleftrightarrow>
     length (st_regs st) = 32 \<and> reg_val (st_regs st ! 0) = 0 \<and> unat (st_ts st) mod 4 = 0 \<and>
     (\<forall>r \<in> set (st_regs st). unat (reg_ts r) < unat (st_ts st) + k)"

definition touch_reg :: "u64 \<Rightarrow> u8 \<Rightarrow> 'c State \<Rightarrow> 'c State" where
  "touch_reg offset i st = st\<lparr>st_regs := (st_regs st)
     [unat i := (st_regs st ! unat i)\<lparr>reg_ts := st_ts st OR offset\<rparr>]\<rparr>"

definition set_reg :: "u64 \<Rightarrow> u8 \<Rightarrow> u32 \<Rightarrow> 'c State \<Rightarrow> 'c State" where
  "set_reg offset i v st = st\<lparr>st_regs := (st_regs st)
     [unat i := \<lparr>reg_ts = st_ts st OR offset, reg_val = (if i = 0 then 0 else v)\<rparr>]\<rparr>"

lemma unat_or_offset:
  assumes "unat (t :: u64) mod 4 = 0" "off < 4"
  shows "unat (t OR off) = unat t + unat off"
proof -
  have "unat off < 4" using assms(2) by (simp add: word_less_nat_alt)
  then have "unat off = 0 \<or> unat off = 1 \<or> unat off = 2 \<or> unat off = 3" by linarith
  then have "off = 0 \<or> off = 1 \<or> off = 2 \<or> off = 3"
    by (simp add: word_unat_eq_iff)
  then show ?thesis using unat_or_low [OF assms(1)] by auto
qed

lemma u8_index: "i < 32 \<longleftrightarrow> unat (i :: u8) < 32"
  by (simp add: word_less_nat_alt)

lemma u8_index_0 [simp]: "unat (i :: u8) = 0 \<longleftrightarrow> i = 0"
  by (simp add: unat_eq_0)

lemma cycle_atD:
  assumes "cycle_at k st"
  shows "length (st_regs st) = 32" "unat (st_ts st) mod 4 = 0" "reg_val (st_regs st ! 0) = 0"
    "i < 32 \<Longrightarrow> unat (reg_ts (st_regs st ! unat (i :: u8))) < unat (st_ts st) + k"
  using assms by (auto simp: cycle_at_def u8_index)

lemma cycle_at_mono: "cycle_at k st \<Longrightarrow> k \<le> l \<Longrightarrow> cycle_at l st"
  by (fastforce simp: cycle_at_def)

lemma cycle_at_cong:
  "st_regs st' = st_regs st \<Longrightarrow> st_ts st' = st_ts st \<Longrightarrow> cycle_at k st' = cycle_at k st"
  by (simp add: cycle_at_def)

lemma cycle_touch_reg:
  assumes "cycle_at k st" "k \<le> unat off + 1" "off < 4" "i < 32"
  shows "cycle_at (unat off + 1) (touch_reg off i st)"
  using assms unfolding cycle_at_def touch_reg_def
  by (auto simp: unat_or_offset nth_list_update u8_index dest!: set_update_subset_insert [THEN subsetD])

lemma cycle_set_reg:
  assumes "cycle_at k st" "k \<le> unat off + 1" "off < 4" "i < 32"
  shows "cycle_at (unat off + 1) (set_reg off i v st)"
  using assms unfolding cycle_at_def set_reg_def
  by (auto simp: unat_or_offset nth_list_update u8_index dest!: set_update_subset_insert [THEN subsetD])

lemma cycle_at_fresh:
  assumes "cycle_at k st" "k \<le> unat off" "off < 4" "i < 32"
  shows "reg_ts (st_regs st ! unat (i :: u8)) < (st_ts st OR off)"
  using cycle_atD(4) [OF assms(1,4)] assms(2) unat_or_offset [OF cycle_atD(2) [OF assms(1)] assms(3)]
  by (simp add: word_less_nat_alt)

text \<open>No access of a cycle meets a stale register: at increasing offsets the helpers succeed.\<close>

lemma read_register_ok:
  assumes "cycle_at k st" "k \<le> unat off" "off < 4" "i < 32"
  shows "read_register off i st = Inr (reg_vals st ! unat i, touch_reg off i st)"
  using assms cycle_at_fresh [OF assms]
  by (simp add: read_register_def get_unchecked_def guardE_def touch_reg_def reg_vals_def u8_index
      cycle_atD(1))

lemma touch_x0_ok:
  assumes "cycle_at k st" "k \<le> unat off" "off < 4"
  shows "touch_x0 off st = Inr (touch_reg off 0 st)"
  using assms cycle_at_fresh [OF assms, of 0]
  by (simp add: touch_x0_def get_unchecked_def guardE_def touch_reg_def cycle_atD(1))

lemma write_register_ok:
  assumes "cycle_at k st" "k \<le> unat off" "off < 4" "i < 32"
  shows "write_register off i v st = Inr (if i = 0 then 0 else v, set_reg off i v st)"
  using assms cycle_at_fresh [OF assms]
  by (simp add: write_register_def get_unchecked_def guardE_def set_reg_def u8_index cycle_atD(1))

lemma map_update_same: "f y = f (xs ! i) \<Longrightarrow> map f (xs[i := y]) = map f xs"
  by (cases "i < length xs") (simp_all add: map_update list_update_same_conv list_update_beyond)

lemma touch_reg_sel [simp]:
  "st_ts (touch_reg off i st) = st_ts st" "st_pc (touch_reg off i st) = st_pc st"
  "st_counters (touch_reg off i st) = st_counters st"
  "reg_vals (touch_reg off i st) = reg_vals st"
  "length (st_regs (touch_reg off i st)) = length (st_regs st)"
  by (simp_all add: touch_reg_def reg_vals_def map_update_same)

lemma set_reg_sel [simp]:
  "st_ts (set_reg off i v st) = st_ts st" "st_pc (set_reg off i v st) = st_pc st"
  "st_counters (set_reg off i v st) = st_counters st"
  "reg_vals (set_reg off i v st) = (reg_vals st)[unat i := (if i = 0 then 0 else v)]"
  "length (st_regs (set_reg off i v st)) = length (st_regs st)"
  by (simp_all add: set_reg_def reg_vals_def map_update)

lemma increase_pc_sel [simp]:
  "st_ts (default_increase_pc st) = st_ts st" "st_pc (default_increase_pc st) = st_pc st + 4"
  "st_counters (default_increase_pc st) = st_counters st"
  "reg_vals (default_increase_pc st) = reg_vals st"
  "st_regs (default_increase_pc st) = st_regs st"
  by (simp_all add: default_increase_pc_def reg_vals_def)

lemma reg_vals_update [simp]:
  "reg_vals (st\<lparr>st_pc := pc\<rparr>) = reg_vals st" "reg_vals (st\<lparr>st_counters := c\<rparr>) = reg_vals st"
  "reg_vals (st\<lparr>st_ts := t\<rparr>) = reg_vals st"
  by (simp_all add: reg_vals_def)

lemma cycle_at_update [simp]:
  "cycle_at k (st\<lparr>st_pc := pc\<rparr>) = cycle_at k st"
  "cycle_at k (st\<lparr>st_counters := c\<rparr>) = cycle_at k st"
  "cycle_at k (default_increase_pc st) = cycle_at k st"
  by (simp_all add: cycle_at_def)

lemma cycle_at_reg_vals:
  "cycle_at k st \<Longrightarrow> length (reg_vals st) = 32" "cycle_at k st \<Longrightarrow> reg_vals st ! 0 = 0"
  by (simp_all add: cycle_at_def reg_vals_def)

text \<open>The end of a cycle opens the next one, 4 ticks later.\<close>

lemma cycle_at_next:
  assumes "cycle_at 4 st" "add_u64 (st_ts st) TIMESTAMP_STEP = Inr t"
  shows "cycle_at 0 (st\<lparr>st_ts := t\<rparr>)"
  using assms by (auto simp: cycle_at_def TIMESTAMP_STEP_def dest!: unat_add_u64)

lemma cycle_at_initial: "cycle_at 0 (initial_with_counters c)"
  by (simp add: cycle_at_def initial_with_counters_def INITIAL_TIMESTAMP_def)

end
