(* ===== verification/VM_Counters.thy ===== *)
theory VM_Counters
  imports VM_State
begin

text \<open>
  The three implementations of the trait \<open>Counters\<close> in \<open>riscv_transpiler/src/vm/replay_snapshotter.rs\<close>.
  Two contracts are stated as locales: \<open>counters\<close>, by which a counter overflows only when the
  number of its increments could, and \<open>cycle_counters\<close>, by which the counters of the circuit
  families sum to the number of executed cycles.
\<close>

section \<open>Counters\<close>

record DelegationsCounters =
  dc_non_determinism_reads :: usize
  dc_blake_calls :: usize
  dc_bigint_calls :: usize
  dc_keccak_calls :: usize

definition delegations_counters :: "DelegationsCounters counter_ops" where
  "delegations_counters =
     \<lparr>c_bump_bigint = (\<lambda>n c. bindE (add_u64 (dc_bigint_calls c) n)
        (\<lambda>v. Inr (c\<lparr>dc_bigint_calls := v\<rparr>))),
      c_bump_blake = (\<lambda>n c. bindE (add_u64 (dc_blake_calls c) n)
        (\<lambda>v. Inr (c\<lparr>dc_blake_calls := v\<rparr>))),
      c_bump_keccak = (\<lambda>n c. bindE (add_u64 (dc_keccak_calls c) n)
        (\<lambda>v. Inr (c\<lparr>dc_keccak_calls := v\<rparr>))),
      c_log_family = (\<lambda>fam c. Inr c),
      c_log_multiple = (\<lambda>fam n c. Inr c),
      c_get_calls = (\<lambda>fam c. Inr 0)\<rparr>"

record DelegationsAndFamiliesCounters =
  fc_add_sub_family :: usize
  fc_binary_shift_csr_family :: usize
  fc_slt_branch_family :: usize
  fc_mul_div_family :: usize
  fc_word_size_mem_family :: usize
  fc_subword_size_mem_family :: usize
  fc_blake_calls :: usize
  fc_bigint_calls :: usize
  fc_keccak_calls :: usize

fun families_log_multiple ::
  "circuit_family \<Rightarrow> usize \<Rightarrow> DelegationsAndFamiliesCounters \<Rightarrow> DelegationsAndFamiliesCounters res"
  where
  "families_log_multiple ADD_SUB_LUI_AUIPC_MOP n c =
     bindE (add_u64 (fc_add_sub_family c) n) (\<lambda>v. Inr (c\<lparr>fc_add_sub_family := v\<rparr>))"
| "families_log_multiple JUMP_BRANCH_SLT n c =
     bindE (add_u64 (fc_slt_branch_family c) n) (\<lambda>v. Inr (c\<lparr>fc_slt_branch_family := v\<rparr>))"
| "families_log_multiple SHIFT_BINARY_CSR n c =
     bindE (add_u64 (fc_binary_shift_csr_family c) n)
       (\<lambda>v. Inr (c\<lparr>fc_binary_shift_csr_family := v\<rparr>))"
| "families_log_multiple MUL_DIV n c =
     bindE (add_u64 (fc_mul_div_family c) n) (\<lambda>v. Inr (c\<lparr>fc_mul_div_family := v\<rparr>))"
| "families_log_multiple LOAD_STORE_WORD_ONLY n c =
     bindE (add_u64 (fc_word_size_mem_family c) n) (\<lambda>v. Inr (c\<lparr>fc_word_size_mem_family := v\<rparr>))"
| "families_log_multiple LOAD_STORE_SUBWORD_ONLY n c =
     bindE (add_u64 (fc_subword_size_mem_family c) n)
       (\<lambda>v. Inr (c\<lparr>fc_subword_size_mem_family := v\<rparr>))"
| "families_log_multiple REDUCED_MACHINE n c = Inl UndefinedBehaviour"

fun families_get_calls :: "circuit_family \<Rightarrow> DelegationsAndFamiliesCounters \<Rightarrow> usize res" where
  "families_get_calls ADD_SUB_LUI_AUIPC_MOP c = Inr (fc_add_sub_family c)"
| "families_get_calls JUMP_BRANCH_SLT c = Inr (fc_slt_branch_family c)"
| "families_get_calls SHIFT_BINARY_CSR c = Inr (fc_binary_shift_csr_family c)"
| "families_get_calls MUL_DIV c = Inr (fc_mul_div_family c)"
| "families_get_calls LOAD_STORE_WORD_ONLY c = Inr (fc_word_size_mem_family c)"
| "families_get_calls LOAD_STORE_SUBWORD_ONLY c = Inr (fc_subword_size_mem_family c)"
| "families_get_calls REDUCED_MACHINE c = Inl UndefinedBehaviour"

definition families_counters :: "DelegationsAndFamiliesCounters counter_ops" where
  "families_counters =
     \<lparr>c_bump_bigint = (\<lambda>n c. bindE (add_u64 (fc_bigint_calls c) n)
        (\<lambda>v. Inr (c\<lparr>fc_bigint_calls := v\<rparr>))),
      c_bump_blake = (\<lambda>n c. bindE (add_u64 (fc_blake_calls c) n)
        (\<lambda>v. Inr (c\<lparr>fc_blake_calls := v\<rparr>))),
      c_bump_keccak = (\<lambda>n c. bindE (add_u64 (fc_keccak_calls c) n)
        (\<lambda>v. Inr (c\<lparr>fc_keccak_calls := v\<rparr>))),
      c_log_family = (\<lambda>fam. families_log_multiple fam 1),
      c_log_multiple = families_log_multiple,
      c_get_calls = families_get_calls\<rparr>"

record DelegationsAndUnifiedCounters =
  uc_non_determinism_reads :: usize
  uc_blake_calls :: usize
  uc_bigint_calls :: usize
  uc_keccak_calls :: usize
  uc_cycles :: usize

fun unified_log_multiple ::
  "circuit_family \<Rightarrow> usize \<Rightarrow> DelegationsAndUnifiedCounters \<Rightarrow> DelegationsAndUnifiedCounters res"
  where
  "unified_log_multiple REDUCED_MACHINE n c = Inl UndefinedBehaviour"
| "unified_log_multiple _ n c =
     bindE (add_u64 (uc_cycles c) n) (\<lambda>v. Inr (c\<lparr>uc_cycles := v\<rparr>))"

definition unified_counters :: "DelegationsAndUnifiedCounters counter_ops" where
  "unified_counters =
     \<lparr>c_bump_bigint = (\<lambda>n c. bindE (add_u64 (uc_bigint_calls c) n)
        (\<lambda>v. Inr (c\<lparr>uc_bigint_calls := v\<rparr>))),
      c_bump_blake = (\<lambda>n c. bindE (add_u64 (uc_blake_calls c) n)
        (\<lambda>v. Inr (c\<lparr>uc_blake_calls := v\<rparr>))),
      c_bump_keccak = (\<lambda>n c. bindE (add_u64 (uc_keccak_calls c) n)
        (\<lambda>v. Inr (c\<lparr>uc_keccak_calls := v\<rparr>))),
      c_log_family = (\<lambda>fam. unified_log_multiple fam 1),
      c_log_multiple = unified_log_multiple,
      c_get_calls = (\<lambda>fam c. if fam = REDUCED_MACHINE then Inr (uc_cycles c) else Inl Panic)\<rparr>"


section \<open>Contracts\<close>

text \<open>\<open>within N c\<close>: no counter of \<open>c\<close> exceeds \<open>N\<close>.\<close>

locale counters =
  fixes C :: "'c counter_ops" and within :: "nat \<Rightarrow> 'c \<Rightarrow> bool"
  assumes bump_bigint: "within N c \<Longrightarrow> N + unat n < 2 ^ 64 \<Longrightarrow>
      \<exists>c'. c_bump_bigint C n c = Inr c' \<and> within (N + unat n) c'"
    and bump_blake: "within N c \<Longrightarrow> N + unat n < 2 ^ 64 \<Longrightarrow>
      \<exists>c'. c_bump_blake C n c = Inr c' \<and> within (N + unat n) c'"
    and bump_keccak: "within N c \<Longrightarrow> N + unat n < 2 ^ 64 \<Longrightarrow>
      \<exists>c'. c_bump_keccak C n c = Inr c' \<and> within (N + unat n) c'"
    and log_multiple: "fam \<noteq> REDUCED_MACHINE \<Longrightarrow> within N c \<Longrightarrow> N + unat n < 2 ^ 64 \<Longrightarrow>
      \<exists>c'. c_log_multiple C fam n c = Inr c' \<and> within (N + unat n) c'"
    and log_family: "fam \<noteq> REDUCED_MACHINE \<Longrightarrow> within N c \<Longrightarrow> N + 1 < 2 ^ 64 \<Longrightarrow>
      \<exists>c'. c_log_family C fam c = Inr c' \<and> within (N + 1) c'"
    and within_mono: "within N c \<Longrightarrow> N \<le> M \<Longrightarrow> within M c"

locale cycle_counters = counters +
  fixes cycles :: "'c \<Rightarrow> nat"
  assumes bumps_keep_cycles:
      "c_bump_bigint C n c = Inr c' \<Longrightarrow> cycles c' = cycles c"
      "c_bump_blake C n c = Inr c' \<Longrightarrow> cycles c' = cycles c"
      "c_bump_keccak C n c = Inr c' \<Longrightarrow> cycles c' = cycles c"
    and log_counts: "c_log_multiple C fam n c = Inr c' \<Longrightarrow> cycles c' = cycles c + unat n"
    and log_family_counts: "c_log_family C fam c = Inr c' \<Longrightarrow> cycles c' = cycles c + 1"

definition delegations_within :: "nat \<Rightarrow> DelegationsCounters \<Rightarrow> bool" where
  "delegations_within N c \<longleftrightarrow>
     unat (dc_blake_calls c) \<le> N \<and> unat (dc_bigint_calls c) \<le> N \<and> unat (dc_keccak_calls c) \<le> N"

definition families_within :: "nat \<Rightarrow> DelegationsAndFamiliesCounters \<Rightarrow> bool" where
  "families_within N c \<longleftrightarrow>
     unat (fc_add_sub_family c) \<le> N \<and> unat (fc_binary_shift_csr_family c) \<le> N \<and>
     unat (fc_slt_branch_family c) \<le> N \<and> unat (fc_mul_div_family c) \<le> N \<and>
     unat (fc_word_size_mem_family c) \<le> N \<and> unat (fc_subword_size_mem_family c) \<le> N \<and>
     unat (fc_blake_calls c) \<le> N \<and> unat (fc_bigint_calls c) \<le> N \<and> unat (fc_keccak_calls c) \<le> N"

definition families_cycles :: "DelegationsAndFamiliesCounters \<Rightarrow> nat" where
  "families_cycles c =
     unat (fc_add_sub_family c) + unat (fc_binary_shift_csr_family c) +
     unat (fc_slt_branch_family c) + unat (fc_mul_div_family c) +
     unat (fc_word_size_mem_family c) + unat (fc_subword_size_mem_family c)"

definition unified_within :: "nat \<Rightarrow> DelegationsAndUnifiedCounters \<Rightarrow> bool" where
  "unified_within N c \<longleftrightarrow>
     unat (uc_blake_calls c) \<le> N \<and> unat (uc_bigint_calls c) \<le> N \<and>
     unat (uc_keccak_calls c) \<le> N \<and> unat (uc_cycles c) \<le> N"

lemma add_u64_within:
  assumes "unat a \<le> N" "N + unat b < 2 ^ 64"
  shows "add_u64 a b = Inr (a + b)" "unat (a + b :: u64) = unat a + unat b"
  using assms by (simp_all add: add_u64_def unat_word_ariths)

interpretation delegations: counters delegations_counters delegations_within
  by unfold_locales
    (auto simp: delegations_counters_def delegations_within_def add_u64_within)

interpretation families: cycle_counters families_counters families_within families_cycles
proof unfold_locales
  fix fam N and n :: usize and c
  assume *: "fam \<noteq> REDUCED_MACHINE" "families_within N c"
  show "\<exists>c'. c_log_multiple families_counters fam n c = Inr c' \<and> families_within (N + unat n) c'"
    if "N + unat n < 2 ^ 64"
    using * that
    by (cases fam) (auto simp: families_counters_def families_within_def add_u64_within)
  show "\<exists>c'. c_log_family families_counters fam c = Inr c' \<and> families_within (N + 1) c'"
    if "N + 1 < 2 ^ 64"
    using * that
    by (cases fam) (auto simp: families_counters_def families_within_def add_u64_within)
next
  fix fam and n :: usize and c c'
  show "families_cycles c' = families_cycles c + unat n"
    if "c_log_multiple families_counters fam n c = Inr c'"
    using that
    by (cases fam) (auto simp: families_counters_def families_cycles_def unat_add_u64)
  show "families_cycles c' = families_cycles c + 1"
    if "c_log_family families_counters fam c = Inr c'"
    using that
    by (cases fam) (auto simp: families_counters_def families_cycles_def unat_add_u64)
qed (auto simp: families_counters_def families_within_def families_cycles_def add_u64_within)

interpretation unified:
  cycle_counters unified_counters unified_within "\<lambda>c. unat (uc_cycles c)"
proof unfold_locales
  fix fam N and n :: usize and c
  assume *: "fam \<noteq> REDUCED_MACHINE" "unified_within N c"
  show "\<exists>c'. c_log_multiple unified_counters fam n c = Inr c' \<and> unified_within (N + unat n) c'"
    if "N + unat n < 2 ^ 64"
    using * that
    by (cases fam) (auto simp: unified_counters_def unified_within_def add_u64_within)
  show "\<exists>c'. c_log_family unified_counters fam c = Inr c' \<and> unified_within (N + 1) c'"
    if "N + 1 < 2 ^ 64"
    using * that
    by (cases fam) (auto simp: unified_counters_def unified_within_def add_u64_within)
next
  fix fam and n :: usize and c c'
  show "unat (uc_cycles c') = unat (uc_cycles c) + unat n"
    if "c_log_multiple unified_counters fam n c = Inr c'"
    using that by (cases fam) (auto simp: unified_counters_def unat_add_u64)
  show "unat (uc_cycles c') = unat (uc_cycles c) + 1"
    if "c_log_family unified_counters fam c = Inr c'"
    using that by (cases fam) (auto simp: unified_counters_def unat_add_u64)
qed (auto simp: unified_counters_def unified_within_def add_u64_within)

end
