(* ===== verification/VM_Ram.thy ===== *)
theory VM_Ram
  imports VM_State IR_Encoding
begin

text \<open>
  The memory \<open>RamWithRomRegion\<close> (\<open>riscv_transpiler/src/vm/ram_with_rom_region.rs\<close>), a word array with
  the time of the last access of every word whose first part is read-only, and the instruction
  tape \<open>SimpleTape\<close> (\<open>vm/simple_tape.rs\<close>).  The locale \<open>word_memory\<close> is what the instructions rely on
  in a memory they execute against.
\<close>

section \<open>The memory with a ROM region\<close>

record RamWithRomRegion =
  backing :: "Register list"

text \<open>\<open>bits\<close> is the constant parameter \<open>ROM_BOUND_SECOND_WORD_BITS\<close>.\<close>

definition is_power_of_two :: "'a::len word \<Rightarrow> bool" where
  "is_power_of_two n \<longleftrightarrow> n \<noteq> 0 \<and> n AND (n - 1) = 0"

definition rom_words :: "nat \<Rightarrow> nat" where
  "rom_words bits = 2 ^ (16 + bits) div 4"

definition from_rom_content :: "nat \<Rightarrow> u32 list \<Rightarrow> usize \<Rightarrow> RamWithRomRegion res" where
  "from_rom_content bits content total_size_bytes =
     bindE (guardE (is_power_of_two total_size_bytes) AssertFailed) (\<lambda>_.
     bindE (guardE (2 ^ (16 + bits) < unat total_size_bytes) AssertFailed) (\<lambda>_.
     bindE (guardE (length content \<le> rom_words bits) AssertFailed) (\<lambda>_.
     let ram_words = unat total_size_bytes div 4
     in Inr \<lparr>backing =
          map (\<lambda>src. \<lparr>reg_ts = 0, reg_val = src\<rparr>) (take ram_words content) @
          replicate (ram_words - length content) \<lparr>reg_ts = 0, reg_val = 0\<rparr>\<rparr>)))"

definition rom_peek_word :: "u32 \<Rightarrow> RamWithRomRegion \<Rightarrow> u32 res" where
  "rom_peek_word address ram =
     bindE (guardE (address mod 4 = 0) DebugAssertFailed) (\<lambda>_.
     let word_idx = unat (address div 4)
     in bindE (guardE (word_idx < length (backing ram)) DebugAssertFailed) (\<lambda>_.
        bindE (get_unchecked (backing ram) word_idx) (\<lambda>slot.
        Inr (reg_val slot))))"

definition rom_read_word ::
  "u32 \<Rightarrow> u64 \<Rightarrow> RamWithRomRegion \<Rightarrow> ((u64 \<times> u32) \<times> RamWithRomRegion) res" where
  "rom_read_word address timestamp ram =
     bindE (guardE (address mod 4 = 0) DebugAssertFailed) (\<lambda>_.
     let word_idx = unat (address div 4)
     in bindE (guardE (word_idx < length (backing ram)) DebugAssertFailed) (\<lambda>_.
        bindE (get_unchecked (backing ram) word_idx) (\<lambda>slot.
        let value = reg_val slot; read_timestamp = reg_ts slot;
            ram' = ram\<lparr>backing := (backing ram)[word_idx := slot\<lparr>reg_ts := timestamp OR 1\<rparr>]\<rparr>
        in bindE (guardE (read_timestamp < (timestamp OR 1)) DebugAssertFailed) (\<lambda>_.
           Inr ((read_timestamp, value), ram')))))"

definition rom_write_word ::
  "nat \<Rightarrow> u32 \<Rightarrow> u32 \<Rightarrow> u64 \<Rightarrow> RamWithRomRegion \<Rightarrow> ((u64 \<times> u32) \<times> RamWithRomRegion) res" where
  "rom_write_word bits address word timestamp ram =
     bindE (guardE (address mod 4 = 0) DebugAssertFailed) (\<lambda>_.
     let word_idx = unat (address div 4)
     in bindE (guardE (word_idx < length (backing ram)) DebugAssertFailed) (\<lambda>_.
        bindE (guardE (\<not> word_idx < rom_words bits) Panic) (\<lambda>_.
        bindE (get_unchecked (backing ram) word_idx) (\<lambda>slot.
        let old_value = reg_val slot; read_timestamp = reg_ts slot
        in bindE (guardE (read_timestamp < (timestamp OR 2)) DebugAssertFailed) (\<lambda>_.
           Inr ((read_timestamp, old_value),
             ram\<lparr>backing := (backing ram)
               [word_idx := \<lparr>reg_ts = timestamp OR 2, reg_val = word\<rparr>]\<rparr>))))))"

definition rom_ram_ops :: "nat \<Rightarrow> RamWithRomRegion ram_ops" where
  "rom_ram_ops bits =
     \<lparr>r_peek_word = rom_peek_word,
      r_read_word = rom_read_word,
      r_mask_read_for_witness = (\<lambda>ram address value. Inr (address, value)),
      r_write_word = rom_write_word bits,
      r_skip_if_replaying = (\<lambda>n ram. Inl Panic)\<rparr>"

section \<open>The instruction tape\<close>

definition read_instruction :: "instruction list \<Rightarrow> u32 \<Rightarrow> instruction res" where
  "read_instruction tape pc =
     (let word = unat (drop_bit 2 pc)
      in bindE (guardE (word < length tape) DebugAssertFailed) (\<lambda>_. get_unchecked tape word))"

section \<open>The contract of a memory\<close>

text \<open>
  \<open>word r i\<close> is the value of the \<open>i\<close>-th word and \<open>last r i\<close> the time of its last access.  A read is
  recorded with the low bit of the time set, a write with the next bit set; both must be later
  than the last access, and a word outside \<open>writable\<close> cannot be written.
\<close>

locale word_memory =
  fixes R :: "'r ram_ops" and words :: "'r \<Rightarrow> nat" and word :: "'r \<Rightarrow> nat \<Rightarrow> u32"
    and last :: "'r \<Rightarrow> nat \<Rightarrow> nat" and writable :: "nat \<Rightarrow> bool"
  assumes peek: "r_peek_word R a r = Inr v \<longleftrightarrow>
      a mod 4 = 0 \<and> unat (a div 4) < words r \<and> v = word r (unat (a div 4))"
    and read_possible: "(\<exists>x. r_read_word R a t r = Inr x) \<longleftrightarrow>
      a mod 4 = 0 \<and> unat (a div 4) < words r \<and> last r (unat (a div 4)) < unat (t OR 1)"
    and read_effect: "r_read_word R a t r = Inr ((rt, v), r') \<Longrightarrow>
      unat rt = last r (unat (a div 4)) \<and> v = word r (unat (a div 4)) \<and> words r' = words r \<and>
      word r' = word r \<and> last r' = (last r)(unat (a div 4) := unat (t OR 1))"
    and write_possible: "(\<exists>x. r_write_word R a v t r = Inr x) \<longleftrightarrow>
      a mod 4 = 0 \<and> unat (a div 4) < words r \<and> writable (unat (a div 4)) \<and>
      last r (unat (a div 4)) < unat (t OR 2)"
    and write_effect: "r_write_word R a v t r = Inr ((rt, old), r') \<Longrightarrow>
      unat rt = last r (unat (a div 4)) \<and> old = word r (unat (a div 4)) \<and> words r' = words r \<and>
      word r' = (word r)(unat (a div 4) := v) \<and> last r' = (last r)(unat (a div 4) := unat (t OR 2))"
begin

definition fresh :: "nat \<Rightarrow> 'r \<Rightarrow> bool" where
  "fresh b r \<longleftrightarrow> (\<forall>i < words r. last r i < b)"

lemma fresh_mono: "fresh b r \<Longrightarrow> b \<le> c \<Longrightarrow> fresh c r"
  by (fastforce simp: fresh_def)

lemma fresh_read:
  "r_read_word R a t r = Inr ((rt, v), r') \<Longrightarrow> fresh b r \<Longrightarrow> unat (t OR 1) < b \<Longrightarrow> fresh b r'"
  using read_effect by (auto simp: fresh_def)

lemma fresh_write:
  "r_write_word R a w t r = Inr ((rt, v), r') \<Longrightarrow> fresh b r \<Longrightarrow> unat (t OR 2) < b \<Longrightarrow> fresh b r'"
  using write_effect by (auto simp: fresh_def)

lemma read_ok:
  assumes "a mod 4 = 0" "unat (a div 4) < words r" "fresh b r" "b \<le> unat (t OR 1)"
  shows "\<exists>rt r'. r_read_word R a t r = Inr ((rt, word r (unat (a div 4))), r')"
proof -
  have "\<exists>x. r_read_word R a t r = Inr x"
    unfolding read_possible using assms by (fastforce simp: fresh_def)
  then show ?thesis using read_effect by (metis surj_pair)
qed

lemma write_ok:
  assumes "a mod 4 = 0" "unat (a div 4) < words r" "writable (unat (a div 4))"
    "fresh b r" "b \<le> unat (t OR 2)"
  shows "\<exists>rt r'. r_write_word R a v t r = Inr ((rt, word r (unat (a div 4))), r')"
proof -
  have "\<exists>x. r_write_word R a v t r = Inr x"
    unfolding write_possible using assms by (fastforce simp: fresh_def)
  then show ?thesis using write_effect by (metis surj_pair)
qed

end

definition rom_word :: "RamWithRomRegion \<Rightarrow> nat \<Rightarrow> u32" where
  "rom_word ram i = reg_val (backing ram ! i)"

definition rom_last :: "RamWithRomRegion \<Rightarrow> nat \<Rightarrow> nat" where
  "rom_last ram i = unat (reg_ts (backing ram ! i))"

interpretation rom: word_memory "rom_ram_ops bits" "\<lambda>r. length (backing r)" rom_word rom_last
  "\<lambda>i. rom_words bits \<le> i" for bits
  by unfold_locales
    (auto simp: rom_ram_ops_def rom_peek_word_def rom_read_word_def rom_write_word_def Let_def
      get_unchecked_eq_Inr rom_word_def rom_last_def word_less_nat_alt nth_list_update fun_eq_iff)

end
