(* ===== verification/VM_Snapshot.thy ===== *)
theory VM_Snapshot
  imports VM_State
begin

text \<open>
  The recording of memory accesses (\<open>riscv_transpiler/src/vm/replay_snapshotter.rs\<close>): the trait
  \<open>ReplayBuffer\<close> with its two implementations, a plain vector and the chunked vector \<open>SpecBiVec\<close>,
  and \<open>SimpleSnapshotter\<close>, which appends every access to the buffer and cuts it into chunks with a
  copy of the machine state at the end of each.  The locale \<open>replay_buffer\<close> says that a buffer is an
  append-only list whose ranges come back as lists of slices; the snapshotter's lemmas are proved
  from it once, for both buffers.
\<close>

section \<open>Replay buffers\<close>

record ('e, 'b) replay_buffer_ops =
  rb_new_with_snapshots_bound :: "nat \<Rightarrow> 'b res"
  rb_push_within_capacity_unchecked :: "'e \<Rightarrow> 'b \<Rightarrow> 'b res"
  rb_make_range :: "nat \<Rightarrow> nat \<Rightarrow> 'b \<Rightarrow> 'e list list res"
  rb_len :: "'b \<Rightarrow> nat"

text \<open>Slicing \<open>xs[s..e]\<close> panics unless \<open>s \<le> e \<le> len\<close>.\<close>

definition slice :: "nat \<Rightarrow> nat \<Rightarrow> 'a list \<Rightarrow> 'a list res" where
  "slice s e xs =
     bindE (guardE (s \<le> e \<and> e \<le> length xs) IndexOutOfBounds) (\<lambda>_. Inr (take (e - s) (drop s xs)))"

text \<open>A vector with the capacity it was created with; pushing beyond it is undefined behaviour
  (\<open>unwrap_unchecked\<close> of an error).\<close>

record 'e vec_buffer =
  vb_data :: "'e list"
  vb_capacity :: nat

definition vec_push :: "'e \<Rightarrow> 'e vec_buffer \<Rightarrow> 'e vec_buffer res" where
  "vec_push e b =
     (if length (vb_data b) < vb_capacity b then Inr (b\<lparr>vb_data := vb_data b @ [e]\<rparr>)
      else Inl UndefinedBehaviour)"

definition vec_buffer_ops :: "('e, 'e vec_buffer) replay_buffer_ops" where
  "vec_buffer_ops =
     \<lparr>rb_new_with_snapshots_bound = (\<lambda>bound. Inr \<lparr>vb_data = [], vb_capacity = bound\<rparr>),
      rb_push_within_capacity_unchecked = vec_push,
      rb_make_range = (\<lambda>s e b. bindE (slice s e (vb_data b)) (\<lambda>xs. Inr [xs])),
      rb_len = (\<lambda>b. length (vb_data b))\<rparr>"

text \<open>\<open>inner\<close> and \<open>outer\<close> are the constant parameters \<open>I\<close> and \<open>O\<close> of \<open>SpecBiVec\<close>; a buffer in use has
  capacity \<open>inner\<close>.\<close>

record 'e SpecBiVec =
  sb_current :: nat
  sb_total_len :: nat
  sb_buffers :: "'e list list"

definition bivec_new :: "nat \<Rightarrow> nat \<Rightarrow> 'e SpecBiVec res" where
  "bivec_new inner outer =
     bindE (guardE (0 < outer) AssertFailed) (\<lambda>_.
     bindE (guardE (0 < inner) AssertFailed) (\<lambda>_.
     bindE (guardE (outer * inner \<le> 2 ^ 36) AssertFailed) (\<lambda>_.
     Inr \<lparr>sb_current = 0, sb_total_len = 0, sb_buffers = replicate outer []\<rparr>)))"

definition push_unchecked_impl :: "nat \<Rightarrow> 'e \<Rightarrow> 'e SpecBiVec \<Rightarrow> 'e SpecBiVec res" where
  "push_unchecked_impl inner value b =
     bindE (get_unchecked (sb_buffers b) (sb_current b)) (\<lambda>dst.
     bindE (if length dst = inner
            then let current = sb_current b + 1
                 in bindE (index (sb_buffers b) current) (\<lambda>_.
                    Inr (b\<lparr>sb_current := current, sb_buffers := (sb_buffers b)[current := [value]]\<rparr>))
            else bindE (guardE (length dst < inner) UndefinedBehaviour) (\<lambda>_.
                 Inr (b\<lparr>sb_buffers := (sb_buffers b)[sb_current b := dst @ [value]]\<rparr>))) (\<lambda>b.
     Inr (b\<lparr>sb_total_len := sb_total_len b + 1\<rparr>)))"

fun make_range_loop ::
  "'e list list \<Rightarrow> nat \<Rightarrow> nat \<Rightarrow> nat list \<Rightarrow> nat \<Rightarrow> 'e list list res" where
  "make_range_loop buffers e_o e_i [] inner_offset = Inr []"
| "make_range_loop buffers e_o e_i (i # is) inner_offset =
     (if i = e_o
      then if e_i \<noteq> 0
           then bindE (index buffers i) (\<lambda>buf.
                bindE (slice inner_offset e_i buf) (\<lambda>xs.
                bindE (make_range_loop buffers e_o e_i is inner_offset) (\<lambda>rest. Inr (xs # rest))))
           else make_range_loop buffers e_o e_i is inner_offset
      else bindE (index buffers i) (\<lambda>buf.
           bindE (slice inner_offset (length buf) buf) (\<lambda>xs.
           bindE (make_range_loop buffers e_o e_i is 0) (\<lambda>rest. Inr (xs # rest)))))"

definition make_range_impl :: "nat \<Rightarrow> nat \<Rightarrow> nat \<Rightarrow> 'e SpecBiVec \<Rightarrow> 'e list list res" where
  "make_range_impl inner s e b =
     bindE (guardE (e \<le> sb_total_len b) AssertFailed) (\<lambda>_.
     let s_o = s div inner; s_i = s mod inner; e_o = e div inner; e_i = e mod inner
     in bindE (guardE (s_o \<le> e_o + 1) ArithOverflow) (\<lambda>_.
        make_range_loop (sb_buffers b) e_o e_i [s_o..<e_o + 1] s_i))"

definition bivec_ops :: "nat \<Rightarrow> nat \<Rightarrow> ('e, 'e SpecBiVec) replay_buffer_ops" where
  "bivec_ops inner outer =
     \<lparr>rb_new_with_snapshots_bound = (\<lambda>bound.
        bindE (guardE (bound \<le> inner * outer) AssertFailed) (\<lambda>_. bivec_new inner outer)),
      rb_push_within_capacity_unchecked = push_unchecked_impl inner,
      rb_make_range = make_range_impl inner,
      rb_len = sb_total_len\<rparr>"

section \<open>The contract of a replay buffer\<close>

text \<open>\<open>holds b xs\<close>: the buffer is well formed and its contents are \<open>xs\<close>; \<open>capacity b\<close> elements fit.\<close>

locale replay_buffer =
  fixes B :: "('e, 'b) replay_buffer_ops" and holds :: "'b \<Rightarrow> 'e list \<Rightarrow> bool"
    and capacity :: "'b \<Rightarrow> nat"
  assumes new_holds: "rb_new_with_snapshots_bound B n = Inr b \<Longrightarrow> holds b [] \<and> n \<le> capacity b"
    and push_holds: "holds b xs \<Longrightarrow> rb_push_within_capacity_unchecked B e b = Inr b' \<Longrightarrow>
      holds b' (xs @ [e]) \<and> capacity b' = capacity b"
    and push_fits: "holds b xs \<Longrightarrow> length xs < capacity b \<Longrightarrow>
      \<exists>b'. rb_push_within_capacity_unchecked B e b = Inr b'"
    and len_holds: "holds b xs \<Longrightarrow> rb_len B b = length xs"
    and range_holds: "holds b xs \<Longrightarrow> m \<le> n \<Longrightarrow> n \<le> length xs \<Longrightarrow>
      \<exists>ls. rb_make_range B m n b = Inr ls \<and> concat ls = take (n - m) (drop m xs)"

interpretation vec: replay_buffer vec_buffer_ops "\<lambda>b xs. vb_data b = xs" vb_capacity
  by unfold_locales (auto simp: vec_buffer_ops_def vec_push_def slice_def split: if_splits)

definition bivec_holds :: "nat \<Rightarrow> nat \<Rightarrow> 'e SpecBiVec \<Rightarrow> 'e list \<Rightarrow> bool" where
  "bivec_holds inner outer b xs \<longleftrightarrow>
     0 < inner \<and> length (sb_buffers b) = outer \<and> sb_current b < outer \<and>
     sb_total_len b = length xs \<and> concat (sb_buffers b) = xs \<and>
     (\<forall>j < sb_current b. length (sb_buffers b ! j) = inner) \<and>
     length (sb_buffers b ! sb_current b) \<le> inner \<and>
     (\<forall>j. sb_current b < j \<longrightarrow> j < outer \<longrightarrow> sb_buffers b ! j = [])"

lemma concat_split_at:
  assumes "n < length bs"
  shows "concat bs = concat (take n bs) @ bs ! n @ concat (drop (Suc n) bs)"
  by (metis assms concat.simps(2) concat_append id_take_nth_drop)

lemma concat_empty: "(\<forall>j. n \<le> j \<longrightarrow> j < length bs \<longrightarrow> bs ! j = []) \<Longrightarrow> concat (drop n bs) = []"
  by (auto simp: in_set_conv_nth)

lemma length_concat_full:
  "n \<le> length bs \<Longrightarrow> (\<forall>j < n. length (bs ! j) = k) \<Longrightarrow> length (concat (take n bs)) = n * k"
proof (induction n)
  case (Suc n)
  then show ?case by (simp add: take_Suc_conv_app_nth)
qed simp

lemma drop_concat_full:
  assumes "n \<le> length bs" "\<forall>j < n. length (bs ! j) = k"
  shows "drop (n * k) (concat bs) = concat (drop n bs)"
proof -
  have "concat bs = concat (take n bs) @ concat (drop n bs)"
    by (metis append_take_drop_id concat_append)
  then show ?thesis using length_concat_full [OF assms] by simp
qed

lemma bivec_new_holds:
  assumes "bivec_new inner outer = Inr b"
  shows "bivec_holds inner outer b [] \<and> outer * inner \<le> 2 ^ 36"
  using assms by (auto simp: bivec_new_def bivec_holds_def)

lemma bivec_push_holds:
  assumes "bivec_holds inner outer b xs" "push_unchecked_impl inner e b = Inr b'"
  shows "bivec_holds inner outer b' (xs @ [e])"
proof -
  let ?c = "sb_current b" and ?bs = "sb_buffers b"
  have c: "?c < length ?bs" and xs: "xs = concat (take ?c ?bs) @ ?bs ! ?c"
    using assms(1) concat_split_at [of ?c ?bs] concat_empty [of "Suc ?c" ?bs]
    by (auto simp: bivec_holds_def)
  show ?thesis
  proof (cases "length (?bs ! ?c) = inner")
    case True
    then have b': "Suc ?c < length ?bs"
      "b' = b\<lparr>sb_current := Suc ?c, sb_buffers := ?bs[Suc ?c := [e]],
        sb_total_len := Suc (sb_total_len b)\<rparr>"
      using assms(2) c by (auto simp: push_unchecked_impl_def get_unchecked_def index_eq_Inr)
    have "concat (?bs[Suc ?c := [e]]) = xs @ [e]"
      using concat_split_at [of "Suc ?c" "?bs[Suc ?c := [e]]"] b'(1) assms(1)
        concat_empty [of "Suc (Suc ?c)" ?bs]
      by (simp add: xs take_Suc_conv_app_nth bivec_holds_def)
    then show ?thesis
      using assms(1) True b' by (auto simp: bivec_holds_def nth_list_update less_Suc_eq)
  next
    case False
    then have b': "b' = b\<lparr>sb_buffers := ?bs[?c := ?bs ! ?c @ [e]],
        sb_total_len := Suc (sb_total_len b)\<rparr>"
      using assms c by (auto simp: push_unchecked_impl_def get_unchecked_def bivec_holds_def)
    have "concat (?bs[?c := ?bs ! ?c @ [e]]) = xs @ [e]"
      using concat_split_at [of ?c "?bs[?c := ?bs ! ?c @ [e]]"] c assms(1)
        concat_empty [of "Suc ?c" ?bs]
      by (simp add: xs bivec_holds_def)
    then show ?thesis
      using assms(1) False b' c by (auto simp: bivec_holds_def nth_list_update)
  qed
qed

lemma bivec_push_fits:
  assumes "bivec_holds inner outer b xs" "length xs < inner * outer"
  shows "\<exists>b'. push_unchecked_impl inner e b = Inr b'"
proof (cases "length (sb_buffers b ! sb_current b) = inner")
  case True
  have "sb_current b + 1 < outer"
  proof (rule ccontr)
    assume "\<not> sb_current b + 1 < outer"
    then have full: "\<forall>j < outer. length (sb_buffers b ! j) = inner"
      using assms(1) True by (auto simp: bivec_holds_def less_Suc_eq) (metis less_antisym not_less_eq)
    then have "length (concat (take outer (sb_buffers b))) = outer * inner"
      using assms(1) by (intro length_concat_full) (auto simp: bivec_holds_def)
    then show False using assms by (auto simp: bivec_holds_def mult.commute)
  qed
  then show ?thesis
    using assms(1) True by (simp add: push_unchecked_impl_def get_unchecked_def index_def
        bivec_holds_def)
next
  case False
  then show ?thesis
    using assms(1) by (simp add: push_unchecked_impl_def get_unchecked_def bivec_holds_def guardE_def)
qed

lemma make_range_loop_concat:
  assumes full: "\<forall>j < e_o. j < length bs \<and> length (bs ! j) = inner"
    and last: "e_i \<noteq> 0 \<Longrightarrow> e_o < length bs \<and> e_i \<le> length (bs ! e_o)" and "e_o \<le> length bs"
    and "i \<le> e_o" "off \<le> inner" "i * inner + off \<le> e_o * inner + e_i"
  shows "\<exists>ls. make_range_loop bs e_o e_i [i..<e_o + 1] off = Inr ls \<and>
    concat ls = take (e_o * inner + e_i - (i * inner + off)) (drop (i * inner + off) (concat bs))"
  using assms(4-6)
proof (induction "e_o - i" arbitrary: i off)
  case 0
  then have i: "i = e_o" by simp
  have d: "drop (e_o * inner + off) (concat bs) = drop off (concat (drop e_o bs))"
    using drop_concat_full [of e_o bs inner] full assms(3) by (simp add: drop_drop add.commute flip: drop_drop)
  show ?case
  proof (cases "e_i = 0")
    case False
    with last have "concat (drop e_o bs) = bs ! e_o @ concat (drop (Suc e_o) bs)"
      by (simp add: Cons_nth_drop_Suc [symmetric])
    then show ?thesis using False last 0 i by (simp add: d index_def slice_def)
  qed (use 0 i in simp)
next
  case (Suc k)
  then have i: "i < e_o" and b: "length (bs ! i) = inner" "i < length bs" using full by auto
  have "Suc i * inner + 0 \<le> e_o * inner + e_i"
    using mult_le_mono1 [of "Suc i" e_o inner] i by simp
  then obtain ls where ls: "make_range_loop bs e_o e_i [Suc i..<e_o + 1] 0 = Inr ls"
    "concat ls = take (e_o * inner + e_i - Suc i * inner) (drop (Suc i * inner) (concat bs))"
    using Suc.hyps(1) [of "Suc i" 0] Suc.hyps(2) i unfolding add_0_right by (metis Suc_leI
        diff_Suc_Suc diff_Suc_1 Suc_diff_Suc zero_le)
  have d: "drop (i * inner + off) (concat bs) = drop off (bs ! i) @ drop (Suc i * inner) (concat bs)"
    using drop_concat_full [of i bs inner] drop_concat_full [of "Suc i" bs inner] full i b Suc.prems(2)
    by (simp add: Cons_nth_drop_Suc [symmetric] add.commute flip: drop_drop)
  have "Suc i * inner \<le> e_o * inner" using i by (intro mult_le_mono1) simp
  then have n: "e_o * inner + e_i - (i * inner + off) =
      (inner - off) + (e_o * inner + e_i - Suc i * inner)"
    using Suc.prems(2) by simp
  show ?case
    using i b ls Suc.prems(2) unfolding d n
    by (simp add: upt_conv_Cons index_def slice_def del: upt_Suc)
qed

lemma bivec_range_holds:
  assumes "bivec_holds inner outer b xs" "m \<le> n" "n \<le> length xs"
  shows "\<exists>ls. make_range_impl inner m n b = Inr ls \<and> concat ls = take (n - m) (drop m xs)"
proof -
  let ?c = "sb_current b" and ?bs = "sb_buffers b"
  have inv: "0 < inner" "?c < length ?bs" "length (?bs ! ?c) \<le> inner" "concat ?bs = xs"
    "\<forall>j < ?c. length (?bs ! j) = inner" "sb_total_len b = length xs"
    using assms(1) by (auto simp: bivec_holds_def)
  have len: "length xs = ?c * inner + length (?bs ! ?c)"
    using inv concat_split_at [of ?c ?bs] concat_empty [of "Suc ?c" ?bs] assms(1)
      length_concat_full [of ?c ?bs inner]
    by (auto simp: bivec_holds_def)
  let ?o = "n div inner" and ?i = "n mod inner"
  have n: "?o * inner + ?i = n" and "?i < inner" using inv(1) by simp_all
  have "?o \<le> ?c \<or> ?o = Suc ?c \<and> ?i = 0 \<and> length (?bs ! ?c) = inner"
  proof (rule ccontr)
    assume no: "\<not> ?thesis"
    then have "Suc ?c * inner \<le> ?o * inner" by (intro mult_le_mono1) simp
    moreover have "n \<le> Suc ?c * inner" using len inv(3) assms(3) by simp
    ultimately have "?o * inner = Suc ?c * inner" "?i = 0" "n = Suc ?c * inner"
      using n by linarith+
    then have "?o = Suc ?c \<and> ?i = 0 \<and> length (?bs ! ?c) = inner"
      using inv(1,3) len assms(3) by simp
    then show False using no by simp
  qed
  then have full: "\<forall>j < ?o. j < length ?bs \<and> length (?bs ! j) = inner" and "?o \<le> length ?bs"
    using inv(2,5) by (auto simp: less_Suc_eq)
  moreover have "?o < length ?bs \<and> ?i \<le> length (?bs ! ?o)" if "?i \<noteq> 0"
  proof -
    have "?o \<le> ?c" using \<open>?o \<le> ?c \<or> _\<close> that by blast
    moreover have "?i \<le> length (?bs ! ?c)" if "?o = ?c"
      using n len assms(3) that by simp
    ultimately show ?thesis using inv(2,5) \<open>?i < inner\<close> by (cases "?o = ?c") auto
  qed
  moreover have "m div inner \<le> ?o" using assms(2) by (rule div_le_mono)
  ultimately show ?thesis
    using make_range_loop_concat [of ?o ?bs inner ?i "m div inner" "m mod inner"] inv assms(2,3) n
    by (simp add: make_range_impl_def Let_def less_imp_le)
qed

interpretation bivec: replay_buffer "bivec_ops inner outer" "bivec_holds inner outer"
  "\<lambda>b. inner * outer" for inner outer
  by unfold_locales
    (auto simp: bivec_ops_def dest: bivec_new_holds bivec_push_holds bivec_push_fits
      intro: bivec_range_holds, auto simp: bivec_holds_def)

section \<open>The snapshotter\<close>

definition TRACE_CHUNK_LEN :: nat where "TRACE_CHUNK_LEN = 2 ^ 20"
definition MAX_TRACE_CHUNK_LEN :: nat where
  "MAX_TRACE_CHUNK_LEN = TRACE_CHUNK_LEN + max (max (24 + 16) (31 * 2)) (8 + 8 + 1)"

text \<open>An entry of the log: the value read and the time of the previous access, as two halves.\<close>

type_synonym log_entry = "u32 \<times> (u32 \<times> u32)"

definition log_of_read :: "u32 \<Rightarrow> u64 \<Rightarrow> log_entry" where
  "log_of_read read_value read_timestamp =
     (read_value, (ucast read_timestamp, ucast (drop_bit 32 read_timestamp)))"

definition log_of_value :: "u32 \<Rightarrow> log_entry" where
  "log_of_value value = (value, (0, 0))"

record PartialSnapshot =
  ps_reads_offset :: nat

record 'c SimpleSnapshot =
  sn_state :: "'c State"
  sn_reads_start :: nat
  sn_reads_end :: nat

record ('c, 'b) SimpleSnapshotter =
  ss_current_partial_snapshot :: PartialSnapshot
  ss_snapshots :: "'c SimpleSnapshot list"
  ss_reads_buffer :: 'b
  ss_initial_snapshot :: "'c SimpleSnapshot"

definition new_with_cycle_limit ::
  "(log_entry, 'b) replay_buffer_ops \<Rightarrow> nat \<Rightarrow> 'c State \<Rightarrow> ('c, 'b) SimpleSnapshotter res" where
  "new_with_cycle_limit B limit initial_state =
     bindE (rb_new_with_snapshots_bound B limit) (\<lambda>buf.
     Inr \<lparr>ss_current_partial_snapshot = \<lparr>ps_reads_offset = 0\<rparr>, ss_snapshots = [],
          ss_reads_buffer = buf,
          ss_initial_snapshot =
            \<lparr>sn_state = initial_state, sn_reads_start = 0, sn_reads_end = 0\<rparr>\<rparr>)"

definition snapshot_impl ::
  "(log_entry, 'b) replay_buffer_ops \<Rightarrow> 'c State \<Rightarrow> ('c, 'b) SimpleSnapshotter \<Rightarrow>
    ('c, 'b) SimpleSnapshotter" where
  "snapshot_impl B state s =
     (let new_snapshot = \<lparr>sn_state = state,
            sn_reads_start = ps_reads_offset (ss_current_partial_snapshot s),
            sn_reads_end = rb_len B (ss_reads_buffer s)\<rparr>
      in s\<lparr>ss_current_partial_snapshot := \<lparr>ps_reads_offset = rb_len B (ss_reads_buffer s)\<rparr>,
           ss_snapshots := ss_snapshots s @ [new_snapshot]\<rparr>)"

definition simple_take_snapshot_if_needed ::
  "(log_entry, 'b) replay_buffer_ops \<Rightarrow> 'c State \<Rightarrow> ('c, 'b) SimpleSnapshotter \<Rightarrow>
    (bool \<times> ('c, 'b) SimpleSnapshotter) res" where
  "simple_take_snapshot_if_needed B state s =
     (let n = rb_len B (ss_reads_buffer s); k = ps_reads_offset (ss_current_partial_snapshot s)
      in bindE (guardE (k \<le> n) ArithOverflow) (\<lambda>_.
         if TRACE_CHUNK_LEN \<le> n - k
         then bindE (guardE (n - k \<le> MAX_TRACE_CHUNK_LEN) DebugAssertFailed) (\<lambda>_.
              Inr (False, snapshot_impl B state s))
         else Inr (False, s)))"

definition simple_append ::
  "(log_entry, 'b) replay_buffer_ops \<Rightarrow> log_entry \<Rightarrow> ('c, 'b) SimpleSnapshotter \<Rightarrow>
    ('c, 'b) SimpleSnapshotter res" where
  "simple_append B e s =
     bindE (rb_push_within_capacity_unchecked B e (ss_reads_buffer s)) (\<lambda>buf.
     Inr (s\<lparr>ss_reads_buffer := buf\<rparr>))"

definition simple_snapshotter_ops ::
  "(log_entry, 'b) replay_buffer_ops \<Rightarrow> ('c, ('c, 'b) SimpleSnapshotter) snapshotter_ops" where
  "simple_snapshotter_ops B =
     \<lparr>s_take_snapshot_if_needed = simple_take_snapshot_if_needed B,
      s_take_final_snapshot = (\<lambda>state s. Inr (snapshot_impl B state s)),
      s_append_arbitrary_value = (\<lambda>value. simple_append B (log_of_value value)),
      s_append_memory_read = (\<lambda>address read_value read_timestamp write_timestamp.
        simple_append B (log_of_read read_value read_timestamp))\<rparr>"

section \<open>The contract of a recorder\<close>

text \<open>\<open>logged s xs\<close>: the accesses recorded by \<open>s\<close> are \<open>xs\<close>; an append adds one, snapshots do not change them.\<close>

locale append_log =
  fixes S :: "('c, 's) snapshotter_ops" and logged :: "'s \<Rightarrow> log_entry list \<Rightarrow> bool"
  assumes append_value: "logged s xs \<Longrightarrow> s_append_arbitrary_value S v s = Inr s' \<Longrightarrow>
      logged s' (xs @ [log_of_value v])"
    and append_read: "logged s xs \<Longrightarrow> s_append_memory_read S a v rt wt s = Inr s' \<Longrightarrow>
      logged s' (xs @ [log_of_read v rt])"

locale recorder = append_log S logged
  for S :: "('c, 's) snapshotter_ops" and logged :: "'s \<Rightarrow> log_entry list \<Rightarrow> bool" +
  assumes snapshot_keeps: "logged s xs \<Longrightarrow> s_take_snapshot_if_needed S st s = Inr (b, s') \<Longrightarrow>
      logged s' xs"
    and final_keeps: "logged s xs \<Longrightarrow> s_take_final_snapshot S st s = Inr s' \<Longrightarrow> logged s' xs"

text \<open>\<open>ready n s\<close>: \<open>n\<close> more entries can be appended.\<close>

locale appendable =
  fixes S :: "('c, 's) snapshotter_ops" and ready :: "nat \<Rightarrow> 's \<Rightarrow> bool"
  assumes append_value_ready: "ready (Suc n) s \<Longrightarrow>
      \<exists>s'. s_append_arbitrary_value S v s = Inr s' \<and> ready n s'"
    and append_read_ready: "ready (Suc n) s \<Longrightarrow>
      \<exists>s'. s_append_memory_read S a v rt wt s = Inr s' \<and> ready n s'"
    and ready_mono: "ready n s \<Longrightarrow> m \<le> n \<Longrightarrow> ready m s"

interpretation unit_appendable: appendable unit_snapshotter "\<lambda>n s. True"
  by unfold_locales (auto simp: unit_snapshotter_def)

text \<open>The ranges of the snapshots are adjacent, and the current partial snapshot starts where
  they end.\<close>

fun adjacent :: "nat \<Rightarrow> 'c SimpleSnapshot list \<Rightarrow> nat \<Rightarrow> bool" where
  "adjacent a [] b \<longleftrightarrow> a = b"
| "adjacent a (sn # sns) b \<longleftrightarrow>
     sn_reads_start sn = a \<and> a \<le> sn_reads_end sn \<and> adjacent (sn_reads_end sn) sns b"

lemma adjacent_snoc:
  "adjacent a (sns @ [sn]) b \<longleftrightarrow>
     adjacent a sns (sn_reads_start sn) \<and> sn_reads_start sn \<le> sn_reads_end sn \<and> sn_reads_end sn = b"
  by (induction sns arbitrary: a) auto

lemma adjacent_le: "adjacent a sns b \<Longrightarrow> a \<le> b"
  by (induction sns arbitrary: a) fastforce+

definition snapshots_of ::
  "('b \<Rightarrow> log_entry list \<Rightarrow> bool) \<Rightarrow> ('c, 'b) SimpleSnapshotter \<Rightarrow> log_entry list \<Rightarrow> bool" where
  "snapshots_of holds s xs \<longleftrightarrow>
     holds (ss_reads_buffer s) xs \<and>
     ps_reads_offset (ss_current_partial_snapshot s) \<le> length xs \<and>
     adjacent 0 (ss_snapshots s) (ps_reads_offset (ss_current_partial_snapshot s))"

definition room_for ::
  "('b \<Rightarrow> log_entry list \<Rightarrow> bool) \<Rightarrow> ('b \<Rightarrow> nat) \<Rightarrow> nat \<Rightarrow> ('c, 'b) SimpleSnapshotter \<Rightarrow> bool" where
  "room_for holds capacity n s \<longleftrightarrow>
     (\<exists>xs. snapshots_of holds s xs \<and> length xs + n \<le> capacity (ss_reads_buffer s))"

text \<open>The range of the buffer a snapshot stands for, and those of all snapshots in order.\<close>

definition snapshot_range ::
  "(log_entry, 'b) replay_buffer_ops \<Rightarrow> 'b \<Rightarrow> 'c SimpleSnapshot \<Rightarrow> log_entry list list res" where
  "snapshot_range B buf sn = rb_make_range B (sn_reads_start sn) (sn_reads_end sn) buf"

locale log_buffer = replay_buffer B holds capacity
  for B :: "(log_entry, 'b) replay_buffer_ops" and holds capacity
begin

lemma snapshots_of_new:
  "new_with_cycle_limit B limit st = Inr s \<Longrightarrow> snapshots_of holds s []"
  by (auto simp: new_with_cycle_limit_def snapshots_of_def dest: new_holds)

lemma snapshots_of_append:
  "snapshots_of holds s xs \<Longrightarrow> simple_append B e s = Inr s' \<Longrightarrow> snapshots_of holds s' (xs @ [e])"
  by (auto simp: simple_append_def snapshots_of_def dest: push_holds)

lemma snapshots_of_snapshot:
  "snapshots_of holds s xs \<Longrightarrow> snapshots_of holds (snapshot_impl B st s) xs"
  by (auto simp: snapshot_impl_def snapshots_of_def adjacent_snoc len_holds)

lemma snapshots_of_if_needed:
  "snapshots_of holds s xs \<Longrightarrow> simple_take_snapshot_if_needed B st s = Inr (b, s') \<Longrightarrow>
    snapshots_of holds s' xs"
  by (auto simp: simple_take_snapshot_if_needed_def Let_def snapshots_of_snapshot split: if_splits)

lemma room_for_append:
  assumes "room_for holds capacity (Suc n) s"
  shows "\<exists>s'. simple_append B e s = Inr s' \<and> room_for holds capacity n s'"
proof -
  obtain xs where xs: "snapshots_of holds s xs" "length xs + Suc n \<le> capacity (ss_reads_buffer s)"
    using assms by (auto simp: room_for_def)
  then have h: "holds (ss_reads_buffer s) xs" by (simp add: snapshots_of_def)
  obtain b' where b': "rb_push_within_capacity_unchecked B e (ss_reads_buffer s) = Inr b'"
    using push_fits [OF h, of e] xs(2) by auto
  have s': "simple_append B e s = Inr (s\<lparr>ss_reads_buffer := b'\<rparr>)"
    using b' by (simp add: simple_append_def)
  have "capacity b' = capacity (ss_reads_buffer s)" using push_holds [OF h b'] by simp
  then have "room_for holds capacity n (s\<lparr>ss_reads_buffer := b'\<rparr>)"
    unfolding room_for_def using xs(2) snapshots_of_append [OF xs(1) s']
    by (intro exI [of _ "xs @ [e]"]) simp
  then show ?thesis using s' by blast
qed

lemma room_for_mono: "room_for holds capacity n s \<Longrightarrow> m \<le> n \<Longrightarrow> room_for holds capacity m s"
  by (fastforce simp: room_for_def)

end

sublocale log_buffer \<subseteq> recorder "simple_snapshotter_ops B" "snapshots_of holds"
  by unfold_locales
    (auto simp: simple_snapshotter_ops_def snapshots_of_append snapshots_of_snapshot
      snapshots_of_if_needed)

sublocale log_buffer \<subseteq> appendable "simple_snapshotter_ops B" "room_for holds capacity"
  by unfold_locales (auto simp: simple_snapshotter_ops_def room_for_append intro: room_for_mono)

interpretation vec_log: log_buffer vec_buffer_ops "\<lambda>b xs. vb_data b = xs" vb_capacity
  by unfold_locales

interpretation bivec_log: log_buffer "bivec_ops inner outer" "bivec_holds inner outer"
  "\<lambda>b. inner * outer" for inner outer
  by unfold_locales

end
