(* ===== verification/VM_Instr.thy ===== *)
theory VM_Instr
  imports VM_Counters VM_Ram VM_Snapshot Mersenne31
begin

text \<open>
  The instructions of the machine (\<open>riscv_transpiler/src/vm/instructions\<close>), one definition per
  function of the source, in the same order of register accesses, memory accesses, log entries,
  change of the program counter and increment of a family counter.  Unused parameters are dropped:
  an instruction that only touches registers is a function of the state.
\<close>

section \<open>Second operand\<close>

text \<open>The \<open>if USE_IMM\<close> at the head of the arithmetic instructions: with an immediate, register 0 is
  touched in place of the second source.\<close>

definition second_operand :: "bool \<Rightarrow> 'c State \<Rightarrow> instruction \<Rightarrow> (u32 \<times> 'c State) res" where
  "second_operand use_imm st instr =
     (if use_imm then bindE (touch_x0 1 st) (\<lambda>st. Inr (i_imm instr, st))
      else read_register 1 (i_rs2 instr) st)"

section \<open>add_sub\<close>

definition add_op :: "'c counter_ops \<Rightarrow> bool \<Rightarrow> 'c State \<Rightarrow> instruction \<Rightarrow> 'c State res" where
  "add_op C use_imm st instr =
     bindE (read_register 0 (i_rs1 instr) st) (\<lambda>(rs1_value, st).
     bindE (second_operand use_imm st instr) (\<lambda>(rs2_value, st).
     let rd = rs1_value + rs2_value
     in bindE (write_register 2 (i_rd instr) rd st) (\<lambda>(rd, st).
        increment_family_counter C ADD_SUB_LUI_AUIPC_MOP (default_increase_pc st))))"

definition sub_op :: "'c counter_ops \<Rightarrow> 'c State \<Rightarrow> instruction \<Rightarrow> 'c State res" where
  "sub_op C st instr =
     bindE (read_register 0 (i_rs1 instr) st) (\<lambda>(rs1_value, st).
     bindE (read_register 1 (i_rs2 instr) st) (\<lambda>(rs2_value, st).
     let rd = rs1_value - rs2_value
     in bindE (write_register 2 (i_rd instr) rd st) (\<lambda>(rd, st).
        increment_family_counter C ADD_SUB_LUI_AUIPC_MOP (default_increase_pc st))))"

section \<open>binary\<close>

definition and_op :: "'c counter_ops \<Rightarrow> bool \<Rightarrow> 'c State \<Rightarrow> instruction \<Rightarrow> 'c State res" where
  "and_op C use_imm st instr =
     bindE (read_register 0 (i_rs1 instr) st) (\<lambda>(rs1_value, st).
     bindE (second_operand use_imm st instr) (\<lambda>(rs2_value, st).
     let rd = rs1_value AND rs2_value
     in bindE (write_register 2 (i_rd instr) rd st) (\<lambda>(rd, st).
        increment_family_counter C SHIFT_BINARY_CSR (default_increase_pc st))))"

definition or_op :: "'c counter_ops \<Rightarrow> bool \<Rightarrow> 'c State \<Rightarrow> instruction \<Rightarrow> 'c State res" where
  "or_op C use_imm st instr =
     bindE (read_register 0 (i_rs1 instr) st) (\<lambda>(rs1_value, st).
     bindE (second_operand use_imm st instr) (\<lambda>(rs2_value, st).
     let rd = rs1_value OR rs2_value
     in bindE (write_register 2 (i_rd instr) rd st) (\<lambda>(rd, st).
        increment_family_counter C SHIFT_BINARY_CSR (default_increase_pc st))))"

definition xor_op :: "'c counter_ops \<Rightarrow> bool \<Rightarrow> 'c State \<Rightarrow> instruction \<Rightarrow> 'c State res" where
  "xor_op C use_imm st instr =
     bindE (read_register 0 (i_rs1 instr) st) (\<lambda>(rs1_value, st).
     bindE (second_operand use_imm st instr) (\<lambda>(rs2_value, st).
     let rd = rs1_value XOR rs2_value
     in bindE (write_register 2 (i_rd instr) rd st) (\<lambda>(rd, st).
        increment_family_counter C SHIFT_BINARY_CSR (default_increase_pc st))))"

section \<open>shifts\<close>

text \<open>\<open>wrapping_shl\<close> and \<open>wrapping_shr\<close> take the shift amount modulo 32.\<close>

definition sll_op :: "'c counter_ops \<Rightarrow> bool \<Rightarrow> 'c State \<Rightarrow> instruction \<Rightarrow> 'c State res" where
  "sll_op C use_imm st instr =
     bindE (read_register 0 (i_rs1 instr) st) (\<lambda>(rs1_value, st).
     bindE (second_operand use_imm st instr) (\<lambda>(rs2_value, st).
     let rd = push_bit (unat (rs2_value mod 32)) rs1_value
     in bindE (write_register 2 (i_rd instr) rd st) (\<lambda>(rd, st).
        increment_family_counter C SHIFT_BINARY_CSR (default_increase_pc st))))"

definition srl_op :: "'c counter_ops \<Rightarrow> bool \<Rightarrow> 'c State \<Rightarrow> instruction \<Rightarrow> 'c State res" where
  "srl_op C use_imm st instr =
     bindE (read_register 0 (i_rs1 instr) st) (\<lambda>(rs1_value, st).
     bindE (second_operand use_imm st instr) (\<lambda>(rs2_value, st).
     let rd = drop_bit (unat (rs2_value mod 32)) rs1_value
     in bindE (write_register 2 (i_rd instr) rd st) (\<lambda>(rd, st).
        increment_family_counter C SHIFT_BINARY_CSR (default_increase_pc st))))"

definition sra_op :: "'c counter_ops \<Rightarrow> bool \<Rightarrow> 'c State \<Rightarrow> instruction \<Rightarrow> 'c State res" where
  "sra_op C use_imm st instr =
     bindE (read_register 0 (i_rs1 instr) st) (\<lambda>(rs1_value, st).
     bindE (second_operand use_imm st instr) (\<lambda>(rs2_value, st).
     let rd = signed_drop_bit (unat (rs2_value mod 32)) rs1_value
     in bindE (write_register 2 (i_rd instr) rd st) (\<lambda>(rd, st).
        increment_family_counter C SHIFT_BINARY_CSR (default_increase_pc st))))"

section \<open>slt\<close>

definition slt_op :: "'c counter_ops \<Rightarrow> bool \<Rightarrow> 'c State \<Rightarrow> instruction \<Rightarrow> 'c State res" where
  "slt_op C use_imm st instr =
     bindE (read_register 0 (i_rs1 instr) st) (\<lambda>(rs1_value, st).
     bindE (second_operand use_imm st instr) (\<lambda>(rs2_value, st).
     let rd = (if rs1_value <s rs2_value then 1 else 0)
     in bindE (write_register 2 (i_rd instr) rd st) (\<lambda>(rd, st).
        increment_family_counter C JUMP_BRANCH_SLT (default_increase_pc st))))"

definition sltu_op :: "'c counter_ops \<Rightarrow> bool \<Rightarrow> 'c State \<Rightarrow> instruction \<Rightarrow> 'c State res" where
  "sltu_op C use_imm st instr =
     bindE (read_register 0 (i_rs1 instr) st) (\<lambda>(rs1_value, st).
     bindE (second_operand use_imm st instr) (\<lambda>(rs2_value, st).
     let rd = (if rs1_value < rs2_value then 1 else 0)
     in bindE (write_register 2 (i_rd instr) rd st) (\<lambda>(rd, st).
        increment_family_counter C JUMP_BRANCH_SLT (default_increase_pc st))))"

section \<open>mul_div\<close>

definition mul_op :: "'c counter_ops \<Rightarrow> 'c State \<Rightarrow> instruction \<Rightarrow> 'c State res" where
  "mul_op C st instr =
     bindE (read_register 0 (i_rs1 instr) st) (\<lambda>(rs1_value, st).
     bindE (read_register 1 (i_rs2 instr) st) (\<lambda>(rs2_value, st).
     let rd = rs1_value * rs2_value
     in bindE (write_register 2 (i_rd instr) rd st) (\<lambda>(rd, st).
        increment_family_counter C MUL_DIV (default_increase_pc st))))"

definition mulhu_op :: "'c counter_ops \<Rightarrow> 'c State \<Rightarrow> instruction \<Rightarrow> 'c State res" where
  "mulhu_op C st instr =
     bindE (read_register 0 (i_rs1 instr) st) (\<lambda>(rs1_value, st).
     bindE (read_register 1 (i_rs2 instr) st) (\<lambda>(rs2_value, st).
     let rd = ucast (drop_bit 32 ((ucast rs1_value :: u64) * ucast rs2_value))
     in bindE (write_register 2 (i_rd instr) rd st) (\<lambda>(rd, st).
        increment_family_counter C MUL_DIV (default_increase_pc st))))"

definition divu_op :: "'c counter_ops \<Rightarrow> 'c State \<Rightarrow> instruction \<Rightarrow> 'c State res" where
  "divu_op C st instr =
     bindE (read_register 0 (i_rs1 instr) st) (\<lambda>(rs1_value, st).
     bindE (read_register 1 (i_rs2 instr) st) (\<lambda>(rs2_value, st).
     let rd = (if rs2_value = 0 then 0xffffffff else rs1_value div rs2_value)
     in bindE (write_register 2 (i_rd instr) rd st) (\<lambda>(rd, st).
        increment_family_counter C MUL_DIV (default_increase_pc st))))"

definition remu_op :: "'c counter_ops \<Rightarrow> 'c State \<Rightarrow> instruction \<Rightarrow> 'c State res" where
  "remu_op C st instr =
     bindE (read_register 0 (i_rs1 instr) st) (\<lambda>(rs1_value, st).
     bindE (read_register 1 (i_rs2 instr) st) (\<lambda>(rs2_value, st).
     let rd = (if rs2_value = 0 then rs1_value else rs1_value mod rs2_value)
     in bindE (write_register 2 (i_rd instr) rd st) (\<lambda>(rd, st).
        increment_family_counter C MUL_DIV (default_increase_pc st))))"

section \<open>mop\<close>

definition mop_addmod :: "'c counter_ops \<Rightarrow> 'c State \<Rightarrow> instruction \<Rightarrow> 'c State res" where
  "mop_addmod C st instr =
     bindE (read_register 0 (i_rs1 instr) st) (\<lambda>(rs1_value, st).
     bindE (read_register 1 (i_rs2 instr) st) (\<lambda>(rs2_value, st).
     bindE (from_nonreduced_u32 rs1_value) (\<lambda>operand_1.
     bindE (from_nonreduced_u32 rs2_value) (\<lambda>operand_2.
     let rd = to_reduced_u32 (add_assign_impl operand_1 operand_2)
     in bindE (write_register 2 (i_rd instr) rd st) (\<lambda>(rd, st).
        increment_family_counter C ADD_SUB_LUI_AUIPC_MOP (default_increase_pc st))))))"

definition mop_submod :: "'c counter_ops \<Rightarrow> 'c State \<Rightarrow> instruction \<Rightarrow> 'c State res" where
  "mop_submod C st instr =
     bindE (read_register 0 (i_rs1 instr) st) (\<lambda>(rs1_value, st).
     bindE (read_register 1 (i_rs2 instr) st) (\<lambda>(rs2_value, st).
     bindE (from_nonreduced_u32 rs1_value) (\<lambda>operand_1.
     bindE (from_nonreduced_u32 rs2_value) (\<lambda>operand_2.
     bindE (sub_assign_impl operand_1 operand_2) (\<lambda>difference.
     let rd = to_reduced_u32 difference
     in bindE (write_register 2 (i_rd instr) rd st) (\<lambda>(rd, st).
        increment_family_counter C ADD_SUB_LUI_AUIPC_MOP (default_increase_pc st)))))))"

definition mop_mulmod :: "'c counter_ops \<Rightarrow> 'c State \<Rightarrow> instruction \<Rightarrow> 'c State res" where
  "mop_mulmod C st instr =
     bindE (read_register 0 (i_rs1 instr) st) (\<lambda>(rs1_value, st).
     bindE (read_register 1 (i_rs2 instr) st) (\<lambda>(rs2_value, st).
     bindE (from_nonreduced_u32 rs1_value) (\<lambda>operand_1.
     bindE (from_nonreduced_u32 rs2_value) (\<lambda>operand_2.
     let rd = to_reduced_u32 (mul_assign_impl operand_1 operand_2)
     in bindE (write_register 2 (i_rd instr) rd st) (\<lambda>(rd, st).
        increment_family_counter C ADD_SUB_LUI_AUIPC_MOP (default_increase_pc st))))))"

section \<open>lui_auipc\<close>

definition lui_op :: "'c counter_ops \<Rightarrow> 'c State \<Rightarrow> instruction \<Rightarrow> 'c State res" where
  "lui_op C st instr =
     bindE (guardE (i_rs1 instr = 0) DebugAssertFailed) (\<lambda>_.
     bindE (guardE (i_rs2 instr = 0) DebugAssertFailed) (\<lambda>_.
     bindE (touch_x0 1 st) (\<lambda>st.
     let rd = i_imm instr
     in bindE (write_register 2 (i_rd instr) rd st) (\<lambda>(rd, st).
        increment_family_counter C ADD_SUB_LUI_AUIPC_MOP (default_increase_pc st)))))"

definition auipc_op :: "'c counter_ops \<Rightarrow> 'c State \<Rightarrow> instruction \<Rightarrow> 'c State res" where
  "auipc_op C st instr =
     bindE (guardE (i_rs1 instr = 0) DebugAssertFailed) (\<lambda>_.
     bindE (guardE (i_rs2 instr = 0) DebugAssertFailed) (\<lambda>_.
     bindE (touch_x0 1 st) (\<lambda>st.
     let rd = st_pc st + i_imm instr
     in bindE (write_register 2 (i_rd instr) rd st) (\<lambda>(rd, st).
        increment_family_counter C ADD_SUB_LUI_AUIPC_MOP (default_increase_pc st)))))"

section \<open>jal_jalr and branch\<close>

definition jump_to :: "u32 \<Rightarrow> 'c State \<Rightarrow> 'c State res" where
  "jump_to jump_address st =
     bindE (guardE (jump_address AND 0x3 = 0) Panic) (\<lambda>_. Inr (st\<lparr>st_pc := jump_address\<rparr>))"

definition jal_op :: "'c counter_ops \<Rightarrow> 'c State \<Rightarrow> instruction \<Rightarrow> 'c State res" where
  "jal_op C st instr =
     bindE (guardE (i_rs1 instr = 0) DebugAssertFailed) (\<lambda>_.
     bindE (guardE (i_rs2 instr = 0) DebugAssertFailed) (\<lambda>_.
     bindE (touch_x0 1 st) (\<lambda>st.
     let rd = st_pc st + 4; jump_address = st_pc st + i_imm instr
     in bindE (jump_to jump_address st) (\<lambda>st.
        bindE (write_register 2 (i_rd instr) rd st) (\<lambda>(rd, st).
        increment_family_counter C JUMP_BRANCH_SLT st)))))"

definition jalr_op :: "'c counter_ops \<Rightarrow> 'c State \<Rightarrow> instruction \<Rightarrow> 'c State res" where
  "jalr_op C st instr =
     bindE (guardE (i_rs2 instr = 0) DebugAssertFailed) (\<lambda>_.
     bindE (read_register 0 (i_rs1 instr) st) (\<lambda>(rs1_value, st).
     bindE (touch_x0 1 st) (\<lambda>st.
     let rd = st_pc st + 4; jump_address = (rs1_value + i_imm instr) AND NOT 1
     in bindE (jump_to jump_address st) (\<lambda>st.
        bindE (write_register 2 (i_rd instr) rd st) (\<lambda>(rd, st).
        increment_family_counter C JUMP_BRANCH_SLT st)))))"

definition branch_condition :: "u8 \<Rightarrow> u32 \<Rightarrow> u32 \<Rightarrow> bool res" where
  "branch_condition funct3 rs1_value rs2_value =
     bindE (if funct3 AND 0b110 = 0b000 then Inr (rs1_value = rs2_value)
            else if funct3 AND 0b110 = 0b100 then Inr (rs1_value <s rs2_value)
            else if funct3 AND 0b110 = 0b110 then Inr (rs1_value < rs2_value)
            else Inl UndefinedBehaviour) (\<lambda>should_jump.
     Inr (if 0 < (funct3 AND 0b001) then \<not> should_jump else should_jump))"

definition branch_op :: "'c counter_ops \<Rightarrow> 'c State \<Rightarrow> instruction \<Rightarrow> 'c State res" where
  "branch_op C st instr =
     bindE (read_register 0 (i_rs1 instr) st) (\<lambda>(rs1_value, st).
     bindE (read_register 1 (i_rs2 instr) st) (\<lambda>(rs2_value, st).
     let jump_address = st_pc st + i_imm instr; funct3 = i_rd instr
     in bindE (branch_condition funct3 rs1_value rs2_value) (\<lambda>should_jump.
        bindE (if should_jump then jump_to jump_address st else Inr (default_increase_pc st)) (\<lambda>st.
        bindE (write_register 2 0 0 st) (\<lambda>(rd, st).
        increment_family_counter C JUMP_BRANCH_SLT st)))))"

end
