(* ===== verification/VM_Memory.thy ===== *)
theory VM_Memory
  imports VM_Instr
begin

text \<open>
  The loads and stores (\<open>riscv_transpiler/src/vm/instructions/memory/mod.rs\<close>) and the
  non-determinism instructions (\<open>vm/instructions/zicsr/mod.rs\<close>).  A memory instruction also appends
  the value it found and the time of the previous access to the log.
\<close>

section \<open>memory\<close>

definition sw_op ::
  "'c counter_ops \<Rightarrow> ('c, 's) snapshotter_ops \<Rightarrow> 'r ram_ops \<Rightarrow> 'c State \<Rightarrow> 'r \<Rightarrow> 's \<Rightarrow> instruction \<Rightarrow>
    ('c State \<times> 'r \<times> 's) res" where
  "sw_op C S R st ram snap instr =
     bindE (read_register 0 (i_rs1 instr) st) (\<lambda>(rs1_value, st).
     bindE (read_register 1 (i_rs2 instr) st) (\<lambda>(rs2_value, st).
     let address = rs1_value + i_imm instr
     in bindE (guardE (address mod 4 = 0) Panic) (\<lambda>_.
        bindE (r_write_word R address rs2_value (st_ts st OR 2) ram)
          (\<lambda>((read_timestamp, old_value), ram).
        bindE (s_append_memory_read S address old_value read_timestamp (st_ts st OR 2) snap) (\<lambda>snap.
        bindE (increment_family_counter C LOAD_STORE_WORD_ONLY (default_increase_pc st)) (\<lambda>st.
        Inr (st, ram, snap)))))))"

definition lw_op ::
  "'c counter_ops \<Rightarrow> ('c, 's) snapshotter_ops \<Rightarrow> 'r ram_ops \<Rightarrow> 'c State \<Rightarrow> 'r \<Rightarrow> 's \<Rightarrow> instruction \<Rightarrow>
    ('c State \<times> 'r \<times> 's) res" where
  "lw_op C S R st ram snap instr =
     bindE (read_register 0 (i_rs1 instr) st) (\<lambda>(rs1_value, st).
     let address = rs1_value + i_imm instr
     in bindE (guardE (address mod 4 = 0) Panic) (\<lambda>_.
        bindE (r_read_word R address (st_ts st OR 1) ram) (\<lambda>((read_timestamp, old_value), ram).
        bindE (write_register 2 (i_rd instr) old_value st) (\<lambda>(rd, st).
        bindE (s_append_memory_read S address old_value read_timestamp (st_ts st OR 1) snap) (\<lambda>snap.
        bindE (increment_family_counter C LOAD_STORE_WORD_ONLY (default_increase_pc st)) (\<lambda>st.
        Inr (st, ram, snap)))))))"

definition sh_mask :: "u32 \<Rightarrow> u32 res" where
  "sh_mask address =
     (if address mod 4 = 0 then Inr 0xffff0000
      else if address mod 4 = 2 then Inr 0x0000ffff
      else Inl UndefinedBehaviour)"

definition sh_op ::
  "'c counter_ops \<Rightarrow> ('c, 's) snapshotter_ops \<Rightarrow> 'r ram_ops \<Rightarrow> 'c State \<Rightarrow> 'r \<Rightarrow> 's \<Rightarrow> instruction \<Rightarrow>
    ('c State \<times> 'r \<times> 's) res" where
  "sh_op C S R st ram snap instr =
     bindE (read_register 0 (i_rs1 instr) st) (\<lambda>(rs1_value, st).
     bindE (read_register 1 (i_rs2 instr) st) (\<lambda>(rs2_value, st).
     let address = rs1_value + i_imm instr
     in bindE (guardE (address mod 2 = 0) Panic) (\<lambda>_.
        let aligned_address = address AND NOT 3; value = rs2_value AND 0x0000ffff
        in bindE (r_peek_word R aligned_address ram) (\<lambda>existing_value.
           bindE (sh_mask address) (\<lambda>mask.
           let new_value = push_bit (unat ((address mod 4) * 8)) value OR (existing_value AND mask)
           in bindE (r_write_word R aligned_address new_value (st_ts st OR 2) ram)
                (\<lambda>((read_timestamp, old_value), ram).
              bindE (s_append_memory_read S aligned_address old_value read_timestamp (st_ts st OR 2)
                snap) (\<lambda>snap.
              bindE (increment_family_counter C LOAD_STORE_SUBWORD_ONLY (default_increase_pc st)) (\<lambda>st.
              Inr (st, ram, snap)))))))))"

definition sb_mask :: "u32 \<Rightarrow> u32 res" where
  "sb_mask address =
     (if address mod 4 = 0 then Inr 0xffffff00
      else if address mod 4 = 1 then Inr 0xffff00ff
      else if address mod 4 = 2 then Inr 0xff00ffff
      else if address mod 4 = 3 then Inr 0x00ffffff
      else Inl UndefinedBehaviour)"

definition sb_op ::
  "'c counter_ops \<Rightarrow> ('c, 's) snapshotter_ops \<Rightarrow> 'r ram_ops \<Rightarrow> 'c State \<Rightarrow> 'r \<Rightarrow> 's \<Rightarrow> instruction \<Rightarrow>
    ('c State \<times> 'r \<times> 's) res" where
  "sb_op C S R st ram snap instr =
     bindE (read_register 0 (i_rs1 instr) st) (\<lambda>(rs1_value, st).
     bindE (read_register 1 (i_rs2 instr) st) (\<lambda>(rs2_value, st).
     let address = rs1_value + i_imm instr;
         aligned_address = address AND NOT 3; value = rs2_value AND 0x000000ff
     in bindE (r_peek_word R aligned_address ram) (\<lambda>existing_value.
        bindE (sb_mask address) (\<lambda>mask.
        let new_value = push_bit (unat ((address mod 4) * 8)) value OR (existing_value AND mask)
        in bindE (r_write_word R aligned_address new_value (st_ts st OR 2) ram)
             (\<lambda>((read_timestamp, old_value), ram).
           bindE (s_append_memory_read S aligned_address old_value read_timestamp (st_ts st OR 2)
             snap) (\<lambda>snap.
           bindE (increment_family_counter C LOAD_STORE_SUBWORD_ONLY (default_increase_pc st)) (\<lambda>st.
           Inr (st, ram, snap))))))))"

definition lh_value :: "bool \<Rightarrow> u32 \<Rightarrow> u32 \<Rightarrow> u32" where
  "lh_value sext address old_value =
     (let value = drop_bit (unat ((address mod 4) * 8)) old_value
      in if sext then scast (ucast value :: u16) else ucast (ucast value :: u16))"

definition lh_op ::
  "'c counter_ops \<Rightarrow> ('c, 's) snapshotter_ops \<Rightarrow> 'r ram_ops \<Rightarrow> bool \<Rightarrow> 'c State \<Rightarrow> 'r \<Rightarrow> 's \<Rightarrow>
    instruction \<Rightarrow> ('c State \<times> 'r \<times> 's) res" where
  "lh_op C S R sext st ram snap instr =
     bindE (read_register 0 (i_rs1 instr) st) (\<lambda>(rs1_value, st).
     let address = rs1_value + i_imm instr
     in bindE (guardE (address mod 2 = 0) Panic) (\<lambda>_.
        let aligned_address = address AND NOT 3
        in bindE (r_read_word R aligned_address (st_ts st OR 1) ram)
             (\<lambda>((read_timestamp, old_value), ram).
           let rd = lh_value sext address old_value
           in bindE (write_register 2 (i_rd instr) rd st) (\<lambda>(rd, st).
              bindE (s_append_memory_read S aligned_address old_value read_timestamp (st_ts st OR 1)
                snap) (\<lambda>snap.
              bindE (increment_family_counter C LOAD_STORE_SUBWORD_ONLY (default_increase_pc st)) (\<lambda>st.
              Inr (st, ram, snap)))))))"

definition lb_value :: "bool \<Rightarrow> u32 \<Rightarrow> u32 \<Rightarrow> u32" where
  "lb_value sext address old_value =
     (let value = drop_bit (unat ((address mod 4) * 8)) old_value
      in if sext then scast (ucast value :: u8) else ucast (ucast value :: u8))"

definition lb_op ::
  "'c counter_ops \<Rightarrow> ('c, 's) snapshotter_ops \<Rightarrow> 'r ram_ops \<Rightarrow> bool \<Rightarrow> 'c State \<Rightarrow> 'r \<Rightarrow> 's \<Rightarrow>
    instruction \<Rightarrow> ('c State \<times> 'r \<times> 's) res" where
  "lb_op C S R sext st ram snap instr =
     bindE (read_register 0 (i_rs1 instr) st) (\<lambda>(rs1_value, st).
     let address = rs1_value + i_imm instr; aligned_address = address AND NOT 3
     in bindE (r_read_word R aligned_address (st_ts st OR 1) ram)
          (\<lambda>((read_timestamp, old_value), ram).
        let rd = lb_value sext address old_value
        in bindE (write_register 2 (i_rd instr) rd st) (\<lambda>(rd, st).
           bindE (s_append_memory_read S aligned_address old_value read_timestamp (st_ts st OR 1)
             snap) (\<lambda>snap.
           bindE (increment_family_counter C LOAD_STORE_SUBWORD_ONLY (default_increase_pc st)) (\<lambda>st.
           Inr (st, ram, snap))))))"

section \<open>zicsr\<close>

definition nd_read ::
  "'c counter_ops \<Rightarrow> ('c, 's) snapshotter_ops \<Rightarrow> 'n nd_ops \<Rightarrow> 'c State \<Rightarrow> 's \<Rightarrow> instruction \<Rightarrow> 'n \<Rightarrow>
    ('c State \<times> 's \<times> 'n) res" where
  "nd_read C S ND st snap instr nd =
     bindE (guardE (i_rs1 instr = 0) DebugAssertFailed) (\<lambda>_.
     bindE (guardE (i_rs2 instr = 0) DebugAssertFailed) (\<lambda>_.
     bindE (touch_x0 1 st) (\<lambda>st.
     bindE (n_read ND nd) (\<lambda>(rd, nd).
     bindE (s_append_arbitrary_value S rd snap) (\<lambda>snap.
     bindE (write_register 2 (i_rd instr) rd st) (\<lambda>(rd, st).
     bindE (increment_family_counter C SHIFT_BINARY_CSR (default_increase_pc st)) (\<lambda>st.
     Inr (st, snap, nd))))))))"

definition nd_write ::
  "'c counter_ops \<Rightarrow> 'r ram_ops \<Rightarrow> 'n nd_ops \<Rightarrow> 'c State \<Rightarrow> 'r \<Rightarrow> instruction \<Rightarrow> 'n \<Rightarrow>
    ('c State \<times> 'n) res" where
  "nd_write C R ND st ram instr nd =
     bindE (read_register 0 (i_rs1 instr) st) (\<lambda>(rs1_value, st).
     bindE (touch_x0 1 st) (\<lambda>st.
     bindE (n_write_with_memory_access ND (\<lambda>address. r_peek_word R address ram) rs1_value nd) (\<lambda>nd.
     bindE (write_register 2 (i_rd instr) 0 st) (\<lambda>(rd, st).
     bindE (increment_family_counter C SHIFT_BINARY_CSR (default_increase_pc st)) (\<lambda>st.
     Inr (st, nd))))))"

end
