(* ===== verification/VM_Words.thy ===== *)
theory VM_Words
  imports VM_Ram VM_Snapshot
begin

text \<open>
  The block accesses of the delegations: \<open>peek_read_words\<close>, \<open>read_words\<close> and \<open>write_back_words\<close> of
  \<open>riscv_transpiler/src/vm/delegations/blake2_round_function.rs\<close>, and the loops of the same shape
  over 64-bit limbs of \<open>delegations/bigint.rs\<close>.  The lemmas read a block as a list of the words of
  the memory, for every memory that satisfies \<open>word_memory\<close>.
\<close>

definition ROM_BYTE_SIZE :: u32 where "ROM_BYTE_SIZE = 2 ^ 22"

section \<open>Blocks of words\<close>

fun peek_read_words :: "'r ram_ops \<Rightarrow> nat \<Rightarrow> u32 \<Rightarrow> 'r \<Rightarrow> u32 list res" where
  "peek_read_words R 0 addr ram = Inr []"
| "peek_read_words R (Suc n) addr ram =
     bindE (r_peek_word R addr ram) (\<lambda>value.
     bindE (add_u32 addr 4) (\<lambda>addr.
     bindE (peek_read_words R n addr ram) (\<lambda>values.
     Inr (value # values))))"

fun read_words ::
  "'r ram_ops \<Rightarrow> ('c, 's) snapshotter_ops \<Rightarrow> nat \<Rightarrow> u32 \<Rightarrow> u64 \<Rightarrow> 'r \<Rightarrow> 's \<Rightarrow>
    (u32 list \<times> 'r \<times> 's) res" where
  "read_words R S 0 addr timestamp ram snap = Inr ([], ram, snap)"
| "read_words R S (Suc n) addr timestamp ram snap =
     bindE (r_read_word R addr timestamp ram) (\<lambda>((read_ts, value), ram).
     bindE (s_append_memory_read S addr value read_ts timestamp snap) (\<lambda>snap.
     bindE (add_u32 addr 4) (\<lambda>addr.
     bindE (read_words R S n addr timestamp ram snap) (\<lambda>(values, ram, snap).
     Inr (value # values, ram, snap)))))"

fun write_back_words ::
  "'r ram_ops \<Rightarrow> ('c, 's) snapshotter_ops \<Rightarrow> u32 list \<Rightarrow> u32 \<Rightarrow> u64 \<Rightarrow> 'r \<Rightarrow> 's \<Rightarrow> ('r \<times> 's) res"
  where
  "write_back_words R S [] addr timestamp ram snap = Inr (ram, snap)"
| "write_back_words R S (new_value # rest) addr timestamp ram snap =
     bindE (r_write_word R addr new_value timestamp ram) (\<lambda>((read_ts, low), ram).
     bindE (s_append_memory_read S addr low read_ts timestamp snap) (\<lambda>snap.
     bindE (add_u32 addr 4) (\<lambda>addr.
     write_back_words R S rest addr timestamp ram snap)))"

section \<open>Blocks of limbs\<close>

definition limb_of_words :: "u32 \<Rightarrow> u32 \<Rightarrow> u64" where
  "limb_of_words low high = (push_bit 32 (ucast high) OR ucast low)"

fun peek_limbs :: "'r ram_ops \<Rightarrow> nat \<Rightarrow> u32 \<Rightarrow> 'r \<Rightarrow> u64 list res" where
  "peek_limbs R 0 addr ram = Inr []"
| "peek_limbs R (Suc n) addr ram =
     bindE (r_peek_word R addr ram) (\<lambda>low.
     bindE (add_u32 addr 4) (\<lambda>addr.
     bindE (r_peek_word R addr ram) (\<lambda>high.
     bindE (add_u32 addr 4) (\<lambda>addr.
     bindE (peek_limbs R n addr ram) (\<lambda>limbs.
     Inr (limb_of_words low high # limbs))))))"

fun read_limbs ::
  "'r ram_ops \<Rightarrow> ('c, 's) snapshotter_ops \<Rightarrow> nat \<Rightarrow> u32 \<Rightarrow> u64 \<Rightarrow> 'r \<Rightarrow> 's \<Rightarrow>
    (u64 list \<times> 'r \<times> 's) res" where
  "read_limbs R S 0 addr timestamp ram snap = Inr ([], ram, snap)"
| "read_limbs R S (Suc n) addr timestamp ram snap =
     bindE (r_read_word R addr timestamp ram) (\<lambda>((read_ts, low), ram).
     bindE (s_append_memory_read S addr low read_ts timestamp snap) (\<lambda>snap.
     bindE (add_u32 addr 4) (\<lambda>addr.
     bindE (r_read_word R addr timestamp ram) (\<lambda>((read_ts, high), ram).
     bindE (s_append_memory_read S addr high read_ts timestamp snap) (\<lambda>snap.
     bindE (add_u32 addr 4) (\<lambda>addr.
     bindE (read_limbs R S n addr timestamp ram snap) (\<lambda>(limbs, ram, snap).
     Inr (limb_of_words low high # limbs, ram, snap))))))))"

fun write_back_limbs ::
  "'r ram_ops \<Rightarrow> ('c, 's) snapshotter_ops \<Rightarrow> u64 list \<Rightarrow> u32 \<Rightarrow> u64 \<Rightarrow> 'r \<Rightarrow> 's \<Rightarrow> ('r \<times> 's) res"
  where
  "write_back_limbs R S [] addr timestamp ram snap = Inr (ram, snap)"
| "write_back_limbs R S (src # rest) addr timestamp ram snap =
     bindE (r_write_word R addr (ucast src) timestamp ram) (\<lambda>((read_ts, low), ram).
     bindE (s_append_memory_read S addr low read_ts timestamp snap) (\<lambda>snap.
     bindE (add_u32 addr 4) (\<lambda>addr.
     bindE (r_write_word R addr (ucast (drop_bit 32 src)) timestamp ram) (\<lambda>((read_ts, high), ram).
     bindE (s_append_memory_read S addr high read_ts timestamp snap) (\<lambda>snap.
     bindE (add_u32 addr 4) (\<lambda>addr.
     write_back_limbs R S rest addr timestamp ram snap))))))"

text \<open>A limb loop is the word loop over twice as many words.\<close>

fun limbs_of_words :: "u32 list \<Rightarrow> u64 list" where
  "limbs_of_words (low # high # rest) = limb_of_words low high # limbs_of_words rest"
| "limbs_of_words _ = []"

fun words_of_limbs :: "u64 list \<Rightarrow> u32 list" where
  "words_of_limbs [] = []"
| "words_of_limbs (l # ls) = ucast l # ucast (drop_bit 32 l) # words_of_limbs ls"

lemma peek_limbs_words:
  "peek_limbs R n a ram = bindE (peek_read_words R (2 * n) a ram) (\<lambda>ws. Inr (limbs_of_words ws))"
  by (induction n arbitrary: a) (auto simp: bindE_def split: sum.splits)

lemma read_limbs_words:
  "read_limbs R S n a t ram s = bindE (read_words R S (2 * n) a t ram s)
     (\<lambda>(ws, ram, s). Inr (limbs_of_words ws, ram, s))"
  by (induction n arbitrary: a ram s) (auto simp: bindE_def split: sum.splits)

lemma write_back_limbs_words:
  "write_back_limbs R S ls a t ram s = write_back_words R S (words_of_limbs ls) a t ram s"
  by (induction ls arbitrary: a ram s) auto

lemma length_words_of_limbs [simp]: "length (words_of_limbs ls) = 2 * length ls"
  by (induction ls) auto

lemma limb_of_words_parts:
  "(ucast (limb_of_words l h) :: u32) = l" "(ucast (drop_bit 32 (limb_of_words l h)) :: u32) = h"
  by (rule bit_word_eqI; auto simp: limb_of_words_def bit_simps dest: bit_imp_le_length)+

lemma limbs_of_words_of_limbs: "limbs_of_words (words_of_limbs ls) = ls"
proof (induction ls)
  case (Cons l ls)
  have "limb_of_words (ucast l) (ucast (drop_bit 32 l)) = l"
    by (rule bit_word_eqI) (auto simp: limb_of_words_def bit_simps not_less)
  with Cons show ?case by simp
qed simp

lemma words_of_limbs_of_words:
  "even (length ws) \<Longrightarrow> words_of_limbs (limbs_of_words ws) = ws"
  by (induction ws rule: limbs_of_words.induct) (auto simp: limb_of_words_parts)

lemma length_limbs_of_words: "length (limbs_of_words ws) = length ws div 2"
  by (induction ws rule: limbs_of_words.induct) auto

section \<open>Blocks in memory\<close>

text \<open>The block of \<open>n\<close> words at address \<open>a\<close> lies in a memory of \<open>N\<close> words.\<close>

definition block_in :: "nat \<Rightarrow> u32 \<Rightarrow> nat \<Rightarrow> bool" where
  "block_in N a n \<longleftrightarrow> a mod 4 = 0 \<and> unat a + 4 * n < 2 ^ 32 \<and> unat a div 4 + n \<le> N"

definition block :: "u32 \<Rightarrow> nat \<Rightarrow> nat list" where
  "block a n = [unat a div 4..<unat a div 4 + n]"

lemma block_0 [simp]: "block a 0 = []"
  by (simp add: block_def)

lemma set_block: "i \<in> set (block a n) \<longleftrightarrow> unat a div 4 \<le> i \<and> i < unat a div 4 + n"
  by (simp add: block_def)

lemma unat_aligned: "(a :: u32) mod 4 = 0 \<longleftrightarrow> unat a mod 4 = 0"
  by (simp add: word_unat_eq_iff unat_mod)

lemma block_inD:
  assumes "block_in N a (Suc n)"
  shows "a mod 4 = 0" "unat (a div 4) = unat a div 4" "unat a div 4 < N"
    "add_u32 a 4 = Inr (a + 4)" "block_in N (a + 4) n" "unat (a + 4) div 4 = Suc (unat a div 4)"
proof -
  have a: "a mod 4 = 0" "unat a + 4 * Suc n < 2 ^ 32" "unat a div 4 + Suc n \<le> N"
    using assms by (simp_all add: block_in_def)
  then have 4: "unat (a + 4) = unat a + 4" by (simp add: unat_word_ariths)
  then show "unat (a + 4) div 4 = Suc (unat a div 4)" by simp
  then show "block_in N (a + 4) n" using a 4 by (simp add: block_in_def unat_aligned)
qed (use assms in \<open>auto simp: block_in_def add_u32_def unat_div\<close>)

lemma block_Suc:
  "block_in N a (Suc n) \<Longrightarrow> block a (Suc n) = unat a div 4 # block (a + 4) n"
  by (simp add: block_def block_inD(6) upt_conv_Cons del: upt_Suc)

lemma block_next: "block_in N a (Suc n) \<Longrightarrow> unat a div 4 \<notin> set (block (a + 4) n)"
  by (simp add: set_block block_inD(6))

locale recorded_memory =
  word_memory R words word last writable + appendable S ready
  for R :: "'r ram_ops" and words word last writable
    and S :: "('c, 's) snapshotter_ops" and ready
begin

lemma peek_block:
  "block_in (words r) a n \<Longrightarrow> peek_read_words R n a r = Inr (map (word r) (block a n))"
proof (induction n arbitrary: a)
  case (Suc n)
  note b = block_inD [OF Suc.prems]
  have "r_peek_word R a r = Inr (word r (unat a div 4))" using b peek by simp
  with Suc.IH [OF b(5)] b show ?case by (simp add: block_Suc [OF Suc.prems])
qed simp

lemma read_block:
  assumes "block_in (words r) a n" "\<forall>i \<in> set (block a n). last r i < unat (t OR 1)"
    "ready (n + m) s"
  shows "\<exists>r' s'. read_words R S n a t r s = Inr (map (word r) (block a n), r', s') \<and>
    words r' = words r \<and> word r' = word r \<and> ready m s' \<and>
    (\<forall>i. last r' i = (if i \<in> set (block a n) then unat (t OR 1) else last r i))"
  using assms
proof (induction n arbitrary: a r s)
  case (Suc n)
  note b = block_inD [OF Suc.prems(1)] and blk = block_Suc [OF Suc.prems(1)]
  obtain rt v r1 where 1: "r_read_word R a t r = Inr ((rt, v), r1)"
    using read_possible [of a t r] b Suc.prems(2) by (fastforce simp: blk)
  note e = read_effect [OF 1]
  obtain s1 where s1: "s_append_memory_read S a v rt t s = Inr s1" "ready (n + m) s1"
    using append_read_ready Suc.prems(3) by (metis add_Suc)
  have "block_in (words r1) (a + 4) n" "\<forall>i \<in> set (block (a + 4) n). last r1 i < unat (t OR 1)"
    using e b Suc.prems(2) block_next [OF Suc.prems(1)] by (auto simp: blk)
  from Suc.IH [OF this s1(2)] obtain r' s' where
    2: "read_words R S n (a + 4) t r1 s1 = Inr (map (word r1) (block (a + 4) n), r', s')"
    "words r' = words r1" "word r' = word r1" "ready m s'"
    "\<forall>i. last r' i = (if i \<in> set (block (a + 4) n) then unat (t OR 1) else last r1 i)"
    by blast
  show ?case using 1 s1 2 e b by (auto simp: blk)
qed simp

lemma write_block:
  assumes "block_in (words r) a (length vs)" "\<forall>i \<in> set (block a (length vs)). writable i"
    "\<forall>i \<in> set (block a (length vs)). last r i < unat (t OR 2)" "ready (length vs + m) s"
  shows "\<exists>r' s'. write_back_words R S vs a t r s = Inr (r', s') \<and>
    words r' = words r \<and> ready m s' \<and>
    (\<forall>i. word r' i = (if i \<in> set (block a (length vs)) then vs ! (i - unat a div 4) else word r i)) \<and>
    (\<forall>i. last r' i = (if i \<in> set (block a (length vs)) then unat (t OR 2) else last r i))"
  using assms
proof (induction vs arbitrary: a r s)
  case (Cons v vs)
  note b = block_inD [OF Cons.prems(1) [unfolded list.size add_Suc_right add_0_right]]
  have nxt: "unat a div 4 \<notin> set (block (a + 4) (length vs))"
    using b(6) by (simp add: set_block)
  have blk: "set (block a (length (v # vs))) = insert (unat a div 4) (set (block (a + 4) (length vs)))"
    using b(6) by (auto simp: set_block)
  obtain rt old r1 where 1: "r_write_word R a v t r = Inr ((rt, old), r1)"
    using write_possible [of a v t r] b Cons.prems(2,3) unfolding blk by fastforce
  note e = write_effect [OF 1]
  obtain s1 where s1: "s_append_memory_read S a old rt t s = Inr s1" "ready (length vs + m) s1"
    using append_read_ready [of "length vs + m" s a old rt t] Cons.prems(4) by auto
  have "block_in (words r1) (a + 4) (length vs)"
    "\<forall>i \<in> set (block (a + 4) (length vs)). writable i"
    "\<forall>i \<in> set (block (a + 4) (length vs)). last r1 i < unat (t OR 2)"
    using e b Cons.prems(2,3) nxt unfolding blk by auto
  from Cons.IH [OF this s1(2)] obtain r' s' where
    2: "write_back_words R S vs (a + 4) t r1 s1 = Inr (r', s')" "words r' = words r1" "ready m s'"
    "\<forall>i. word r' i = (if i \<in> set (block (a + 4) (length vs))
       then vs ! (i - unat (a + 4) div 4) else word r1 i)"
    "\<forall>i. last r' i = (if i \<in> set (block (a + 4) (length vs)) then unat (t OR 2) else last r1 i)"
    by blast
  have "word r' i = (if i \<in> set (block a (length (v # vs)))
      then (v # vs) ! (i - unat a div 4) else word r i)" for i
  proof (cases "i = unat a div 4")
    case True
    then show ?thesis using 2(4) e b(2) nxt unfolding blk by simp
  next
    case False
    then have "i - unat a div 4 = Suc (i - unat (a + 4) div 4)" if "i \<in> set (block (a + 4) (length vs))"
      using that b(6) unfolding set_block by linarith
    then show ?thesis using 2(4) e b(2) False unfolding blk by simp
  qed
  moreover have "last r' i = (if i \<in> set (block a (length (v # vs))) then unat (t OR 2) else last r i)"
    for i using 2(5) e b(2) nxt unfolding blk by simp
  moreover have "write_back_words R S (v # vs) a t r s = Inr (r', s')"
    using 1 s1 2(1) b(4) by simp
  ultimately show ?case using 2(2,3) e by metis
qed simp

end

interpretation rom_vec: recorded_memory "rom_ram_ops bits" "\<lambda>r. length (backing r)" rom_word rom_last
  "\<lambda>i. rom_words bits \<le> i" "simple_snapshotter_ops vec_buffer_ops"
  "room_for (\<lambda>b xs. vb_data b = xs) vb_capacity" for bits
  by unfold_locales

interpretation rom_bivec: recorded_memory "rom_ram_ops bits" "\<lambda>r. length (backing r)" rom_word
  rom_last "\<lambda>i. rom_words bits \<le> i" "simple_snapshotter_ops (bivec_ops inner outer)"
  "room_for (bivec_holds inner outer) (\<lambda>b. inner * outer)" for bits inner outer
  by unfold_locales

interpretation rom_unit: recorded_memory "rom_ram_ops bits" "\<lambda>r. length (backing r)" rom_word
  rom_last "\<lambda>i. rom_words bits \<le> i" unit_snapshotter "\<lambda>n s. True" for bits
  by unfold_locales

end
