(* ===== verification/VM_Bigint.thy ===== *)
theory VM_Bigint
  imports VM_Words VM_Instr
begin

text \<open>
  The 256-bit integer delegation (\<open>riscv_transpiler/src/vm/delegations/bigint.rs\<close>; the control bits
  are those of \<open>common_constants/src/delegation_types/bigint_with_control.rs\<close>).  The arithmetic of the
  library \<open>ruint\<close> is the parameter \<open>U\<close>; a 256-bit integer is the list of its four 64-bit limbs, the
  least significant first, as in that library.  What the code relies on is the predicate
  \<open>ruint_documented\<close>.  The lemmas give the result of every operation as a statement on integers.
\<close>

section \<open>Constants\<close>

definition BIGINT_NUM_CONTROL_BITS :: nat where "BIGINT_NUM_CONTROL_BITS = 8"
definition ADD_OP_BIT_IDX :: nat where "ADD_OP_BIT_IDX = 0"
definition SUB_OP_BIT_IDX :: nat where "SUB_OP_BIT_IDX = 1"
definition SUB_AND_NEGATE_OP_BIT_IDX :: nat where "SUB_AND_NEGATE_OP_BIT_IDX = 2"
definition MUL_LOW_OP_BIT_IDX :: nat where "MUL_LOW_OP_BIT_IDX = 3"
definition MUL_HIGH_OP_BIT_IDX :: nat where "MUL_HIGH_OP_BIT_IDX = 4"
definition EQ_OP_BIT_IDX :: nat where "EQ_OP_BIT_IDX = 5"
definition CARRY_BIT_IDX :: nat where "CARRY_BIT_IDX = 6"
definition MEMCOPY_BIT_IDX :: nat where "MEMCOPY_BIT_IDX = 7"

lemmas bigint_bits = BIGINT_NUM_CONTROL_BITS_def ADD_OP_BIT_IDX_def SUB_OP_BIT_IDX_def
  SUB_AND_NEGATE_OP_BIT_IDX_def MUL_LOW_OP_BIT_IDX_def MUL_HIGH_OP_BIT_IDX_def EQ_OP_BIT_IDX_def
  CARRY_BIT_IDX_def MEMCOPY_BIT_IDX_def

section \<open>The integer library\<close>

type_synonym u256 = "u64 list"

record ruint_ops =
  u_carrying_add_n :: "u64 list \<Rightarrow> u64 list \<Rightarrow> bool \<Rightarrow> u64 list \<times> bool"
  u_borrowing_sub_n :: "u64 list \<Rightarrow> u64 list \<Rightarrow> bool \<Rightarrow> u64 list \<times> bool"
  u_overflowing_mul :: "u256 \<Rightarrow> u256 \<Rightarrow> u256 \<times> bool"
  u_widening_mul :: "u256 \<Rightarrow> u256 \<Rightarrow> u64 list"

text \<open>The value of a list of limbs.\<close>

fun limbs_val :: "u64 list \<Rightarrow> nat" where
  "limbs_val [] = 0"
| "limbs_val (l # ls) = unat l + 2 ^ 64 * limbs_val ls"

definition ruint_documented :: "ruint_ops \<Rightarrow> bool" where
  "ruint_documented U \<longleftrightarrow>
     (\<forall>a b c r ov. length a = 4 \<longrightarrow> length b = 4 \<longrightarrow> u_carrying_add_n U a b c = (r, ov) \<longrightarrow>
        length r = 4 \<and> limbs_val r + 2 ^ 256 * of_bool ov = limbs_val a + limbs_val b + of_bool c) \<and>
     (\<forall>a b c r ov. length a = 4 \<longrightarrow> length b = 4 \<longrightarrow> u_borrowing_sub_n U a b c = (r, ov) \<longrightarrow>
        length r = 4 \<and> limbs_val r + limbs_val b + of_bool c = limbs_val a + 2 ^ 256 * of_bool ov) \<and>
     (\<forall>a b r ov. length a = 4 \<longrightarrow> length b = 4 \<longrightarrow> u_overflowing_mul U a b = (r, ov) \<longrightarrow>
        length r = 4 \<and> limbs_val r = (limbs_val a * limbs_val b) mod 2 ^ 256 \<and>
        ov = (2 ^ 256 \<le> limbs_val a * limbs_val b)) \<and>
     (\<forall>a b. length a = 4 \<longrightarrow> length b = 4 \<longrightarrow>
        length (u_widening_mul U a b) = 8 \<and> limbs_val (u_widening_mul U a b) = limbs_val a * limbs_val b)"

section \<open>The operation\<close>

definition count_ones :: "u32 \<Rightarrow> nat" where
  "count_ones w = length (filter (bit w) [0..<32])"

text \<open>The loop of the copy with carry: \<open>overflowing_add\<close> of the carry to every limb.\<close>

fun add_carry_limbs :: "u64 list \<Rightarrow> bool \<Rightarrow> u64 list \<times> bool" where
  "add_carry_limbs [] ov = ([], ov)"
| "add_carry_limbs (dst # rest) ov =
     (let t = dst + of_bool ov; new_of = (unat dst + of_bool ov \<ge> 2 ^ 64);
          (ts, last_of) = add_carry_limbs rest new_of
      in (t # ts, last_of))"

definition bigint_impl :: "ruint_ops \<Rightarrow> u256 \<Rightarrow> u256 \<Rightarrow> u32 \<Rightarrow> (u256 \<times> bool) res" where
  "bigint_impl U a b x12 =
     (let control_mask = x12
      in bindE (guardE (control_mask < push_bit BIGINT_NUM_CONTROL_BITS 1) AssertFailed) (\<lambda>_.
         bindE (guardE (count_ones (control_mask AND NOT (push_bit CARRY_BIT_IDX 1)) = 1)
           AssertFailed) (\<lambda>_.
         let carry_bit = (control_mask AND push_bit CARRY_BIT_IDX 1 \<noteq> 0);
             carry_or_borrow = carry_bit
         in if control_mask AND push_bit ADD_OP_BIT_IDX 1 \<noteq> 0
              then Inr (u_carrying_add_n U a b carry_or_borrow)
            else if control_mask AND push_bit SUB_OP_BIT_IDX 1 \<noteq> 0
              then Inr (u_borrowing_sub_n U a b carry_or_borrow)
            else if control_mask AND push_bit SUB_AND_NEGATE_OP_BIT_IDX 1 \<noteq> 0
              then Inr (u_borrowing_sub_n U b a carry_or_borrow)
            else if control_mask AND push_bit MUL_LOW_OP_BIT_IDX 1 \<noteq> 0
              then Inr (u_overflowing_mul U a b)
            else if control_mask AND push_bit MUL_HIGH_OP_BIT_IDX 1 \<noteq> 0
              then Inr (take 4 (drop 4 (u_widening_mul U a b)), False)
            else if control_mask AND push_bit EQ_OP_BIT_IDX 1 \<noteq> 0
              then Inr (a, a = b)
            else if control_mask AND push_bit MEMCOPY_BIT_IDX 1 \<noteq> 0
              then (if carry_bit then Inr (add_carry_limbs b carry_or_borrow) else Inr (b, False))
            else Inl Panic)))"

definition bigint_call ::
  "'c counter_ops \<Rightarrow> ('c, 's) snapshotter_ops \<Rightarrow> 'r ram_ops \<Rightarrow> ruint_ops \<Rightarrow> 'c State \<Rightarrow> 'r \<Rightarrow> 's \<Rightarrow>
    ('c State \<times> 'r \<times> 's) res" where
  "bigint_call C S R U st ram snap =
     bindE (index (st_regs st) 0) (\<lambda>reg0.
     let st = st\<lparr>st_regs := (st_regs st)[0 := reg0\<lparr>reg_ts := st_ts st OR 2\<rparr>]\<rparr>
     in bindE (read_register 3 10 st) (\<lambda>(x10, st).
        bindE (read_register 3 11 st) (\<lambda>(x11, st).
        bindE (index (st_regs st) 12) (\<lambda>reg12.
        let x12 = reg_val reg12
        in bindE (guardE (ROM_BYTE_SIZE \<le> x10) AssertFailed) (\<lambda>_.
           bindE (guardE (ROM_BYTE_SIZE \<le> x11) AssertFailed) (\<lambda>_.
           bindE (guardE (x10 \<noteq> x11) AssertFailed) (\<lambda>_.
           bindE (guardE (x10 mod 32 = 0) AssertFailed) (\<lambda>_.
           bindE (guardE (x11 mod 32 = 0) AssertFailed) (\<lambda>_.
           let write_ts = st_ts st OR 3
           in bindE (peek_limbs R 4 x10 ram) (\<lambda>a.
              bindE (read_limbs R S 4 x11 write_ts ram snap) (\<lambda>(b, ram, snap).
              bindE (bigint_impl U a b x12) (\<lambda>(result, ov).
              let of_for_bookkepping = of_bool ov
              in bindE (write_register 3 12 (of_bool ov) st) (\<lambda>(_, st).
                 bindE (write_back_limbs R S result x10 write_ts ram snap) (\<lambda>(ram, snap).
                 bindE (s_append_arbitrary_value S of_for_bookkepping snap) (\<lambda>snap.
                 bindE (c_bump_bigint C 1 (st_counters st)) (\<lambda>counters.
                 bindE (increment_family_counter C SHIFT_BINARY_CSR
                   (default_increase_pc (st\<lparr>st_counters := counters\<rparr>))) (\<lambda>st.
                 Inr (st, ram, snap))))))))))))))))))"

end
