(* ===== verification/Blake2s.thy ===== *)
theory Blake2s
  imports VM_State
begin

text \<open>
  The hash function of the crate \<open>blake2s_u32\<close>: the mixing function (\<open>mixing_function.rs\<close>), the
  reference implementation (\<open>baseline.rs\<close>), the one that keeps state and scratch space in one array
  (\<open>state.rs\<close>), and the evaluator whose rounds the virtual machine's delegation computes
  (\<open>state_with_extended_control.rs\<close>, its path for other targets than the machine).
  An array of fixed length is a list; an index that this length bounds is written \<open>!\<close>.
\<close>

section \<open>Constants\<close>

definition BLAKE2S_BLOCK_SIZE_BYTES :: u32 where "BLAKE2S_BLOCK_SIZE_BYTES = 64"

definition IV :: "u32 list" where
  "IV = [0x6A09E667, 0xBB67AE85, 0x3C6EF372, 0xA54FF53A, 0x510E527F, 0x9B05688C, 0x1F83D9AB,
     0x5BE0CD19]"

definition IV_0_TWIST :: u32 where
  "IV_0_TWIST = 0x6A09E667 XOR 0x01010000 XOR 32"

definition SIGMAS :: "nat list list" where
  "SIGMAS =
    [[0, 1, 2, 3, 4, 5, 6, 7, 8, 9, 10, 11, 12, 13, 14, 15],
     [14, 10, 4, 8, 9, 15, 13, 6, 1, 12, 0, 2, 11, 7, 5, 3],
     [11, 8, 12, 0, 5, 2, 15, 13, 10, 14, 3, 6, 7, 1, 9, 4],
     [7, 9, 3, 1, 13, 12, 11, 14, 2, 6, 5, 10, 4, 0, 15, 8],
     [9, 0, 5, 7, 2, 4, 10, 15, 14, 1, 11, 12, 6, 8, 3, 13],
     [2, 12, 6, 10, 0, 11, 8, 3, 4, 13, 7, 5, 15, 14, 1, 9],
     [12, 5, 1, 15, 14, 13, 4, 10, 0, 7, 6, 3, 9, 2, 8, 11],
     [13, 11, 7, 14, 12, 1, 3, 9, 5, 0, 15, 4, 8, 6, 2, 10],
     [6, 15, 14, 9, 11, 3, 0, 8, 12, 2, 13, 7, 1, 4, 10, 5],
     [10, 2, 8, 4, 7, 6, 1, 5, 15, 11, 9, 14, 3, 12, 13, 0]]"

definition CONFIGURED_IV :: "u32 list" where
  "CONFIGURED_IV = IV[0 := IV_0_TWIST]"

section \<open>The mixing function\<close>

definition g_function ::
  "u32 list \<Rightarrow> nat \<Rightarrow> nat \<Rightarrow> nat \<Rightarrow> nat \<Rightarrow> u32 \<Rightarrow> u32 \<Rightarrow> u32 list" where
  "g_function v a b c d x y =
     (let v = v[a := v ! a + v ! b + x];
          v = v[d := word_rotr 16 (v ! d XOR v ! a)];
          v = v[c := v ! c + v ! d];
          v = v[b := word_rotr 12 (v ! b XOR v ! c)];
          v = v[a := v ! a + v ! b + y];
          v = v[d := word_rotr 8 (v ! d XOR v ! a)];
          v = v[c := v ! c + v ! d];
          v = v[b := word_rotr 7 (v ! b XOR v ! c)]
      in v)"

definition mixing_function :: "u32 list \<Rightarrow> u32 list \<Rightarrow> nat list \<Rightarrow> u32 list" where
  "mixing_function state m sigma =
     (let state = g_function state 0 4 8 12 (m ! (sigma ! 0)) (m ! (sigma ! 1));
          state = g_function state 1 5 9 13 (m ! (sigma ! 2)) (m ! (sigma ! 3));
          state = g_function state 2 6 10 14 (m ! (sigma ! 4)) (m ! (sigma ! 5));
          state = g_function state 3 7 11 15 (m ! (sigma ! 6)) (m ! (sigma ! 7));
          state = g_function state 0 5 10 15 (m ! (sigma ! 8)) (m ! (sigma ! 9));
          state = g_function state 1 6 11 12 (m ! (sigma ! 10)) (m ! (sigma ! 11));
          state = g_function state 2 7 8 13 (m ! (sigma ! 12)) (m ! (sigma ! 13));
          state = g_function state 3 4 9 14 (m ! (sigma ! 14)) (m ! (sigma ! 15))
      in state)"

definition mixing_rounds :: "nat \<Rightarrow> u32 list \<Rightarrow> u32 list \<Rightarrow> u32 list" where
  "mixing_rounds n state m = fold (\<lambda>i state. mixing_function state m (SIGMAS ! i)) [0..<n] state"

definition round_function_reduced_rounds :: "u32 list \<Rightarrow> u32 list \<Rightarrow> u32 list" where
  "round_function_reduced_rounds state m = mixing_rounds 7 state m"

definition round_function_full_rounds :: "u32 list \<Rightarrow> u32 list \<Rightarrow> u32 list" where
  "round_function_full_rounds state m = mixing_rounds 10 state m"

text \<open>The choice by the constant parameter \<open>REDUCED_ROUNDS\<close> in every function below.\<close>

definition round_function :: "bool \<Rightarrow> u32 list \<Rightarrow> u32 list \<Rightarrow> u32 list" where
  "round_function reduced state m =
     (if reduced then round_function_reduced_rounds state m else round_function_full_rounds state m)"

text \<open>The last loop of every function below: \<open>h[i] ^= extended[i] ^ extended[i + 8]\<close>.\<close>

definition xor_halves :: "u32 list \<Rightarrow> u32 list \<Rightarrow> u32 list" where
  "xor_halves h e = map (\<lambda>i. h ! i XOR e ! i XOR e ! (i + 8)) [0..<8]"

section \<open>baseline.rs\<close>

record Blake2sState =
  bs_state :: "u32 list"
  bs_input_buffer :: "u32 list"
  bs_t :: u32

definition blake_new :: Blake2sState where
  "blake_new = \<lparr>bs_state = CONFIGURED_IV, bs_input_buffer = replicate 16 0, bs_t = 0\<rparr>"

definition blake_reset :: "Blake2sState \<Rightarrow> Blake2sState" where
  "blake_reset s = s\<lparr>bs_state := CONFIGURED_IV, bs_t := 0\<rparr>"

definition extended_of :: "u32 list \<Rightarrow> u32 \<Rightarrow> u32 \<Rightarrow> u32 list" where
  "extended_of h t f =
     [h ! 0, h ! 1, h ! 2, h ! 3, h ! 4, h ! 5, h ! 6, h ! 7, IV ! 0, IV ! 1, IV ! 2, IV ! 3,
      t XOR IV ! 4, IV ! 5, f XOR IV ! 6, IV ! 7]"

definition spec_run_single_round_into_destination ::
  "bool \<Rightarrow> usize \<Rightarrow> Blake2sState \<Rightarrow> u32 list res" where
  "spec_run_single_round_into_destination reduced block_len s =
     bindE (mul_u64 block_len 4) (\<lambda>bytes.
     let extended_state = round_function reduced
           (extended_of (bs_state s) (ucast bytes) 0xffffffff) (bs_input_buffer s)
     in Inr (xor_halves CONFIGURED_IV extended_state))"

definition run_round_function_with_byte_len ::
  "bool \<Rightarrow> usize \<Rightarrow> bool \<Rightarrow> Blake2sState \<Rightarrow> Blake2sState res" where
  "run_round_function_with_byte_len reduced input_size_bytes last_round s =
     bindE (add_u32 (bs_t s) (ucast input_size_bytes)) (\<lambda>t.
     let extended_state = round_function reduced
           (extended_of (bs_state s) t (0xffffffff * of_bool last_round)) (bs_input_buffer s)
     in Inr (s\<lparr>bs_t := t, bs_state := xor_halves (bs_state s) extended_state\<rparr>))"

definition run_round_function ::
  "bool \<Rightarrow> usize \<Rightarrow> bool \<Rightarrow> Blake2sState \<Rightarrow> Blake2sState res" where
  "run_round_function reduced input_size_words last_round s =
     bindE (mul_u64 input_size_words 4) (\<lambda>bytes.
     run_round_function_with_byte_len reduced bytes last_round s)"

definition blake_absorb :: "bool \<Rightarrow> u32 list \<Rightarrow> Blake2sState \<Rightarrow> Blake2sState res" where
  "blake_absorb reduced message_block s =
     bindE (add_u32 (bs_t s) BLAKE2S_BLOCK_SIZE_BYTES) (\<lambda>t.
     let extended_state = round_function reduced (extended_of (bs_state s) t 0) message_block
     in Inr (s\<lparr>bs_t := t, bs_state := xor_halves (bs_state s) extended_state\<rparr>))"

definition blake_absorb_final_block ::
  "bool \<Rightarrow> u32 list \<Rightarrow> usize \<Rightarrow> Blake2sState \<Rightarrow> (u32 list \<times> Blake2sState) res" where
  "blake_absorb_final_block reduced message_block block_len s =
     bindE (mul_u64 block_len 4) (\<lambda>bytes.
     bindE (add_u32 (bs_t s) (ucast bytes)) (\<lambda>t.
     let extended_state = round_function reduced (extended_of (bs_state s) t 0xffffffff) message_block
     in Inr (xor_halves (bs_state s) extended_state, s\<lparr>bs_t := t\<rparr>)))"

definition blake_compress_two_to_one :: "bool \<Rightarrow> u32 list \<Rightarrow> u32 list" where
  "blake_compress_two_to_one reduced message_block =
     (let extended_state = round_function reduced
            (extended_of CONFIGURED_IV BLAKE2S_BLOCK_SIZE_BYTES 0xffffffff) message_block
      in xor_halves CONFIGURED_IV extended_state)"

section \<open>state.rs\<close>

record ExtendedBlake2sState =
  xs_extended_state :: "u32 list"
  xs_t :: u32

definition INITIAL_EXTENDED_STATE :: "u32 list" where
  "INITIAL_EXTENDED_STATE = map (\<lambda>i. if i < 8 then CONFIGURED_IV ! i else 0) [0..<16]"

definition xblake_new :: ExtendedBlake2sState where
  "xblake_new = \<lparr>xs_extended_state = INITIAL_EXTENDED_STATE, xs_t = 0\<rparr>"

text \<open>\<open>for i in 0..8 { extended_state[i + 8] = IV[i]; }\<close>\<close>

definition load_iv :: "u32 list \<Rightarrow> u32 list" where
  "load_iv e = fold (\<lambda>i e. e[i + 8 := IV ! i]) [0..<8] e"

definition xblake_absorb ::
  "bool \<Rightarrow> u32 list \<Rightarrow> ExtendedBlake2sState \<Rightarrow> ExtendedBlake2sState res" where
  "xblake_absorb reduced message_block s =
     (let h = take 8 (xs_extended_state s);
          e = load_iv (xs_extended_state s)
      in bindE (add_u32 (xs_t s) BLAKE2S_BLOCK_SIZE_BYTES) (\<lambda>t.
         let e = e[12 := e ! 12 XOR t];
             e = round_function reduced e message_block
         in Inr (s\<lparr>xs_t := t, xs_extended_state :=
              fold (\<lambda>i e. e[i := e ! i XOR h ! i XOR e ! (i + 8)]) [0..<8] e\<rparr>)))"

definition xblake_absorb_final_block ::
  "bool \<Rightarrow> u32 list \<Rightarrow> usize \<Rightarrow> ExtendedBlake2sState \<Rightarrow> (u32 list \<times> ExtendedBlake2sState) res"
  where
  "xblake_absorb_final_block reduced message_block block_len s =
     (let dst = take 8 (xs_extended_state s);
          e = load_iv (xs_extended_state s)
      in bindE (mul_u64 block_len 4) (\<lambda>bytes.
         bindE (add_u32 (xs_t s) (ucast bytes)) (\<lambda>t.
         let e = e[12 := e ! 12 XOR t];
             e = e[14 := e ! 14 XOR 0xffffffff];
             e = round_function reduced e message_block
         in Inr (xor_halves dst e, s\<lparr>xs_t := t, xs_extended_state := e\<rparr>))))"

definition xblake_compress_two_to_one :: "bool \<Rightarrow> u32 list \<Rightarrow> u32 list res" where
  "xblake_compress_two_to_one reduced message_block =
     (let this = xblake_new;
          dst = take 8 (xs_extended_state this);
          e = load_iv (xs_extended_state this)
      in bindE (add_u32 (xs_t this) BLAKE2S_BLOCK_SIZE_BYTES) (\<lambda>t.
         let e = e[12 := e ! 12 XOR t];
             e = e[14 := e ! 14 XOR 0xffffffff];
             e = round_function reduced e message_block
         in Inr (xor_halves dst e)))"

section \<open>state_with_extended_control.rs\<close>

record Blake2RoundFunctionEvaluator =
  ev_state :: "u32 list"
  ev_extended_state :: "u32 list"
  ev_input_buffer :: "u32 list"
  ev_t :: u32

definition evaluator_reset :: "Blake2RoundFunctionEvaluator \<Rightarrow> Blake2RoundFunctionEvaluator" where
  "evaluator_reset s = s\<lparr>ev_state := CONFIGURED_IV, ev_t := 0\<rparr>"

definition run_round_function_with_input_and_byte_len ::
  "bool \<Rightarrow> u32 list \<Rightarrow> usize \<Rightarrow> bool \<Rightarrow> Blake2RoundFunctionEvaluator \<Rightarrow>
    Blake2RoundFunctionEvaluator res" where
  "run_round_function_with_input_and_byte_len reduced input_buffer input_size_bytes last_round s =
     bindE (add_u32 (ev_t s) (ucast input_size_bytes)) (\<lambda>t.
     let extended_state = round_function reduced
           (extended_of (ev_state s) t (0xffffffff * of_bool last_round)) input_buffer
     in Inr (s\<lparr>ev_t := t, ev_state := xor_halves (ev_state s) extended_state\<rparr>))"

definition run_round_function_with_input ::
  "bool \<Rightarrow> u32 list \<Rightarrow> usize \<Rightarrow> bool \<Rightarrow> Blake2RoundFunctionEvaluator \<Rightarrow>
    Blake2RoundFunctionEvaluator res" where
  "run_round_function_with_input reduced input_buffer input_size_words last_round s =
     bindE (mul_u64 input_size_words 4) (\<lambda>bytes.
     run_round_function_with_input_and_byte_len reduced input_buffer bytes last_round s)"

definition compress_node :: "bool \<Rightarrow> bool \<Rightarrow> Blake2RoundFunctionEvaluator \<Rightarrow>
    Blake2RoundFunctionEvaluator" where
  "compress_node reduced is_right s =
     (let extended_state = extended_of CONFIGURED_IV BLAKE2S_BLOCK_SIZE_BYTES 0xffffffff;
          input = (if is_right then take 8 (ev_input_buffer s) @ ev_state s
                   else ev_state s @ take 8 (ev_input_buffer s));
          extended_state = round_function reduced extended_state input
      in s\<lparr>ev_state := xor_halves CONFIGURED_IV extended_state\<rparr>)"

section \<open>Equivalences\<close>

lemma length_g_function [simp]: "length (g_function v a b c d x y) = length v"
  by (simp add: g_function_def Let_def)

lemma length_mixing_function [simp]: "length (mixing_function v m sigma) = length v"
  by (simp add: mixing_function_def Let_def)

lemma mixing_rounds_0 [simp]: "mixing_rounds 0 v m = v"
  by (simp add: mixing_rounds_def)

lemma mixing_rounds_Suc:
  "mixing_rounds (Suc n) v m = mixing_function (mixing_rounds n v m) m (SIGMAS ! n)"
  by (simp add: mixing_rounds_def)

lemma length_mixing_rounds [simp]: "length (mixing_rounds n v m) = length v"
  by (induction n) (simp_all add: mixing_rounds_Suc)

lemma length_round_function [simp]: "length (round_function r v m) = length v"
  by (simp add: round_function_def round_function_reduced_rounds_def round_function_full_rounds_def)

lemma length_xor_halves [simp]: "length (xor_halves h e) = 8"
  by (simp add: xor_halves_def)

lemma length_IV [simp]: "length IV = 8" "length CONFIGURED_IV = 8"
  by (simp_all add: IV_def CONFIGURED_IV_def)

lemma upt_8: "[0..<8] = [0, 1, 2, 3, 4, 5, 6, 7 :: nat]"
  by (simp add: upt_conv_Cons)

lemma list_8:
  assumes "length (xs :: 'a list) = 8"
  shows "xs = [xs ! 0, xs ! 1, xs ! 2, xs ! 3, xs ! 4, xs ! 5, xs ! 6, xs ! 7]"
proof -
  have "xs = map ((!) xs) [0..<8]" using assms map_nth [of xs] by simp
  then show ?thesis by (simp add: upt_8)
qed

lemma extended_of_load_iv:
  assumes "length e = 16"
  shows "(load_iv e)[12 := load_iv e ! 12 XOR t] = extended_of (take 8 e) t 0"
    "((load_iv e)[12 := load_iv e ! 12 XOR t])[14 := load_iv e ! 14 XOR 0xffffffff] =
      extended_of (take 8 e) t 0xffffffff"
proof -
  obtain a b where e: "e = a @ b" "length a = 8" "length b = 8"
    using assms by (intro that [of "take 8 e" "drop 8 e"]) simp_all
  show "(load_iv e)[12 := load_iv e ! 12 XOR t] = extended_of (take 8 e) t 0"
    using e by (subst e(1), subst list_8 [OF e(2)], subst list_8 [OF e(3)])
      (simp add: load_iv_def upt_8 extended_of_def xor.commute)
  show "((load_iv e)[12 := load_iv e ! 12 XOR t])[14 := load_iv e ! 14 XOR 0xffffffff] =
      extended_of (take 8 e) t 0xffffffff"
    using e by (subst e(1), subst list_8 [OF e(2)], subst list_8 [OF e(3)])
      (simp add: load_iv_def upt_8 extended_of_def xor.commute)
qed

end
