(* ===== verification/VM_Blake.thy ===== *)
theory VM_Blake
  imports VM_Words VM_Instr Blake2s
begin

text \<open>
  The Blake2s round delegation (\<open>riscv_transpiler/src/vm/delegations/blake2_round_function.rs\<close>): the
  specification of one round (\<open>blake2_round_function_impl\<close>), which the circuit proves and whose control
  register counts the rounds, and the machine's execution of all rounds of a permutation in one
  step (\<open>blake2_round_function_call\<close>).
\<close>

section \<open>Constants\<close>

definition BLAKE2S_MAX_ROUNDS :: nat where "BLAKE2S_MAX_ROUNDS = 10"
definition BLAKE2S_NUM_CONTROL_BITS :: nat where "BLAKE2S_NUM_CONTROL_BITS = 3"
definition TEST_IF_REDUCE_ROUNDS_MASK :: u32 where "TEST_IF_REDUCE_ROUNDS_MASK = push_bit 0 1"
definition TEST_IF_INPUT_IS_RIGHT_NODE_MASK :: u32 where
  "TEST_IF_INPUT_IS_RIGHT_NODE_MASK = push_bit 1 1"
definition TEST_IF_COMPRESSION_MODE_MASK :: u32 where "TEST_IF_COMPRESSION_MODE_MASK = push_bit 2 1"

section \<open>Parts shared by the round and the call\<close>

definition blake_control_bitmask :: "u32 \<Rightarrow> u32" where
  "blake_control_bitmask x12 = drop_bit 16 x12 AND (push_bit BLAKE2S_NUM_CONTROL_BITS 1 - 1)"

definition blake_permutation_bitmask :: "u32 \<Rightarrow> u32" where
  "blake_permutation_bitmask x12 = drop_bit (16 + BLAKE2S_NUM_CONTROL_BITS) x12"

definition has_mask :: "u32 \<Rightarrow> u32 \<Rightarrow> bool" where
  "has_mask control flag \<longleftrightarrow> control AND flag = flag"

definition trailing_zeros :: "u32 \<Rightarrow> nat" where
  "trailing_zeros w = length (takeWhile (\<lambda>i. \<not> bit w i) [0..<32])"

text \<open>The extended state before the first round.\<close>

definition blake_prepare :: "bool \<Rightarrow> u32 list \<Rightarrow> u32 list \<Rightarrow> u32 list" where
  "blake_prepare mode_compression blake_state e =
     (if mode_compression
      then let e = fold (\<lambda>i e. e[i := CONFIGURED_IV ! i, i + 8 := IV ! i]) [0..<8] e;
               e = e[12 := e ! 12 XOR BLAKE2S_BLOCK_SIZE_BYTES]
           in e[14 := e ! 14 XOR 0xffffffff]
      else let e = fold (\<lambda>i e. e[i := blake_state ! i]) [0..<8] e
           in e[8 := IV ! 0, 9 := IV ! 1, 10 := IV ! 2, 11 := IV ! 3, 13 := IV ! 5, 15 := IV ! 7])"

text \<open>The message block of a round.\<close>

definition blake_message :: "bool \<Rightarrow> bool \<Rightarrow> u32 list \<Rightarrow> u32 list \<Rightarrow> u32 list" where
  "blake_message mode_compression is_right blake_state input =
     (if mode_compression
      then (if is_right then take 8 input @ blake_state else blake_state @ take 8 input)
      else input)"

text \<open>The update of the state after the last round.\<close>

definition blake_finish :: "bool \<Rightarrow> u32 list \<Rightarrow> u32 list \<Rightarrow> u32 list" where
  "blake_finish mode_compression blake_state e =
     xor_halves (if mode_compression then CONFIGURED_IV else blake_state) e"

section \<open>One round\<close>

definition blake2_round_function_impl ::
  "u32 list \<Rightarrow> u32 list \<Rightarrow> u32 \<Rightarrow> (u32 list \<times> u32) res" where
  "blake2_round_function_impl state_accesses input x12 =
     (let blake_state = take 8 state_accesses; extended_state = drop 8 state_accesses;
          control_bitmask = blake_control_bitmask x12;
          mode_compression = has_mask control_bitmask TEST_IF_COMPRESSION_MODE_MASK;
          reduced_rounds = has_mask control_bitmask TEST_IF_REDUCE_ROUNDS_MASK;
          is_right = has_mask control_bitmask TEST_IF_INPUT_IS_RIGHT_NODE_MASK;
          permutation_bitmask = blake_permutation_bitmask x12
      in bindE (guardE (is_power_of_two permutation_bitmask) AssertFailed) (\<lambda>_.
         let permutation_index = trailing_zeros permutation_bitmask;
             last_round = (permutation_index = 9 \<or> (reduced_rounds \<and> permutation_index = 6));
             shifted_permutation_bitmask =
               push_bit 1 permutation_bitmask AND (push_bit BLAKE2S_MAX_ROUNDS 1 - 1);
             updated_x12 = push_bit 16
               (control_bitmask OR push_bit BLAKE2S_NUM_CONTROL_BITS shifted_permutation_bitmask);
             extended_state = (if permutation_index = 0
               then blake_prepare mode_compression blake_state extended_state else extended_state);
             buffer = blake_message mode_compression is_right blake_state input
         in bindE (index SIGMAS permutation_index) (\<lambda>sigma.
            let extended_state = mixing_function extended_state buffer sigma;
                blake_state = (if last_round
                  then blake_finish mode_compression blake_state extended_state else blake_state)
            in Inr (blake_state @ extended_state, updated_x12))))"

section \<open>The call\<close>

text \<open>The loop over the rounds; the state is updated in the last one.\<close>

fun blake_rounds ::
  "bool \<Rightarrow> bool \<Rightarrow> nat \<Rightarrow> u32 list \<Rightarrow> nat list \<Rightarrow> u32 list \<times> u32 list \<Rightarrow> (u32 list \<times> u32 list) res"
  where
  "blake_rounds mode_compression is_right num_rounds input [] (blake_state, e) = Inr (blake_state, e)"
| "blake_rounds mode_compression is_right num_rounds input (round # rounds) (blake_state, e) =
     (let last_round = (round = num_rounds - 1);
          buffer = blake_message mode_compression is_right blake_state input
      in bindE (index SIGMAS round) (\<lambda>sigma.
         let e = mixing_function e buffer sigma;
             blake_state = (if last_round then blake_finish mode_compression blake_state e
                            else blake_state)
         in blake_rounds mode_compression is_right num_rounds input rounds (blake_state, e)))"

definition blake_final_x12 :: "bool \<Rightarrow> u32 \<Rightarrow> u32" where
  "blake_final_x12 reduced_rounds control_bitmask =
     (let final_permutation_bitmask =
            (if reduced_rounds then push_bit 7 1 AND (push_bit BLAKE2S_MAX_ROUNDS 1 - 1)
             else push_bit 10 1 AND (push_bit BLAKE2S_MAX_ROUNDS 1 - 1))
      in push_bit 16
           (control_bitmask OR push_bit BLAKE2S_NUM_CONTROL_BITS final_permutation_bitmask))"

definition blake2_round_function_call ::
  "'c counter_ops \<Rightarrow> ('c, 's) snapshotter_ops \<Rightarrow> 'r ram_ops \<Rightarrow> 'c State \<Rightarrow> 'r \<Rightarrow> 's \<Rightarrow>
    ('c State \<times> 'r \<times> 's) res" where
  "blake2_round_function_call C S R st ram snap =
     bindE (index (st_regs st) 10) (\<lambda>reg10.
     bindE (index (st_regs st) 11) (\<lambda>reg11.
     bindE (index (st_regs st) 12) (\<lambda>reg12.
     bindE (index (st_regs st) 0) (\<lambda>reg0.
     let x10 = reg_val reg10; x11 = reg_val reg11; x12 = reg_val reg12
     in bindE (guardE (ROM_BYTE_SIZE \<le> x10) AssertFailed) (\<lambda>_.
        bindE (guardE (ROM_BYTE_SIZE \<le> x11) AssertFailed) (\<lambda>_.
        bindE (guardE (x10 \<noteq> x11) AssertFailed) (\<lambda>_.
        bindE (guardE (x10 mod 128 = 0) AssertFailed) (\<lambda>_.
        bindE (guardE (x11 mod 64 = 0) AssertFailed) (\<lambda>_.
        let control_bitmask = blake_control_bitmask x12;
            mode_compression = has_mask control_bitmask TEST_IF_COMPRESSION_MODE_MASK;
            reduced_rounds = has_mask control_bitmask TEST_IF_REDUCE_ROUNDS_MASK;
            is_right = has_mask control_bitmask TEST_IF_INPUT_IS_RIGHT_NODE_MASK;
            permutation_bitmask = blake_permutation_bitmask x12
        in bindE (guardE (is_power_of_two permutation_bitmask) AssertFailed) (\<lambda>_.
           bindE (guardE (trailing_zeros permutation_bitmask = 0) AssertFailed) (\<lambda>_.
           let final_x12 = blake_final_x12 reduced_rounds control_bitmask;
               num_rounds = (if reduced_rounds then 7 else 10 :: nat);
               shift = word_of_nat (num_rounds - 1) * TIMESTAMP_STEP
           in bindE (add_u64 (st_ts st) shift) (\<lambda>last_ts.
              bindE (add_u64 last_ts 3) (\<lambda>reg_time.
              let st = st\<lparr>st_regs := (st_regs st)
                    [10 := reg10\<lparr>reg_ts := reg_time\<rparr>, 11 := reg11\<lparr>reg_ts := reg_time\<rparr>,
                     12 := \<lparr>reg_ts = reg_time, reg_val = final_x12\<rparr>,
                     0 := reg0\<lparr>reg_ts := last_ts OR 2\<rparr>]\<rparr>
              in bindE (peek_read_words R 24 x10 ram) (\<lambda>blake_state_full.
                 bindE (peek_read_words R 16 x11 ram) (\<lambda>input.
                 let blake_state = take 8 blake_state_full;
                     extended_state =
                       blake_prepare mode_compression blake_state (drop 8 blake_state_full)
                 in bindE (blake_rounds mode_compression is_right num_rounds input [0..<num_rounds]
                      (blake_state, extended_state)) (\<lambda>(blake_state, extended_state).
                    let write_ts = last_ts OR 3
                    in bindE (write_back_words R S (blake_state @ extended_state) x10 write_ts ram snap)
                         (\<lambda>(ram, snap).
                       bindE (read_words R S 16 x11 write_ts ram snap) (\<lambda>(_, ram, snap).
                       bindE (c_bump_blake C (word_of_nat num_rounds) (st_counters st)) (\<lambda>counters.
                       bindE (c_log_multiple C SHIFT_BINARY_CSR (word_of_nat num_rounds) counters)
                         (\<lambda>counters.
                       Inr (st\<lparr>st_ts := last_ts, st_pc := st_pc st + 4 * word_of_nat num_rounds,
                              st_counters := counters\<rparr>, ram, snap)))))))))))))))))))))"

end
