(* ===== verification/VM_Keccak.thy ===== *)
theory VM_Keccak
  imports IR_Decode VM_Words VM_Instr
begin

text \<open>
  The Keccak delegation (\<open>riscv_transpiler/src/vm/delegations/keccak_special5.rs\<close>).  The permutation
  Keccak-f[1600] is split into 649 small operations on at most six 64-bit words of a state of 25
  lanes and 6 scratch words; the control register counts them.  The machine executes all of them
  in one step by \<open>keccak_f1600_impl_ext\<close>, which computes the permutation and the scratch words as
  the last operations leave them.
\<close>

section \<open>Constants\<close>

definition INITIAL_KECCAK_F1600_CONTROL_VALUE :: u32 where
  "INITIAL_KECCAK_F1600_CONTROL_VALUE = 0"
definition FINAL_KECCAK_F1600_CONTROL_VALUE :: u32 where
  "FINAL_KECCAK_F1600_CONTROL_VALUE = 1544"

definition RHO :: "nat list" where
  "RHO = [1, 3, 6, 10, 15, 21, 28, 36, 45, 55, 2, 14, 27, 41, 56, 8, 25, 43, 62, 18, 39, 61, 20, 44]"

definition PI :: "nat list" where
  "PI = [10, 7, 11, 17, 18, 3, 5, 16, 8, 21, 24, 4, 15, 23, 19, 13, 12, 2, 20, 14, 22, 9, 6, 1]"

definition RC :: "u64 list" where
  "RC = [0x0000000000000001, 0x0000000000008082, 0x800000000000808a, 0x8000000080008000,
     0x000000000000808b, 0x0000000080000001, 0x8000000080008081, 0x8000000000008009,
     0x000000000000008a, 0x0000000000000088, 0x0000000080008009, 0x000000008000000a,
     0x000000008000808b, 0x800000000000008b, 0x8000000000008089, 0x8000000000008003,
     0x8000000000008002, 0x8000000000000080, 0x000000000000800a, 0x800000008000000a,
     0x8000000080008081, 0x8000000000008080, 0x0000000080000001, 0x8000000080008008]"

section \<open>The small operations\<close>

text \<open>The operation codes are the constants 0 to 6: iota with column xor, the two column mixes, theta,
  rho and the two halves of chi.\<close>

definition keccak_special5_impl_decode_control :: "u32 \<Rightarrow> (u32 \<times> nat \<times> nat) res" where
  "keccak_special5_impl_decode_control control =
     (let precompile = control AND 7; iteration = unat (drop_bit 3 control AND 7);
          round = unat (drop_bit 6 control)
      in bindE (guardE ((precompile < 7 \<and> iteration < 5 \<and> round < 24) \<or>
            (precompile = 0 \<and> iteration < 5 \<and> round \<le> 24)) DebugAssertFailed) (\<lambda>_.
         Inr (precompile, iteration, round)))"

definition keccak_special5_impl_bump_control :: "u32 \<Rightarrow> nat \<Rightarrow> nat \<Rightarrow> u32 res" where
  "keccak_special5_impl_bump_control precompile iteration round =
     bindE (if precompile \<in> {0, 3, 4}
            then Inr (if iteration = 4 then precompile + 1 else precompile, (iteration + 1) mod 5, round)
            else if precompile \<in> {1, 2, 5} then Inr (precompile + 1, iteration, round)
            else if precompile = 6
            then Inr (if iteration = 4 then 0 else precompile - 1, (iteration + 1) mod 5,
                   if iteration = 4 then round + 1 else round)
            else Inl Panic) (\<lambda>(precompile_next, iteration_next, round_next).
     Inr (precompile_next OR push_bit 3 (word_of_nat iteration_next) OR
       push_bit 6 (word_of_nat round_next)))"

definition PERMUTATIONS_ADJUSTED :: "nat list list" where
  "PERMUTATIONS_ADJUSTED =
    [[0, 1, 2, 3, 4, 5, 6, 7, 8, 9, 10, 11, 12, 13, 14, 15, 16, 17, 18, 19, 20, 21, 22, 23, 24],
     [0, 6, 12, 18, 24, 3, 9, 10, 16, 22, 1, 7, 13, 19, 20, 4, 5, 11, 17, 23, 2, 8, 14, 15, 21],
     [0, 9, 13, 17, 21, 18, 22, 1, 5, 14, 6, 10, 19, 23, 2, 24, 3, 7, 11, 15, 12, 16, 20, 4, 8],
     [0, 22, 19, 11, 8, 17, 14, 6, 3, 20, 9, 1, 23, 15, 12, 21, 18, 10, 7, 4, 13, 5, 2, 24, 16],
     [0, 14, 23, 7, 16, 11, 20, 9, 18, 2, 22, 6, 15, 4, 13, 8, 17, 1, 10, 24, 19, 3, 12, 21, 5],
     [0, 20, 15, 10, 5, 7, 2, 22, 17, 12, 14, 9, 4, 24, 19, 16, 11, 6, 1, 21, 23, 18, 13, 8, 3],
     [0, 2, 4, 1, 3, 10, 12, 14, 11, 13, 20, 22, 24, 21, 23, 5, 7, 9, 6, 8, 15, 17, 19, 16, 18],
     [0, 12, 24, 6, 18, 1, 13, 20, 7, 19, 2, 14, 21, 8, 15, 3, 10, 22, 9, 16, 4, 11, 23, 5, 17],
     [0, 13, 21, 9, 17, 6, 19, 2, 10, 23, 12, 20, 8, 16, 4, 18, 1, 14, 22, 5, 24, 7, 15, 3, 11],
     [0, 19, 8, 22, 11, 9, 23, 12, 1, 15, 13, 2, 16, 5, 24, 17, 6, 20, 14, 3, 21, 10, 4, 18, 7],
     [0, 23, 16, 14, 7, 22, 15, 13, 6, 4, 19, 12, 5, 3, 21, 11, 9, 2, 20, 18, 8, 1, 24, 17, 10],
     [0, 15, 5, 20, 10, 14, 4, 19, 9, 24, 23, 13, 3, 18, 8, 7, 22, 12, 2, 17, 16, 6, 21, 11, 1],
     [0, 4, 3, 2, 1, 20, 24, 23, 22, 21, 15, 19, 18, 17, 16, 10, 14, 13, 12, 11, 5, 9, 8, 7, 6],
     [0, 24, 18, 12, 6, 2, 21, 15, 14, 8, 4, 23, 17, 11, 5, 1, 20, 19, 13, 7, 3, 22, 16, 10, 9],
     [0, 21, 17, 13, 9, 12, 8, 4, 20, 16, 24, 15, 11, 7, 3, 6, 2, 23, 19, 10, 18, 14, 5, 1, 22],
     [0, 8, 11, 19, 22, 13, 16, 24, 2, 5, 21, 4, 7, 10, 18, 9, 12, 15, 23, 1, 17, 20, 3, 6, 14],
     [0, 16, 7, 23, 14, 19, 5, 21, 12, 3, 8, 24, 10, 1, 17, 22, 13, 4, 15, 6, 11, 2, 18, 9, 20],
     [0, 5, 10, 15, 20, 23, 3, 8, 13, 18, 16, 21, 1, 6, 11, 14, 19, 24, 4, 9, 7, 12, 17, 22, 2],
     [0, 3, 1, 4, 2, 15, 18, 16, 19, 17, 5, 8, 6, 9, 7, 20, 23, 21, 24, 22, 10, 13, 11, 14, 12],
     [0, 18, 6, 24, 12, 4, 17, 5, 23, 11, 3, 16, 9, 22, 10, 2, 15, 8, 21, 14, 1, 19, 7, 20, 13],
     [0, 17, 9, 21, 13, 24, 11, 3, 15, 7, 18, 5, 22, 14, 1, 12, 4, 16, 8, 20, 6, 23, 10, 2, 19],
     [0, 11, 22, 8, 19, 21, 7, 18, 4, 10, 17, 3, 14, 20, 6, 13, 24, 5, 16, 2, 9, 15, 1, 12, 23],
     [0, 7, 14, 16, 23, 8, 10, 17, 24, 1, 11, 18, 20, 2, 9, 19, 21, 3, 5, 12, 22, 4, 6, 13, 15],
     [0, 10, 20, 5, 15, 16, 1, 11, 21, 6, 7, 17, 2, 12, 22, 23, 8, 18, 3, 13, 14, 24, 9, 19, 4],
     [0, 1, 2, 3, 4, 5, 6, 7, 8, 9, 10, 11, 12, 13, 14, 15, 16, 17, 18, 19, 20, 21, 22, 23, 24]]"

definition ROUND_CONSTANTS_ADJUSTED :: "u64 list" where
  "ROUND_CONSTANTS_ADJUSTED =
    [0, 1, 32898, 9223372036854808714,
     9223372039002292224, 32907, 2147483649, 9223372039002292353,
     9223372036854808585, 138, 136, 2147516425,
     2147483658, 2147516555, 9223372036854775947, 9223372036854808713,
     9223372036854808579, 9223372036854808578, 9223372036854775936, 32778,
     9223372039002259466, 9223372039002292353, 9223372036854808704, 2147483649,
     9223372039002292232]"

definition keccak_special5_impl_extract_indices :: "u32 \<Rightarrow> nat \<Rightarrow> nat \<Rightarrow> nat list res" where
  "keccak_special5_impl_extract_indices precompile iteration round =
     (if precompile = 0
      then bindE (index PERMUTATIONS_ADJUSTED round) (\<lambda>pi.
           Inr [pi ! iteration, pi ! (iteration + 5), pi ! (iteration + 10), pi ! (iteration + 15),
                pi ! (iteration + 20), 25 + iteration])
      else if precompile = 1 \<or> precompile = 2 then Inr [25, 26, 27, 28, 29, 30]
      else if precompile = 3
      then bindE (index PERMUTATIONS_ADJUSTED round) (\<lambda>pi.
           Inr [pi ! iteration, pi ! (iteration + 5), pi ! (iteration + 10), pi ! (iteration + 15),
                pi ! (iteration + 20), [29, 25, 26, 27, 28] ! iteration])
      else if precompile = 4
      then bindE (index PERMUTATIONS_ADJUSTED round) (\<lambda>pi.
           Inr [pi ! iteration, pi ! (iteration + 5), pi ! (iteration + 10), pi ! (iteration + 15),
                pi ! (iteration + 20), 25])
      else if precompile = 5
      then bindE (index PERMUTATIONS_ADJUSTED (round + 1)) (\<lambda>pi.
           let idx = iteration * 5
           in Inr [pi ! (idx + 1), pi ! (idx + 2), pi ! (idx + 3), pi ! (idx + 4), 25, 26])
      else if precompile = 6
      then bindE (index PERMUTATIONS_ADJUSTED (round + 1)) (\<lambda>pi.
           let idx = iteration * 5
           in Inr [pi ! idx, pi ! (idx + 3), pi ! (idx + 4), 25, 26, 27])
      else Inl Panic)"

definition rho_rotations :: "nat \<Rightarrow> nat list res" where
  "rho_rotations iteration =
     (if iteration = 0 then Inr [0, 36, 3, 41, 18]
      else if iteration = 1 then Inr [1, 44, 10, 45, 2]
      else if iteration = 2 then Inr [62, 6, 43, 15, 61]
      else if iteration = 3 then Inr [28, 55, 25, 21, 56]
      else if iteration = 4 then Inr [27, 20, 39, 8, 14]
      else Inl Panic)"

text \<open>The inputs are destructured by \<open>let [a, b, c, d, e, f] = state_inputs\<close>.\<close>

definition keccak_special5_impl_compute_outputs ::
  "u32 \<Rightarrow> nat \<Rightarrow> nat \<Rightarrow> u64 list \<Rightarrow> u64 list res" where
  "keccak_special5_impl_compute_outputs precompile iteration round state_inputs =
     (let a = state_inputs ! 0; b = state_inputs ! 1; c = state_inputs ! 2;
          d = state_inputs ! 3; e = state_inputs ! 4; f = state_inputs ! 5
      in if precompile = 0
         then bindE (index ROUND_CONSTANTS_ADJUSTED (if iteration = 0 then round else 0)) (\<lambda>rc.
              let a_new = a XOR rc
              in Inr [a_new, b, c, d, e, a_new XOR b XOR c XOR d XOR e])
         else if precompile = 1
         then Inr [a XOR word_rotl 1 c, b, c XOR word_rotl 1 e, d, e, word_rotl 1 a]
         else if precompile = 2
         then Inr [a, b XOR word_rotl 1 d, c, d XOR f, e XOR word_rotl 1 b, f]
         else if precompile = 3
         then Inr [a XOR f, b XOR f, c XOR f, d XOR f, e XOR f, f]
         else if precompile = 4
         then bindE (rho_rotations iteration) (\<lambda>rot.
              Inr [word_rotl (rot ! 0) a, word_rotl (rot ! 1) b, word_rotl (rot ! 2) c,
                   word_rotl (rot ! 3) d, word_rotl (rot ! 4) e, f])
         else if precompile = 5
         then Inr [a XOR (NOT b AND c), b XOR (NOT c AND d), c, d, NOT a AND b, a]
         else if precompile = 6
         then Inr [a XOR d, b XOR (NOT c AND a), c XOR (NOT a AND e), d, e, f]
         else Inl Panic)"

section \<open>The times of the last accesses\<close>

text \<open>The loop of the constant \<open>KECCAK_FINAL_TIMESTAMP_OFFSETS\<close>.\<close>

fun keccak_offsets_loop :: "nat list \<Rightarrow> u32 \<Rightarrow> u64 list \<Rightarrow> (u32 \<times> u64 list) res" where
  "keccak_offsets_loop [] control result = Inr (control, result)"
| "keccak_offsets_loop (call_round # rest) control result =
     (let ts_offset = word_of_nat call_round * TIMESTAMP_STEP
      in bindE (keccak_special5_impl_decode_control control) (\<lambda>(precompile, iteration, round).
         bindE (keccak_special5_impl_bump_control precompile iteration round) (\<lambda>control.
         bindE (keccak_special5_impl_extract_indices precompile iteration round) (\<lambda>state_indexes.
         keccak_offsets_loop rest control
           (fold (\<lambda>j result. result[state_indexes ! j := ts_offset]) [0..<6] result)))))"

definition keccak_final_timestamp_offsets :: "u64 list res" where
  "keccak_final_timestamp_offsets =
     bindE (keccak_offsets_loop [0..<NUM_DELEGATION_CALLS_FOR_KECCAK_F1600]
       INITIAL_KECCAK_F1600_CONTROL_VALUE (replicate 31 0)) (\<lambda>(control, result).
     bindE (guardE (control = FINAL_KECCAK_F1600_CONTROL_VALUE) AssertFailed) (\<lambda>_.
     bindE (guardE (\<forall>t \<in> set result. t mod TIMESTAMP_STEP = 0) AssertFailed) (\<lambda>_.
     Inr result)))"

section \<open>The permutation\<close>

definition column_parities :: "u64 list \<Rightarrow> u64 list" where
  "column_parities state =
     fold (\<lambda>(x, y) array. array[x := array ! x XOR state ! (5 * y + x)])
       (List.product [0..<5] [0..<5]) (replicate 5 0)"

definition theta_value :: "u64 list \<Rightarrow> nat \<Rightarrow> u64" where
  "theta_value array x = array ! ((x + 4) mod 5) XOR word_rotl 1 (array ! ((x + 1) mod 5))"

definition theta_column :: "nat \<Rightarrow> u64 \<Rightarrow> u64 list \<Rightarrow> u64 list" where
  "theta_column x t state =
     fold (\<lambda>y state. state[5 * y + x := state ! (5 * y + x) XOR t]) [0..<5] state"

definition rho_pi :: "u64 list \<Rightarrow> u64 list" where
  "rho_pi state =
     fst (fold (\<lambda>x (state, last).
            let a0 = state ! (PI ! x)
            in (state[PI ! x := word_rotl (RHO ! x) last], a0))
          [0..<24] (state, state ! 1))"

definition chi :: "u64 list \<Rightarrow> u64 list" where
  "chi state =
     fold (\<lambda>y_step state.
       let y = 5 * y_step; array = map (\<lambda>x. state ! (y + x)) [0..<5]
       in fold (\<lambda>x state.
            state[y + x := array ! x XOR
              (NOT (array ! ((x + 1) mod 5)) AND array ! ((x + 2) mod 5))]) [0..<5] state)
       [0..<5] state"

definition keccak_round :: "nat \<Rightarrow> u64 list \<Rightarrow> u64 list" where
  "keccak_round round state =
     (let rc = RC ! round; array = column_parities state;
          state = fold (\<lambda>x state. theta_column x (theta_value array x) state) [0..<5] state;
          state = rho_pi state;
          state = chi state
      in state[0 := state ! 0 XOR rc])"

definition keccak_last_round :: "u64 list \<Rightarrow> u64 list" where
  "keccak_last_round state =
     (let rc = RC ! 23; array = column_parities state;
          state = fold (\<lambda>x state.
            let t = theta_value array x; t2 = word_rotl 1 (array ! ((x + 1) mod 5));
                state = (if x = 0 then state[29 := t] else state);
                state = (if x = 3 then state[27 := t] else state);
                state = (if x = 4 then state[28 := t, 30 := t2] else state)
            in theta_column x t state) [0..<5] state;
          state = rho_pi state;
          state = state[26 := state ! 21];
          state = chi state;
          state = state[0 := state ! 0 XOR rc]
      in state[25 := state ! 0 XOR state ! 5 XOR state ! 10 XOR state ! 15 XOR state ! 20])"

definition keccak_f1600_impl_ext :: "u64 list \<Rightarrow> u64 list" where
  "keccak_f1600_impl_ext state = keccak_last_round (fold keccak_round [0..<23] state)"

section \<open>The call\<close>

text \<open>Every lane is written at the time of the last small operation that accesses it.\<close>

fun keccak_write_back ::
  "('c, 's) snapshotter_ops \<Rightarrow> 'r ram_ops \<Rightarrow> u64 \<Rightarrow> (u64 \<times> u64) list \<Rightarrow> u32 \<Rightarrow> 'r \<Rightarrow> 's \<Rightarrow> ('r \<times> 's) res"
  where
  "keccak_write_back S R write_ts_base [] addr ram snap = Inr (ram, snap)"
| "keccak_write_back S R write_ts_base ((value, ts_offset) # rest) addr ram snap =
     bindE (add_u64 write_ts_base ts_offset) (\<lambda>write_ts.
     bindE (guardE (write_ts mod TIMESTAMP_STEP = 3) DebugAssertFailed) (\<lambda>_.
     bindE (r_write_word R addr (ucast value) write_ts ram) (\<lambda>((ts, old_value), ram).
     bindE (s_append_memory_read S addr old_value ts write_ts snap) (\<lambda>snap.
     bindE (add_u32 addr 4) (\<lambda>addr.
     bindE (r_write_word R addr (ucast (drop_bit 32 value)) write_ts ram) (\<lambda>((ts, old_value), ram).
     bindE (s_append_memory_read S addr old_value ts write_ts snap) (\<lambda>snap.
     bindE (add_u32 addr 4) (\<lambda>addr.
     keccak_write_back S R write_ts_base rest addr ram snap))))))))"

definition keccak_special5_call ::
  "'c counter_ops \<Rightarrow> ('c, 's) snapshotter_ops \<Rightarrow> 'r ram_ops \<Rightarrow> 'c State \<Rightarrow> 'r \<Rightarrow> 's \<Rightarrow>
    ('c State \<times> 'r \<times> 's) res" where
  "keccak_special5_call C S R st ram snap =
     bindE (index (st_regs st) 10) (\<lambda>reg10.
     bindE (index (st_regs st) 11) (\<lambda>reg11.
     bindE (index (st_regs st) 0) (\<lambda>reg0.
     let x10 = reg_val reg10; x11 = reg_val reg11
     in bindE (guardE (st_ts st mod 4 = 0) DebugAssertFailed) (\<lambda>_.
        bindE (guardE (ROM_BYTE_SIZE \<le> x11) AssertFailed) (\<lambda>_.
        bindE (guardE (x10 < push_bit 11 1) AssertFailed) (\<lambda>_.
        bindE (guardE (x11 mod 256 = 0) AssertFailed) (\<lambda>_.
        bindE (guardE (x10 = INITIAL_KECCAK_F1600_CONTROL_VALUE) AssertFailed) (\<lambda>_.
        let shift = word_of_nat (NUM_DELEGATION_CALLS_FOR_KECCAK_F1600 - 1) * TIMESTAMP_STEP
        in bindE (add_u64 (st_ts st) shift) (\<lambda>last_ts.
           bindE (add_u64 last_ts 3) (\<lambda>reg_time.
           let write_ts_base = st_ts st OR 3;
               st = st\<lparr>st_regs := (st_regs st)
                 [10 := \<lparr>reg_ts = reg_time, reg_val = FINAL_KECCAK_F1600_CONTROL_VALUE\<rparr>,
                  11 := reg11\<lparr>reg_ts := reg_time\<rparr>,
                  0 := reg0\<lparr>reg_ts := last_ts OR 2\<rparr>]\<rparr>
           in bindE (peek_limbs R 31 x11 ram) (\<lambda>local_state.
              let local_state = keccak_f1600_impl_ext local_state
              in bindE keccak_final_timestamp_offsets (\<lambda>offsets.
                 bindE (keccak_write_back S R write_ts_base (zip local_state offsets) x11 ram snap)
                   (\<lambda>(ram, snap).
                 let n = word_of_nat NUM_DELEGATION_CALLS_FOR_KECCAK_F1600
                 in bindE (c_bump_keccak C n (st_counters st)) (\<lambda>counters.
                    bindE (c_log_multiple C SHIFT_BINARY_CSR n counters) (\<lambda>counters.
                    Inr (st\<lparr>st_ts := last_ts,
                           st_pc := st_pc st + 4 * word_of_nat NUM_DELEGATION_CALLS_FOR_KECCAK_F1600,
                           st_counters := counters\<rparr>, ram, snap))))))))))))))))"

end
