(* ===== verification/VM_Run.thy ===== *)
theory VM_Run
  imports VM_Memory VM_Bigint VM_Blake VM_Keccak
begin

text \<open>
  The machine itself (\<open>riscv_transpiler/src/vm/mod.rs\<close>): the dispatch of one instruction, and the two
  loops that run it, up to a number of cycles or up to a timestamp.  The machine is generic in the
  traits \<open>C\<close> (counters), \<open>S\<close> (snapshotter), \<open>R\<close> (memory), \<open>ND\<close> (non-determinism source), the instruction
  tape and the integer library \<open>U\<close>.
\<close>

definition call_delegation ::
  "'c counter_ops \<Rightarrow> ('c, 's) snapshotter_ops \<Rightarrow> 'r ram_ops \<Rightarrow> ruint_ops \<Rightarrow> 'c State \<Rightarrow> 'r \<Rightarrow> 's \<Rightarrow>
    instruction \<Rightarrow> ('c State \<times> 'r \<times> 's) res" where
  "call_delegation C S R U st ram snap instr =
     bindE (guardE (i_rs1 instr = 0) DebugAssertFailed) (\<lambda>_.
     bindE (guardE (i_rs2 instr = 0) DebugAssertFailed) (\<lambda>_.
     bindE (guardE (i_rd instr = 0) DebugAssertFailed) (\<lambda>_.
     if i_imm instr = delegation_code BigInt then bigint_call C S R U st ram snap
     else if i_imm instr = delegation_code Blake then blake2_round_function_call C S R st ram snap
     else if i_imm instr = delegation_code Keccak then keccak_special5_call C S R st ram snap
     else Inl UndefinedBehaviour)))"

text \<open>The register instructions; \<open>None\<close> for those that also reach memory or the outside.\<close>

fun register_step :: "'c counter_ops \<Rightarrow> 'c State \<Rightarrow> instruction \<Rightarrow> InstructionName \<Rightarrow> 'c State res option"
  where
  "register_step C st instr Illegal = Some (illegal st)"
| "register_step C st instr Lui = Some (lui_op C st instr)"
| "register_step C st instr Auipc = Some (auipc_op C st instr)"
| "register_step C st instr Jal = Some (jal_op C st instr)"
| "register_step C st instr Jalr = Some (jalr_op C st instr)"
| "register_step C st instr Slt = Some (slt_op C False st instr)"
| "register_step C st instr Slti = Some (slt_op C True st instr)"
| "register_step C st instr Sltu = Some (sltu_op C False st instr)"
| "register_step C st instr Sltiu = Some (sltu_op C True st instr)"
| "register_step C st instr Branch = Some (branch_op C st instr)"
| "register_step C st instr Add = Some (add_op C False st instr)"
| "register_step C st instr Addi = Some (add_op C True st instr)"
| "register_step C st instr Sub = Some (sub_op C st instr)"
| "register_step C st instr Xor = Some (xor_op C False st instr)"
| "register_step C st instr Xori = Some (xor_op C True st instr)"
| "register_step C st instr And = Some (and_op C False st instr)"
| "register_step C st instr Andi = Some (and_op C True st instr)"
| "register_step C st instr Or = Some (or_op C False st instr)"
| "register_step C st instr Ori = Some (or_op C True st instr)"
| "register_step C st instr Sll = Some (sll_op C False st instr)"
| "register_step C st instr Slli = Some (sll_op C True st instr)"
| "register_step C st instr Srl = Some (srl_op C False st instr)"
| "register_step C st instr Srli = Some (srl_op C True st instr)"
| "register_step C st instr Sra = Some (sra_op C False st instr)"
| "register_step C st instr Srai = Some (sra_op C True st instr)"
| "register_step C st instr Mul = Some (mul_op C st instr)"
| "register_step C st instr Mulhu = Some (mulhu_op C st instr)"
| "register_step C st instr Divu = Some (divu_op C st instr)"
| "register_step C st instr Remu = Some (remu_op C st instr)"
| "register_step C st instr ZimopAdd = Some (mop_addmod C st instr)"
| "register_step C st instr ZimopSub = Some (mop_submod C st instr)"
| "register_step C st instr ZimopMul = Some (mop_mulmod C st instr)"
| "register_step C st instr _ = None"

text \<open>The instructions that reach memory; \<open>None\<close> for the others.\<close>

fun memory_step ::
  "'c counter_ops \<Rightarrow> ('c, 's) snapshotter_ops \<Rightarrow> 'r ram_ops \<Rightarrow> ruint_ops \<Rightarrow> 'c State \<Rightarrow> 'r \<Rightarrow> 's \<Rightarrow>
    instruction \<Rightarrow> InstructionName \<Rightarrow> ('c State \<times> 'r \<times> 's) res option" where
  "memory_step C S R U st ram snap instr Sw = Some (sw_op C S R st ram snap instr)"
| "memory_step C S R U st ram snap instr Lw = Some (lw_op C S R st ram snap instr)"
| "memory_step C S R U st ram snap instr Sh = Some (sh_op C S R st ram snap instr)"
| "memory_step C S R U st ram snap instr Lhu = Some (lh_op C S R False st ram snap instr)"
| "memory_step C S R U st ram snap instr Lh = Some (lh_op C S R True st ram snap instr)"
| "memory_step C S R U st ram snap instr Sb = Some (sb_op C S R st ram snap instr)"
| "memory_step C S R U st ram snap instr Lbu = Some (lb_op C S R False st ram snap instr)"
| "memory_step C S R U st ram snap instr Lb = Some (lb_op C S R True st ram snap instr)"
| "memory_step C S R U st ram snap instr ZicsrDelegation =
     Some (call_delegation C S R U st ram snap instr)"
| "memory_step C S R U st ram snap instr _ = None"

definition run_step ::
  "'c counter_ops \<Rightarrow> ('c, 's) snapshotter_ops \<Rightarrow> 'r ram_ops \<Rightarrow> 'n nd_ops \<Rightarrow> ruint_ops \<Rightarrow>
    (u32 \<Rightarrow> instruction res) \<Rightarrow> 'c State \<Rightarrow> 'r \<Rightarrow> 's \<Rightarrow> 'n \<Rightarrow> ('c State \<times> 'r \<times> 's \<times> 'n) res" where
  "run_step C S R ND U tape st ram snap nd =
     (let pc = st_pc st
      in bindE (tape pc) (\<lambda>instr.
         bindE (guardE (st_ts st mod TIMESTAMP_STEP = 0) DebugAssertFailed) (\<lambda>_.
         case register_step C st instr (i_name instr) of
           Some m \<Rightarrow> bindE m (\<lambda>st. Inr (st, ram, snap, nd))
         | None \<Rightarrow>
           (case memory_step C S R U st ram snap instr (i_name instr) of
              Some m \<Rightarrow> bindE m (\<lambda>(st, ram, snap). Inr (st, ram, snap, nd))
            | None \<Rightarrow>
              if i_name instr = ZicsrNonDeterminismRead
              then bindE (nd_read C S ND st snap instr nd) (\<lambda>(st, snap, nd). Inr (st, ram, snap, nd))
              else if i_name instr = ZicsrNonDeterminismWrite
              then bindE (nd_write C R ND st ram instr nd) (\<lambda>(st, nd). Inr (st, ram, snap, nd))
              else Inl Panic))))"

section \<open>The loops\<close>

text \<open>The body of both loops: a step, the next cycle's timestamp, and the end of the program, a jump to
  the same instruction.  \<open>Some b\<close> is \<open>return b\<close>.\<close>

definition run_body ::
  "'c counter_ops \<Rightarrow> ('c, 's) snapshotter_ops \<Rightarrow> 'r ram_ops \<Rightarrow> 'n nd_ops \<Rightarrow> ruint_ops \<Rightarrow>
    (u32 \<Rightarrow> instruction res) \<Rightarrow> 'c State \<Rightarrow> 'r \<Rightarrow> 's \<Rightarrow> 'n \<Rightarrow>
    (bool option \<times> 'c State \<times> 'r \<times> 's \<times> 'n) res" where
  "run_body C S R ND U tape st ram snap nd =
     (let pc = st_pc st
      in bindE (run_step C S R ND U tape st ram snap nd) (\<lambda>(st, ram, snap, nd).
         bindE (add_u64 (st_ts st) TIMESTAMP_STEP) (\<lambda>t.
         let st = st\<lparr>st_ts := t\<rparr>
         in if st_pc st = pc
            then bindE (s_take_final_snapshot S st snap) (\<lambda>snap.
                 Inr (Some True, st, ram, snap, nd))
            else bindE (s_take_snapshot_if_needed S st snap) (\<lambda>(stop, snap).
                 Inr (if stop then Some False else None, st, ram, snap, nd)))))"

fun run_basic_unrolled ::
  "'c counter_ops \<Rightarrow> ('c, 's) snapshotter_ops \<Rightarrow> 'r ram_ops \<Rightarrow> 'n nd_ops \<Rightarrow> ruint_ops \<Rightarrow>
    (u32 \<Rightarrow> instruction res) \<Rightarrow> nat \<Rightarrow> 'c State \<Rightarrow> 'r \<Rightarrow> 's \<Rightarrow> 'n \<Rightarrow>
    (bool \<times> 'c State \<times> 'r \<times> 's \<times> 'n) res" where
  "run_basic_unrolled C S R ND U tape 0 st ram snap nd = Inr (False, st, ram, snap, nd)"
| "run_basic_unrolled C S R ND U tape (Suc cycle_bound) st ram snap nd =
     bindE (run_body C S R ND U tape st ram snap nd) (\<lambda>(ret, st, ram, snap, nd).
     case ret of
       Some b \<Rightarrow> Inr (b, st, ram, snap, nd)
     | None \<Rightarrow> run_basic_unrolled C S R ND U tape cycle_bound st ram snap nd)"

section \<open>Time only moves forward\<close>

lemma ts_helpers:
  "touch_x0 off st = Inr st' \<Longrightarrow> st_ts st' = st_ts st"
  "read_register off i st = Inr (v, st') \<Longrightarrow> st_ts st' = st_ts st"
  "write_register off i w st = Inr (v, st') \<Longrightarrow> st_ts st' = st_ts st"
  "increment_family_counter C fam st = Inr st' \<Longrightarrow> st_ts st' = st_ts st"
  "second_operand b st instr = Inr (v, st') \<Longrightarrow> st_ts st' = st_ts st"
  "jump_to a st = Inr st' \<Longrightarrow> st_ts st' = st_ts st"
  by (auto simp: touch_x0_def read_register_def write_register_def increment_family_counter_def
      second_operand_def jump_to_def Let_def split: if_splits)

lemma ts_register_ops:
  "add_op C b st i = Inr st' \<Longrightarrow> st_ts st' = st_ts st"
  "sub_op C st i = Inr st' \<Longrightarrow> st_ts st' = st_ts st"
  "and_op C b st i = Inr st' \<Longrightarrow> st_ts st' = st_ts st"
  "or_op C b st i = Inr st' \<Longrightarrow> st_ts st' = st_ts st"
  "xor_op C b st i = Inr st' \<Longrightarrow> st_ts st' = st_ts st"
  "sll_op C b st i = Inr st' \<Longrightarrow> st_ts st' = st_ts st"
  "srl_op C b st i = Inr st' \<Longrightarrow> st_ts st' = st_ts st"
  "sra_op C b st i = Inr st' \<Longrightarrow> st_ts st' = st_ts st"
  "slt_op C b st i = Inr st' \<Longrightarrow> st_ts st' = st_ts st"
  "sltu_op C b st i = Inr st' \<Longrightarrow> st_ts st' = st_ts st"
  "mul_op C st i = Inr st' \<Longrightarrow> st_ts st' = st_ts st"
  "mulhu_op C st i = Inr st' \<Longrightarrow> st_ts st' = st_ts st"
  "divu_op C st i = Inr st' \<Longrightarrow> st_ts st' = st_ts st"
  "remu_op C st i = Inr st' \<Longrightarrow> st_ts st' = st_ts st"
  "mop_addmod C st i = Inr st' \<Longrightarrow> st_ts st' = st_ts st"
  "mop_submod C st i = Inr st' \<Longrightarrow> st_ts st' = st_ts st"
  "mop_mulmod C st i = Inr st' \<Longrightarrow> st_ts st' = st_ts st"
  "lui_op C st i = Inr st' \<Longrightarrow> st_ts st' = st_ts st"
  "auipc_op C st i = Inr st' \<Longrightarrow> st_ts st' = st_ts st"
  "jal_op C st i = Inr st' \<Longrightarrow> st_ts st' = st_ts st"
  "jalr_op C st i = Inr st' \<Longrightarrow> st_ts st' = st_ts st"
  "branch_op C st i = Inr st' \<Longrightarrow> st_ts st' = st_ts st"
  by (auto simp: add_op_def sub_op_def and_op_def or_op_def xor_op_def sll_op_def srl_op_def
      sra_op_def slt_op_def sltu_op_def mul_op_def mulhu_op_def divu_op_def remu_op_def
      mop_addmod_def mop_submod_def mop_mulmod_def lui_op_def auipc_op_def jal_op_def jalr_op_def
      branch_op_def Let_def dest!: ts_helpers split: if_splits)

lemma ts_memory_ops:
  "sw_op C S R st ram snap i = Inr (st', ram', snap') \<Longrightarrow> st_ts st' = st_ts st"
  "lw_op C S R st ram snap i = Inr (st', ram', snap') \<Longrightarrow> st_ts st' = st_ts st"
  "sh_op C S R st ram snap i = Inr (st', ram', snap') \<Longrightarrow> st_ts st' = st_ts st"
  "sb_op C S R st ram snap i = Inr (st', ram', snap') \<Longrightarrow> st_ts st' = st_ts st"
  "lh_op C S R b st ram snap i = Inr (st', ram', snap') \<Longrightarrow> st_ts st' = st_ts st"
  "lb_op C S R b st ram snap i = Inr (st', ram', snap') \<Longrightarrow> st_ts st' = st_ts st"
  "nd_read C S ND st snap i nd = Inr (st', snap', nd') \<Longrightarrow> st_ts st' = st_ts st"
  "nd_write C R ND st ram i nd = Inr (st', nd') \<Longrightarrow> st_ts st' = st_ts st"
  "bigint_call C S R U st ram snap = Inr (st', ram', snap') \<Longrightarrow> st_ts st' = st_ts st"
  by (auto simp: sw_op_def lw_op_def sh_op_def sb_op_def lh_op_def lb_op_def nd_read_def nd_write_def
      bigint_call_def Let_def split_def dest!: ts_helpers split: prod.splits)

lemma ts_blake:
  "blake2_round_function_call C S R st ram snap = Inr (st', ram', snap') \<Longrightarrow>
    unat (st_ts st) \<le> unat (st_ts st')"
  unfolding blake2_round_function_call_def Let_def
  by (auto dest!: unat_add_u64 split: prod.splits simp: split_def)

lemma ts_keccak:
  "keccak_special5_call C S R st ram snap = Inr (st', ram', snap') \<Longrightarrow>
    unat (st_ts st) \<le> unat (st_ts st')"
  unfolding keccak_special5_call_def Let_def
  by (auto dest!: unat_add_u64 split: prod.splits simp: split_def)

lemma ts_register_step:
  "register_step C st i n = Some m \<Longrightarrow> m = Inr st' \<Longrightarrow> st_ts st' = st_ts st"
  by (cases n) (auto simp: ts_register_ops illegal_def)

lemma ts_call_delegation:
  "call_delegation C S R U st ram snap i = Inr (st', ram', snap') \<Longrightarrow>
    unat (st_ts st) \<le> unat (st_ts st')"
  using ts_memory_ops(9) [of C S R U st ram snap st' ram' snap']
    ts_blake [of C S R st ram snap st' ram' snap'] ts_keccak [of C S R st ram snap st' ram' snap']
  by (auto simp: call_delegation_def split: if_splits)

lemma ts_memory_step:
  "memory_step C S R U st ram snap i n = Some m \<Longrightarrow> m = Inr (st', ram', snap') \<Longrightarrow>
    unat (st_ts st) \<le> unat (st_ts st')"
  by (cases n) (auto simp: ts_memory_ops dest: ts_call_delegation)

lemma ts_run_step:
  assumes "run_step C S R ND U tape st ram snap nd = Inr (st', ram', snap', nd')"
  shows "unat (st_ts st) \<le> unat (st_ts st')"
proof -
  obtain instr where
    "(case register_step C st instr (i_name instr) of
        Some m \<Rightarrow> bindE m (\<lambda>st. Inr (st, ram, snap, nd))
      | None \<Rightarrow>
        (case memory_step C S R U st ram snap instr (i_name instr) of
           Some m \<Rightarrow> bindE m (\<lambda>(st, ram, snap). Inr (st, ram, snap, nd))
         | None \<Rightarrow>
           if i_name instr = ZicsrNonDeterminismRead
           then bindE (nd_read C S ND st snap instr nd) (\<lambda>(st, snap, nd). Inr (st, ram, snap, nd))
           else if i_name instr = ZicsrNonDeterminismWrite
           then bindE (nd_write C R ND st ram instr nd) (\<lambda>(st, nd). Inr (st, ram, snap, nd))
           else Inl Panic)) = Inr (st', ram', snap', nd')"
    using assms by (auto simp: run_step_def Let_def)
  then show ?thesis
    by (auto split: option.splits if_splits prod.splits
        dest: ts_register_step ts_memory_step ts_memory_ops(7,8))
qed

lemma ts_run_body:
  assumes "run_body C S R ND U tape st ram snap nd = Inr (ret, st', ram', snap', nd')"
  shows "unat (st_ts st) < unat (st_ts st')"
  using assms ts_run_step [of C S R ND U tape st ram snap nd]
  by (fastforce simp: run_body_def Let_def TIMESTAMP_STEP_def split: if_splits dest!: unat_add_u64)

text \<open>So the loop up to a timestamp ends.\<close>

function run_by_timestamp_bound ::
  "'c counter_ops \<Rightarrow> ('c, 's) snapshotter_ops \<Rightarrow> 'r ram_ops \<Rightarrow> 'n nd_ops \<Rightarrow> ruint_ops \<Rightarrow>
    (u32 \<Rightarrow> instruction res) \<Rightarrow> u64 \<Rightarrow> 'c State \<Rightarrow> 'r \<Rightarrow> 's \<Rightarrow> 'n \<Rightarrow>
    (bool \<times> 'c State \<times> 'r \<times> 's \<times> 'n) res" where
  "run_by_timestamp_bound C S R ND U tape timestamp_bound st ram snap nd =
     (if st_ts st < timestamp_bound
      then bindE (run_body C S R ND U tape st ram snap nd) (\<lambda>(ret, st, ram, snap, nd).
           case ret of
             Some b \<Rightarrow> Inr (b, st, ram, snap, nd)
           | None \<Rightarrow> run_by_timestamp_bound C S R ND U tape timestamp_bound st ram snap nd)
      else Inr (False, st, ram, snap, nd))"
  by pat_completeness auto

termination
  by (relation "measure (\<lambda>(C, S, R, ND, U, tape, bound, st, ram, snap, nd).
        unat bound - unat (st_ts st))")
    (auto simp: word_less_nat_alt dest!: ts_run_body intro!: diff_less_mono2)

declare run_by_timestamp_bound.simps [simp del]

end
