(* ===== verification/ISA.thy ===== *)
theory ISA
  imports IR_Encoding
begin

text \<open>
  The reference machine the virtual machine is compared with: the RV32IM instructions (without signed
  division) and the three field operations, as the RISC-V manual describes them, on a state of 32
  registers, a program counter and a byte-addressed memory.  It has no timestamps, no counters, no
  log and no word-aligned memory, and its arithmetic is stated on integers.  \<open>None\<close> is a trap.
\<close>

section \<open>State\<close>

record isa =
  isa_regs :: "u32 list"
  isa_pc :: u32
  isa_mem :: "nat \<Rightarrow> u8"

definition isa_write :: "u8 \<Rightarrow> u32 \<Rightarrow> u32 list \<Rightarrow> u32 list" where
  "isa_write rd v regs = (if rd = 0 then regs else regs[unat rd := v])"

section \<open>Computation\<close>

abbreviation field_order :: nat where "field_order \<equiv> 2147483647"

text \<open>The result of an instruction of the register-register or register-immediate format; \<open>b\<close> is the
  second register or the immediate.\<close>

fun isa_alu :: "InstructionName \<Rightarrow> u32 \<Rightarrow> u32 \<Rightarrow> u32 option" where
  "isa_alu Add a b = Some (word_of_int (sint a + sint b))"
| "isa_alu Addi a b = Some (word_of_int (sint a + sint b))"
| "isa_alu Sub a b = Some (word_of_int (sint a - sint b))"
| "isa_alu And a b = Some (a AND b)"
| "isa_alu Andi a b = Some (a AND b)"
| "isa_alu Or a b = Some (a OR b)"
| "isa_alu Ori a b = Some (a OR b)"
| "isa_alu Xor a b = Some (a XOR b)"
| "isa_alu Xori a b = Some (a XOR b)"
| "isa_alu Sll a b = Some (word_of_nat (unat a * 2 ^ (unat b mod 32)))"
| "isa_alu Slli a b = Some (word_of_nat (unat a * 2 ^ (unat b mod 32)))"
| "isa_alu Srl a b = Some (word_of_nat (unat a div 2 ^ (unat b mod 32)))"
| "isa_alu Srli a b = Some (word_of_nat (unat a div 2 ^ (unat b mod 32)))"
| "isa_alu Sra a b = Some (word_of_int (sint a div 2 ^ (unat b mod 32)))"
| "isa_alu Srai a b = Some (word_of_int (sint a div 2 ^ (unat b mod 32)))"
| "isa_alu Slt a b = Some (if sint a < sint b then 1 else 0)"
| "isa_alu Slti a b = Some (if sint a < sint b then 1 else 0)"
| "isa_alu Sltu a b = Some (if unat a < unat b then 1 else 0)"
| "isa_alu Sltiu a b = Some (if unat a < unat b then 1 else 0)"
| "isa_alu Mul a b = Some (word_of_int (sint a * sint b))"
| "isa_alu Mulhu a b = Some (word_of_nat (unat a * unat b div 2 ^ 32))"
| "isa_alu Divu a b = Some (if unat b = 0 then word_of_nat (2 ^ 32 - 1) else word_of_nat (unat a div unat b))"
| "isa_alu Remu a b = Some (word_of_nat (unat a mod unat b))"
| "isa_alu ZimopAdd a b = Some (word_of_nat ((unat a + unat b) mod field_order))"
| "isa_alu ZimopSub a b = Some (word_of_int ((int (unat a) - int (unat b)) mod int field_order))"
| "isa_alu ZimopMul a b = Some (word_of_nat ((unat a * unat b) mod field_order))"
| "isa_alu _ a b = None"

fun uses_imm :: "InstructionName \<Rightarrow> bool" where
  "uses_imm Addi = True"
| "uses_imm Andi = True"
| "uses_imm Ori = True"
| "uses_imm Xori = True"
| "uses_imm Slli = True"
| "uses_imm Srli = True"
| "uses_imm Srai = True"
| "uses_imm Slti = True"
| "uses_imm Sltiu = True"
| "uses_imm _ = False"

text \<open>The conditions of the branches, by \<open>funct3\<close>.\<close>

definition isa_branch :: "u8 \<Rightarrow> u32 \<Rightarrow> u32 \<Rightarrow> bool" where
  "isa_branch funct3 a b =
     (if funct3 = 0 then a = b
      else if funct3 = 1 then a \<noteq> b
      else if funct3 = 4 then sint a < sint b
      else if funct3 = 5 then sint b \<le> sint a
      else if funct3 = 6 then unat a < unat b
      else unat b \<le> unat a)"

section \<open>Memory\<close>

text \<open>Little-endian values of \<open>n\<close> bytes.\<close>

fun isa_load :: "nat \<Rightarrow> (nat \<Rightarrow> u8) \<Rightarrow> nat \<Rightarrow> nat" where
  "isa_load 0 m a = 0"
| "isa_load (Suc n) m a = unat (m a) + 256 * isa_load n m (a + 1)"

fun isa_store :: "nat \<Rightarrow> nat \<Rightarrow> (nat \<Rightarrow> u8) \<Rightarrow> nat \<Rightarrow> (nat \<Rightarrow> u8)" where
  "isa_store 0 v m a = m"
| "isa_store (Suc n) v m a = isa_store n (v div 256) (m(a := word_of_nat v)) (a + 1)"

text \<open>Number of bytes, and whether a load extends its sign.\<close>

fun isa_load_kind :: "InstructionName \<Rightarrow> (nat \<times> bool) option" where
  "isa_load_kind Lw = Some (4, False)"
| "isa_load_kind Lh = Some (2, True)"
| "isa_load_kind Lhu = Some (2, False)"
| "isa_load_kind Lb = Some (1, True)"
| "isa_load_kind Lbu = Some (1, False)"
| "isa_load_kind _ = None"

fun isa_store_kind :: "InstructionName \<Rightarrow> nat option" where
  "isa_store_kind Sw = Some 4"
| "isa_store_kind Sh = Some 2"
| "isa_store_kind Sb = Some 1"
| "isa_store_kind _ = None"

definition isa_extend :: "nat \<Rightarrow> bool \<Rightarrow> nat \<Rightarrow> u32" where
  "isa_extend n sx v =
     (if sx \<and> 2 ^ (8 * n - 1) \<le> v then word_of_int (int v - 2 ^ (8 * n)) else word_of_nat v)"

section \<open>Execution\<close>

definition isa_jump :: "u32 \<Rightarrow> isa \<Rightarrow> isa option" where
  "isa_jump target s = (if unat target mod 4 = 0 then Some (s\<lparr>isa_pc := target\<rparr>) else None)"

text \<open>\<open>size\<close> is the number of bytes of the memory, of which the first \<open>rom\<close> cannot be written.\<close>

definition isa_step :: "nat \<Rightarrow> nat \<Rightarrow> instruction \<Rightarrow> isa \<Rightarrow> isa option" where
  "isa_step msize rom i s =
     (let regs = isa_regs s; pc = isa_pc s; m = isa_mem s; n = i_name i;
          a = regs ! unat (i_rs1 i); b = regs ! unat (i_rs2 i); rd = i_rd i; imm = i_imm i;
          addr = unat (a + imm)
      in if n = Lui then Some (s\<lparr>isa_regs := isa_write rd imm regs, isa_pc := pc + 4\<rparr>)
         else if n = Auipc then Some (s\<lparr>isa_regs := isa_write rd (pc + imm) regs, isa_pc := pc + 4\<rparr>)
         else if n = Jal then isa_jump (pc + imm) (s\<lparr>isa_regs := isa_write rd (pc + 4) regs\<rparr>)
         else if n = Jalr then isa_jump ((a + imm) AND NOT 1) (s\<lparr>isa_regs := isa_write rd (pc + 4) regs\<rparr>)
         else if n = Branch
           then (if isa_branch rd a b then isa_jump (pc + imm) s else Some (s\<lparr>isa_pc := pc + 4\<rparr>))
         else case isa_load_kind n of
           Some (k, sx) \<Rightarrow>
             (if addr mod k = 0 \<and> addr + k \<le> msize
              then Some (s\<lparr>isa_regs := isa_write rd (isa_extend k sx (isa_load k m addr)) regs,
                          isa_pc := pc + 4\<rparr>)
              else None)
         | None \<Rightarrow>
           (case isa_store_kind n of
              Some k \<Rightarrow>
                (if addr mod k = 0 \<and> addr + k \<le> msize \<and> rom \<le> addr
                 then Some (s\<lparr>isa_mem := isa_store k (unat b) m addr, isa_pc := pc + 4\<rparr>)
                 else None)
            | None \<Rightarrow>
              (case isa_alu n a (if uses_imm n then imm else b) of
                 Some v \<Rightarrow> Some (s\<lparr>isa_regs := isa_write rd v regs, isa_pc := pc + 4\<rparr>)
               | None \<Rightarrow> None)))"

text \<open>The operands an instruction of the tape must have for the machine to execute it.\<close>

definition wf_instr :: "instruction \<Rightarrow> bool" where
  "wf_instr i \<longleftrightarrow>
     i_rs1 i < 32 \<and> i_rs2 i < 32 \<and> i_rd i < 32 \<and>
     (i_name i \<in> {Lui, Auipc, Jal, ZicsrNonDeterminismRead} \<longrightarrow> i_rs1 i = 0 \<and> i_rs2 i = 0) \<and>
     (i_name i = Jalr \<longrightarrow> i_rs2 i = 0) \<and>
     (i_name i = Branch \<longrightarrow> i_rd i \<in> {0, 1, 4, 5, 6, 7})"

end
