(* ===== verification/VM_Alu.thy ===== *)
theory VM_Alu
  imports VM_Run ISA
begin

text \<open>
  The register instructions against the reference machine: each computes what \<open>isa_step\<close> says, in a
  state whose registers have been touched at the offsets 0, 1 and 2 of the cycle, and stops with an
  error exactly where the reference machine traps.
\<close>

section \<open>Arithmetic\<close>

lemma eq_word_of_nat: "unat (x :: 'a::len word) = n \<Longrightarrow> x = word_of_nat n"
  by auto

lemma unat_mod_32: "unat (b mod 32 :: u32) = unat b mod 32"
  by (simp add: unat_mod)

lemma push_bit_nat: "push_bit n (a :: u32) = word_of_nat (unat a * 2 ^ n)"
  by (simp add: push_bit_eq_mult)

lemma drop_bit_nat: "drop_bit n (a :: u32) = word_of_nat (unat a div 2 ^ n)"
  by (simp flip: unat_drop_bit)

lemma signed_drop_bit_int: "signed_drop_bit n (a :: u32) = word_of_int (sint a div 2 ^ n)"
  by (simp flip: drop_bit_eq_div sint_signed_drop_bit_eq)

lemma mulhu_nat:
  "ucast (drop_bit 32 ((ucast (a :: u32) :: u64) * ucast (b :: u32))) =
    (word_of_nat (unat a * unat b div 2 ^ 32) :: u32)"
proof -
  have "unat a < 2 ^ 32" "unat b < 2 ^ 32"
    by (simp_all add: order.strict_trans2 [OF unsigned_less])
  then have "unat a * unat b < 2 ^ 32 * 2 ^ 32" by (intro mult_strict_mono) simp_all
  then have "unat ((ucast a :: u64) * ucast b) = unat a * unat b"
    by (simp add: unat_word_ariths)
  then have "drop_bit 32 ((ucast a :: u64) * ucast b) = word_of_nat (unat a * unat b div 2 ^ 32)"
    by (intro eq_word_of_nat) (simp only: unat_drop_bit)
  moreover have "unat a * unat b div 2 ^ 32 < 2 ^ 64"
    using \<open>unat a * unat b < 2 ^ 32 * 2 ^ 32\<close> by (simp add: less_mult_imp_div_less)
  ultimately show ?thesis by (simp add: unsigned_of_nat take_bit_nat_eq_self)
qed

lemma divu_nat: "(a :: u32) div b = word_of_nat (unat a div unat b)"
  by (simp flip: unat_div)

lemma remu_nat: "(a :: u32) mod b = word_of_nat (unat a mod unat b)"
  by (simp flip: unat_mod)

lemma mop_values:
  assumes "from_nonreduced_u32 a = Inr c" "from_nonreduced_u32 b = Inr d"
  shows "to_reduced_u32 (add_assign_impl c d) = word_of_nat ((unat a + unat b) mod field_order)"
    "to_reduced_u32 (mul_assign_impl c d) = word_of_nat ((unat a * unat b) mod field_order)"
    "\<exists>e. sub_assign_impl c d = Inr e \<and>
      to_reduced_u32 e = word_of_int ((int (unat a) - int (unat b)) mod int field_order)"
proof -
  have c: "canon31 c" "fval c = unat a mod P" and d: "canon31 d" "fval d = unat b mod P"
    using assms from_nonreduced_ok [of a] from_nonreduced_ok [of b] by auto
  note add = add_mod_ok [OF c(1) d(1)]
  have "fval (add_assign_impl c d) = (fval c + fval d) mod P"
    using add by (simp add: add_assign_impl_def fval_def mod_add_eq)
  then show "to_reduced_u32 (add_assign_impl c d) = word_of_nat ((unat a + unat b) mod field_order)"
    using to_reduced_ok [of "add_assign_impl c d"] add c(2) d(2)
    by (intro eq_word_of_nat) (simp add: add_assign_impl_def mod_add_eq)
  show "to_reduced_u32 (mul_assign_impl c d) = word_of_nat ((unat a * unat b) mod field_order)"
    using to_reduced_ok [of "mul_assign_impl c d"] mul_assign_ok [OF c(1) d(1)] c(2) d(2)
    by (intro eq_word_of_nat) (simp add: mod_mult_eq)
  obtain e where e: "sub_mod c d = Inr e" "canon31 e" "fval e = (unat c + P - unat d) mod P"
    using sub_mod_ok [OF c(1) d(1)] by blast
  have "int (fval e) = (int (unat c) + int P - int (unat d)) mod int P"
    using d(1) unfolding e(3) zmod_int by (simp add: canon31_def of_nat_diff)
  also have "\<dots> = (int (fval c) - int (fval d)) mod int P"
    using mod_add_self2 [of "int (unat c) - int (unat d)" "int P"]
    by (simp only: fval_def zmod_int mod_diff_eq) (simp add: algebra_simps)
  also have "\<dots> = (int (unat a) - int (unat b)) mod int P"
    unfolding c(2) d(2) by (simp add: zmod_int mod_diff_eq)
  finally have "to_reduced_u32 e = word_of_int ((int (unat a) - int (unat b)) mod int field_order)"
    using to_reduced_ok [OF e(2)] by (metis of_int_of_nat_eq eq_word_of_nat)
  then show "\<exists>e. sub_assign_impl c d = Inr e \<and>
      to_reduced_u32 e = word_of_int ((int (unat a) - int (unat b)) mod int field_order)"
    using e(1) by (simp add: sub_assign_impl_def)
qed

section \<open>What an instruction reaches\<close>

text \<open>
  \<open>reaches C st m regs pc\<close>: the computation \<open>m\<close>, started in a cycle of \<open>st\<close>, has the register values
  \<open>regs\<close> and the program counter \<open>pc\<close> when it counts itself in its circuit family.
\<close>

definition reaches :: "'c counter_ops \<Rightarrow> 'c State \<Rightarrow> 'c State res \<Rightarrow> u32 list \<Rightarrow> u32 \<Rightarrow> bool" where
  "reaches C st m regs pc \<longleftrightarrow>
     (\<exists>fam st1. fam \<noteq> REDUCED_MACHINE \<and> m = increment_family_counter C fam st1 \<and> cycle_at 3 st1 \<and>
        reg_vals st1 = regs \<and> st_pc st1 = pc \<and> st_ts st1 = st_ts st \<and> st_counters st1 = st_counters st)"

lemma reg_vals_isa_write:
  "cycle_at k st \<Longrightarrow> (reg_vals st)[unat rd := if rd = 0 then 0 else v] = isa_write rd v (reg_vals st)"
  by (auto simp: isa_write_def cycle_at_reg_vals list_update_same_conv)

lemma reachesI:
  assumes "cycle_at 2 st1" "rd < 32" "fam \<noteq> REDUCED_MACHINE" "reg_vals st1 = reg_vals st"
    "st_ts st1 = st_ts st" "st_counters st1 = st_counters st"
  shows "pc = st_pc st1 + 4 \<Longrightarrow>
      reaches C st (increment_family_counter C fam (default_increase_pc (set_reg 2 rd v st1)))
        (isa_write rd v (reg_vals st)) pc"
    "pc = st_pc st1 \<Longrightarrow>
      reaches C st (increment_family_counter C fam (set_reg 2 rd v st1)) (isa_write rd v (reg_vals st)) pc"
  using assms cycle_set_reg [of 2 st1 2 rd v] reg_vals_isa_write [of 2 st1 rd v]
  unfolding reaches_def by force+

lemma isa_write_0 [simp]: "isa_write 0 v regs = regs"
  by (simp add: isa_write_def)

text \<open>The accesses of the sources.\<close>

lemma cycle_touch: 
  "cycle_at 0 st \<Longrightarrow> i < 32 \<Longrightarrow> cycle_at (Suc 0) (touch_reg 0 i st)"
  "cycle_at (Suc 0) st \<Longrightarrow> i < 32 \<Longrightarrow> cycle_at 2 (touch_reg 1 i st)"
  "cycle_at 0 st \<Longrightarrow> i < 32 \<Longrightarrow> cycle_at 2 (touch_reg 1 i st)"
  using cycle_touch_reg [of 0 st 0 i] cycle_touch_reg [of 1 st 1 i] cycle_touch_reg [of 0 st 1 i]
  by (simp_all flip: numeral_2_eq_2)

lemma second_operand_ok:
  "cycle_at (Suc 0) st \<Longrightarrow> i_rs2 i < 32 \<Longrightarrow> second_operand b st i =
    Inr (if b then i_imm i else reg_vals st ! unat (i_rs2 i), touch_reg 1 (if b then 0 else i_rs2 i) st)"
  by (simp add: second_operand_def touch_x0_ok [of 1] read_register_ok [of 1])

lemmas access_ok = read_register_ok [of 0 _ 0, simplified] read_register_ok [of 1 _ 1, simplified]
  touch_x0_ok [of 1 _ 1, simplified] touch_x0_ok [of 0 _ 1, simplified]
  write_register_ok [of 2 _ 2, simplified] second_operand_ok cycle_touch

lemma alu_ops:
  fixes b :: bool and C :: "'c counter_ops"
  assumes "cycle_at 0 st" "i_rs1 i < 32" "i_rs2 i < 32" "i_rd i < 32"
  defines "x \<equiv> reg_vals st ! unat (i_rs1 i)" and "y \<equiv> reg_vals st ! unat (i_rs2 i)"
    and "z \<equiv> (if b then i_imm i else reg_vals st ! unat (i_rs2 i))"
    and "result \<equiv> \<lambda>m v. reaches C st m (isa_write (i_rd i) v (reg_vals st)) (st_pc st + 4)"
  shows "result (add_op C b st i) (x + z)" "result (sub_op C st i) (x - y)"
    "result (and_op C b st i) (x AND z)" "result (or_op C b st i) (x OR z)"
    "result (xor_op C b st i) (x XOR z)"
    "result (sll_op C b st i) (push_bit (unat (z mod 32)) x)"
    "result (srl_op C b st i) (drop_bit (unat (z mod 32)) x)"
    "result (sra_op C b st i) (signed_drop_bit (unat (z mod 32)) x)"
    "result (slt_op C b st i) (if x <s z then 1 else 0)"
    "result (sltu_op C b st i) (if x < z then 1 else 0)"
    "result (mul_op C st i) (x * y)"
    "result (mulhu_op C st i) (ucast (drop_bit 32 ((ucast x :: u64) * ucast y)))"
    "result (divu_op C st i) (if y = 0 then 0xffffffff else x div y)"
    "result (remu_op C st i) (if y = 0 then x else x mod y)"
  unfolding result_def x_def y_def z_def using assms(1-4)
  by (simp_all add: add_op_def sub_op_def and_op_def or_op_def xor_op_def sll_op_def srl_op_def
      sra_op_def slt_op_def sltu_op_def mul_op_def mulhu_op_def divu_op_def remu_op_def Let_def
      access_ok reachesI)

lemma mop_ops:
  fixes C :: "'c counter_ops"
  assumes "cycle_at 0 st" "i_rs1 i < 32" "i_rs2 i < 32" "i_rd i < 32"
  defines "x \<equiv> reg_vals st ! unat (i_rs1 i)" and "y \<equiv> reg_vals st ! unat (i_rs2 i)"
    and "result \<equiv> \<lambda>m v. reaches C st m (isa_write (i_rd i) v (reg_vals st)) (st_pc st + 4)"
  shows "result (mop_addmod C st i) (word_of_nat ((unat x + unat y) mod field_order))"
    "result (mop_submod C st i) (word_of_int ((int (unat x) - int (unat y)) mod int field_order))"
    "result (mop_mulmod C st i) (word_of_nat ((unat x * unat y) mod field_order))"
proof -
  obtain c d where c: "from_nonreduced_u32 x = Inr c" and d: "from_nonreduced_u32 y = Inr d"
    using from_nonreduced_ok [of x] from_nonreduced_ok [of y] by blast
  note v = mop_values [OF c d]
  obtain e where e: "sub_assign_impl c d = Inr e"
    "to_reduced_u32 e = word_of_int ((int (unat x) - int (unat y)) mod int field_order)"
    using v(3) by blast
  note [simp] = x_def [symmetric] y_def [symmetric]
  show "result (mop_addmod C st i) (word_of_nat ((unat x + unat y) mod field_order))"
    "result (mop_submod C st i) (word_of_int ((int (unat x) - int (unat y)) mod int field_order))"
    "result (mop_mulmod C st i) (word_of_nat ((unat x * unat y) mod field_order))"
    unfolding result_def v(1,2) [symmetric] e(2) [symmetric]
    using assms(1-4) c d e(1)
    by (simp_all add: mop_addmod_def mop_submod_def mop_mulmod_def Let_def access_ok reachesI)
qed

section \<open>Control transfer\<close>

lemma jump_aligned: "(a AND 3 = (0 :: u32)) = (unat a mod 4 = 0)"
proof -
  have "a AND 3 = take_bit 2 a" by (simp add: take_bit_eq_mask mask_eq_exp_minus_1)
  then show ?thesis by (simp add: word_unat_eq_iff unat_take_bit)
qed

lemma upper_ops:
  assumes "cycle_at 0 st" "i_rs1 i = 0" "i_rs2 i = 0" "i_rd i < 32"
  shows "reaches C st (lui_op C st i) (isa_write (i_rd i) (i_imm i) (reg_vals st)) (st_pc st + 4)"
    "reaches C st (auipc_op C st i) (isa_write (i_rd i) (st_pc st + i_imm i) (reg_vals st)) (st_pc st + 4)"
  using assms by (simp_all add: lui_op_def auipc_op_def Let_def access_ok reachesI)

lemma jal_op_ok:
  assumes "cycle_at 0 st" "i_rs1 i = 0" "i_rs2 i = 0" "i_rd i < 32"
  defines "target \<equiv> st_pc st + i_imm i"
  shows "if unat target mod 4 = 0
    then reaches C st (jal_op C st i) (isa_write (i_rd i) (st_pc st + 4) (reg_vals st)) target
    else jal_op C st i = Inl Panic"
  using assms
  by (simp add: jal_op_def Let_def access_ok jump_to_def jump_aligned reachesI)

lemma jalr_op_ok:
  assumes "cycle_at 0 st" "i_rs1 i < 32" "i_rs2 i = 0" "i_rd i < 32"
  defines "target \<equiv> (reg_vals st ! unat (i_rs1 i) + i_imm i) AND NOT 1"
  shows "if unat target mod 4 = 0
    then reaches C st (jalr_op C st i) (isa_write (i_rd i) (st_pc st + 4) (reg_vals st)) target
    else jalr_op C st i = Inl Panic"
  using assms
  by (simp add: jalr_op_def Let_def access_ok jump_to_def jump_aligned reachesI)

lemma branch_condition_ok:
  assumes "funct3 \<in> {0, 1, 4, 5, 6, 7}"
  shows "branch_condition funct3 a b = Inr (isa_branch funct3 a b)"
  using assms
  by (auto simp: branch_condition_def isa_branch_def word_sless_alt word_less_nat_alt)

lemma branch_op_ok:
  assumes "cycle_at 0 st" "i_rs1 i < 32" "i_rs2 i < 32" "i_rd i \<in> {0, 1, 4, 5, 6, 7}"
  defines "target \<equiv> st_pc st + i_imm i"
    and "taken \<equiv> isa_branch (i_rd i) (reg_vals st ! unat (i_rs1 i)) (reg_vals st ! unat (i_rs2 i))"
  shows "if taken \<and> unat target mod 4 \<noteq> 0 then branch_op C st i = Inl Panic
    else reaches C st (branch_op C st i) (reg_vals st) (if taken then target else st_pc st + 4)"
proof -
  have b: "branch_condition (i_rd i) a b = Inr (isa_branch (i_rd i) a b)" for a b
    using assms(4) by (rule branch_condition_ok)
  have w: "reaches C st (increment_family_counter C JUMP_BRANCH_SLT (set_reg 2 0 0 st1)) (reg_vals st) pc"
    if "cycle_at 2 st1" "reg_vals st1 = reg_vals st" "st_ts st1 = st_ts st"
      "st_counters st1 = st_counters st" "pc = st_pc st1" for st1 pc
    using reachesI(2) [of st1 0 JUMP_BRANCH_SLT st pc C 0] that by simp
  show ?thesis
    using assms(1-3) unfolding target_def taken_def
    by (simp add: branch_op_def Let_def access_ok b jump_to_def jump_aligned w)
qed

section \<open>Refinement\<close>

lemma isa_alu_words:
  "isa_alu Add a b = Some (a + b)" "isa_alu Addi a b = Some (a + b)" "isa_alu Sub a b = Some (a - b)"
  "isa_alu Sll a b = Some (push_bit (unat (b mod 32)) a)"
  "isa_alu Slli a b = Some (push_bit (unat (b mod 32)) a)"
  "isa_alu Srl a b = Some (drop_bit (unat (b mod 32)) a)"
  "isa_alu Srli a b = Some (drop_bit (unat (b mod 32)) a)"
  "isa_alu Sra a b = Some (signed_drop_bit (unat (b mod 32)) a)"
  "isa_alu Srai a b = Some (signed_drop_bit (unat (b mod 32)) a)"
  "isa_alu Slt a b = Some (if a <s b then 1 else 0)"
  "isa_alu Slti a b = Some (if a <s b then 1 else 0)"
  "isa_alu Sltu a b = Some (if a < b then 1 else 0)"
  "isa_alu Sltiu a b = Some (if a < b then 1 else 0)"
  "isa_alu Mul a b = Some (a * b)"
  "isa_alu Mulhu a b = Some (ucast (drop_bit 32 ((ucast a :: u64) * ucast b)))"
  "isa_alu Divu a b = Some (if b = 0 then 0xffffffff else a div b)"
  "isa_alu Remu a b = Some (if b = 0 then a else a mod b)"
  unfolding isa_alu.simps unat_mod_32
  unfolding mulhu_nat push_bit_nat drop_bit_nat signed_drop_bit_int divu_nat remu_nat word_sless_alt
    word_less_nat_alt
  by (simp_all add: unat_eq_zero)

lemma isa_alu_rest:
  "isa_alu And a b = Some (a AND b)" "isa_alu Andi a b = Some (a AND b)"
  "isa_alu Or a b = Some (a OR b)" "isa_alu Ori a b = Some (a OR b)"
  "isa_alu Xor a b = Some (a XOR b)" "isa_alu Xori a b = Some (a XOR b)"
  "isa_alu ZimopAdd a b = Some (word_of_nat ((unat a + unat b) mod field_order))"
  "isa_alu ZimopSub a b = Some (word_of_int ((int (unat a) - int (unat b)) mod int field_order))"
  "isa_alu ZimopMul a b = Some (word_of_nat ((unat a * unat b) mod field_order))"
  "isa_alu Illegal a b = None"
  by simp_all

declare isa_alu.simps [simp del]

lemma register_step_refines:
  assumes "cycle_at 0 st" "wf_instr i" "register_step C st i (i_name i) = Some m"
  shows "case isa_step N rom i \<lparr>isa_regs = reg_vals st, isa_pc = st_pc st, isa_mem = mm\<rparr> of
      None \<Rightarrow> \<exists>e. m = Inl e
    | Some s \<Rightarrow> reaches C st m (isa_regs s) (isa_pc s) \<and> isa_mem s = mm"
proof -
  have lt: "i_rs1 i < 32" "i_rs2 i < 32" "i_rd i < 32" using assms(2) by (simp_all add: wf_instr_def)
  note reg = alu_ops(2,11-14) [OF assms(1) lt, where C = C] mop_ops [OF assms(1) lt, where C = C]
    and imm = alu_ops(1,3-10) [OF assms(1) lt, where C = C]
  note jumps = jal_op_ok [OF assms(1) _ _ lt(3), of C] jalr_op_ok [OF assms(1) lt(1) _ lt(3), of C]
    branch_op_ok [OF assms(1) lt(1,2), of C] upper_ops [OF assms(1) _ _ lt(3), of C]
  show ?thesis
    using assms(3)
  proof (cases "i_name i")
    case Jal
    then show ?thesis using assms(2,3) jumps(1)
      by (auto simp: isa_step_def Let_def isa_jump_def wf_instr_def split: if_splits)
  next
    case Jalr
    then show ?thesis using assms(2,3) jumps(2)
      by (auto simp: isa_step_def Let_def isa_jump_def wf_instr_def split: if_splits)
  next
    case Branch
    then show ?thesis using assms(2,3) jumps(3)
      by (auto simp: isa_step_def Let_def isa_jump_def wf_instr_def split: if_splits)
  next
    case Lui
    then show ?thesis using assms(2,3) jumps(4) by (auto simp: isa_step_def Let_def wf_instr_def)
  next
    case Auipc
    then show ?thesis using assms(2,3) jumps(5) by (auto simp: isa_step_def Let_def wf_instr_def)
  qed (use assms(3) reg imm [where b = True] imm [where b = False] in
      \<open>auto simp: isa_step_def Let_def isa_alu_words isa_alu_rest illegal_def\<close>)
qed

end
