(* ===== verification/VM_LoadStore.thy ===== *)
theory VM_LoadStore
  imports VM_Alu
begin

text \<open>
  The loads and stores against the reference machine.  The memory of the virtual machine is an array
  of words and stores of bytes and half words are read-modify-write; the reference machine's memory
  is an array of bytes.  The lemmas hold for every memory that satisfies \<open>word_memory\<close> and every
  snapshotter with room for one more entry.
\<close>

section \<open>Words as bytes\<close>

definition byte_of :: "u32 \<Rightarrow> nat \<Rightarrow> u8" where
  "byte_of w j = ucast (drop_bit (8 * j) w)"

definition bytes_of :: "(nat \<Rightarrow> u32) \<Rightarrow> nat \<Rightarrow> u8" where
  "bytes_of m a = byte_of (m (a div 4)) (a mod 4)"

lemma unat_ucast_u8: "unat (ucast (w :: u32) :: u8) = unat w mod 256"
  by (simp add: unsigned_ucast_eq take_bit_eq_mod)

lemma unat_byte_of: "unat (byte_of w j) = unat w div 256 ^ j mod 256"
proof -
  have "(2 :: nat) ^ (8 * j) = 256 ^ j" by (simp add: power_mult)
  then show ?thesis
    by (simp add: byte_of_def unat_ucast_u8 unat_drop_bit)
qed

lemma isa_load_digits:
  "(\<And>j. j < k \<Longrightarrow> unat (m (a + j)) = n div 256 ^ j mod 256) \<Longrightarrow> isa_load k m a = n mod 256 ^ k"
proof (induction k arbitrary: a n)
  case (Suc k)
  have "unat (m (a + 1 + j)) = n div 256 div 256 ^ j mod 256" if "j < k" for j
    using Suc.prems [of "Suc j"] that by (simp add: div_mult2_eq)
  then have "isa_load k m (a + 1) = n div 256 mod 256 ^ k" by (rule Suc.IH)
  then show ?case using Suc.prems [of 0] by (simp add: mod_mult2_eq)
qed simp

lemma isa_load_bytes:
  assumes "r + k \<le> 4" "a = 4 * q + r"
  shows "isa_load k (bytes_of m) a = unat (m q) div 256 ^ r mod 256 ^ k"
proof (rule isa_load_digits)
  fix j assume "j < k"
  then have "(4 * q + (r + j)) div 4 = q" "(4 * q + (r + j)) mod 4 = r + j" using assms(1) by simp_all
  then have "(a + j) div 4 = q" "(a + j) mod 4 = r + j" by (simp_all add: assms(2) add.assoc)
  then show "unat (bytes_of m (a + j)) = unat (m q) div 256 ^ r div 256 ^ j mod 256"
    by (simp add: bytes_of_def unat_byte_of power_add div_mult2_eq)
qed

lemma isa_store_digits:
  "isa_store k v m a = (\<lambda>x. if a \<le> x \<and> x < a + k then word_of_nat (v div 256 ^ (x - a)) else m x)"
proof (induction k arbitrary: v m a)
  case (Suc k)
  have "v div 256 div 256 ^ (x - Suc a) = v div 256 ^ (x - a)" if "Suc a \<le> x" for x
  proof -
    have "x - a = Suc (x - Suc a)" using that by simp
    then show ?thesis by (simp add: div_mult2_eq)
  qed
  then show ?case by (auto simp: Suc fun_eq_iff)
qed (auto simp: fun_eq_iff)

lemma word_of_nat_byte: "(word_of_nat (unat (b :: u32) div 256 ^ t) :: u8) = byte_of b t"
proof -
  have "(2 :: nat) ^ (8 * t) = 256 ^ t" by (simp add: power_mult)
  then show ?thesis
    by (simp add: byte_of_def word_unat_eq_iff unat_ucast_u8 unat_drop_bit unat_of_nat)
qed

text \<open>Replacing bytes \<open>r\<close> to \<open>r + k - 1\<close> of a word.\<close>

definition merge_bytes :: "nat \<Rightarrow> nat \<Rightarrow> u32 \<Rightarrow> u32 \<Rightarrow> u32" where
  "merge_bytes r k b old =
     push_bit (8 * r) (b AND mask (8 * k)) OR (old AND NOT (push_bit (8 * r) (mask (8 * k))))"

lemma byte_of_merge:
  assumes "j < 4" "r + k \<le> 4"
  shows "byte_of (merge_bytes r k b old) j = (if r \<le> j \<and> j < r + k then byte_of b (j - r) else byte_of old j)"
proof (rule bit_word_eqI)
  fix n assume n: "n < LENGTH(8)"
  then have p: "8 * j + n < 32" using assms(1) by simp
  have *: "bit (merge_bytes r k b old) (8 * j + n) =
      (if 8 * r \<le> 8 * j + n \<and> 8 * j + n - 8 * r < 8 * k then bit b (8 * j + n - 8 * r) else bit old (8 * j + n))"
    using p by (auto simp: merge_bytes_def bit_simps)
  show "bit (byte_of (merge_bytes r k b old) j) n =
      bit (if r \<le> j \<and> j < r + k then byte_of b (j - r) else byte_of old j) n"
  proof (cases "r \<le> j \<and> j < r + k")
    case True
    then have "8 * r \<le> 8 * j + n \<and> 8 * j + n - 8 * r < 8 * k" "8 * j + n - 8 * r = 8 * (j - r) + n"
      using n by auto
    then show ?thesis using True n by (simp add: byte_of_def bit_simps *)
  next
    case False
    then have no: "\<not> (8 * r \<le> 8 * j + n \<and> 8 * j + n - 8 * r < 8 * k)" using n by auto
    show ?thesis
      using n unfolding if_not_P [OF False] byte_of_def by (simp add: bit_simps * no del: de_Morgan_conj)
  qed
qed

lemma bytes_of_merge:
  assumes "r + k \<le> 4" "a = 4 * q + r"
  shows "bytes_of (m(q := merge_bytes r k b (m q))) = isa_store k (unat b) (bytes_of m) a"
proof
  fix x
  show "bytes_of (m(q := merge_bytes r k b (m q))) x = isa_store k (unat b) (bytes_of m) a x"
  proof (cases "x div 4 = q")
    case True
    then have x: "x = 4 * q + x mod 4" using mult_div_mod_eq [of 4 x] by simp
    have c: "(a \<le> x \<and> x < a + k) = (r \<le> x mod 4 \<and> x mod 4 < r + k)" "x - a = x mod 4 - r"
      using x assms(2) by linarith+
    show ?thesis
      using True by (simp add: bytes_of_def byte_of_merge assms(1) isa_store_digits word_of_nat_byte c)
  next
    case False
    have "\<not> (a \<le> x \<and> x < a + k)"
    proof
      assume "a \<le> x \<and> x < a + k"
      then have "4 * q \<le> x" "x < 4 * q + 4" using assms by linarith+
      then have "x div 4 = q" by simp
      then show False using False by simp
    qed
    then show ?thesis using False by (auto simp: bytes_of_def isa_store_digits)
  qed
qed

section \<open>The values loaded\<close>

lemma quarter: "unat ((a :: u32) mod 4 * 8) = 8 * (unat a mod 4)"
  by (simp add: unat_word_ariths unat_mod)

lemma extend_ok:
  "(scast (x :: u16) :: u32) = isa_extend 2 True (unat x)"
  "(scast (y :: u8) :: u32) = isa_extend 1 True (unat y)"
proof -
  have "(scast (x :: u16) :: u32) = word_of_int (sint x)" "(scast (y :: u8) :: u32) = word_of_int (sint y)"
    by simp_all
  then show "(scast (x :: u16) :: u32) = isa_extend 2 True (unat x)"
    "(scast (y :: u8) :: u32) = isa_extend 1 True (unat y)"
    unfolding sint_if isa_extend_def by (simp_all split: if_splits)
qed

lemma lh_value_ok:
  "lh_value sx a w = isa_extend 2 sx (unat w div 256 ^ (unat a mod 4) mod 256 ^ 2)"
  "lb_value sx a w = isa_extend 1 sx (unat w div 256 ^ (unat a mod 4) mod 256 ^ 1)"
proof -
  define v where "v = drop_bit (8 * (unat a mod 4)) w"
  have "(2 :: nat) ^ (8 * (unat a mod 4)) = 256 ^ (unat a mod 4)" by (simp add: power_mult)
  then have v: "unat v = unat w div 256 ^ (unat a mod 4)" by (simp add: v_def unat_drop_bit)
  have 1: "unat (ucast v :: u16) = unat v mod 256 ^ 2" "unat (ucast v :: u8) = unat v mod 256 ^ 1"
    by (simp_all add: unsigned_ucast_eq take_bit_eq_mod)
  have "ucast (ucast v :: u16) = (word_of_nat (unat (ucast v :: u16)) :: u32)"
    "ucast (ucast v :: u8) = (word_of_nat (unat (ucast v :: u8)) :: u32)" by simp_all
  then show "lh_value sx a w = isa_extend 2 sx (unat w div 256 ^ (unat a mod 4) mod 256 ^ 2)"
    "lb_value sx a w = isa_extend 1 sx (unat w div 256 ^ (unat a mod 4) mod 256 ^ 1)"
    unfolding lh_value_def lb_value_def Let_def quarter v_def [symmetric] extend_ok 1 v
    by (cases sx; simp add: isa_extend_def)+
qed

section \<open>The words stored\<close>

lemma mod_4_cases:
  fixes a :: u32
  obtains "a mod 4 = 0" "unat a mod 4 = 0" | "a mod 4 = 1" "unat a mod 4 = 1"
    | "a mod 4 = 2" "unat a mod 4 = 2" | "a mod 4 = 3" "unat a mod 4 = 3"
proof -
  have "unat a mod 4 = 0 \<or> unat a mod 4 = 1 \<or> unat a mod 4 = 2 \<or> unat a mod 4 = 3" by linarith
  then show ?thesis using that by (auto simp: word_unat_eq_iff unat_mod)
qed

lemma masks_ok:
  "sb_mask a = Inr (NOT (push_bit (8 * (unat a mod 4)) (mask (8 * 1))))"
  "unat a mod 2 = 0 \<Longrightarrow> sh_mask a = Inr (NOT (push_bit (8 * (unat a mod 4)) (mask (8 * 2))))"
proof -
  show "sb_mask a = Inr (NOT (push_bit (8 * (unat a mod 4)) (mask (8 * 1))))"
    by (cases a rule: mod_4_cases) (simp_all add: sb_mask_def mask_eq_exp_minus_1)
  show "sh_mask a = Inr (NOT (push_bit (8 * (unat a mod 4)) (mask (8 * 2))))" if "unat a mod 2 = 0"
  proof (cases a rule: mod_4_cases)
    case 2
    then show ?thesis using that by presburger
  next
    case 4
    then show ?thesis using that by presburger
  qed (simp_all add: sh_mask_def mask_eq_exp_minus_1)
qed

lemma stored_ok:
  "push_bit (unat ((a :: u32) mod 4 * 8)) (b AND 0xff) OR (old AND NOT (push_bit (8 * (unat a mod 4)) (mask (8 * 1)))) =
    merge_bytes (unat a mod 4) 1 b old"
  "push_bit (unat ((a :: u32) mod 4 * 8)) (b AND 0xffff) OR (old AND NOT (push_bit (8 * (unat a mod 4)) (mask (8 * 2)))) =
    merge_bytes (unat a mod 4) 2 b old"
  unfolding quarter merge_bytes_def by (simp_all add: mask_eq_exp_minus_1)

lemma merge_word: "merge_bytes 0 4 b old = b"
  by (rule bit_word_eqI) (simp add: merge_bytes_def bit_simps)

lemma unat_and_not_3: "unat (a AND NOT 3 :: u32) = 4 * (unat a div 4)"
proof -
  have "a AND NOT (mask 2) = push_bit 2 (drop_bit 2 a)"
  proof (rule bit_word_eqI)
    fix n assume "n < LENGTH(32)"
    moreover have "Suc (Suc (n - 2)) = n" if "\<not> n < 2" using that by simp
    ultimately show "bit (a AND NOT (mask 2)) n \<longleftrightarrow> bit (push_bit 2 (drop_bit 2 a)) n"
      by (cases "n < 2") (auto simp: bit_simps)
  qed
  moreover have "unat (drop_bit 2 a) = unat a div 4" by (simp add: unat_drop_bit)
  moreover have "unat a div 4 < 2 ^ 30" using unsigned_less [of a, where ?'a = nat] by (simp add: less_mult_imp_div_less)
  ultimately show ?thesis
    by (simp add: push_bit_eq_mult unat_word_ariths mask_eq_exp_minus_1)
qed

lemma aligned_ok:
  "unat ((a AND NOT 3 :: u32) div 4) = unat a div 4" "(a AND NOT 3) mod 4 = 0"
  "a mod 2 = 0 \<longleftrightarrow> unat a mod 2 = 0" "a mod 4 = 0 \<longleftrightarrow> unat a mod 4 = 0"
  "unat (a div 4) = unat a div 4"
  using unat_and_not_3 [of a] by (simp_all add: word_unat_eq_iff unat_mod unat_div)

text \<open>A naturally aligned access stays within one word.\<close>

lemma access_bound:
  assumes "k \<in> {1, 2, 4}" "x mod k = (0 :: nat)"
  shows "x mod 4 + k \<le> 4" "x + k \<le> 4 * N \<longleftrightarrow> x div 4 < N" "4 * rw \<le> x \<longleftrightarrow> rw \<le> x div 4"
proof -
  show 1: "x mod 4 + k \<le> 4" using assms by (elim insertE) (simp_all, presburger)
  have "x = 4 * (x div 4) + x mod 4" by simp
  with 1 assms(1) show "x + k \<le> 4 * N \<longleftrightarrow> x div 4 < N" "4 * rw \<le> x \<longleftrightarrow> rw \<le> x div 4"
    by (linarith | auto)+
qed

lemma isa_load_at:
  "k \<in> {1, 2, 4} \<Longrightarrow> x mod k = 0 \<Longrightarrow>
    isa_load k (bytes_of m) x = unat (m (x div 4)) div 256 ^ (x mod 4) mod 256 ^ k"
  by (rule isa_load_bytes) (simp_all add: access_bound(1))

lemma isa_store_at:
  "k \<in> {1, 2, 4} \<Longrightarrow> x mod k = 0 \<Longrightarrow>
    isa_store k (unat b) (bytes_of m) x =
      bytes_of (m(x div 4 := merge_bytes (x mod 4) k b (m (x div 4))))"
  by (rule bytes_of_merge [symmetric]) (simp_all add: access_bound(1))

section \<open>Refinement\<close>

text \<open>The state of the reference machine a state of the virtual machine stands for.\<close>

definition isa_of :: "(nat \<Rightarrow> u32) \<Rightarrow> 'c State \<Rightarrow> isa" where
  "isa_of m st = \<lparr>isa_regs = reg_vals st, isa_pc = st_pc st, isa_mem = bytes_of m\<rparr>"

context recorded_memory
begin

text \<open>
  \<open>reaches_memory\<close> extends \<open>reaches\<close> to an instruction that makes one access at an offset below 3 and
  one entry in the log.
\<close>

definition reaches_memory ::
  "'c counter_ops \<Rightarrow> 'c State \<Rightarrow> 'r \<Rightarrow> nat \<Rightarrow> ('c State \<times> 'r \<times> 's) res \<Rightarrow> isa \<Rightarrow> bool" where
  "reaches_memory C st r n m s \<longleftrightarrow>
     (\<exists>fam st1 r1 s1. fam \<noteq> REDUCED_MACHINE \<and>
        m = bindE (increment_family_counter C fam st1) (\<lambda>st. Inr (st, r1, s1)) \<and>
        cycle_at 3 st1 \<and> isa_of (word r1) st1 = s \<and> st_ts st1 = st_ts st \<and>
        st_counters st1 = st_counters st \<and> words r1 = words r \<and>
        fresh (unat (st_ts st) + 3) r1 \<and> ready n s1)"

lemma load_access:
  assumes "cycle_at 1 st" "fresh (unat (st_ts st)) r" "ready (Suc n) s" "a mod 4 = 0"
    "unat (a div 4) < words r"
  shows "\<exists>rt r1 s1. r_read_word R a (st_ts st OR 1) r = Inr ((rt, word r (unat (a div 4))), r1) \<and>
    s_append_memory_read S a (word r (unat (a div 4))) rt (st_ts st OR 1) s = Inr s1 \<and>
    word r1 = word r \<and> words r1 = words r \<and> fresh (unat (st_ts st) + 3) r1 \<and> ready n s1"
proof -
  have t: "unat (st_ts st OR 1) = unat (st_ts st) + 1"
    using unat_or_low(1) [OF cycle_atD(2) [OF assms(1)]] .
  obtain rt r1 where r: "r_read_word R a (st_ts st OR 1) r = Inr ((rt, word r (unat (a div 4))), r1)"
    using read_ok [OF assms(4,5,2), of "st_ts st OR 1"] t by auto
  obtain s1 where "s_append_memory_read S a (word r (unat (a div 4))) rt (st_ts st OR 1) s = Inr s1"
    "ready n s1"
    using append_read_ready [OF assms(3)] by blast
  moreover have "fresh (unat (st_ts st) + 3) r1"
    using fresh_read [OF r fresh_mono [OF assms(2)]] t by simp
  ultimately show ?thesis using r read_effect [OF r] by blast
qed

lemma store_access:
  assumes "cycle_at 2 st" "fresh (unat (st_ts st)) r" "ready (Suc n) s" "a mod 4 = 0"
    "unat (a div 4) < words r" "writable (unat (a div 4))"
  shows "\<exists>rt r1 s1. r_write_word R a v (st_ts st OR 2) r = Inr ((rt, word r (unat (a div 4))), r1) \<and>
    s_append_memory_read S a (word r (unat (a div 4))) rt (st_ts st OR 2) s = Inr s1 \<and>
    word r1 = (word r)(unat (a div 4) := v) \<and> words r1 = words r \<and>
    fresh (unat (st_ts st) + 3) r1 \<and> ready n s1"
proof -
  have t: "unat (st_ts st OR 2) = unat (st_ts st) + 2"
    using unat_or_low(2) [OF cycle_atD(2) [OF assms(1)]] .
  obtain rt r1 where r: "r_write_word R a v (st_ts st OR 2) r = Inr ((rt, word r (unat (a div 4))), r1)"
    using write_ok [OF assms(4,5,6,2), of "st_ts st OR 2" v] t by auto
  obtain s1 where "s_append_memory_read S a (word r (unat (a div 4))) rt (st_ts st OR 2) s = Inr s1"
    "ready n s1"
    using append_read_ready [OF assms(3)] by blast
  moreover have "fresh (unat (st_ts st) + 3) r1"
    using fresh_write [OF r fresh_mono [OF assms(2)]] t by simp
  ultimately show ?thesis using r write_effect [OF r] by blast
qed

text \<open>A load: the value \<open>f w\<close> of the word at the aligned address goes to the destination register.\<close>

lemma load_reaches:
  fixes f :: "u32 \<Rightarrow> u32"
  assumes "cycle_at 0 st" "i_rs1 i < 32" "i_rd i < 32" "fresh (unat (st_ts st)) r" "ready (Suc n) s"
    "b mod 4 = 0" "unat (b div 4) < words r" "fam \<noteq> REDUCED_MACHINE"
  defines "st0 \<equiv> touch_reg 0 (i_rs1 i) st" and "v \<equiv> f (word r (unat (b div 4)))"
  shows "reaches_memory C st r n
    (bindE (r_read_word R b (st_ts st OR 1) r) (\<lambda>((read_timestamp, old_value), ram).
     bindE (write_register 2 (i_rd i) (f old_value) st0) (\<lambda>(rd, st1).
     bindE (s_append_memory_read S b old_value read_timestamp (st_ts st1 OR 1) s) (\<lambda>snap.
     bindE (increment_family_counter C fam (default_increase_pc st1)) (\<lambda>st.
     Inr (st, ram, snap))))))
    \<lparr>isa_regs = isa_write (i_rd i) v (reg_vals st), isa_pc = st_pc st + 4, isa_mem = bytes_of (word r)\<rparr>"
proof -
  have c: "cycle_at 1 st0" using cycle_touch(1) [OF assms(1,2)] by (simp add: st0_def)
  have same: "st_ts st0 = st_ts st" "st_counters st0 = st_counters st" "st_pc st0 = st_pc st"
    "reg_vals st0 = reg_vals st" by (simp_all add: st0_def)
  obtain rt r1 s1 where a: "r_read_word R b (st_ts st OR 1) r = Inr ((rt, word r (unat (b div 4))), r1)"
    "s_append_memory_read S b (word r (unat (b div 4))) rt (st_ts st OR 1) s = Inr s1"
    "word r1 = word r" "words r1 = words r" "fresh (unat (st_ts st) + 3) r1" "ready n s1"
    using load_access [of st0 r n s b] c assms(4-7) same by auto
  define st1 where "st1 = default_increase_pc (set_reg 2 (i_rd i) v st0)"
  have "cycle_at 2 st0" using c by (rule cycle_at_mono) simp
  then have "cycle_at 3 st1" "write_register 2 (i_rd i) v st0 = Inr (if i_rd i = 0 then 0 else v, set_reg 2 (i_rd i) v st0)"
    "isa_of (word r1) st1 = \<lparr>isa_regs = isa_write (i_rd i) v (reg_vals st), isa_pc = st_pc st + 4,
      isa_mem = bytes_of (word r)\<rparr>"
    "st_ts st1 = st_ts st" "st_counters st1 = st_counters st"
    using cycle_set_reg [of 2 st0 2 "i_rd i" v] write_register_ok [of 2 st0 2 "i_rd i" v] assms(3)
      reg_vals_isa_write [of 1 st0 "i_rd i" v] c
    by (simp_all add: st1_def isa_of_def same a(3))
  then show ?thesis
    unfolding reaches_memory_def using a assms(8) same
    by (intro exI [of _ fam] exI [of _ st1] exI [of _ r1] exI [of _ s1])
      (simp add: v_def [symmetric] st1_def [symmetric])
qed

text \<open>A store: the word at the aligned address is replaced.\<close>

lemma store_reaches:
  assumes "cycle_at 2 st0" "fresh (unat (st_ts st)) r" "ready (Suc n) s" "b mod 4 = 0"
    "unat (b div 4) < words r" "writable (unat (b div 4))" "fam \<noteq> REDUCED_MACHINE"
    "st_ts st0 = st_ts st" "st_counters st0 = st_counters st" "st_pc st0 = st_pc st"
    "reg_vals st0 = reg_vals st"
  shows "reaches_memory C st r n
    (bindE (r_write_word R b v (st_ts st OR 2) r) (\<lambda>((read_timestamp, old_value), ram).
     bindE (s_append_memory_read S b old_value read_timestamp (st_ts st OR 2) s) (\<lambda>snap.
     bindE (increment_family_counter C fam (default_increase_pc st0)) (\<lambda>st.
     Inr (st, ram, snap)))))
    \<lparr>isa_regs = reg_vals st, isa_pc = st_pc st + 4, isa_mem = bytes_of ((word r)(unat (b div 4) := v))\<rparr>"
proof -
  obtain rt r1 s1 where a: "r_write_word R b v (st_ts st OR 2) r = Inr ((rt, word r (unat (b div 4))), r1)"
    "s_append_memory_read S b (word r (unat (b div 4))) rt (st_ts st OR 2) s = Inr s1"
    "word r1 = (word r)(unat (b div 4) := v)" "words r1 = words r" "fresh (unat (st_ts st) + 3) r1"
    "ready n s1"
    using store_access [of st0 r n s b v] assms(1-6,8) by auto
  have "cycle_at 3 (default_increase_pc st0)" using cycle_at_mono [OF assms(1)] by simp
  then show ?thesis
    unfolding reaches_memory_def using a assms(7-11)
    by (intro exI [of _ fam] exI [of _ "default_increase_pc st0"] exI [of _ r1] exI [of _ s1])
      (simp add: isa_of_def)
qed

text \<open>Outside the memory an access fails, and so does a store to the read-only part.\<close>

lemma access_fails:
  assumes "unat (b div 4) \<ge> words r"
  shows "\<exists>e. r_read_word R b t r = Inl e" "\<exists>e. r_peek_word R b r = Inl e" "\<exists>e. r_write_word R b v t r = Inl e"
  using assms read_possible [of b t r] write_possible [of b v t r] peek [of b r]
  by (cases "r_read_word R b t r"; cases "r_peek_word R b r"; cases "r_write_word R b v t r"; force)+

lemma rom_fails:
  "\<not> writable (unat (b div 4)) \<Longrightarrow> \<exists>e. r_write_word R b v t r = Inl e"
  using write_possible [of b v t r] by (cases "r_write_word R b v t r"; force)

lemma bindE_fails: "\<exists>e. m = Inl e \<Longrightarrow> \<exists>e. bindE m f = Inl e"
  by auto

text \<open>The outcome of an instruction against that of the reference machine.\<close>

definition agrees_memory ::
  "'c counter_ops \<Rightarrow> 'c State \<Rightarrow> 'r \<Rightarrow> nat \<Rightarrow> ('c State \<times> 'r \<times> 's) res \<Rightarrow> isa option \<Rightarrow> bool" where
  "agrees_memory C st r n m o' \<longleftrightarrow>
     (case o' of None \<Rightarrow> \<exists>e. m = Inl e | Some s' \<Rightarrow> reaches_memory C st r n m s')"

lemma agrees_memory_None: "\<exists>e. m = Inl e \<Longrightarrow> agrees_memory C st r n m None"
  by (simp add: agrees_memory_def)

lemma agrees_memory_Some: "reaches_memory C st r n m s' \<Longrightarrow> agrees_memory C st r n m (Some s')"
  by (simp add: agrees_memory_def)

lemma load_word_refines:
  assumes "cycle_at 0 st" "i_rs1 i < 32" "i_rd i < 32" "fresh (unat (st_ts st)) r" "ready (Suc n) s"
    "i_name i = Lw"
  shows "agrees_memory C st r n (lw_op C S R st r s i) (isa_step (4 * words r) rom i (isa_of (word r) st))"
proof -
  define a where "a = reg_vals st ! unat (i_rs1 i) + i_imm i"
  have rd: "read_register 0 (i_rs1 i) st = Inr (reg_vals st ! unat (i_rs1 i), touch_reg 0 (i_rs1 i) st)"
    using assms(1,2) by (simp add: access_ok)
  have isa: "isa_step (4 * words r) rom i (isa_of (word r) st) =
      (if unat a mod 4 = 0 \<and> unat a div 4 < words r
       then Some \<lparr>isa_regs = isa_write (i_rd i) (word r (unat a div 4)) (reg_vals st),
         isa_pc = st_pc st + 4, isa_mem = bytes_of (word r)\<rparr> else None)"
    using access_bound(2) [of 4 "unat a" "words r"] unsigned_less [of "word r (unat a div 4)", where ?'a = nat]
    by (auto simp: isa_step_def isa_of_def Let_def assms(6) a_def [symmetric] isa_load_at isa_extend_def)
  show ?thesis
    unfolding isa lw_op_def rd
    using load_reaches [OF assms(1-5), of a LOAD_STORE_WORD_ONLY C "\<lambda>v. v"]
      access_fails(1) [of r a "st_ts st OR 1"]
    by (auto simp: Let_def a_def [symmetric] aligned_ok guardE_def
        intro!: agrees_memory_Some agrees_memory_None)
qed

lemma load_half_refines:
  assumes "cycle_at 0 st" "i_rs1 i < 32" "i_rd i < 32" "fresh (unat (st_ts st)) r" "ready (Suc n) s"
    "isa_load_kind (i_name i) = Some (2, sx)"
  shows "agrees_memory C st r n (lh_op C S R sx st r s i) (isa_step (4 * words r) rom i (isa_of (word r) st))"
proof -
  define a where "a = reg_vals st ! unat (i_rs1 i) + i_imm i"
  define b where "b = a AND NOT 3"
  have b: "b mod 4 = 0" "unat (b div 4) = unat a div 4" "a AND - 4 = b"
    using aligned_ok [of a] by (simp_all add: b_def)
  have rd: "read_register 0 (i_rs1 i) st = Inr (reg_vals st ! unat (i_rs1 i), touch_reg 0 (i_rs1 i) st)"
    using assms(1,2) by (simp add: access_ok)
  have name: "i_name i \<notin> {Lui, Auipc, Jal, Jalr, Branch}" using assms(6) by auto
  have isa: "isa_step (4 * words r) rom i (isa_of (word r) st) =
      (if unat a mod 2 = 0 \<and> unat a div 4 < words r
       then Some \<lparr>isa_regs = isa_write (i_rd i) (lh_value sx a (word r (unat a div 4))) (reg_vals st),
         isa_pc = st_pc st + 4, isa_mem = bytes_of (word r)\<rparr> else None)"
    using access_bound(2) [of 2 "unat a" "words r"] name
    by (auto simp: isa_step_def isa_of_def Let_def assms(6) a_def [symmetric] isa_load_at lh_value_ok)
  show ?thesis
    unfolding isa lh_op_def rd
    using load_reaches [OF assms(1-5), of b LOAD_STORE_SUBWORD_ONLY C "lh_value sx a"]
      access_fails(1) [of r b "st_ts st OR 1"]
    by (auto simp: Let_def a_def [symmetric] b aligned_ok(3) guardE_def
        intro!: agrees_memory_Some agrees_memory_None)
qed

lemma load_byte_refines:
  assumes "cycle_at 0 st" "i_rs1 i < 32" "i_rd i < 32" "fresh (unat (st_ts st)) r" "ready (Suc n) s"
    "isa_load_kind (i_name i) = Some (1, sx)"
  shows "agrees_memory C st r n (lb_op C S R sx st r s i) (isa_step (4 * words r) rom i (isa_of (word r) st))"
proof -
  define a where "a = reg_vals st ! unat (i_rs1 i) + i_imm i"
  define b where "b = a AND NOT 3"
  have b: "b mod 4 = 0" "unat (b div 4) = unat a div 4" "a AND - 4 = b"
    using aligned_ok [of a] by (simp_all add: b_def)
  have rd: "read_register 0 (i_rs1 i) st = Inr (reg_vals st ! unat (i_rs1 i), touch_reg 0 (i_rs1 i) st)"
    using assms(1,2) by (simp add: access_ok)
  have name: "i_name i \<notin> {Lui, Auipc, Jal, Jalr, Branch}" using assms(6) by auto
  have isa: "isa_step (4 * words r) rom i (isa_of (word r) st) =
      (if unat a div 4 < words r
       then Some \<lparr>isa_regs = isa_write (i_rd i) (lb_value sx a (word r (unat a div 4))) (reg_vals st),
         isa_pc = st_pc st + 4, isa_mem = bytes_of (word r)\<rparr> else None)"
    using access_bound(2) [of 1 "unat a" "words r"] name isa_load_at [of 1 "unat a" "word r"]
    by (auto simp: isa_step_def isa_of_def Let_def assms(6) a_def [symmetric] lh_value_ok)
  show ?thesis
    unfolding isa lb_op_def rd
    using load_reaches [OF assms(1-5), of b LOAD_STORE_SUBWORD_ONLY C "lb_value sx a"]
      access_fails(1) [of r b "st_ts st OR 1"]
    by (auto simp: Let_def a_def [symmetric] b
        intro!: agrees_memory_Some agrees_memory_None)
qed

text \<open>\<open>rw\<close> is the number of words of the read-only part.\<close>

lemma store_word_refines:
  assumes "cycle_at 0 st" "i_rs1 i < 32" "i_rs2 i < 32" "fresh (unat (st_ts st)) r" "ready (Suc n) s"
    "i_name i = Sw" "writable = (\<lambda>j. rw \<le> j)"
  shows "agrees_memory C st r n (sw_op C S R st r s i)
    (isa_step (4 * words r) (4 * rw) i (isa_of (word r) st))"
proof -
  define a where "a = reg_vals st ! unat (i_rs1 i) + i_imm i"
  define v where "v = reg_vals st ! unat (i_rs2 i)"
  define st0 where "st0 = touch_reg 1 (i_rs2 i) (touch_reg 0 (i_rs1 i) st)"
  have rd: "read_register 0 (i_rs1 i) st = Inr (reg_vals st ! unat (i_rs1 i), touch_reg 0 (i_rs1 i) st)"
    "read_register 1 (i_rs2 i) (touch_reg 0 (i_rs1 i) st) = Inr (v, st0)" "cycle_at 2 st0"
    using assms(1-3) by (simp_all add: access_ok v_def st0_def)
  have isa: "isa_step (4 * words r) (4 * rw) i (isa_of (word r) st) =
      (if unat a mod 4 = 0 \<and> unat a div 4 < words r \<and> rw \<le> unat a div 4
       then Some \<lparr>isa_regs = reg_vals st, isa_pc = st_pc st + 4,
         isa_mem = bytes_of ((word r)(unat a div 4 := v))\<rparr> else None)"
    using access_bound(2,3) [of 4 "unat a"] isa_store_at [of 4 "unat a" v "word r"]
    by (auto simp: isa_step_def isa_of_def Let_def assms(6) a_def [symmetric] v_def [symmetric] merge_word)
  show ?thesis
    unfolding isa sw_op_def rd
    using store_reaches [OF rd(3) assms(4,5), of a LOAD_STORE_WORD_ONLY C v]
      access_fails(3) [of r a v "st_ts st OR 2"] rom_fails [of a v "st_ts st OR 2" r]
    by (auto simp: Let_def a_def [symmetric] aligned_ok guardE_def assms(7) rd not_less not_le st0_def
        intro!: agrees_memory_Some agrees_memory_None)
qed

lemma store_half_refines:
  assumes "cycle_at 0 st" "i_rs1 i < 32" "i_rs2 i < 32" "fresh (unat (st_ts st)) r" "ready (Suc n) s"
    "i_name i = Sh" "writable = (\<lambda>j. rw \<le> j)"
  shows "agrees_memory C st r n (sh_op C S R st r s i)
    (isa_step (4 * words r) (4 * rw) i (isa_of (word r) st))"
proof -
  define a where "a = reg_vals st ! unat (i_rs1 i) + i_imm i"
  define b where "b = a AND NOT 3"
  define v where "v = reg_vals st ! unat (i_rs2 i)"
  define w where "w = merge_bytes (unat a mod 4) 2 v (word r (unat a div 4))"
  define st0 where "st0 = touch_reg 1 (i_rs2 i) (touch_reg 0 (i_rs1 i) st)"
  have b: "b mod 4 = 0" "unat (b div 4) = unat a div 4" "a AND - 4 = b"
    using aligned_ok [of a] by (simp_all add: b_def)
  have rd: "read_register 0 (i_rs1 i) st = Inr (reg_vals st ! unat (i_rs1 i), touch_reg 0 (i_rs1 i) st)"
    "read_register 1 (i_rs2 i) (touch_reg 0 (i_rs1 i) st) = Inr (v, st0)" "cycle_at 2 st0"
    using assms(1-3) by (simp_all add: access_ok v_def st0_def)
  have isa: "isa_step (4 * words r) (4 * rw) i (isa_of (word r) st) =
      (if unat a mod 2 = 0 \<and> unat a div 4 < words r \<and> rw \<le> unat a div 4
       then Some \<lparr>isa_regs = reg_vals st, isa_pc = st_pc st + 4,
         isa_mem = bytes_of ((word r)(unat a div 4 := w))\<rparr> else None)"
    using access_bound(2,3) [of 2 "unat a"] isa_store_at [of 2 "unat a" v "word r"]
    by (auto simp: isa_step_def isa_of_def Let_def assms(6) a_def [symmetric] v_def [symmetric] w_def)
  have peek_ok: "unat a div 4 < words r \<Longrightarrow> r_peek_word R b r = Inr (word r (unat a div 4))"
    using b by (simp add: peek)
  show ?thesis
    unfolding isa sh_op_def rd
    using store_reaches [OF rd(3) assms(4,5), of b LOAD_STORE_SUBWORD_ONLY C w] peek_ok
      access_fails(2) [of r b] rom_fails [of b w "st_ts st OR 2" r] masks_ok(2) [of a]
      stored_ok(2) [of a v "word r (unat a div 4)"]
    by (cases "unat a div 4 < words r")
      (auto simp: Let_def a_def [symmetric] b aligned_ok(3) guardE_def assms(7) rd not_less not_le st0_def
        w_def [symmetric] intro!: agrees_memory_Some agrees_memory_None)
qed

lemma store_byte_refines:
  assumes "cycle_at 0 st" "i_rs1 i < 32" "i_rs2 i < 32" "fresh (unat (st_ts st)) r" "ready (Suc n) s"
    "i_name i = Sb" "writable = (\<lambda>j. rw \<le> j)"
  shows "agrees_memory C st r n (sb_op C S R st r s i)
    (isa_step (4 * words r) (4 * rw) i (isa_of (word r) st))"
proof -
  define a where "a = reg_vals st ! unat (i_rs1 i) + i_imm i"
  define b where "b = a AND NOT 3"
  define v where "v = reg_vals st ! unat (i_rs2 i)"
  define w where "w = merge_bytes (unat a mod 4) (Suc 0) v (word r (unat a div 4))"
  define st0 where "st0 = touch_reg 1 (i_rs2 i) (touch_reg 0 (i_rs1 i) st)"
  have b: "b mod 4 = 0" "unat (b div 4) = unat a div 4" "a AND - 4 = b"
    using aligned_ok [of a] by (simp_all add: b_def)
  have rd: "read_register 0 (i_rs1 i) st = Inr (reg_vals st ! unat (i_rs1 i), touch_reg 0 (i_rs1 i) st)"
    "read_register 1 (i_rs2 i) (touch_reg 0 (i_rs1 i) st) = Inr (v, st0)" "cycle_at 2 st0"
    using assms(1-3) by (simp_all add: access_ok v_def st0_def)
  have isa: "isa_step (4 * words r) (4 * rw) i (isa_of (word r) st) =
      (if unat a div 4 < words r \<and> rw \<le> unat a div 4
       then Some \<lparr>isa_regs = reg_vals st, isa_pc = st_pc st + 4,
         isa_mem = bytes_of ((word r)(unat a div 4 := w))\<rparr> else None)"
    using access_bound(2,3) [of 1 "unat a"] isa_store_at [of 1 "unat a" v "word r"]
    by (auto simp: isa_step_def isa_of_def Let_def assms(6) a_def [symmetric] v_def [symmetric] w_def)
  have peek_ok: "unat a div 4 < words r \<Longrightarrow> r_peek_word R b r = Inr (word r (unat a div 4))"
    using b by (simp add: peek)
  show ?thesis
    unfolding isa sb_op_def rd
    using store_reaches [OF rd(3) assms(4,5), of b LOAD_STORE_SUBWORD_ONLY C w] peek_ok
      access_fails(2) [of r b] rom_fails [of b w "st_ts st OR 2" r] masks_ok(1) [of a]
      stored_ok(1) [of a v "word r (unat a div 4)"]
    by (cases "unat a div 4 < words r")
      (auto simp: Let_def a_def [symmetric] b assms(7) rd not_less not_le st0_def
        w_def [symmetric] intro!: agrees_memory_Some agrees_memory_None)
qed

end

end
