(* ===== verification/VM_Refine.thy ===== *)
theory VM_Refine
  imports VM_LoadStore
begin

text \<open>
  One step of the virtual machine refines one step of the reference machine, for every instruction
  that does not leave the machine (no CSR instruction), every memory that satisfies \<open>word_memory\<close>,
  every snapshotter with room for an entry and all counters that do not overflow; and the run loop
  refines the run of the reference machine.
\<close>

locale machine =
  recorded_memory R words word last writable S ready + counters C within
  for R :: "'r ram_ops" and words word last writable
    and S :: "('c, 's) snapshotter_ops" and ready
    and C :: "'c counter_ops" and within
begin

text \<open>The state of the machine at the start of a cycle: \<open>n\<close> entries fit in the log, no counter exceeds \<open>K\<close>.\<close>

definition cycle_start :: "nat \<Rightarrow> nat \<Rightarrow> 'c State \<Rightarrow> 'r \<Rightarrow> 's \<Rightarrow> bool" where
  "cycle_start n K st r s \<longleftrightarrow>
     cycle_at 0 st \<and> fresh (unat (st_ts st)) r \<and> ready n s \<and> within K (st_counters st)"

definition cycle_end :: "nat \<Rightarrow> nat \<Rightarrow> 'c State \<Rightarrow> 'r \<Rightarrow> 's \<Rightarrow> bool" where
  "cycle_end n K st r s \<longleftrightarrow>
     cycle_at 3 st \<and> fresh (unat (st_ts st) + 3) r \<and> ready n s \<and> within K (st_counters st)"

lemma reaches_run:
  assumes "reaches C st m regs pc" "cycle_start (Suc n) K st r s" "K + 1 < 2 ^ 64"
  shows "\<exists>st'. m = Inr st' \<and> reg_vals st' = regs \<and> st_pc st' = pc \<and> st_ts st' = st_ts st \<and>
    cycle_end n (K + 1) st' r s"
proof -
  obtain fam st1 where 1: "fam \<noteq> REDUCED_MACHINE" "m = increment_family_counter C fam st1" "cycle_at 3 st1"
    "reg_vals st1 = regs" "st_pc st1 = pc" "st_ts st1 = st_ts st" "st_counters st1 = st_counters st"
    using assms(1) by (auto simp: reaches_def)
  obtain c where "c_log_family C fam (st_counters st) = Inr c" "within (K + 1) c"
    using log_family [OF 1(1) _ assms(3)] assms(2) by (auto simp: cycle_start_def)
  then show ?thesis
    using 1 assms(2) fresh_mono [of "unat (st_ts st)" r] ready_mono [of "Suc n" s n]
    by (auto simp: increment_family_counter_def cycle_end_def cycle_start_def)
qed

lemma reaches_memory_run:
  assumes "reaches_memory C st r n m s'" "cycle_start (Suc n) K st r s" "K + 1 < 2 ^ 64"
  shows "\<exists>st' r' snap'. m = Inr (st', r', snap') \<and> isa_of (word r') st' = s' \<and> st_ts st' = st_ts st \<and>
    words r' = words r \<and> cycle_end n (K + 1) st' r' snap'"
proof -
  obtain fam st1 r1 s1 where 1: "fam \<noteq> REDUCED_MACHINE"
    "m = bindE (increment_family_counter C fam st1) (\<lambda>st. Inr (st, r1, s1))" "cycle_at 3 st1"
    "isa_of (word r1) st1 = s'" "st_ts st1 = st_ts st" "st_counters st1 = st_counters st"
    "words r1 = words r" "fresh (unat (st_ts st) + 3) r1" "ready n s1"
    using assms(1) unfolding reaches_memory_def by blast
  obtain c where "c_log_family C fam (st_counters st) = Inr c" "within (K + 1) c"
    using log_family [OF 1(1) _ assms(3)] assms(2) by (auto simp: cycle_start_def)
  then show ?thesis
    using 1 by (auto simp: increment_family_counter_def cycle_end_def isa_of_def)
qed

lemma memory_step_refines:
  assumes "cycle_start (Suc n) K st r s" "wf_instr i" "i_name i \<noteq> ZicsrDelegation"
    "memory_step C S R U st r s i (i_name i) = Some m" "writable = (\<lambda>j. rw \<le> j)"
  shows "agrees_memory C st r n m (isa_step (4 * words r) (4 * rw) i (isa_of (word r) st))"
proof -
  have lt: "i_rs1 i < 32" "i_rs2 i < 32" "i_rd i < 32" using assms(2) by (simp_all add: wf_instr_def)
  have c: "cycle_at 0 st" "fresh (unat (st_ts st)) r" "ready (Suc n) s"
    using assms(1) by (simp_all add: cycle_start_def)
  note load = load_word_refines [OF c(1) lt(1,3) c(2,3)] load_half_refines [OF c(1) lt(1,3) c(2,3)]
    load_byte_refines [OF c(1) lt(1,3) c(2,3)]
    and store = store_word_refines [OF c(1) lt(1,2) c(2,3) _ assms(5)]
      store_half_refines [OF c(1) lt(1,2) c(2,3) _ assms(5)] store_byte_refines [OF c(1) lt(1,2) c(2,3) _ assms(5)]
  show ?thesis
    using assms(3,4) load store by (cases "i_name i") auto
qed

lemma step_refines:
  assumes "cycle_start (Suc n) K st r s" "K + 1 < 2 ^ 64" "tape (st_pc st) = Inr i" "wf_instr i"
    "i_name i \<notin> {ZicsrDelegation, ZicsrNonDeterminismRead, ZicsrNonDeterminismWrite}"
    "writable = (\<lambda>j. rw \<le> j)"
  shows "case isa_step (4 * words r) (4 * rw) i (isa_of (word r) st) of
      None \<Rightarrow> \<exists>e. run_step C S R ND U tape st r s nd = Inl e
    | Some s' \<Rightarrow> \<exists>st' r' snap'. run_step C S R ND U tape st r s nd = Inr (st', r', snap', nd) \<and>
        isa_of (word r') st' = s' \<and> st_ts st' = st_ts st \<and> words r' = words r \<and>
        cycle_end n (K + 1) st' r' snap'"
proof -
  have ts: "st_ts st mod TIMESTAMP_STEP = 0"
    using cycle_atD(2) [of 0 st] assms(1)
    by (simp add: cycle_start_def TIMESTAMP_STEP_def word_unat_eq_iff unat_mod)
  show ?thesis
  proof (cases "register_step C st i (i_name i)")
    case (Some m)
    note ref = register_step_refines [OF _ assms(4) Some, where N = "4 * words r" and rom = "4 * rw"
        and mm = "bytes_of (word r)", folded isa_of_def]
    show ?thesis
    proof (cases "isa_step (4 * words r) (4 * rw) i (isa_of (word r) st)")
      case None
      then show ?thesis using ref assms(1,3) Some ts by (auto simp: run_step_def cycle_start_def)
    next
      case (Some s')
      then have "reaches C st m (isa_regs s') (isa_pc s')" "isa_mem s' = bytes_of (word r)"
        using ref assms(1) by (auto simp: cycle_start_def)
      with reaches_run [OF this(1) assms(1,2)] show ?thesis
        using Some \<open>register_step C st i (i_name i) = Some m\<close> assms(3) ts
        by (auto simp: run_step_def isa_of_def)
    qed
  next
    case None
    note reg = None
    show ?thesis
    proof (cases "memory_step C S R U st r s i (i_name i)")
      case (Some m)
      note agr = memory_step_refines [OF assms(1,4) _ Some assms(6)]
      show ?thesis
      proof (cases "isa_step (4 * words r) (4 * rw) i (isa_of (word r) st)")
        case None
        then show ?thesis using agr reg assms(3,5) Some ts
          by (auto simp: run_step_def agrees_memory_def)
      next
        case (Some s')
        then have "reaches_memory C st r n m s'" using agr assms(5) by (simp add: agrees_memory_def)
        with reaches_memory_run [OF this assms(1,2)] show ?thesis
          using Some reg \<open>memory_step C S R U st r s i (i_name i) = Some m\<close> assms(3) ts
          by (auto simp: run_step_def)
      qed
    next
      case None
      then have "isa_step (4 * words r) (4 * rw) i (isa_of (word r) st) = None"
        using reg assms(5) by (cases "i_name i") (auto simp: isa_step_def Let_def isa_alu.simps)
      then show ?thesis using None reg assms(3,5) ts by (auto simp: run_step_def)
    qed
  qed
qed

end

end
