(* ===== verification/VM_Loop.thy ===== *)
theory VM_Loop
  imports VM_Refine
begin

text \<open>
  The run loop.  A snapshotter that is \<open>chunked\<close> keeps the log in chunks of bounded length: a cycle that
  starts with room for its entries ends with a chunk the snapshotter can close, and leaves room for
  the next cycle.  With it the loop of the machine refines the run of the reference machine.
\<close>

section \<open>The reference run\<close>

text \<open>At most \<open>n\<close> instructions; a jump to itself ends the program.\<close>

fun isa_run :: "nat \<Rightarrow> nat \<Rightarrow> (u32 \<Rightarrow> instruction option) \<Rightarrow> nat \<Rightarrow> isa \<Rightarrow> (bool \<times> isa) option" where
  "isa_run msize rom prog 0 s = Some (False, s)"
| "isa_run msize rom prog (Suc n) s =
     (case prog (isa_pc s) of
        None \<Rightarrow> None
      | Some i \<Rightarrow>
        (case isa_step msize rom i s of
           None \<Rightarrow> None
         | Some s' \<Rightarrow> if isa_pc s' = isa_pc s then Some (True, s') else isa_run msize rom prog n s'))"

section \<open>Chunked logs\<close>

text \<open>\<open>space T n s\<close>: \<open>T\<close> more entries fit in the buffer, of which \<open>n\<close> may be made before the next
  snapshot.  A cycle makes at most 62.\<close>

locale chunked =
  fixes S :: "('c, 's) snapshotter_ops" and space :: "nat \<Rightarrow> nat \<Rightarrow> 's \<Rightarrow> bool"
  assumes append_value_space: "space (Suc T) (Suc n) s \<Longrightarrow>
      \<exists>s'. s_append_arbitrary_value S v s = Inr s' \<and> space T n s'"
    and append_read_space: "space (Suc T) (Suc n) s \<Longrightarrow>
      \<exists>s'. s_append_memory_read S a v rt wt s = Inr s' \<and> space T n s'"
    and space_mono: "space T n s \<Longrightarrow> U \<le> T \<Longrightarrow> m \<le> n \<Longrightarrow> space U m s"
    and snapshot_space: "space T 0 s \<Longrightarrow>
      \<exists>s'. s_take_snapshot_if_needed S st s = Inr (False, s') \<and> space T 62 s'"
    and final_space: "space T 0 s \<Longrightarrow>
      \<exists>s'. s_take_final_snapshot S st s = Inr s' \<and> space T 62 s'"

sublocale chunked \<subseteq> cycle: appendable S "\<lambda>n. space (T + n) n" for T
  by unfold_locales (auto intro: append_value_space append_read_space space_mono)

interpretation unit_chunked: chunked unit_snapshotter "\<lambda>T n s. True"
  by unfold_locales (auto simp: unit_snapshotter_def)

text \<open>For \<open>SimpleSnapshotter\<close> the second number bounds the current chunk, by the length its debug
  assertion allows.\<close>

definition chunk_space ::
  "('b \<Rightarrow> log_entry list \<Rightarrow> bool) \<Rightarrow> ('b \<Rightarrow> nat) \<Rightarrow> nat \<Rightarrow> nat \<Rightarrow> ('c, 'b) SimpleSnapshotter \<Rightarrow> bool" where
  "chunk_space holds capacity T n s \<longleftrightarrow>
     (\<exists>xs. snapshots_of holds s xs \<and> length xs + T \<le> capacity (ss_reads_buffer s) \<and>
       length xs + n \<le> ps_reads_offset (ss_current_partial_snapshot s) + MAX_TRACE_CHUNK_LEN)"

context log_buffer
begin

lemma chunk_space_append:
  assumes "chunk_space holds capacity (Suc T) (Suc n) s"
  shows "\<exists>s'. simple_append B e s = Inr s' \<and> chunk_space holds capacity T n s'"
proof -
  obtain xs where xs: "snapshots_of holds s xs" "length xs + Suc T \<le> capacity (ss_reads_buffer s)"
    "length xs + Suc n \<le> ps_reads_offset (ss_current_partial_snapshot s) + MAX_TRACE_CHUNK_LEN"
    using assms by (auto simp: chunk_space_def)
  then have h: "holds (ss_reads_buffer s) xs" by (simp add: snapshots_of_def)
  obtain b' where b': "rb_push_within_capacity_unchecked B e (ss_reads_buffer s) = Inr b'"
    using push_fits [OF h, of e] xs(2) by auto
  have s': "simple_append B e s = Inr (s\<lparr>ss_reads_buffer := b'\<rparr>)"
    using b' by (simp add: simple_append_def)
  have "capacity b' = capacity (ss_reads_buffer s)" using push_holds [OF h b'] by simp
  then have "chunk_space holds capacity T n (s\<lparr>ss_reads_buffer := b'\<rparr>)"
    unfolding chunk_space_def using xs(2,3) snapshots_of_append [OF xs(1) s']
    by (intro exI [of _ "xs @ [e]"]) simp
  then show ?thesis using s' by blast
qed

lemma chunk_space_snapshot:
  assumes "chunk_space holds capacity T 0 s"
  shows "chunk_space holds capacity T 62 (snapshot_impl B st s)"
proof -
  obtain xs where xs: "snapshots_of holds s xs" "length xs + T \<le> capacity (ss_reads_buffer s)"
    using assms by (auto simp: chunk_space_def)
  have "ps_reads_offset (ss_current_partial_snapshot (snapshot_impl B st s)) = length xs"
    "ss_reads_buffer (snapshot_impl B st s) = ss_reads_buffer s"
    using xs(1) by (auto simp: snapshot_impl_def snapshots_of_def len_holds Let_def)
  then show ?thesis unfolding chunk_space_def using xs snapshots_of_snapshot [OF xs(1), of st]
    by (intro exI [of _ xs]) (simp add: MAX_TRACE_CHUNK_LEN_def)
qed

lemma chunk_space_if_needed:
  assumes "chunk_space holds capacity T 0 s"
  shows "\<exists>s'. simple_take_snapshot_if_needed B st s = Inr (False, s') \<and>
    chunk_space holds capacity T 62 s'"
proof -
  obtain xs where xs: "snapshots_of holds s xs" "length xs + T \<le> capacity (ss_reads_buffer s)"
    "length xs \<le> ps_reads_offset (ss_current_partial_snapshot s) + MAX_TRACE_CHUNK_LEN"
    using assms by (auto simp: chunk_space_def)
  let ?k = "ps_reads_offset (ss_current_partial_snapshot s)"
  have n: "rb_len B (ss_reads_buffer s) = length xs" "?k \<le> length xs"
    using xs(1) by (auto simp: snapshots_of_def len_holds)
  show ?thesis
  proof (cases "TRACE_CHUNK_LEN \<le> length xs - ?k")
    case True
    then show ?thesis using chunk_space_snapshot [OF assms] n xs(3)
      by (simp add: simple_take_snapshot_if_needed_def Let_def guardE_def)
  next
    case False
    then have "length xs + 62 \<le> ?k + MAX_TRACE_CHUNK_LEN"
      using n(2) by (simp add: MAX_TRACE_CHUNK_LEN_def TRACE_CHUNK_LEN_def)
    then have "chunk_space holds capacity T 62 s"
      unfolding chunk_space_def using xs by blast
    then show ?thesis using False n
      by (simp add: simple_take_snapshot_if_needed_def Let_def guardE_def)
  qed
qed

lemma chunk_space_mono:
  "chunk_space holds capacity T n s \<Longrightarrow> U \<le> T \<Longrightarrow> m \<le> n \<Longrightarrow> chunk_space holds capacity U m s"
  by (fastforce simp: chunk_space_def)

lemma chunk_space_new:
  assumes "new_with_cycle_limit B limit st = Inr s"
  shows "chunk_space holds capacity limit 62 s"
proof -
  have "snapshots_of holds s []" using assms by (rule snapshots_of_new)
  moreover have "limit \<le> capacity (ss_reads_buffer s)"
    using assms by (auto simp: new_with_cycle_limit_def dest: new_holds)
  ultimately show ?thesis
    by (auto simp: chunk_space_def MAX_TRACE_CHUNK_LEN_def intro!: exI [of _ "[]"])
qed

end

sublocale log_buffer \<subseteq> chunked "simple_snapshotter_ops B" "chunk_space holds capacity"
  by unfold_locales (auto simp: simple_snapshotter_ops_def chunk_space_append chunk_space_if_needed
      intro: chunk_space_mono chunk_space_snapshot)

section \<open>The loop\<close>

definition program_of :: "(u32 \<Rightarrow> instruction res) \<Rightarrow> u32 \<Rightarrow> instruction option" where
  "program_of tape pc = (case tape pc of Inl e \<Rightarrow> None | Inr i \<Rightarrow> Some i)"

definition csr_free :: "(u32 \<Rightarrow> instruction res) \<Rightarrow> bool" where
  "csr_free tape \<longleftrightarrow> (\<forall>pc i. tape pc = Inr i \<longrightarrow> wf_instr i \<and>
     i_name i \<notin> {ZicsrDelegation, ZicsrNonDeterminismRead, ZicsrNonDeterminismWrite})"

locale chunked_machine =
  word_memory R words word last writable + chunked S space + counters C within
  for R :: "'r ram_ops" and words word last writable
    and S :: "('c, 's) snapshotter_ops" and space
    and C :: "'c counter_ops" and within

sublocale chunked_machine \<subseteq> step: machine R words word last writable S "\<lambda>n. space (T + n) n" C within
  for T
  by unfold_locales

context chunked_machine
begin

definition loop_state :: "nat \<Rightarrow> 'c State \<Rightarrow> 'r \<Rightarrow> 's \<Rightarrow> bool" where
  "loop_state N st r s \<longleftrightarrow>
     cycle_at 0 st \<and> fresh (unat (st_ts st)) r \<and> space (N + 61) 62 s \<and>
     unat (st_ts st) + 4 * N < 2 ^ 64 \<and> (\<exists>K. within K (st_counters st) \<and> K + N < 2 ^ 64)"

lemma run_body_refines:
  assumes "loop_state (Suc N) st r s" "csr_free tape" "writable = (\<lambda>j. rw \<le> j)"
  shows "case isa_run (4 * words r) (4 * rw) (program_of tape) 1 (isa_of (word r) st) of
      None \<Rightarrow> \<exists>e. run_body C S R ND U tape st r s nd = Inl e
    | Some (b, s') \<Rightarrow> \<exists>st' r' snap'.
        run_body C S R ND U tape st r s nd =
          Inr (if b then Some True else None, st', r', snap', nd) \<and>
        isa_of (word r') st' = s' \<and> words r' = words r \<and> loop_state N st' r' snap'"
proof (cases "tape (st_pc st)")
  case (Inl e)
  then show ?thesis by (simp add: run_body_def run_step_def Let_def program_of_def isa_of_def)
next
  case (Inr i)
  obtain K where K: "within K (st_counters st)" "K + Suc N < 2 ^ 64"
    using assms(1) by (auto simp: loop_state_def)
  have start: "step.cycle_start N 62 K st r s"
    using assms(1) K(1) by (auto simp: step.cycle_start_def loop_state_def intro: space_mono)
  have i: "wf_instr i" "i_name i \<notin> {ZicsrDelegation, ZicsrNonDeterminismRead, ZicsrNonDeterminismWrite}"
    using assms(2) Inr by (auto simp: csr_free_def)
  have "step.cycle_start N (Suc 61) K st r s" "K + 1 < 2 ^ 64"
    using start K(2) by simp_all
  note ref = step.step_refines [of N 61 K st r s tape i rw, OF this Inr i assms(3), where ND = ND and U = U and nd = nd]
  show ?thesis
  proof (cases "isa_step (4 * words r) (4 * rw) i (isa_of (word r) st)")
    case None
    then show ?thesis using ref Inr by (auto simp: run_body_def program_of_def isa_of_def)
  next
    case (Some s')
    then obtain st' r' snap' where run: "run_step C S R ND U tape st r s nd = Inr (st', r', snap', nd)"
      "isa_of (word r') st' = s'" "st_ts st' = st_ts st" "words r' = words r"
      "step.cycle_end N 61 (K + 1) st' r' snap'"
      using ref by auto
    obtain t where t: "add_u64 (st_ts st') TIMESTAMP_STEP = Inr t"
      using assms(1) run(3) by (simp add: add_u64_def TIMESTAMP_STEP_def loop_state_def)
    then have ut: "unat t = unat (st_ts st) + 4"
      using run(3) by (auto dest!: unat_add_u64 simp: TIMESTAMP_STEP_def)
    have sp: "space (N + 61) 0 snap'" using run(5) by (auto simp: step.cycle_end_def intro: space_mono)
    have ls: "loop_state N (st'\<lparr>st_ts := t\<rparr>) r' snap''" if "space (N + 61) 62 snap''" for snap''
      using that run(5) K(2) t ut assms(1) run(3) cycle_at_next [of st' t] cycle_at_mono [of 3 st' 4]
      by (auto simp: loop_state_def step.cycle_end_def intro: fresh_mono intro!: exI [of _ "K + 1"])
    have pcs: "isa_pc s' = st_pc st'" "isa_pc (isa_of (word r) st) = st_pc st"
      "isa_of (word r') (st'\<lparr>st_ts := t\<rparr>) = s'"
      using run(2) by (auto simp: isa_of_def)
    show ?thesis
    proof (cases "st_pc st' = st_pc st")
      case True
      then show ?thesis
        using Some Inr run t pcs ls final_space [OF sp, of "st'\<lparr>st_ts := t\<rparr>"]
        by (auto simp: run_body_def program_of_def Let_def)
    next
      case False
      then show ?thesis
        using Some Inr run t pcs ls snapshot_space [OF sp, of "st'\<lparr>st_ts := t\<rparr>"]
        by (auto simp: run_body_def program_of_def Let_def)
    qed
  qed
qed

lemma run_refines:
  assumes "loop_state N st r s" "csr_free tape" "writable = (\<lambda>j. rw \<le> j)"
  shows "case isa_run (4 * words r) (4 * rw) (program_of tape) N (isa_of (word r) st) of
      None \<Rightarrow> \<exists>e. run_basic_unrolled C S R ND U tape N st r s nd = Inl e
    | Some (b, s') \<Rightarrow> \<exists>st' r' snap'.
        run_basic_unrolled C S R ND U tape N st r s nd = Inr (b, st', r', snap', nd) \<and>
        isa_of (word r') st' = s' \<and> words r' = words r \<and> loop_state 0 st' r' snap'"
  using assms(1)
proof (induction N arbitrary: st r s)
  case (Suc N)
  note body = run_body_refines [OF Suc.prems assms(2,3), where ND = ND and U = U and nd = nd]
  let ?p = "program_of tape (st_pc st)"
  have mono: "loop_state 0 st' r' s'" if "loop_state N st' r' s'" for st' r' s'
    using that by (auto simp: loop_state_def intro: space_mono)
  show ?case
  proof (cases "isa_run (4 * words r) (4 * rw) (program_of tape) 1 (isa_of (word r) st)")
    case None
    then have "isa_run (4 * words r) (4 * rw) (program_of tape) (Suc N) (isa_of (word r) st) = None"
      by (auto simp: split: option.splits if_splits)
    then show ?thesis using body None by auto
  next
    case (Some bs)
    obtain b s' where bs: "bs = (b, s')" by force
    obtain st' r' snap' where run: "run_body C S R ND U tape st r s nd =
        Inr (if b then Some True else None, st', r', snap', nd)"
      "isa_of (word r') st' = s'" "words r' = words r" "loop_state N st' r' snap'"
      using body Some bs by auto
    have isa: "isa_run (4 * words r) (4 * rw) (program_of tape) (Suc N) (isa_of (word r) st) =
      (if b then Some (True, s') else isa_run (4 * words r) (4 * rw) (program_of tape) N s')"
      using Some bs by (auto split: option.splits if_splits)
    show ?thesis
    proof (cases b)
      case True
      then show ?thesis using run mono isa by auto
    next
      case False
      then show ?thesis using Suc.IH [OF run(4)] run(1-3) unfolding isa by (auto split: option.splits)
    qed
  qed
qed (simp add: isa_of_def)

end

section \<open>The machines of the program\<close>

text \<open>The memory with a ROM region under the three kinds of counters, with the log in chunks, in a
  plain vector, or not kept.\<close>

interpretation families_machine: chunked_machine "rom_ram_ops bits" "\<lambda>r. length (backing r)" rom_word
  rom_last "\<lambda>i. rom_words bits \<le> i" "simple_snapshotter_ops (bivec_ops inner outer)"
  "chunk_space (bivec_holds inner outer) (\<lambda>b. inner * outer)" families_counters families_within
  for bits inner outer
  by unfold_locales

interpretation unified_machine: chunked_machine "rom_ram_ops bits" "\<lambda>r. length (backing r)" rom_word
  rom_last "\<lambda>i. rom_words bits \<le> i" "simple_snapshotter_ops (bivec_ops inner outer)"
  "chunk_space (bivec_holds inner outer) (\<lambda>b. inner * outer)" unified_counters unified_within
  for bits inner outer
  by unfold_locales

interpretation vec_machine: chunked_machine "rom_ram_ops bits" "\<lambda>r. length (backing r)" rom_word
  rom_last "\<lambda>i. rom_words bits \<le> i" "simple_snapshotter_ops vec_buffer_ops"
  "chunk_space (\<lambda>b xs. vb_data b = xs) vb_capacity" delegations_counters delegations_within
  for bits
  by unfold_locales

interpretation plain_machine: chunked_machine "rom_ram_ops bits" "\<lambda>r. length (backing r)" rom_word
  rom_last "\<lambda>i. rom_words bits \<le> i" unit_snapshotter "\<lambda>T n s. True"
  delegations_counters delegations_within
  for bits
  by unfold_locales

lemma pred_div_4: "(n :: nat) mod 4 \<noteq> 0 \<Longrightarrow> (n - 1) div 4 = n div 4"
  using div_mult_mod_eq [of n 4] by (cases n) (simp_all add: div_Suc)

lemma power_of_two_div_4:
  assumes "is_power_of_two (w :: u64)" "4 \<le> unat w"
  shows "4 * (unat w div 4) = unat w"
proof -
  have "unat w mod 4 = 0"
  proof (rule ccontr)
    assume r: "unat w mod 4 \<noteq> 0"
    have "unat (w - 1) = unat w - 1" using assms(2) by (intro unat_minus_one) (use unat_eq_zero in fastforce)
    then have "unat (w - 1) div 4 = unat w div 4" using pred_div_4 [OF r] by simp
    then have "drop_bit 2 (w - 1) = drop_bit 2 w" by (simp add: word_unat_eq_iff unat_drop_bit)
    moreover have "drop_bit 2 (w AND (w - 1)) = 0" using assms(1) by (simp add: is_power_of_two_def)
    ultimately have "drop_bit 2 w = 0" by (simp add: drop_bit_and)
    then have "unat (drop_bit 2 w) = 0" by simp
    then have "unat w div 4 = 0" by (simp only: unat_drop_bit) simp
    then show False using assms(2) by simp
  qed
  then show ?thesis using div_mult_mod_eq [of "unat w" 4] by simp
qed

lemma from_rom_content_rom:
  assumes "from_rom_content bits content total_size = Inr ram"
  shows "4 * length (backing ram) = unat total_size" "4 * rom_words bits = 2 ^ (16 + bits)"
    "length content \<le> length (backing ram)"
    "i < length (backing ram) \<Longrightarrow> rom_word ram i = (if i < length content then content ! i else 0)"
    "rom.fresh b ram \<longleftrightarrow> 0 < b"
proof -
  have c: "is_power_of_two total_size" "2 ^ (16 + bits) < unat total_size"
    "length content \<le> rom_words bits"
    "backing ram = map (\<lambda>src. \<lparr>reg_ts = 0, reg_val = src\<rparr>) (take (unat total_size div 4) content) @
       replicate (unat total_size div 4 - length content) \<lparr>reg_ts = 0, reg_val = 0\<rparr>"
    using assms by (auto simp: from_rom_content_def Let_def)
  have "(2::nat) ^ 16 \<le> 2 ^ (16 + bits)" by (rule power_increasing) auto
  then have u: "4 * (unat total_size div 4) = unat total_size" "65536 < unat total_size"
    using power_of_two_div_4 [OF c(1)] c(2) by simp_all
  show r: "4 * rom_words bits = 2 ^ (16 + bits)" by (simp add: rom_words_def power_add)
  then have "length content \<le> unat total_size div 4" using c(2,3) u(1) by linarith
  with c(4) have len: "length (backing ram) = unat total_size div 4" by simp
  show "4 * length (backing ram) = unat total_size" using len u(1) by simp
  show "length content \<le> length (backing ram)"
    using len \<open>length content \<le> unat total_size div 4\<close> by simp
  show "rom_word ram i = (if i < length content then content ! i else 0)"
    if "i < length (backing ram)"
    using that len c(4) by (simp add: rom_word_def nth_append)
  have "rom_last ram i = 0" if "i < length (backing ram)" for i
    using that len c(4) by (simp add: rom_last_def nth_append)
  moreover have "0 < length (backing ram)" using len u by simp
  ultimately show "rom.fresh b ram \<longleftrightarrow> 0 < b" by (auto simp: rom.fresh_def)
qed

end
