(* ===== verification/VM_Invariant.thy ===== *)
theory VM_Invariant
  imports VM_Run
begin

text \<open>
  The invariant of the machine: whatever instruction succeeds, delegations included, the registers
  stay 32 with register 0 zero, the timestamp a multiple of 4, and no register or memory word
  carries a time of the next cycle.  It is stated with \<open>cycle_at 4\<close> and \<open>fresh\<close> at the end of a cycle,
  which the next timestamp turns into \<open>cycle_at 0\<close> and \<open>fresh\<close> at its start.
\<close>

section \<open>Registers\<close>

lemma cycle_set_any:
  assumes "cycle_at 4 st" "off < 4"
  shows "cycle_at 4 (st\<lparr>st_regs := (st_regs st)[i := r\<lparr>reg_ts := st_ts st OR off\<rparr>]\<rparr>)
    \<longleftrightarrow> (i = 0 \<longrightarrow> reg_val r = 0)"
    "cycle_at 4 (st\<lparr>st_regs := (st_regs st)[i := \<lparr>reg_ts = st_ts st OR off, reg_val = v\<rparr>]\<rparr>)
    \<longleftrightarrow> (i = 0 \<longrightarrow> v = 0)"
proof -
  have "unat (st_ts st OR off) < unat (st_ts st) + 4"
    using assms unat_or_offset [of "st_ts st" off] by (simp add: cycle_at_def word_less_nat_alt)
  then show "cycle_at 4 (st\<lparr>st_regs := (st_regs st)[i := r\<lparr>reg_ts := st_ts st OR off\<rparr>]\<rparr>)
      \<longleftrightarrow> (i = 0 \<longrightarrow> reg_val r = 0)"
    "cycle_at 4 (st\<lparr>st_regs := (st_regs st)[i := \<lparr>reg_ts = st_ts st OR off, reg_val = v\<rparr>]\<rparr>)
      \<longleftrightarrow> (i = 0 \<longrightarrow> v = 0)"
    using assms(1)
    by (cases "i = 0"; auto simp: cycle_at_def dest!: set_update_subset_insert [THEN subsetD])+
qed

lemma keep_helpers:
  assumes "cycle_at 4 st"
  shows "touch_x0 off st = Inr st' \<Longrightarrow> off < 4 \<Longrightarrow> cycle_at 4 st'"
    "read_register off i st = Inr (v, st') \<Longrightarrow> off < 4 \<Longrightarrow> cycle_at 4 st'"
    "write_register off i w st = Inr (v, st') \<Longrightarrow> off < 4 \<Longrightarrow> cycle_at 4 st'"
    "increment_family_counter C fam st = Inr st' \<Longrightarrow> cycle_at 4 st'"
    "second_operand b st instr = Inr (v, st') \<Longrightarrow> cycle_at 4 st'"
    "jump_to a st = Inr st' \<Longrightarrow> cycle_at 4 st'"
  using assms cycle_atD(3) [OF assms]
  by (auto simp: touch_x0_def read_register_def write_register_def increment_family_counter_def
      second_operand_def jump_to_def Let_def get_unchecked_eq_Inr cycle_set_any split: if_splits)

lemma keep_register_ops:
  assumes "cycle_at 4 st"
  shows
  "add_op C b st i = Inr st' \<Longrightarrow> cycle_at 4 st'" "sub_op C st i = Inr st' \<Longrightarrow> cycle_at 4 st'"
  "and_op C b st i = Inr st' \<Longrightarrow> cycle_at 4 st'" "or_op C b st i = Inr st' \<Longrightarrow> cycle_at 4 st'"
  "xor_op C b st i = Inr st' \<Longrightarrow> cycle_at 4 st'" "sll_op C b st i = Inr st' \<Longrightarrow> cycle_at 4 st'"
  "srl_op C b st i = Inr st' \<Longrightarrow> cycle_at 4 st'" "sra_op C b st i = Inr st' \<Longrightarrow> cycle_at 4 st'"
  "slt_op C b st i = Inr st' \<Longrightarrow> cycle_at 4 st'" "sltu_op C b st i = Inr st' \<Longrightarrow> cycle_at 4 st'"
  "mul_op C st i = Inr st' \<Longrightarrow> cycle_at 4 st'" "mulhu_op C st i = Inr st' \<Longrightarrow> cycle_at 4 st'"
  "divu_op C st i = Inr st' \<Longrightarrow> cycle_at 4 st'" "remu_op C st i = Inr st' \<Longrightarrow> cycle_at 4 st'"
  "mop_addmod C st i = Inr st' \<Longrightarrow> cycle_at 4 st'" "mop_submod C st i = Inr st' \<Longrightarrow> cycle_at 4 st'"
  "mop_mulmod C st i = Inr st' \<Longrightarrow> cycle_at 4 st'" "lui_op C st i = Inr st' \<Longrightarrow> cycle_at 4 st'"
  "auipc_op C st i = Inr st' \<Longrightarrow> cycle_at 4 st'" "jal_op C st i = Inr st' \<Longrightarrow> cycle_at 4 st'"
  "jalr_op C st i = Inr st' \<Longrightarrow> cycle_at 4 st'" "branch_op C st i = Inr st' \<Longrightarrow> cycle_at 4 st'"
  using assms
  by (auto simp: add_op_def sub_op_def and_op_def or_op_def xor_op_def sll_op_def srl_op_def
      sra_op_def slt_op_def sltu_op_def mul_op_def mulhu_op_def divu_op_def remu_op_def
      mop_addmod_def mop_submod_def mop_mulmod_def lui_op_def auipc_op_def jal_op_def jalr_op_def
      branch_op_def Let_def split: if_splits elim!: keep_helpers [rotated])

section \<open>Memory\<close>

lemma or_offset_bound: "cycle_at 4 st \<Longrightarrow> off < 4 \<Longrightarrow> unat (st_ts st OR off) < unat (st_ts st) + 4"
  using unat_or_offset [of "st_ts st" off] by (simp add: cycle_at_def word_less_nat_alt)

lemma or_2_of_3:
  assumes "(t :: u64) mod 4 = 3"
  shows "t OR 2 = t"
proof -
  have t: "take_bit 2 t = 3" using assms by (simp add: take_bit_eq_mod)
  have "bit t 1 = bit (take_bit 2 t) 1" by (simp add: bit_take_bit_iff)
  also have "\<dots>" unfolding t by (simp add: bit_iff_odd)
  finally have "bit t 1" .
  then show ?thesis by (intro bit_word_eqI) (auto simp: bit_simps bit_2_iff)
qed

lemma bound_offsets:
  assumes "keccak_offsets_loop rounds control result = Inr (c', result')"
    "\<forall>x \<in> set result. unat x \<le> 2592" "\<forall>r \<in> set rounds. r \<le> 648"
  shows "\<forall>x \<in> set result'. unat x \<le> 2592"
  using assms
proof (induction rounds arbitrary: control result)
  case (Cons r rounds)
  let ?off = "word_of_nat r * TIMESTAMP_STEP"
  have off: "unat ?off \<le> 2592"
    using Cons.prems(3) by (simp add: TIMESTAMP_STEP_def unat_word_ariths unat_of_nat)
  have upd: "\<forall>x \<in> set (fold (\<lambda>j res. res[idx ! j := ?off]) js res). unat x \<le> 2592"
    if "\<forall>x \<in> set res. unat x \<le> 2592" for idx js and res :: "u64 list"
    using that off
    by (induction js arbitrary: res) (auto dest!: set_update_subset_insert [THEN subsetD])
  obtain control' idx where
    "keccak_offsets_loop rounds control' (fold (\<lambda>j res. res[idx ! j := ?off]) [0..<6] result) =
      Inr (c', result')"
    using Cons.prems(1) by (auto simp: Let_def)
  then show ?case using Cons.IH upd [OF Cons.prems(2)] Cons.prems(3) by auto
qed simp

lemma bound_final_offsets:
  "keccak_final_timestamp_offsets = Inr offs \<Longrightarrow> x \<in> set offs \<Longrightarrow> unat x \<le> 2592"
  using bound_offsets
  by (fastforce simp: keccak_final_timestamp_offsets_def NUM_DELEGATION_CALLS_FOR_KECCAK_F1600_def)

lemma keep_both:
  "read_register off i st = Inr (v, st') \<Longrightarrow> cycle_at 4 st \<Longrightarrow> off < 4 \<Longrightarrow>
    cycle_at 4 st' \<and> st_ts st' = st_ts st"
  "write_register off i w st = Inr (v, st') \<Longrightarrow> cycle_at 4 st \<Longrightarrow> off < 4 \<Longrightarrow>
    cycle_at 4 st' \<and> st_ts st' = st_ts st"
  "increment_family_counter C fam st = Inr st' \<Longrightarrow> cycle_at 4 st \<Longrightarrow>
    cycle_at 4 st' \<and> st_ts st' = st_ts st"
  "touch_x0 off st = Inr st' \<Longrightarrow> cycle_at 4 st \<Longrightarrow> off < 4 \<Longrightarrow>
    cycle_at 4 st' \<and> st_ts st' = st_ts st"
  by (auto intro: keep_helpers ts_helpers)

context word_memory
begin

lemma fresh_read_words:
  "read_words R S n a t r s = Inr (vs, r', s') \<Longrightarrow> fresh b r \<Longrightarrow> unat (t OR 1) < b \<Longrightarrow> fresh b r'"
proof (induction n arbitrary: a r s vs)
  case (Suc n)
  then show ?case by (auto dest: fresh_read)
qed simp

lemma fresh_write_back_words:
  "write_back_words R S vs a t r s = Inr (r', s') \<Longrightarrow> fresh b r \<Longrightarrow> unat (t OR 2) < b \<Longrightarrow> fresh b r'"
proof (induction vs arbitrary: a r s)
  case (Cons v vs)
  then show ?case by (auto dest: fresh_write)
qed simp

lemma fresh_keccak_write_back:
  "keccak_write_back S R base vs a r s = Inr (r', s') \<Longrightarrow> fresh b r \<Longrightarrow>
    \<forall>(v, off) \<in> set vs. unat base + unat off < b \<Longrightarrow> fresh b r'"
proof (induction vs arbitrary: a r s)
  case (Cons e vs)
  obtain v off where e: "e = (v, off)" by force
  obtain t old r1 t2 old2 r2 s2 a1 a2 write_ts where
    ts: "add_u64 base off = Inr write_ts" "write_ts mod TIMESTAMP_STEP = 3"
    and w: "r_write_word R a (ucast v) write_ts r = Inr ((t, old), r1)"
      "r_write_word R a1 (ucast (drop_bit 32 v)) write_ts r1 = Inr ((t2, old2), r2)"
      "keccak_write_back S R base vs a2 r2 s2 = Inr (r', s')"
    using Cons.prems(1) by (auto simp: e)
  have "unat (write_ts OR 2) < b"
    using ts or_2_of_3 [of write_ts] Cons.prems(3)
    by (auto simp: e TIMESTAMP_STEP_def dest!: unat_add_u64)
  then have "fresh b r2" using fresh_write [OF w(2)] fresh_write [OF w(1)] Cons.prems(2) by blast
  then show ?case using Cons.IH [OF w(3)] Cons.prems(3) by simp
qed simp

lemma keep_memory_ops:
  assumes "cycle_at 4 st" "fresh (unat (st_ts st) + 4) r"
  shows
  "sw_op C S R st r s i = Inr (st', r', s') \<Longrightarrow> cycle_at 4 st' \<and> fresh (unat (st_ts st') + 4) r'"
  "lw_op C S R st r s i = Inr (st', r', s') \<Longrightarrow> cycle_at 4 st' \<and> fresh (unat (st_ts st') + 4) r'"
  "sh_op C S R st r s i = Inr (st', r', s') \<Longrightarrow> cycle_at 4 st' \<and> fresh (unat (st_ts st') + 4) r'"
  "sb_op C S R st r s i = Inr (st', r', s') \<Longrightarrow> cycle_at 4 st' \<and> fresh (unat (st_ts st') + 4) r'"
  "lh_op C S R b st r s i = Inr (st', r', s') \<Longrightarrow> cycle_at 4 st' \<and> fresh (unat (st_ts st') + 4) r'"
  "lb_op C S R b st r s i = Inr (st', r', s') \<Longrightarrow> cycle_at 4 st' \<and> fresh (unat (st_ts st') + 4) r'"
  using assms or_offset_bound [OF assms(1), of 1] or_offset_bound [OF assms(1), of 2]
  by (auto simp: sw_op_def lw_op_def sh_op_def sb_op_def lh_op_def lb_op_def Let_def
      dest!: keep_both elim!: fresh_read fresh_write)

lemma keep_nd_ops:
  assumes "cycle_at 4 st"
  shows "nd_read C S ND st s i nd = Inr (st', s', nd') \<Longrightarrow> cycle_at 4 st' \<and> st_ts st' = st_ts st"
    "nd_write C R ND st r i nd = Inr (st', nd') \<Longrightarrow> cycle_at 4 st' \<and> st_ts st' = st_ts st"
  using assms by (auto simp: nd_read_def nd_write_def dest!: keep_both)

lemma keep_bigint:
  assumes "cycle_at 4 st" "fresh (unat (st_ts st) + 4) r"
    "bigint_call C S R U st r s = Inr (st', r', s')"
  shows "cycle_at 4 st' \<and> fresh (unat (st_ts st') + 4) r'"
proof -
  have "cycle_at 4 (st\<lparr>st_regs := (st_regs st)[0 := (st_regs st ! 0)\<lparr>reg_ts := st_ts st OR 2\<rparr>]\<rparr>)"
    using cycle_set_any(1) [OF assms(1), of 2 0 "st_regs st ! 0"] cycle_atD(3) [OF assms(1)] by simp
  then show ?thesis
    using assms or_offset_bound [OF assms(1), of 3]
    by (auto simp: bigint_call_def Let_def index_eq_Inr read_limbs_words write_back_limbs_words
        dest!: keep_both elim!: fresh_read_words fresh_write_back_words)
qed

text \<open>The registers after a delegation of several cycles.\<close>

lemma cycle_at_later:
  assumes "cycle_at 4 st" "add_u64 (st_ts st) (k * TIMESTAMP_STEP) = Inr lt"
  shows "unat lt mod 4 = 0" "unat (st_ts st) \<le> unat lt"
    "\<forall>r \<in> set (st_regs st). unat (reg_ts r) < unat lt + 4"
    "add_u64 lt 3 = Inr t \<Longrightarrow> unat t < unat lt + 4"
    "unat (lt OR 2) < unat lt + 4" "unat (lt OR 3) < unat lt + 4"
proof -
  have l: "unat lt = unat (st_ts st) + unat (k * TIMESTAMP_STEP)"
    using assms(2) by (rule unat_add_u64)
  have "unat (k * TIMESTAMP_STEP) mod 4 = 0"
    by (simp add: TIMESTAMP_STEP_def unat_word_ariths mod_mod_cancel)
  then show m: "unat lt mod 4 = 0" and le: "unat (st_ts st) \<le> unat lt"
    using l assms(1) by (simp_all add: cycle_at_def mod_add_eq [symmetric])
  show "\<forall>r \<in> set (st_regs st). unat (reg_ts r) < unat lt + 4"
    using assms(1) le by (fastforce simp: cycle_at_def)
  show "add_u64 lt 3 = Inr t \<Longrightarrow> unat t < unat lt + 4" by (auto dest: unat_add_u64)
  show "unat (lt OR 2) < unat lt + 4" "unat (lt OR 3) < unat lt + 4"
    using unat_or_low [OF m] by simp_all
qed

lemma keep_blake:
  assumes "cycle_at 4 st" "fresh (unat (st_ts st) + 4) r"
    "blake2_round_function_call C S R st r s = Inr (st', r', s')"
  shows "cycle_at 4 st' \<and> fresh (unat (st_ts st') + 4) r'"
proof -
  obtain k lt t regs ts vs c r1 s1 vs2 a a2 where
    lt: "add_u64 (st_ts st) (k * TIMESTAMP_STEP) = Inr lt" "add_u64 lt 3 = Inr t"
    and w: "write_back_words R S vs a (lt OR 3) r s = Inr (r1, s1)"
      "read_words R S 16 a2 (lt OR 3) r1 s1 = Inr (vs2, r', s')"
    and st': "st' = st\<lparr>st_regs := (st_regs st)
        [10 := (st_regs st ! 10)\<lparr>reg_ts := t\<rparr>, 11 := (st_regs st ! 11)\<lparr>reg_ts := t\<rparr>,
         12 := \<lparr>reg_ts = t, reg_val = regs\<rparr>, 0 := (st_regs st ! 0)\<lparr>reg_ts := lt OR 2\<rparr>],
        st_ts := lt, st_pc := ts, st_counters := c\<rparr>"
    using assms(3)
    unfolding blake2_round_function_call_def Let_def
    by (auto simp: index_eq_Inr)
  note L = cycle_at_later [OF assms(1) lt(1)]
  have "fresh (unat lt + 4) r" using assms(2) L(2) by (auto intro: fresh_mono)
  then have "fresh (unat lt + 4) r1"
    using fresh_write_back_words [OF w(1)] L(6) by simp
  then have "fresh (unat lt + 4) r'" using fresh_read_words [OF w(2)] L(6) by simp
  moreover have "cycle_at 4 st'"
    using assms(1) L(1,3,5) L(4) [OF lt(2)] unfolding st' cycle_at_def
    by (auto dest!: set_update_subset_insert [THEN subsetD])
  ultimately show ?thesis by (simp add: st')
qed

lemma keep_keccak:
  assumes "cycle_at 4 st" "fresh (unat (st_ts st) + 4) r"
    "keccak_special5_call C S R st r s = Inr (st', r', s')"
  shows "cycle_at 4 st' \<and> fresh (unat (st_ts st') + 4) r'"
proof -
  obtain lt t c pc ls offs a where
    lt: "add_u64 (st_ts st)
        (word_of_nat (NUM_DELEGATION_CALLS_FOR_KECCAK_F1600 - 1) * TIMESTAMP_STEP) = Inr lt"
      "add_u64 lt 3 = Inr t"
    and w: "keccak_final_timestamp_offsets = Inr offs"
      "keccak_write_back S R (st_ts st OR 3) (zip ls offs) a r s = Inr (r', s')"
    and st': "st' = st\<lparr>st_regs := (st_regs st)
        [10 := \<lparr>reg_ts = t, reg_val = FINAL_KECCAK_F1600_CONTROL_VALUE\<rparr>,
         11 := (st_regs st ! 11)\<lparr>reg_ts := t\<rparr>, 0 := (st_regs st ! 0)\<lparr>reg_ts := lt OR 2\<rparr>],
        st_ts := lt, st_pc := pc, st_counters := c\<rparr>"
    using assms(3)
    unfolding keccak_special5_call_def Let_def
    by (auto simp: index_eq_Inr)
  note L = cycle_at_later [OF assms(1) lt(1)]
  have ts: "unat (st_ts st) mod 4 = 0" using assms(1) by (rule cycle_atD)
  have "unat lt = unat (st_ts st) + 2592"
    using unat_add_u64 [OF lt(1)]
    by (simp add: NUM_DELEGATION_CALLS_FOR_KECCAK_F1600_def TIMESTAMP_STEP_def)
  then have "\<forall>(v, off) \<in> set (zip ls offs). unat (st_ts st OR 3) + unat off < unat lt + 4"
    using bound_final_offsets [OF w(1)] unat_or_low(3) [OF ts]
    by (fastforce dest: set_zip_rightD)
  moreover have "fresh (unat lt + 4) r" using assms(2) L(2) by (auto intro: fresh_mono)
  ultimately have "fresh (unat lt + 4) r'" using fresh_keccak_write_back [OF w(2)] by simp
  moreover have "cycle_at 4 st'"
    using assms(1) L(1,3,5) L(4) [OF lt(2)] unfolding st' cycle_at_def
    by (auto dest!: set_update_subset_insert [THEN subsetD])
  ultimately show ?thesis by (simp add: st')
qed

lemma keep_register_step:
  "register_step C st i n = Some m \<Longrightarrow> m = Inr st' \<Longrightarrow> cycle_at 4 st \<Longrightarrow>
    cycle_at 4 st' \<and> st_ts st' = st_ts st"
  using ts_register_step [of C st i n m st'] by (cases n) (auto simp: illegal_def intro: keep_register_ops)

lemma keep_memory_step:
  assumes "memory_step C S R U st r s i n = Some m" "m = Inr (st', r', s')"
    "cycle_at 4 st" "fresh (unat (st_ts st) + 4) r"
  shows "cycle_at 4 st' \<and> fresh (unat (st_ts st') + 4) r'"
proof (cases n)
  case ZicsrDelegation
  then have "call_delegation C S R U st r s i = Inr (st', r', s')" using assms(1,2) by simp
  then show ?thesis
    using keep_bigint [OF assms(3,4), of C S U s st' r' s'] keep_blake [OF assms(3,4), of C S s st' r' s']
      keep_keccak [OF assms(3,4), of C S s st' r' s']
    by (auto simp: call_delegation_def split: if_splits)
qed (use assms(1,2) in \<open>auto dest: keep_memory_ops [OF assms(3,4)]\<close>)

lemma keep_run_step:
  assumes "run_step C S R ND U tape st r s nd = Inr (st', r', s', nd')"
    "cycle_at 4 st" "fresh (unat (st_ts st) + 4) r"
  shows "cycle_at 4 st' \<and> fresh (unat (st_ts st') + 4) r'"
  using assms
  by (auto simp: run_step_def Let_def split: option.splits if_splits prod.splits
      dest!: keep_register_step [OF _ refl] dest: keep_memory_step [OF _ refl] keep_nd_ops)

definition machine_inv :: "'c State \<Rightarrow> 'r \<Rightarrow> bool" where
  "machine_inv st r \<longleftrightarrow> cycle_at 0 st \<and> fresh (unat (st_ts st)) r"

lemma inv_run_body:
  assumes "run_body C S R ND U tape st r s nd = Inr (ret, st', r', s', nd')" "machine_inv st r"
  shows "machine_inv st' r'"
proof -
  obtain st1 t nd1 where 1: "run_step C S R ND U tape st r s nd = Inr (st1, r', nd1)"
    "add_u64 (st_ts st1) TIMESTAMP_STEP = Inr t" "st' = st1\<lparr>st_ts := t\<rparr>"
    using assms(1) by (auto simp: run_body_def Let_def split: if_splits)
  have "cycle_at 4 st" "fresh (unat (st_ts st) + 4) r"
    using assms(2) by (auto simp: machine_inv_def intro: cycle_at_mono fresh_mono)
  with 1(1) have 2: "cycle_at 4 st1" "fresh (unat (st_ts st1) + 4) r'"
    by (cases nd1; auto dest: keep_run_step)+
  have "unat t = unat (st_ts st1) + 4" using 1(2) by (auto simp: TIMESTAMP_STEP_def dest: unat_add_u64)
  then show ?thesis using 2 cycle_at_next [OF 2(1) 1(2)] by (simp add: machine_inv_def 1(3))
qed

lemma inv_run_basic_unrolled:
  "run_basic_unrolled C S R ND U tape n st r s nd = Inr (b, st', r', s', nd') \<Longrightarrow>
    machine_inv st r \<Longrightarrow> machine_inv st' r'"
proof (induction n arbitrary: st r s nd)
  case (Suc n)
  then show ?case by (auto dest!: inv_run_body split: option.splits)
qed simp

lemma inv_run_by_timestamp_bound:
  "run_by_timestamp_bound C S R ND U tape bound st r s nd = Inr (b, st', r', s', nd') \<Longrightarrow>
    machine_inv st r \<Longrightarrow> machine_inv st' r'"
proof (induction "unat bound - unat (st_ts st)" arbitrary: st r s nd rule: less_induct)
  case less
  show ?case
  proof (cases "st_ts st < bound")
    case True
    then obtain ret st1 r1 s1 nd1 where
      body: "run_body C S R ND U tape st r s nd = Inr (ret, st1, r1, s1, nd1)"
      and rest: "(case ret of Some b \<Rightarrow> Inr (b, st1, r1, s1, nd1)
        | None \<Rightarrow> run_by_timestamp_bound C S R ND U tape bound st1 r1 s1 nd1) =
        Inr (b, st', r', s', nd')"
      using less.prems(1) by (subst (asm) run_by_timestamp_bound.simps) auto
    have "machine_inv st1 r1" using body less.prems(2) by (rule inv_run_body)
    moreover have "unat bound - unat (st_ts st1) < unat bound - unat (st_ts st)"
      using ts_run_body [OF body] True by (simp add: word_less_nat_alt)
    ultimately show ?thesis using less.hyps rest by (auto split: option.splits)
  next
    case False
    then show ?thesis
      using less.prems by (subst (asm) run_by_timestamp_bound.simps) simp
  qed
qed

end

end
