(* ===== verification/Blake_Rounds.thy ===== *)
theory Blake_Rounds
  imports VM_Blake
begin

text \<open>
  The round delegation of Blake2s computes the compression function: the control register counts the
  rounds, the iterated single round is the loop of the virtual machine, and both are the compression
  of the reference implementation.
\<close>

section \<open>The control register\<close>

text \<open>The register with the control bits \<open>c\<close> before round \<open>i\<close>; after the tenth round no bit is left.\<close>

definition x12_of :: "u32 \<Rightarrow> nat \<Rightarrow> u32" where
  "x12_of c i = push_bit 16 (c OR push_bit 3 (push_bit i 1 AND 1023))"

lemma control_values:
  "list_all (\<lambda>i. is_power_of_two (push_bit i 1 :: u32) \<and> trailing_zeros (push_bit i 1) = i \<and>
     push_bit 1 (push_bit i 1 :: u32) AND (push_bit BLAKE2S_MAX_ROUNDS 1 - 1) = push_bit (Suc i) 1 AND 1023)
     [0..<10]"
  by code_simp

lemma control_register:
  "list_all (\<lambda>c. list_all (\<lambda>i. blake_control_bitmask (x12_of c i) = c \<and>
     blake_permutation_bitmask (x12_of c i) = push_bit i 1) [0, 1, 2, 3, 4, 5, 6, 7, 8, 9])
     [0, 1, 2, 3, 4, 5, 6, 7]"
  by (simp add: blake_control_bitmask_def blake_permutation_bitmask_def x12_of_def BLAKE2S_NUM_CONTROL_BITS_def)

lemma control_cases:
  assumes "(c :: u32) < 8"
  shows "c \<in> set [0, 1, 2, 3, 4, 5, 6, 7]"
proof -
  have "unat c < 8" using assms by (simp add: word_less_nat_alt)
  then have "unat c \<in> {0, 1, 2, 3, 4, 5, 6, 7}" by auto
  then show ?thesis by (auto simp: word_unat_eq_iff)
qed

lemma x12_of_parts:
  assumes "c < 8" "i < 10"
  shows "blake_control_bitmask (x12_of c i) = c" "blake_permutation_bitmask (x12_of c i) = push_bit i 1"
proof -
  have "i \<in> set [0, 1, 2, 3, 4, 5, 6, 7, 8, 9]" using assms(2) by auto
  then show "blake_control_bitmask (x12_of c i) = c" "blake_permutation_bitmask (x12_of c i) = push_bit i 1"
    using control_register control_cases [OF assms(1)] unfolding list_all_iff by blast+
qed

lemma control_less: "blake_control_bitmask x12 < 8"
proof -
  have "blake_control_bitmask x12 = take_bit 3 (drop_bit 16 x12)"
    unfolding blake_control_bitmask_def BLAKE2S_NUM_CONTROL_BITS_def take_bit_eq_mask
    by (simp add: mask_eq_exp_minus_1)
  then show ?thesis by (simp add: word_less_nat_alt unat_take_bit)
qed

section \<open>Rounds\<close>

text \<open>The round \<open>i\<close> on state and extended state.\<close>

definition blake_step :: "u32 \<Rightarrow> nat \<Rightarrow> u32 list \<Rightarrow> u32 list \<times> u32 list \<Rightarrow> u32 list \<times> u32 list" where
  "blake_step c i input = (\<lambda>(h, e).
     let mode = has_mask c TEST_IF_COMPRESSION_MODE_MASK;
         reduced = has_mask c TEST_IF_REDUCE_ROUNDS_MASK;
         is_right = has_mask c TEST_IF_INPUT_IS_RIGHT_NODE_MASK;
         e = mixing_function e (blake_message mode is_right h input) (SIGMAS ! i)
     in (if i = 9 \<or> reduced \<and> i = 6 then blake_finish mode h e else h, e))"

lemma length_SIGMAS: "length SIGMAS = 10"
  by (simp add: SIGMAS_def)

lemma length_blake_prepare [simp]: "length (blake_prepare mode h e) = length e"
  by (simp add: blake_prepare_def Let_def upt_8)

lemma length_blake_finish [simp]: "length (blake_finish mode h e) = 8"
  by (simp add: blake_finish_def)

lemma blake_step_lengths:
  "length h = 8 \<Longrightarrow> blake_step c i input (h, e) = (h', e') \<Longrightarrow> length h' = 8 \<and> length e' = length e"
  by (auto simp: blake_step_def Let_def split: if_splits)

lemma impl_is_step:
  assumes "length h = 8" "i < 10"
    "blake_control_bitmask x12 = c" "blake_permutation_bitmask x12 = push_bit i 1"
  shows "blake2_round_function_impl (h @ e) input x12 =
    (let (h, e) = blake_step c i input (h, if i = 0
         then blake_prepare (has_mask c TEST_IF_COMPRESSION_MODE_MASK) h e else e)
     in Inr (h @ e, x12_of c (Suc i)))"
proof -
  have v: "is_power_of_two (push_bit i 1 :: u32)" "trailing_zeros (push_bit i 1) = i"
    "push_bit 1 (push_bit i 1 :: u32) AND (push_bit BLAKE2S_MAX_ROUNDS 1 - 1) = push_bit (Suc i) 1 AND 1023"
    using control_values assms(2) by (auto simp: list_all_iff simp del: push_bit_of_1)
  have x: "push_bit 16 (c OR push_bit BLAKE2S_NUM_CONTROL_BITS
      (push_bit 1 (push_bit i 1) AND (push_bit BLAKE2S_MAX_ROUNDS 1 - 1))) = x12_of c (Suc i)"
    unfolding v(3) x12_of_def BLAKE2S_NUM_CONTROL_BITS_def ..
  show ?thesis
    unfolding blake2_round_function_impl_def Let_def assms(3,4) v(2) x
    using assms(1,2) v(1) by (simp add: blake_step_def Let_def index_def length_SIGMAS)
qed

text \<open>The iterated round; and the same on state and extended state, which the loop of the virtual
  machine runs.\<close>

fun blake_iterate :: "nat \<Rightarrow> u32 list \<Rightarrow> u32 list \<Rightarrow> u32 \<Rightarrow> (u32 list \<times> u32) res" where
  "blake_iterate 0 state input x12 = Inr (state, x12)"
| "blake_iterate (Suc n) state input x12 =
     bindE (blake2_round_function_impl state input x12) (\<lambda>(state, x12).
     blake_iterate n state input x12)"

definition blake_steps :: "u32 \<Rightarrow> nat list \<Rightarrow> u32 list \<Rightarrow> u32 list \<times> u32 list \<Rightarrow> u32 list \<times> u32 list" where
  "blake_steps c is input = fold (\<lambda>i. blake_step c i input) is"

lemma iterate_is_steps:
  assumes "c < 8" "0 < i" "i + n \<le> 10" "length h = 8"
  shows "blake_iterate n (h @ e) input (x12_of c i) =
    (let (h, e) = blake_steps c [i..<i + n] input (h, e) in Inr (h @ e, x12_of c (i + n)))"
  using assms(2-)
proof (induction n arbitrary: i h e)
  case (Suc n)
  obtain h' e' where s: "blake_step c i input (h, e) = (h', e')" by force
  note x = x12_of_parts [OF assms(1), of i]
  have "blake2_round_function_impl (h @ e) input (x12_of c i) = Inr (h' @ e', x12_of c (Suc i))"
    using impl_is_step [OF Suc.prems(3) _ x] Suc.prems(1,2) s by simp
  moreover have "length h' = 8" using blake_step_lengths [OF Suc.prems(3) s] by simp
  ultimately show ?case
    using Suc.IH [of "Suc i" h' e'] Suc.prems s by (simp add: blake_steps_def upt_conv_Cons del: upt_Suc)
qed (simp add: blake_steps_def)

lemma iterate_from_start:
  assumes "blake_permutation_bitmask x12 = 1" "0 < n" "n \<le> 10" "length h = 8"
  defines "c \<equiv> blake_control_bitmask x12"
  shows "blake_iterate n (h @ e) input x12 =
    (let (h, e) = blake_steps c [0..<n] input
         (h, blake_prepare (has_mask c TEST_IF_COMPRESSION_MODE_MASK) h e)
     in Inr (h @ e, x12_of c n))"
proof -
  obtain m where m: "n = Suc m" using assms(2) by (cases n) auto
  obtain h' e' where s: "blake_step c 0 input
      (h, blake_prepare (has_mask c TEST_IF_COMPRESSION_MODE_MASK) h e) = (h', e')" by force
  have "blake2_round_function_impl (h @ e) input x12 = Inr (h' @ e', x12_of c 1)"
    using impl_is_step [OF assms(4), of 0 x12 c e input] assms(1) s by (simp add: c_def)
  moreover have "length h' = 8" using blake_step_lengths [OF assms(4) s] by simp
  moreover have "c < 8" unfolding c_def by (rule control_less)
  ultimately show ?thesis
    using iterate_is_steps [of c 1 m h' e' input] assms(3) s
    by (simp add: m blake_steps_def upt_conv_Cons del: upt_Suc)
qed

lemma rounds_are_steps:
  assumes "set is \<subseteq> {..<num_rounds}" "num_rounds = (if has_mask c TEST_IF_REDUCE_ROUNDS_MASK then 7 else 10)"
  shows "blake_rounds (has_mask c TEST_IF_COMPRESSION_MODE_MASK)
      (has_mask c TEST_IF_INPUT_IS_RIGHT_NODE_MASK) num_rounds input is (h, e) =
    Inr (blake_steps c is input (h, e))"
  using assms
proof (induction "is" arbitrary: h e)
  case (Cons i "is")
  have i: "i < 10" "i = num_rounds - 1 \<longleftrightarrow> i = 9 \<or> has_mask c TEST_IF_REDUCE_ROUNDS_MASK \<and> i = 6"
    using Cons.prems by (auto split: if_splits)
  then show ?case
    using Cons by (simp add: index_def length_SIGMAS Let_def blake_steps_def blake_step_def)
qed (simp add: blake_steps_def)

section \<open>The compression function\<close>

definition rounds_of :: "u32 \<Rightarrow> nat" where
  "rounds_of c = (if has_mask c TEST_IF_REDUCE_ROUNDS_MASK then 7 else 10)"

definition step_message :: "u32 \<Rightarrow> u32 list \<Rightarrow> u32 list \<Rightarrow> u32 list" where
  "step_message c h input = blake_message (has_mask c TEST_IF_COMPRESSION_MODE_MASK)
     (has_mask c TEST_IF_INPUT_IS_RIGHT_NODE_MASK) h input"

lemma steps_before_last:
  assumes "k < rounds_of c"
  shows "blake_steps c [0..<k] input (h, e) = (h, mixing_rounds k e (step_message c h input))"
  using assms(1)
proof (induction k)
  case (Suc k)
  have "\<not> (k = 9 \<or> has_mask c TEST_IF_REDUCE_ROUNDS_MASK \<and> k = 6)"
    using Suc.prems by (auto simp: rounds_of_def split: if_splits)
  moreover have "blake_steps c [0..<Suc k] input (h, e) =
      blake_step c k input (blake_steps c [0..<k] input (h, e))"
    by (simp add: blake_steps_def)
  ultimately show ?case
    using Suc.IH Suc.prems by (auto simp: blake_step_def Let_def step_message_def mixing_rounds_Suc)
qed (simp add: blake_steps_def)

lemma steps_all:
  "blake_steps c [0..<rounds_of c] input (h, e) =
    (let e = round_function (has_mask c TEST_IF_REDUCE_ROUNDS_MASK) e (step_message c h input)
     in (blake_finish (has_mask c TEST_IF_COMPRESSION_MODE_MASK) h e, e))"
proof -
  obtain k where k: "rounds_of c = Suc k" by (cases "rounds_of c") (auto simp: rounds_of_def split: if_splits)
  have last: "k = 9 \<or> has_mask c TEST_IF_REDUCE_ROUNDS_MASK \<and> k = 6"
    using k by (auto simp: rounds_of_def split: if_splits)
  have "round_function (has_mask c TEST_IF_REDUCE_ROUNDS_MASK) e (step_message c h input) = mixing_rounds (Suc k) e (step_message c h input)"
    using k by (auto simp: rounds_of_def round_function_def round_function_reduced_rounds_def
        round_function_full_rounds_def split: if_splits)
  moreover have "blake_steps c [0..<Suc k] input (h, e) =
      blake_step c k input (blake_steps c [0..<k] input (h, e))"
    by (simp add: blake_steps_def)
  ultimately show ?thesis
    using last steps_before_last [of k c input h e] unfolding k
    by (simp add: blake_step_def Let_def step_message_def mixing_rounds_Suc)
qed

lemma x12_of_final: "blake_final_x12 (has_mask c TEST_IF_REDUCE_ROUNDS_MASK) c = x12_of c (rounds_of c)"
  by (simp add: blake_final_x12_def x12_of_def rounds_of_def BLAKE2S_MAX_ROUNDS_def
      BLAKE2S_NUM_CONTROL_BITS_def)

lemma prepare_is_extended:
  assumes "length h = 8" "length e = 16"
  shows "blake_prepare False h e = extended_of h (e ! 12 XOR IV ! 4) (e ! 14 XOR IV ! 6)"
    "blake_prepare True h e = extended_of CONFIGURED_IV BLAKE2S_BLOCK_SIZE_BYTES 0xffffffff"
proof -
  obtain a b where e: "e = a @ b" "length a = 8" "length b = 8"
    using assms by (intro that [of "take 8 e" "drop 8 e"]) simp_all
  show "blake_prepare False h e = extended_of h (e ! 12 XOR IV ! 4) (e ! 14 XOR IV ! 6)"
    using e by (subst e(1), subst list_8 [OF e(2)], subst list_8 [OF e(3)])
      (simp add: blake_prepare_def upt_8 extended_of_def xor.assoc nth_append)
  show "blake_prepare True h e = extended_of CONFIGURED_IV BLAKE2S_BLOCK_SIZE_BYTES 0xffffffff"
    using e by (subst e(1), subst list_8 [OF e(2)], subst list_8 [OF e(3)])
      (simp add: blake_prepare_def upt_8 extended_of_def xor.commute)
qed

text \<open>The result of a permutation on a state block of 24 words: what the reference implementation puts in
  the first 8.\<close>

definition blake_result :: "u32 \<Rightarrow> u32 list \<Rightarrow> u32 list \<Rightarrow> u32 list" where
  "blake_result c state input =
     (let h = take 8 state; reduced = has_mask c TEST_IF_REDUCE_ROUNDS_MASK
      in if has_mask c TEST_IF_COMPRESSION_MODE_MASK
         then blake_compress_two_to_one reduced
           (if has_mask c TEST_IF_INPUT_IS_RIGHT_NODE_MASK then take 8 input @ h else h @ take 8 input)
         else xor_halves h (round_function reduced
           (extended_of h (state ! 20 XOR IV ! 4) (state ! 22 XOR IV ! 6)) input))"

lemma steps_result:
  assumes "length h = 8" "length e = 16"
  shows "fst (blake_steps c [0..<rounds_of c] input
    (h, blake_prepare (has_mask c TEST_IF_COMPRESSION_MODE_MASK) h e)) = blake_result c (h @ e) input"
  using prepare_is_extended [OF assms] assms unfolding steps_all step_message_def
  by (auto simp: Let_def blake_result_def blake_message_def blake_finish_def nth_append
      blake_compress_two_to_one_def)

end
