(* ===== verification/Bigint_Spec.thy ===== *)
theory Bigint_Spec
  imports VM_Bigint
begin

text \<open>
  What the 256-bit integer delegation computes, as a statement on natural numbers, for every integer
  library that satisfies its documentation.
\<close>

section \<open>The specification\<close>

datatype big_op = BigAdd | BigSub | BigSubNegate | BigMulLow | BigMulHigh | BigEq | BigCopy

text \<open>Result and flag of an operation on numbers below \<open>2\<^sup>2\<^sup>5\<^sup>6\<close> with carry or borrow \<open>cin\<close>.\<close>

fun big_result :: "big_op \<Rightarrow> nat \<Rightarrow> nat \<Rightarrow> nat \<Rightarrow> nat \<times> bool" where
  "big_result BigAdd a b cin = ((a + b + cin) mod 2 ^ 256, 2 ^ 256 \<le> a + b + cin)"
| "big_result BigSub a b cin = ((2 ^ 256 + a - b - cin) mod 2 ^ 256, a < b + cin)"
| "big_result BigSubNegate a b cin = ((2 ^ 256 + b - a - cin) mod 2 ^ 256, b < a + cin)"
| "big_result BigMulLow a b cin = (a * b mod 2 ^ 256, 2 ^ 256 \<le> a * b)"
| "big_result BigMulHigh a b cin = (a * b div 2 ^ 256, False)"
| "big_result BigEq a b cin = (a, a = b)"
| "big_result BigCopy a b cin = ((b + cin) mod 2 ^ 256, 2 ^ 256 \<le> b + cin)"

text \<open>The control bit of an operation, and the control word with the carry.\<close>

fun op_bit :: "big_op \<Rightarrow> nat" where
  "op_bit BigAdd = ADD_OP_BIT_IDX"
| "op_bit BigSub = SUB_OP_BIT_IDX"
| "op_bit BigSubNegate = SUB_AND_NEGATE_OP_BIT_IDX"
| "op_bit BigMulLow = MUL_LOW_OP_BIT_IDX"
| "op_bit BigMulHigh = MUL_HIGH_OP_BIT_IDX"
| "op_bit BigEq = EQ_OP_BIT_IDX"
| "op_bit BigCopy = MEMCOPY_BIT_IDX"

definition control_word :: "big_op \<Rightarrow> bool \<Rightarrow> u32" where
  "control_word op cin = push_bit (op_bit op) 1 OR (if cin then push_bit CARRY_BIT_IDX 1 else 0)"

section \<open>Limbs\<close>

lemma limbs_val_append: "limbs_val (xs @ ys) = limbs_val xs + 2 ^ (64 * length xs) * limbs_val ys"
  by (induction xs) (simp_all add: power_add algebra_simps)

lemma limbs_val_less: "limbs_val xs < 2 ^ (64 * length xs)"
proof (induction xs)
  case (Cons x xs)
  have "unat x < 2 ^ 64" using unsigned_less [of x] by simp
  moreover have "Suc (limbs_val xs) \<le> 2 ^ (64 * length xs)" using Cons by simp
  then have "2 ^ 64 * Suc (limbs_val xs) \<le> 2 ^ 64 * (2 :: nat) ^ (64 * length xs)" by (rule mult_le_mono2)
  ultimately show ?case by (simp add: power_add)
qed simp

lemma limbs_val_inj: "length xs = length ys \<Longrightarrow> limbs_val xs = limbs_val ys \<longleftrightarrow> xs = ys"
proof (induction xs ys rule: list_induct2)
  case (Cons x xs y ys)
  have lt: "unat x < 2 ^ 64" "unat y < 2 ^ 64" using unsigned_less [of x] unsigned_less [of y] by simp_all
  show ?case
  proof
    assume eq: "limbs_val (x # xs) = limbs_val (y # ys)"
    have "unat x = unat y" using arg_cong [OF eq, of "\<lambda>n. n mod 2 ^ 64"] lt by simp
    moreover from this have "limbs_val xs = limbs_val ys" using eq by simp
    ultimately show "x # xs = y # ys" using Cons.IH by (simp add: word_unat_eq_iff)
  qed simp
qed simp

lemma add_carry_limbs_val:
  "add_carry_limbs xs c = (ys, c') \<Longrightarrow> length ys = length xs \<and>
    limbs_val ys + 2 ^ (64 * length xs) * of_bool c' = limbs_val xs + of_bool c"
proof (induction xs arbitrary: c ys)
  case (Cons x xs)
  let ?new = "2 ^ 64 \<le> unat x + of_bool c"
  obtain ts where ts: "add_carry_limbs xs ?new = (ts, c')" "ys = (x + of_bool c) # ts"
    using Cons.prems by (auto simp: Let_def split: prod.splits)
  have x: "unat x < 2 ^ 64" using unsigned_less [of x] by simp
  have t: "unat (x + of_bool c) + 2 ^ 64 * of_bool ?new = unat x + of_bool c"
    using x by (cases c; cases "unat x = 2 ^ 64 - 1") (auto simp: unat_word_ariths)
  from Cons.IH [OF ts(1)] have IH: "length ts = length xs"
    "limbs_val ts + 2 ^ (64 * length xs) * of_bool c' = limbs_val xs + of_bool ?new" by simp_all
  have "limbs_val ys + 2 ^ (64 * length (x # xs)) * of_bool c' =
      unat (x + of_bool c) + 2 ^ 64 * (limbs_val ts + 2 ^ (64 * length xs) * of_bool c')"
    by (simp add: ts(2) power_add algebra_simps)
  also have "\<dots> = unat x + of_bool c + 2 ^ 64 * limbs_val xs"
    unfolding IH(2) using t by (simp add: algebra_simps)
  finally show ?case using IH(1) ts(2) by simp
qed simp

lemma carry_split:
  assumes "r + M * of_bool ov = (n :: nat)" "r < M"
  shows "r = n mod M" "ov \<longleftrightarrow> M \<le> n"
  using assms by (cases ov; auto)+

lemma borrow_split:
  assumes "r + b + cin = a + M * of_bool ov" "r < M" "b < M" "cin \<le> (1 :: nat)"
  shows "r = (M + a - b - cin) mod M" "ov \<longleftrightarrow> a < b + cin"
proof -
  show "ov \<longleftrightarrow> a < b + cin" using assms by (cases ov) auto
  show "r = (M + a - b - cin) mod M"
  proof (cases ov)
    case True
    then have "M + a - b - cin = r" using assms(1) by simp
    then show ?thesis using assms(2) by simp
  next
    case False
    then have "M + a - b - cin = M + r" using assms(1,3) by simp
    then show ?thesis using assms(2) by simp
  qed
qed

section \<open>The control word\<close>

lemma control_words:
  "list_all (\<lambda>op. list_all (\<lambda>cin. let w = control_word op cin in
     w < push_bit BIGINT_NUM_CONTROL_BITS 1 \<and> count_ones (w AND NOT (push_bit CARRY_BIT_IDX 1)) = 1 \<and>
     (w AND push_bit CARRY_BIT_IDX 1 \<noteq> 0) = cin \<and>
     list_all (\<lambda>op'. (w AND push_bit (op_bit op') 1 \<noteq> 0) = (op' = op))
       [BigAdd, BigSub, BigSubNegate, BigMulLow, BigMulHigh, BigEq, BigCopy]) [False, True])
   [BigAdd, BigSub, BigSubNegate, BigMulLow, BigMulHigh, BigEq, BigCopy]"
  by code_simp

lemma control_word_bits:
  "control_word op cin < push_bit BIGINT_NUM_CONTROL_BITS 1"
  "count_ones (control_word op cin AND NOT (push_bit CARRY_BIT_IDX 1)) = 1"
  "(control_word op cin AND push_bit CARRY_BIT_IDX 1 \<noteq> 0) = cin"
  "(control_word op cin AND push_bit (op_bit op') 1 \<noteq> 0) = (op' = op)"
proof -
  have all: "x \<in> set [BigAdd, BigSub, BigSubNegate, BigMulLow, BigMulHigh, BigEq, BigCopy]" for x
    by (cases x) simp_all
  have "cin \<in> set [False, True]" by (cases cin) simp_all
  note c = control_words [unfolded list_all_iff Let_def, rule_format, OF all [of op] this]
  show "control_word op cin < push_bit BIGINT_NUM_CONTROL_BITS 1"
    "count_ones (control_word op cin AND NOT (push_bit CARRY_BIT_IDX 1)) = 1"
    "(control_word op cin AND push_bit CARRY_BIT_IDX 1 \<noteq> 0) = cin"
    using c by blast+
  show "(control_word op cin AND push_bit (op_bit op') 1 \<noteq> 0) = (op' = op)"
    using c all [of op'] by blast
qed

lemma single_bit:
  assumes "count_ones w = 1"
  shows "\<exists>i < 32. w = push_bit i 1"
proof -
  obtain i where i: "filter (bit w) [0..<32] = [i]"
    using assms by (auto simp: count_ones_def length_Suc_conv)
  have "{j. j < 32 \<and> bit w j} = set (filter (bit w) [0..<32])" by auto
  also have "\<dots> = {i}" unfolding i by simp
  finally have set: "{j. j < 32 \<and> bit w j} = {i}" .
  then have "i < 32" by auto
  moreover have "w = push_bit i 1"
  proof (rule bit_word_eqI)
    fix j assume "j < LENGTH(32)"
    then show "bit w j = bit (push_bit i 1 :: u32) j" using set by (auto simp: bit_simps)
  qed
  ultimately show ?thesis by blast
qed

lemma valid_controls:
  assumes "x12 < push_bit BIGINT_NUM_CONTROL_BITS 1"
    "count_ones (x12 AND NOT (push_bit CARRY_BIT_IDX 1)) = 1"
  shows "\<exists>op cin. x12 = control_word op cin"
proof -
  obtain i where i: "x12 AND NOT (push_bit 6 1) = push_bit i 1" "i < 32"
    using single_bit [OF assms(2)] by (auto simp: CARRY_BIT_IDX_def simp del: push_bit_of_1)
  have x8: "bit x12 j \<Longrightarrow> j < 8" for j
  proof (rule ccontr)
    assume j: "bit x12 j" "\<not> j < 8"
    have "take_bit 8 x12 = x12"
      using assms(1) by (simp add: BIGINT_NUM_CONTROL_BITS_def word_less_nat_alt word_unat_eq_iff unat_take_bit)
    then have "bit (take_bit 8 x12) j" using j(1) by simp
    then show False using j(2) by (simp add: bit_take_bit_iff)
  qed
  have "bit (x12 AND NOT (push_bit 6 1)) i" unfolding i using i(2) by (simp add: bit_simps)
  then have "i < 8" "i \<noteq> 6" using x8 [of i] i(2) by (auto simp: bit_simps)
  then have "i = 0 \<or> i = 1 \<or> i = 2 \<or> i = 3 \<or> i = 4 \<or> i = 5 \<or> i = 7" by linarith
  then obtain op where op: "i = op_bit op"
    unfolding bigint_bits
    by (metis op_bit.simps ADD_OP_BIT_IDX_def SUB_OP_BIT_IDX_def SUB_AND_NEGATE_OP_BIT_IDX_def
        MUL_LOW_OP_BIT_IDX_def MUL_HIGH_OP_BIT_IDX_def EQ_OP_BIT_IDX_def MEMCOPY_BIT_IDX_def)
  have s: "bit (push_bit k 1 :: u32) j \<longleftrightarrow> j = k" if "j < 32" for j k
    using that by (auto simp: bit_simps simp del: push_bit_of_1)
  have "x12 = push_bit i 1 OR (if bit x12 6 then push_bit 6 1 else 0)"
  proof (rule bit_word_eqI)
    fix j assume j: "j < LENGTH(32)"
    have "bit x12 j \<and> j \<noteq> 6 \<longleftrightarrow> j = i"
      using arg_cong [OF i(1), of "\<lambda>w. bit w j"] s [of j i] s [of j 6] j
      by (simp add: bit_and_iff bit_not_iff del: push_bit_of_1 bit_push_bit_iff)
    then show "bit x12 j = bit (push_bit i 1 OR (if bit x12 6 then push_bit 6 1 else 0) :: u32) j"
      using s [of j i] s [of j 6] j by (auto simp: bit_or_iff simp del: push_bit_of_1 bit_push_bit_iff)
  qed
  then have "x12 = control_word op (bit x12 6)"
    unfolding control_word_def op CARRY_BIT_IDX_def .
  then show ?thesis by blast
qed

lemma bigint_impl_error:
  assumes "\<forall>op cin. x12 \<noteq> control_word op cin"
  shows "bigint_impl U a b x12 = Inl AssertFailed"
proof (cases "x12 < push_bit BIGINT_NUM_CONTROL_BITS 1")
  case True
  then have "count_ones (x12 AND NOT (push_bit CARRY_BIT_IDX 1)) \<noteq> 1"
    using valid_controls assms by blast
  then show ?thesis using True by (simp add: bigint_impl_def Let_def del: push_bit_of_1)
qed (simp add: bigint_impl_def Let_def del: push_bit_of_1)

lemma bigint_impl_valid:
  "bigint_impl U a b (control_word op cin) =
    (case op of
       BigAdd \<Rightarrow> Inr (u_carrying_add_n U a b cin)
     | BigSub \<Rightarrow> Inr (u_borrowing_sub_n U a b cin)
     | BigSubNegate \<Rightarrow> Inr (u_borrowing_sub_n U b a cin)
     | BigMulLow \<Rightarrow> Inr (u_overflowing_mul U a b)
     | BigMulHigh \<Rightarrow> Inr (take 4 (drop 4 (u_widening_mul U a b)), False)
     | BigEq \<Rightarrow> Inr (a, a = b)
     | BigCopy \<Rightarrow> if cin then Inr (add_carry_limbs b True) else Inr (b, False))"
  using control_word_bits(4) [of op cin BigAdd] control_word_bits(4) [of op cin BigSub]
    control_word_bits(4) [of op cin BigSubNegate] control_word_bits(4) [of op cin BigMulLow]
    control_word_bits(4) [of op cin BigMulHigh] control_word_bits(4) [of op cin BigEq]
    control_word_bits(4) [of op cin BigCopy] control_word_bits(1-3) [of op cin]
  unfolding bigint_impl_def Let_def
  by (cases op; cases cin) (simp_all del: push_bit_of_1)

section \<open>The result\<close>

lemma bigint_impl_ok:
  assumes "ruint_documented U" "length a = 4" "length b = 4"
  shows "\<exists>r ov. bigint_impl U a b (control_word op cin) = Inr (r, ov) \<and> length r = 4 \<and>
    (limbs_val r, ov) = big_result op (limbs_val a) (limbs_val b) (of_bool cin)"
proof -
  have lt: "limbs_val xs < 2 ^ 256" if "length xs = 4" for xs using limbs_val_less [of xs] that by simp
  have add: "length r = 4 \<and> limbs_val r + 2 ^ 256 * of_bool ov = limbs_val x + limbs_val y + of_bool k"
    if "u_carrying_add_n U x y k = (r, ov)" "length x = 4" "length y = 4" for x y k r ov
    using assms(1) that unfolding ruint_documented_def by blast
  have sub: "length r = 4 \<and> limbs_val r + limbs_val y + of_bool k = limbs_val x + 2 ^ 256 * of_bool ov"
    if "u_borrowing_sub_n U x y k = (r, ov)" "length x = 4" "length y = 4" for x y k r ov
    using assms(1) that unfolding ruint_documented_def by blast
  have mul: "length r = 4 \<and> limbs_val r = (limbs_val a * limbs_val b) mod 2 ^ 256 \<and>
        ov = (2 ^ 256 \<le> limbs_val a * limbs_val b)" if "u_overflowing_mul U a b = (r, ov)" for r ov
    using assms that unfolding ruint_documented_def by blast
  have wide: "length (u_widening_mul U a b) = 8" "limbs_val (u_widening_mul U a b) = limbs_val a * limbs_val b"
    using assms unfolding ruint_documented_def by blast+
  have cin: "of_bool cin \<le> (1 :: nat)" by (cases cin) simp_all
  have concl: ?thesis
    if "bigint_impl U a b (control_word op cin) = Inr (r, ov)" "length r = 4"
      "limbs_val r = fst (big_result op (limbs_val a) (limbs_val b) (of_bool cin))"
      "ov \<longleftrightarrow> snd (big_result op (limbs_val a) (limbs_val b) (of_bool cin))" for r ov
    using that by (intro exI [of _ r] exI [of _ ov]) (simp add: prod_eq_iff)
  show ?thesis
  proof (cases op)
    case BigAdd
    obtain r ov where r: "u_carrying_add_n U a b cin = (r, ov)" by force
    note k = add [OF r assms(2,3)]
    show ?thesis
      by (rule concl [of r ov])
        (simp_all only: bigint_impl_valid BigAdd big_op.case r k big_result.simps fst_conv snd_conv
          carry_split [OF conjunct2 [OF k] lt [OF conjunct1 [OF k]]])
  next
    case BigSub
    obtain r ov where r: "u_borrowing_sub_n U a b cin = (r, ov)" by force
    note k = sub [OF r assms(2,3)]
    show ?thesis
      by (rule concl [of r ov])
        (simp_all only: bigint_impl_valid BigSub big_op.case r k big_result.simps fst_conv snd_conv
          borrow_split [OF conjunct2 [OF k] lt [OF conjunct1 [OF k]] lt [OF assms(3)] cin])
  next
    case BigSubNegate
    obtain r ov where r: "u_borrowing_sub_n U b a cin = (r, ov)" by force
    note k = sub [OF r assms(3,2)]
    show ?thesis
      by (rule concl [of r ov])
        (simp_all only: bigint_impl_valid BigSubNegate big_op.case r k big_result.simps fst_conv snd_conv
          borrow_split [OF conjunct2 [OF k] lt [OF conjunct1 [OF k]] lt [OF assms(2)] cin])
  next
    case BigMulLow
    obtain r ov where r: "u_overflowing_mul U a b = (r, ov)" by force
    show ?thesis
      by (rule concl [of r ov])
        (simp_all only: bigint_impl_valid BigMulLow big_op.case r mul [OF r] big_result.simps fst_conv snd_conv)
  next
    case BigMulHigh
    let ?w = "u_widening_mul U a b"
    have "limbs_val ?w = limbs_val (take 4 ?w) + 2 ^ 256 * limbs_val (drop 4 ?w)"
      using limbs_val_append [of "take 4 ?w" "drop 4 ?w"] wide(1) by simp
    then have "limbs_val (drop 4 ?w) = limbs_val a * limbs_val b div 2 ^ 256"
      using lt [of "take 4 ?w"] wide by simp
    moreover have "take 4 (drop 4 ?w) = drop 4 ?w" "length (drop 4 ?w) = 4" using wide(1) by simp_all
    ultimately show ?thesis
      by (intro concl [of "drop 4 ?w" False])
        (simp_all only: bigint_impl_valid BigMulHigh big_op.case big_result.simps fst_conv snd_conv)
  next
    case BigEq
    then show ?thesis
      using assms limbs_val_inj [of a b] by (intro concl [of a "a = b"]) (simp_all add: bigint_impl_valid)
  next
    case BigCopy
    obtain r ov where r: "(if cin then add_carry_limbs b True else (b, False)) = (r, ov)" by force
    have k: "length r = 4 \<and> limbs_val r + 2 ^ 256 * of_bool ov = limbs_val b + of_bool cin"
      using r add_carry_limbs_val [of b True r ov] assms(3) by (cases cin) auto
    have "bigint_impl U a b (control_word op cin) = Inr (r, ov)"
      using r unfolding bigint_impl_valid BigCopy by (cases cin) simp_all
    then show ?thesis
      by (rule concl [of r ov])
        (simp_all only: BigCopy k big_result.simps fst_conv snd_conv
          carry_split [OF conjunct2 [OF k] lt [OF conjunct1 [OF k]]])
  qed
qed

end
