(* ===== verification/VM_Delegations.thy ===== *)
theory VM_Delegations
  imports VM_Loop VM_Invariant Blake_Rounds Bigint_Spec
begin

text \<open>
  The effect of the delegations on the machine: which block of memory they rewrite and with what, for
  every memory, snapshotter and counters that satisfy the contracts.  The log must have room for the
  entries of the call (40 for Blake2s, 17 for the integers, 62 for Keccak).
\<close>

lemma set_reg_get [simp]: "i < length rs \<Longrightarrow> rs[i := r] ! j = (if i = j then r else rs ! j)"
  by (simp add: nth_list_update)

lemma index_ok: "i < length xs \<Longrightarrow> index xs i = Inr (xs ! i)"
  by (simp add: index_def)

lemma length_block [simp]: "length (block a n) = n"
  by (simp add: block_def)

lemma map_block_update:
  assumes "length vs = n" "\<forall>i \<in> set (block a n). f i = vs ! (i - unat a div 4)"
  shows "map f (block a n) = vs"
  using assms by (auto simp: block_def intro!: nth_equalityI)

text \<open>Different blocks of aligned addresses are disjoint.\<close>

lemma blocks_disjoint:
  assumes "unat a mod (4 * n) = 0" "unat b mod (4 * n) = 0" "a \<noteq> b" "0 < n"
  shows "set (block a n) \<inter> set (block b n) = {}"
proof -
  obtain k l where k: "unat a = 4 * (n * k)" "unat b = 4 * (n * l)"
    using assms(1,2) by (auto simp: mod_eq_0_iff_dvd dvd_def mult.assoc)
  have "k \<noteq> l" using k assms(3) by (auto simp: word_unat_eq_iff)
  then have "Suc k \<le> l \<or> Suc l \<le> k" by linarith
  then have "n * Suc k \<le> n * l \<or> n * Suc l \<le> n * k" by (metis mult_le_mono2)
  then show ?thesis using k by (auto simp: block_def)
qed

context machine
begin

text \<open>The state at the end of a delegation; a delegation accesses at the last offset of a cycle.\<close>

definition cycle_done :: "nat \<Rightarrow> nat \<Rightarrow> 'c State \<Rightarrow> 'r \<Rightarrow> 's \<Rightarrow> bool" where
  "cycle_done n K st r s \<longleftrightarrow>
     cycle_at 4 st \<and> fresh (unat (st_ts st) + 4) r \<and> ready n s \<and> within K (st_counters st)"

lemma counters_for_calls:
  assumes "within K c" "K + 2 * n < 2 ^ 64"
  shows "\<exists>c1 c2. c_bump_blake C (word_of_nat n) c = Inr c1 \<and>
      c_log_multiple C SHIFT_BINARY_CSR (word_of_nat n) c1 = Inr c2 \<and> within (K + 2 * n) c2"
proof -
  have n: "unat (word_of_nat n :: u64) = n" using assms(2) by (simp add: unat_of_nat)
  obtain c1 where c1: "c_bump_blake C (word_of_nat n) c = Inr c1" "within (K + n) c1"
    using bump_blake [OF assms(1), of "word_of_nat n"] assms(2) n by auto
  then obtain c2 where "c_log_multiple C SHIFT_BINARY_CSR (word_of_nat n) c1 = Inr c2" "within (K + n + n) c2"
    using log_multiple [OF _ c1(2), of SHIFT_BINARY_CSR "word_of_nat n"] assms(2) n by auto
  then show ?thesis using c1 by (auto simp: mult_2 add.assoc)
qed

lemma time_ahead:
  assumes "unat (st_ts st) mod 4 = 0" "unat (st_ts st) + 4 * n < 2 ^ 64" "0 < n"
  shows "add_u64 (st_ts st) (word_of_nat (n - 1) * TIMESTAMP_STEP) =
      Inr (st_ts st + word_of_nat (n - 1) * TIMESTAMP_STEP)"
    "unat (st_ts st + word_of_nat (n - 1) * TIMESTAMP_STEP) = unat (st_ts st) + 4 * (n - 1)"
proof -
  have "unat (word_of_nat (n - 1) * TIMESTAMP_STEP) = 4 * (n - 1)"
    using assms(2) by (simp add: TIMESTAMP_STEP_def unat_word_ariths unat_of_nat)
  then show "add_u64 (st_ts st) (word_of_nat (n - 1) * TIMESTAMP_STEP) =
      Inr (st_ts st + word_of_nat (n - 1) * TIMESTAMP_STEP)"
    "unat (st_ts st + word_of_nat (n - 1) * TIMESTAMP_STEP) = unat (st_ts st) + 4 * (n - 1)"
    using assms(2,3) by (simp_all add: add_u64_def unat_word_ariths)
qed

lemma blake_call_effect:
  assumes start: "cycle_start (40 + m) K st r s" "K + 20 < 2 ^ 64" "unat (st_ts st) + 40 < 2 ^ 64"
    and x10: "reg_vals st ! 10 = x10" "ROM_BYTE_SIZE \<le> x10" "x10 mod 128 = 0" "block_in (words r) x10 24"
      "\<forall>i \<in> set (block x10 24). writable i"
    and x11: "reg_vals st ! 11 = x11" "ROM_BYTE_SIZE \<le> x11" "x11 mod 64 = 0" "block_in (words r) x11 16"
      "set (block x10 24) \<inter> set (block x11 16) = {}"
    and x12: "reg_vals st ! 12 = x12" "blake_permutation_bitmask x12 = 1"
    and c: "c = blake_control_bitmask x12"
  shows "\<exists>st' r' s' out. blake2_round_function_call C S R st r s = Inr (st', r', s') \<and>
    blake_iterate (rounds_of c) (map (word r) (block x10 24)) (map (word r) (block x11 16)) x12 =
      Inr (out, reg_vals st' ! 12) \<and>
    map (word r') (block x10 24) = out \<and> (\<forall>i. i \<notin> set (block x10 24) \<longrightarrow> word r' i = word r i) \<and>
    (\<forall>j < 32. j \<noteq> 12 \<longrightarrow> reg_vals st' ! j = reg_vals st ! j) \<and>
    st_pc st' = st_pc st + 4 * word_of_nat (rounds_of c) \<and>
    unat (st_ts st') = unat (st_ts st) + 4 * (rounds_of c - 1) \<and> words r' = words r \<and>
    cycle_done m (K + 20) st' r' s'"
proof -
  let ?n = "rounds_of c"
  let ?state = "map (word r) (block x10 24)" and ?input = "map (word r) (block x11 16)"
  let ?mode = "has_mask c TEST_IF_COMPRESSION_MODE_MASK"
  have cyc: "cycle_at 0 st" "fresh (unat (st_ts st)) r" "ready (40 + m) s" "within K (st_counters st)"
    using start(1) by (simp_all add: cycle_start_def)
  have len: "length (st_regs st) = 32" and ts: "unat (st_ts st) mod 4 = 0"
    using cycle_atD(1,2) [OF cyc(1)] by auto
  have regs: "reg_val (st_regs st ! 10) = x10" "reg_val (st_regs st ! 11) = x11" "reg_val (st_regs st ! 12) = x12"
    using x10(1) x11(1) x12(1) len by (simp_all add: reg_vals_def)
  have n: "0 < ?n" "?n \<le> 10" "?n = (if has_mask c TEST_IF_REDUCE_ROUNDS_MASK then 7 else 10)"
    by (simp_all add: rounds_of_def)
  define lt where "lt = st_ts st + word_of_nat (?n - 1) * TIMESTAMP_STEP"
  have lt: "add_u64 (st_ts st) (word_of_nat (?n - 1) * TIMESTAMP_STEP) = Inr lt"
    "unat lt = unat (st_ts st) + 4 * (?n - 1)"
    using time_ahead [OF ts, of ?n] start(3) n by (simp_all add: lt_def)
  have m4: "unat lt mod 4 = 0" using ts lt(2) by (simp add: mod_add_eq [symmetric])
  have lt3: "add_u64 lt 3 = Inr (lt + 3)" "unat (lt + 3) = unat lt + 3"
    using lt(2) start(3) n by (simp_all add: add_u64_def unat_word_ariths)
  obtain h' e' where he: "blake_steps c [0..<?n] ?input
      (take 8 ?state, blake_prepare ?mode (take 8 ?state) (drop 8 ?state)) = (h', e')" by force
  have lens: "length h' = 8" "length e' = 16"
    using he n unfolding steps_all by (auto simp: Let_def)
  have it: "blake_iterate ?n ?state ?input x12 = Inr (h' @ e', x12_of c ?n)"
    using iterate_from_start [OF x12(2) n(1,2), of "take 8 ?state" "drop 8 ?state" ?input] he
    by (simp add: c)
  have fr: "last r i < unat (st_ts st)" if "i < words r" for i
    using cyc(2) that by (simp add: fresh_def)
  have b10: "i < words r" if "i \<in> set (block x10 24)" for i
    using that x10(4) by (auto simp: block_def block_in_def)
  have b11: "i < words r" if "i \<in> set (block x11 16)" for i
    using that x11(4) by (auto simp: block_def block_in_def)
  have early: "\<forall>i \<in> set (block x10 24). last r i < unat ((lt OR 3) OR 2)"
    using b10 fr lt(2) unat_or_low [OF m4] by fastforce
  obtain r1 s1 where w: "write_back_words R S (h' @ e') x10 (lt OR 3) r s = Inr (r1, s1)"
    "words r1 = words r" "ready (16 + m) s1"
    "\<forall>i. word r1 i = (if i \<in> set (block x10 24) then (h' @ e') ! (i - unat x10 div 4) else word r i)"
    "\<forall>i. last r1 i = (if i \<in> set (block x10 24) then unat (lt OR 3) else last r i)"
    using write_block [of r x10 "h' @ e'" "lt OR 3" "16 + m" s] x10(4,5) lens cyc(3) early by auto
  have b: "\<forall>i \<in> set (block x11 16). last r1 i < unat ((lt OR 3) OR 1)"
    using x11(5) w(5) b11 fr lt(2) unat_or_low [OF m4] by fastforce
  obtain r2 s2 where rd: "read_words R S 16 x11 (lt OR 3) r1 s1 = Inr (map (word r1) (block x11 16), r2, s2)"
    "words r2 = words r1" "word r2 = word r1" "ready m s2"
    "\<forall>i. last r2 i = (if i \<in> set (block x11 16) then unat ((lt OR 3) OR 1) else last r1 i)"
    using read_block [OF _ b w(3)] x11(4) w(2) by auto
  obtain c1 c2 where cs: "c_bump_blake C (word_of_nat ?n) (st_counters st) = Inr c1"
    "c_log_multiple C SHIFT_BINARY_CSR (word_of_nat ?n) c1 = Inr c2" "within (K + 2 * ?n) c2"
    using counters_for_calls [OF cyc(4), of ?n] start(2) n by auto
  have ne: "x10 \<noteq> x11" using x11(5) by (auto simp: block_def)
  have rounds: "blake_rounds ?mode (has_mask c TEST_IF_INPUT_IS_RIGHT_NODE_MASK) ?n ?input [0..<?n]
      (take 8 ?state, blake_prepare ?mode (take 8 ?state) (drop 8 ?state)) = Inr (h', e')"
    using rounds_are_steps [OF _ n(3), of "[0..<?n]" ?input "take 8 ?state"] he
    by (simp add: lessThan_atLeast0)
  define st2 where "st2 = st\<lparr>st_regs := (st_regs st)
      [10 := (st_regs st ! 10)\<lparr>reg_ts := lt + 3\<rparr>, 11 := (st_regs st ! 11)\<lparr>reg_ts := lt + 3\<rparr>,
       12 := \<lparr>reg_ts = lt + 3, reg_val = x12_of c ?n\<rparr>, 0 := (st_regs st ! 0)\<lparr>reg_ts := lt OR 2\<rparr>],
      st_ts := lt, st_pc := st_pc st + 4 * word_of_nat ?n, st_counters := c2\<rparr>"
  have pow: "is_power_of_two (1 :: u32)" "trailing_zeros 1 = 0" by code_simp+
  have call: "blake2_round_function_call C S R st r s = Inr (st2, r2, s2)"
    unfolding blake2_round_function_call_def
    using len regs x10 x11 x12 ne n(3) pow lt(1) lt3(1) peek_block [OF x10(4)] peek_block [OF x11(4)]
      rounds w(1) rd(1) cs(1,2)
    by (simp add: index_ok Let_def c [symmetric] st2_def x12_of_final rounds_of_def)
  have "cycle_at 4 st" "fresh (unat (st_ts st) + 4) r"
    using cyc(1,2) by (auto intro: cycle_at_mono fresh_mono)
  then have "cycle_done m (K + 20) st2 r2 s2"
    using keep_blake [OF _ _ call] rd(4) cs(3) n within_mono [of "K + 2 * ?n" c2 "K + 20"]
    by (simp add: cycle_done_def st2_def)
  then show ?thesis
    using call it lens w(2,4) rd(2,3) x11(5)
    by (intro exI [of _ st2] exI [of _ r2] exI [of _ s2] exI [of _ "h' @ e'"])
      (auto simp: map_block_update st2_def reg_vals_def len lt(2))
qed

lemma bigint_call_effect:
  assumes start: "cycle_start (17 + m) K st r s" "K + 2 < 2 ^ 64"
    and x10: "reg_vals st ! 10 = x10" "ROM_BYTE_SIZE \<le> x10" "x10 mod 32 = 0" "block_in (words r) x10 8"
      "\<forall>i \<in> set (block x10 8). writable i"
    and x11: "reg_vals st ! 11 = x11" "ROM_BYTE_SIZE \<le> x11" "x11 mod 32 = 0" "block_in (words r) x11 8"
      "x10 \<noteq> x11"
    and op: "reg_vals st ! 12 = x12"
      "bigint_impl U (limbs_of_words (map (word r) (block x10 8)))
         (limbs_of_words (map (word r) (block x11 8))) x12 = Inr (out, ov)" "length out = 4"
  shows "\<exists>st' r' s'. bigint_call C S R U st r s = Inr (st', r', s') \<and>
    limbs_of_words (map (word r') (block x10 8)) = out \<and>
    (\<forall>i. i \<notin> set (block x10 8) \<longrightarrow> word r' i = word r i) \<and>
    reg_vals st' = (reg_vals st)[12 := of_bool ov] \<and> st_pc st' = st_pc st + 4 \<and> st_ts st' = st_ts st \<and>
    words r' = words r \<and> cycle_done m (K + 2) st' r' s'"
proof -
  have cyc: "cycle_at 0 st" "fresh (unat (st_ts st)) r" "ready (17 + m) s" "within K (st_counters st)"
    using start(1) by (simp_all add: cycle_start_def)
  have len: "length (st_regs st) = 32" and ts: "unat (st_ts st) mod 4 = 0"
    using cycle_atD(1,2) [OF cyc(1)] by auto
  have regs: "reg_val (st_regs st ! 10) = x10" "reg_val (st_regs st ! 11) = x11" "reg_val (st_regs st ! 12) = x12"
    using x10(1) x11(1) op(1) len by (simp_all add: reg_vals_def)
  have times: "reg_ts (st_regs st ! 10) < (st_ts st OR 3)" "reg_ts (st_regs st ! 11) < (st_ts st OR 3)"
    "reg_ts (st_regs st ! 12) < (st_ts st OR 3)"
    using cycle_at_fresh [OF cyc(1), of 3 10] cycle_at_fresh [OF cyc(1), of 3 11]
      cycle_at_fresh [OF cyc(1), of 3 12] by simp_all
  have "unat x10 mod 32 = 0" "unat x11 mod 32 = 0"
    using x10(3) x11(3) by (simp_all add: word_unat_eq_iff unat_mod)
  then have disj: "set (block x10 8) \<inter> set (block x11 8) = {}"
    using blocks_disjoint [of x10 8 x11] x11(5) by simp
  have fr: "last r i < unat (st_ts st)" if "i < words r" for i
    using cyc(2) that by (simp add: fresh_def)
  have b10: "i < words r" if "i \<in> set (block x10 8)" for i
    using that x10(4) by (auto simp: block_def block_in_def)
  have b11: "i < words r" if "i \<in> set (block x11 8)" for i
    using that x11(4) by (auto simp: block_def block_in_def)
  let ?a = "map (word r) (block x10 8)" and ?b = "map (word r) (block x11 8)" and ?t = "st_ts st OR 3"
  have early: "\<forall>i \<in> set (block x11 8). last r i < unat (?t OR 1)"
    using b11 fr unat_or_low [OF ts] by fastforce
  have "8 + (9 + m) = 17 + m" by simp
  then obtain r1 s1 where rd: "read_words R S 8 x11 ?t r s = Inr (?b, r1, s1)"
    "words r1 = words r" "word r1 = word r" "ready (9 + m) s1"
    "\<forall>i. last r1 i = (if i \<in> set (block x11 8) then unat (?t OR 1) else last r i)"
    using read_block [OF x11(4) early, of "9 + m" s] cyc(3) by auto
  have lw: "length (words_of_limbs out) = 8" using op(3) by simp
  have early2: "\<forall>i \<in> set (block x10 8). last r1 i < unat (?t OR 2)"
    using b10 fr rd(5) disj unat_or_low [OF ts] by fastforce
  obtain r2 s2 where w: "write_back_words R S (words_of_limbs out) x10 ?t r1 s1 = Inr (r2, s2)"
    "words r2 = words r1" "ready (1 + m) s2"
    "\<forall>i. word r2 i = (if i \<in> set (block x10 8) then words_of_limbs out ! (i - unat x10 div 4) else word r1 i)"
    using write_block [of r1 x10 "words_of_limbs out" ?t "1 + m" s1] x10(4,5) lw rd(2,4) early2 by auto
  obtain s3 where s3: "s_append_arbitrary_value S (of_bool ov) s2 = Inr s3" "ready m s3"
    using append_value_ready [of m s2 "of_bool ov"] w(3) by auto
  obtain c1 where c1: "c_bump_bigint C 1 (st_counters st) = Inr c1" "within (K + 1) c1"
    using bump_bigint [OF cyc(4), of 1] start(2) by auto
  obtain c2 where c2: "c_log_family C SHIFT_BINARY_CSR c1 = Inr c2" "within (K + 2) c2"
    using log_family [OF _ c1(2), of SHIFT_BINARY_CSR] start(2) by auto
  have la: "peek_limbs R 4 x10 r = Inr (limbs_of_words ?a)"
    using peek_block [OF x10(4)] by (simp add: peek_limbs_words)
  have lb: "read_limbs R S 4 x11 ?t r s = Inr (limbs_of_words ?b, r1, s1)"
    using rd(1) by (simp add: read_limbs_words)
  have lo: "write_back_limbs R S out x10 ?t r1 s1 = Inr (r2, s2)"
    using w(1) by (simp add: write_back_limbs_words)
  define st2 where "st2 = st\<lparr>st_regs := (st_regs st)
      [0 := (st_regs st ! 0)\<lparr>reg_ts := st_ts st OR 2\<rparr>, 10 := (st_regs st ! 10)\<lparr>reg_ts := ?t\<rparr>,
       11 := (st_regs st ! 11)\<lparr>reg_ts := ?t\<rparr>, 12 := \<lparr>reg_ts = ?t, reg_val = of_bool ov\<rparr>],
      st_pc := st_pc st + 4, st_counters := c2\<rparr>"
  have call: "bigint_call C S R U st r s = Inr (st2, r2, s3)"
    unfolding bigint_call_def read_register_def write_register_def
    using len regs times x10(2,3) x11(2,3,5) la lb op(2) lo s3(1) c1(1) c2(1)
    by (simp add: index_ok get_unchecked_def Let_def st2_def default_increase_pc_def
        increment_family_counter_def)
  have "cycle_at 4 st" "fresh (unat (st_ts st) + 4) r"
    using cyc(1,2) by (auto intro: cycle_at_mono fresh_mono)
  then have "cycle_done m (K + 2) st2 r2 s3"
    using keep_bigint [OF _ _ call] s3(2) c2(2) by (simp add: cycle_done_def st2_def)
  moreover have "map (word r2) (block x10 8) = words_of_limbs out"
    using w(4) lw by (intro map_block_update) auto
  moreover have "reg_vals st2 = (reg_vals st)[12 := of_bool ov]"
    by (rule nth_equalityI) (auto simp: st2_def reg_vals_def len nth_list_update)
  ultimately show ?thesis
    using call w(2,4) rd(2,3)
    by (intro exI [of _ st2] exI [of _ r2] exI [of _ s3]) (simp add: limbs_of_words_of_limbs st2_def)
qed

end

end
