(* ===== verification/Keccak_Steps.thy ===== *)
theory Keccak_Steps
  imports VM_Keccak
begin

text \<open>
  The 649 small operations of the Keccak delegation compute the permutation.  The lanes of the state
  move around: at the start of round \<open>r\<close> the logical lane \<open>i\<close> is at position \<open>PERMUTATIONS_ADJUSTED ! r ! i\<close>.
  Seen through that permutation, the 27 operations of every round are the same, and one symbolic
  execution of them is a round of Keccak.
\<close>

section \<open>The control register\<close>

definition control_of :: "u32 \<Rightarrow> nat \<Rightarrow> nat \<Rightarrow> u32" where
  "control_of precompile iteration round =
     precompile OR push_bit 3 (word_of_nat iteration) OR push_bit 6 (word_of_nat round)"

lemma nat_mask_less: "(n :: nat) < 2 ^ k \<Longrightarrow> bit n j \<Longrightarrow> j < k"
  by (metis bit_take_bit_iff take_bit_nat_eq_self)

lemma control_of_fields:
  assumes "unat p < 8" "it < 8" "rd < 2 ^ 26"
  shows "control_of p it rd AND 7 = p" "drop_bit 3 (control_of p it rd) AND 7 = word_of_nat it"
    "drop_bit 6 (control_of p it rd) = word_of_nat rd"
proof -
  have p: "bit p j \<Longrightarrow> j < 3" for j
    using nat_mask_less [of "unat p" 3 j] assms(1) by (simp add: bit_unsigned_iff)
  have i: "bit it j \<Longrightarrow> j < 3" for j using nat_mask_less [of it 3 j] assms(2) by simp
  have r: "bit rd j \<Longrightarrow> j < 26" for j using nat_mask_less [of rd 26 j] assms(3) by simp
  have m: "(7 :: u32) = mask 3" by (simp add: mask_eq_exp_minus_1)
  show "control_of p it rd AND 7 = p" unfolding m
    by (rule bit_word_eqI) (auto simp: control_of_def bit_simps dest: p)
  show "drop_bit 3 (control_of p it rd) AND 7 = word_of_nat it" unfolding m
    by (rule bit_word_eqI) (auto simp: control_of_def bit_simps dest: p i)
  show "drop_bit 6 (control_of p it rd) = word_of_nat rd"
    by (rule bit_word_eqI) (auto simp: control_of_def bit_simps dest: p i r)
qed

section \<open>Steps\<close>

text \<open>One small operation on control register and state; a step of the loop of the delegation's replay.\<close>

definition keccak_small_step :: "u32 \<times> u64 list \<Rightarrow> (u32 \<times> u64 list) res" where
  "keccak_small_step = (\<lambda>(control, state).
     bindE (keccak_special5_impl_decode_control control) (\<lambda>(precompile, iteration, round).
     bindE (keccak_special5_impl_bump_control precompile iteration round) (\<lambda>control.
     bindE (keccak_special5_impl_extract_indices precompile iteration round) (\<lambda>idx.
     bindE (keccak_special5_impl_compute_outputs precompile iteration round (map ((!) state) idx)) (\<lambda>out.
     Inr (control, fold (\<lambda>j state. state[idx ! j := out ! j]) [0..<6] state))))))"

fun keccak_small_steps :: "nat \<Rightarrow> u32 \<times> u64 list \<Rightarrow> (u32 \<times> u64 list) res" where
  "keccak_small_steps 0 x = Inr x"
| "keccak_small_steps (Suc n) x = bindE (keccak_small_steps n x) keccak_small_step"

lemma keccak_small_steps_add:
  "keccak_small_steps (m + n) x = bindE (keccak_small_steps m x) (keccak_small_steps n)"
  by (induction n) (auto simp: bindE_assoc bindE_def split: sum.splits)

section \<open>The moving lanes\<close>

definition perm :: "nat \<Rightarrow> nat \<Rightarrow> nat" where
  "perm r i = (if i < 25 then PERMUTATIONS_ADJUSTED ! r ! i else i)"

definition view :: "nat \<Rightarrow> u64 list \<Rightarrow> u64 list" where
  "view r state = map (\<lambda>i. state ! perm r i) [0..<31]"

text \<open>The indices of an operation, as logical lanes.\<close>

definition logical_indices :: "u32 \<Rightarrow> nat \<Rightarrow> nat list" where
  "logical_indices p it =
     (if p = 0 then [it, it + 5, it + 10, it + 15, it + 20, 25 + it]
      else if p = 1 \<or> p = 2 then [25, 26, 27, 28, 29, 30]
      else if p = 3 then [it, it + 5, it + 10, it + 15, it + 20, [29, 25, 26, 27, 28] ! it]
      else if p = 4 then [it, it + 5, it + 10, it + 15, it + 20, 25]
      else if p = 5 then map (\<lambda>j. PERMUTATIONS_ADJUSTED ! 1 ! (it * 5 + j)) [1, 2, 3, 4] @ [25, 26]
      else map (\<lambda>j. PERMUTATIONS_ADJUSTED ! 1 ! (it * 5 + j)) [0, 3, 4] @ [25, 26, 27])"

lemma rows_are_permutations:
  "list_all (\<lambda>row. length row = 25 \<and> distinct row \<and> list_all (\<lambda>i. i < 25) row) PERMUTATIONS_ADJUSTED"
  by (simp add: PERMUTATIONS_ADJUSTED_def)

lemma row_one: "PERMUTATIONS_ADJUSTED ! 1 =
    [0, 6, 12, 18, 24, 3, 9, 10, 16, 22, 1, 7, 13, 19, 20, 4, 5, 11, 17, 23, 2, 8, 14, 15, 21]"
  by (simp add: PERMUTATIONS_ADJUSTED_def)

lemma rows_advance:
  "tl PERMUTATIONS_ADJUSTED =
     map (\<lambda>row. map ((!) row) (PERMUTATIONS_ADJUSTED ! 1)) (butlast PERMUTATIONS_ADJUSTED)"
  unfolding row_one by (simp add: PERMUTATIONS_ADJUSTED_def)

lemma length_rows: "length PERMUTATIONS_ADJUSTED = 25" "length ROUND_CONSTANTS_ADJUSTED = 25"
  by (simp_all add: PERMUTATIONS_ADJUSTED_def ROUND_CONSTANTS_ADJUSTED_def)

lemma row:
  assumes "r < 25"
  shows "length (PERMUTATIONS_ADJUSTED ! r) = 25" "distinct (PERMUTATIONS_ADJUSTED ! r)"
    "i < 25 \<Longrightarrow> PERMUTATIONS_ADJUSTED ! r ! i < 25"
  using rows_are_permutations assms length_rows(1) by (auto simp: list_all_length)

lemma row_advance:
  assumes "r < 24" "j < 25"
  shows "PERMUTATIONS_ADJUSTED ! r ! (PERMUTATIONS_ADJUSTED ! 1 ! j) = PERMUTATIONS_ADJUSTED ! Suc r ! j"
proof -
  have "PERMUTATIONS_ADJUSTED ! Suc r = tl PERMUTATIONS_ADJUSTED ! r"
    using assms(1) length_rows(1) by (simp add: nth_tl)
  also have "\<dots> = map ((!) (PERMUTATIONS_ADJUSTED ! r)) (PERMUTATIONS_ADJUSTED ! 1)"
    unfolding rows_advance using assms(1) length_rows(1) by (simp add: nth_butlast)
  finally show ?thesis using assms(2) row(1) [of 1] by simp
qed

lemma perm_less: "r < 25 \<Longrightarrow> i < 31 \<Longrightarrow> perm r i < 31"
  using row(3) [of r i] by (auto simp: perm_def)

lemma perm_inj: "r < 25 \<Longrightarrow> perm r i = perm r j \<longleftrightarrow> i = j"
  using row [of r] by (auto simp: perm_def nth_eq_iff_index_eq dest!: row(3) [of r])

lemma view_update:
  assumes "r < 25" "length state = 31" "i < 31"
  shows "view r (state[perm r i := v]) = (view r state)[i := v]"
  using assms by (intro nth_equalityI) (auto simp: view_def nth_list_update perm_inj perm_less)

lemma view_updates:
  assumes "r < 25" "length state = 31" "\<forall>k \<in> set ks. k < 31" "\<forall>j \<in> set js. j < length ks"
  shows "view r (fold (\<lambda>j state. state[map (perm r) ks ! j := out ! j]) js state) =
    fold (\<lambda>j state. state[ks ! j := out ! j]) js (view r state)"
  using assms(2,4)
proof (induction js arbitrary: state)
  case (Cons j js)
  then show ?case using assms(1,3) by (simp add: view_update)
qed simp

lemma view_reads:
  assumes "\<forall>k \<in> set ks. k < 31"
  shows "map ((!) state) (map (perm r) ks) = map ((!) (view r state)) ks"
  using assms by (simp add: view_def)

lemma perm_lane: "i < 25 \<Longrightarrow> perm r i = PERMUTATIONS_ADJUSTED ! r ! i" "25 \<le> i \<Longrightarrow> perm r i = i"
  by (simp_all add: perm_def)

lemma perm_next: "r < 24 \<Longrightarrow> i < 25 \<Longrightarrow> perm r (PERMUTATIONS_ADJUSTED ! Suc 0 ! i) = PERMUTATIONS_ADJUSTED ! Suc r ! i"
  using row(3) [of 1 i] row_advance [of r i] by (simp add: perm_lane)

lemma extract_is_logical:
  assumes "r < 24 \<or> r = 24 \<and> p = 0" "p < 7" "it < 5"
  shows "keccak_special5_impl_extract_indices p it r = Inr (map (perm r) (logical_indices p it))"
proof -
  have "unat p < 7" using assms(2) by (simp add: word_less_nat_alt)
  then have "unat p = 0 \<or> unat p = 1 \<or> unat p = 2 \<or> unat p = 3 \<or> unat p = 4 \<or> unat p = 5 \<or> unat p = 6"
    by linarith
  then consider "p = 0" | "p = 4" | "p = 1 \<or> p = 2" | "p = 3" | "p = 5" | "p = 6"
    by (auto simp: word_unat_eq_iff)
  note p = this
  have ix: "index PERMUTATIONS_ADJUSTED r = Inr (PERMUTATIONS_ADJUSTED ! r)"
    "p \<noteq> 0 \<Longrightarrow> index PERMUTATIONS_ADJUSTED (Suc r) = Inr (PERMUTATIONS_ADJUSTED ! Suc r)"
    using assms(1) length_rows(1) by (auto simp: index_def)
  have r: "p \<noteq> 0 \<Longrightarrow> r < 24" using assms(1) by auto
  have theta: "map (perm r) [[29, 25, 26, 27, 28] ! it] = [[29, 25, 26, 27, 28] ! it]"
    using assms(3) by (auto simp: less_Suc_eq numeral_eq_Suc perm_lane)
  note defs = keccak_special5_impl_extract_indices_def logical_indices_def
  from p show ?thesis
  proof cases
    case 1 then show ?thesis using assms(3) by (simp add: defs ix perm_lane)
  next
    case 2 then show ?thesis using assms(3) by (simp add: defs ix perm_lane)
  next
    case 3 then show ?thesis by (auto simp: defs perm_lane)
  next
    case 4 then show ?thesis using assms(3) theta by (simp add: defs ix perm_lane)
  next
    case 5 then show ?thesis using assms(3) ix r by (simp add: defs Let_def perm_next perm_lane(2))
  next
    case 6 then show ?thesis using assms(3) ix r by (simp add: defs Let_def perm_next perm_lane(2))
  qed
qed

section \<open>The operations of a round\<close>

definition round_ops :: "(u32 \<times> nat) list" where
  "round_ops = [(0, 0), (0, 1), (0, 2), (0, 3), (0, 4), (1, 0), (2, 0),
     (3, 0), (3, 1), (3, 2), (3, 3), (3, 4), (4, 0), (4, 1), (4, 2), (4, 3), (4, 4),
     (5, 0), (6, 0), (5, 1), (6, 1), (5, 2), (6, 2), (5, 3), (6, 3), (5, 4), (6, 4)]"

definition logical_op :: "nat \<Rightarrow> u32 \<times> nat \<Rightarrow> u64 list \<Rightarrow> u64 list" where
  "logical_op r = (\<lambda>(p, it) lanes.
     let idx = logical_indices p it
     in case keccak_special5_impl_compute_outputs p it r (map ((!) lanes) idx) of
          Inr out \<Rightarrow> fold (\<lambda>j lanes. lanes[idx ! j := out ! j]) [0..<6] lanes
        | Inl _ \<Rightarrow> lanes)"

lemma length_round_ops [simp]: "length round_ops = 27"
  by (simp add: round_ops_def)

lemma op_cases:
  assumes "(p, it) \<in> set round_ops"
  shows "unat p < 7" "it < 5"
  using assms by (auto simp: round_ops_def)

lemma length_logical_indices [simp]: "length (logical_indices p it) = 6"
  by (simp add: logical_indices_def)

lemma logical_indices_less: "(p, it) \<in> set round_ops \<Longrightarrow> k \<in> set (logical_indices p it) \<Longrightarrow> k < 31"
  by (auto simp: round_ops_def logical_indices_def row_one [simplified])

lemma outputs_exist:
  assumes "(p, it) \<in> set round_ops" "r < 24 \<or> r = 24 \<and> p = 0"
  shows "\<exists>out. keccak_special5_impl_compute_outputs p it r xs = Inr out"
  using assms by (auto simp: round_ops_def keccak_special5_impl_compute_outputs_def Let_def index_def
      length_rows rho_rotations_def)

lemma ops_advance:
  assumes "Suc k < 27" "round_ops ! k = (p, it)" "round_ops ! Suc k = (p', it')"
  shows "keccak_special5_impl_bump_control p it r = Inr (control_of p' it' r)"
proof -
  have all: "list_all (\<lambda>((p, it), (p', it')). keccak_special5_impl_bump_control p it r = Inr (control_of p' it' r))
      (zip round_ops (tl round_ops))"
    by (simp add: round_ops_def keccak_special5_impl_bump_control_def control_of_def)
  show ?thesis using all [unfolded list_all_length, rule_format, of k] assms by (simp add: nth_tl)
qed

lemma small_step_logical:
  assumes "(p, it) \<in> set round_ops" "r < 24 \<or> r = 24 \<and> p = 0" "length state = 31"
    "keccak_special5_impl_bump_control p it r = Inr control"
  shows "\<exists>state'. keccak_small_step (control_of p it r, state) = Inr (control, state') \<and>
    length state' = 31 \<and> view r state' = logical_op r (p, it) (view r state)"
proof -
  note c = op_cases [OF assms(1)]
  obtain out where out: "keccak_special5_impl_compute_outputs p it r
      (map ((!) (view r state)) (logical_indices p it)) = Inr out"
    using outputs_exist [OF assms(1,2)] by blast
  have less: "\<forall>k \<in> set (logical_indices p it). k < 31" using logical_indices_less [OF assms(1)] by blast
  have r: "r < 25" using assms(2) by auto
  have p: "p < 7" using c(1) by (simp add: word_less_nat_alt)
  have "keccak_special5_impl_decode_control (control_of p it r) = Inr (p, it, r)"
    using control_of_fields [of p it r] c assms(2) p
    by (auto simp: keccak_special5_impl_decode_control_def Let_def unat_of_nat)
  moreover note extract_is_logical [OF assms(2) p c(2)]
  moreover note view_reads [OF less, of state r] out
  moreover have "length (fold (\<lambda>j state. state[ks j := out ! j]) js state) = length state" for ks js
    by (induction js arbitrary: state) simp_all
  ultimately show ?thesis
    using view_updates [OF r assms(3) less, of "[0..<6]" out] assms(3,4)
    by (simp add: keccak_small_step_def logical_op_def Let_def del: map_map)
qed

text \<open>The first \<open>n\<close> operations of a round, and all of them.\<close>

lemma ops_logical:
  assumes "r < 24 \<or> r = 24 \<and> n = 0" "n < 27" "length state = 31" "round_ops ! n = (p, it)"
  shows "\<exists>state'. keccak_small_steps n (control_of 0 0 r, state) = Inr (control_of p it r, state') \<and>
    length state' = 31 \<and> view r state' = fold (logical_op r) (take n round_ops) (view r state)"
  using assms
proof (induction n arbitrary: p it)
  case 0
  then show ?case by (simp add: round_ops_def)
next
  case (Suc n)
  obtain q jt where q: "round_ops ! n = (q, jt)" by force
  have m: "(q, jt) \<in> set round_ops" using Suc.prems(2) q nth_mem [of n round_ops] by simp
  from Suc.IH [OF _ _ _ q] Suc.prems obtain state' where s:
    "keccak_small_steps n (control_of 0 0 r, state) = Inr (control_of q jt r, state')" "length state' = 31"
    "view r state' = fold (logical_op r) (take n round_ops) (view r state)" by auto
  have "keccak_special5_impl_bump_control q jt r = Inr (control_of p it r)"
    using ops_advance [OF Suc.prems(2) q Suc.prems(4)] .
  from small_step_logical [OF m _ s(2) this] Suc.prems(1) s
  show ?case
    using Suc.prems(2) q by (auto simp: take_Suc_conv_app_nth)
qed

definition advance :: "u64 list \<Rightarrow> u64 list" where
  "advance lanes = map (\<lambda>i. lanes ! perm 1 i) [0..<31]"

lemma view_advance:
  assumes "r < 24"
  shows "view (Suc r) state = advance (view r state)"
proof -
  have "perm (Suc r) i = perm r (perm 1 i)" if "i < 31" for i
    using row_advance [OF assms, of i] row(3) [of 1 i] by (simp add: perm_def)
  then show ?thesis by (auto simp: view_def advance_def perm_less)
qed

lemma round_logical:
  assumes "r < 24" "length state = 31"
  shows "\<exists>state'. keccak_small_steps 27 (control_of 0 0 r, state) = Inr (control_of 0 0 (Suc r), state') \<and>
    length state' = 31 \<and> view (Suc r) state' = advance (fold (logical_op r) round_ops (view r state))"
proof -
  have l: "round_ops ! 26 = (6, 4)" "(6, 4) \<in> set round_ops" "round_ops = take 26 round_ops @ [(6, 4)]"
    by (simp_all add: round_ops_def)
  from ops_logical [OF _ _ assms(2) l(1)] assms(1) obtain state' where s:
    "keccak_small_steps 26 (control_of 0 0 r, state) = Inr (control_of 6 4 r, state')" "length state' = 31"
    "view r state' = fold (logical_op r) (take 26 round_ops) (view r state)" by auto
  have "keccak_special5_impl_bump_control 6 4 r = Inr (control_of 0 0 (Suc r))"
    by (simp add: keccak_special5_impl_bump_control_def control_of_def)
  from small_step_logical [OF l(2) _ s(2) this] assms(1) obtain state'' where t:
    "keccak_small_step (control_of 6 4 r, state') = Inr (control_of 0 0 (Suc r), state'')"
    "length state'' = 31" "view r state'' = logical_op r (6, 4) (view r state')" by auto
  have "fold (logical_op r) round_ops (view r state) = view r state''"
    by (subst l(3)) (simp add: t(3) s(3))
  moreover have "keccak_small_steps (26 + 1) (control_of 0 0 r, state) = Inr (control_of 0 0 (Suc r), state'')"
    unfolding keccak_small_steps_add s(1) by (simp add: t(1))
  ultimately show ?thesis using t(2) view_advance [OF assms(1)] by auto
qed

end
