(* ===== verification/Keccak_Rounds.thy ===== *)
theory Keccak_Rounds
  imports Keccak_Steps
begin

text \<open>
  One symbolic execution of the 27 operations of a round, in four stages, and the comparison of each with
  the step of Keccak it implements: column parities with the round constant, the mix of the parities,
  theta with rho, and chi on the lanes that pi brings to a row.
\<close>

section \<open>Operations on explicit states\<close>

lemma update_numeral [simp]: "(x # xs)[numeral k := v] = x # xs[pred_numeral k := v]"
  by (simp add: numeral_eq_Suc)

lemma upt_5: "[0..<5] = [0, 1, 2, 3, 4]" and upt_6: "[0..<6] = [0, 1, 2, 3, 4, 5]"
  by (simp_all add: upt_rec)

lemma upt_24: "[0..<24] = [0, 1, 2, 3, 4, 5, 6, 7, 8, 9, 10, 11, 12, 13, 14, 15, 16, 17, 18, 19, 20, 21, 22, 23]"
  by (simp add: upt_rec)

lemmas op_defs = logical_op_def logical_indices_def keccak_special5_impl_compute_outputs_def index_def
  length_rows upt_6 rho_rotations_def

lemma iota_op:
  assumes "r < 25"
  shows "logical_op r (0, it) lanes =
    (let a = lanes ! it XOR ROUND_CONSTANTS_ADJUSTED ! (if it = 0 then r else 0)
     in lanes[it := a, it + 5 := lanes ! (it + 5), it + 10 := lanes ! (it + 10),
        it + 15 := lanes ! (it + 15), it + 20 := lanes ! (it + 20),
        25 + it := a XOR lanes ! (it + 5) XOR lanes ! (it + 10) XOR lanes ! (it + 15) XOR lanes ! (it + 20)])"
  using assms by (auto simp: op_defs Let_def)

lemma mix_ops:
  "fold (logical_op r) [(1, 0), (2, 0)]
    [a0, a1, a2, a3, a4, a5, a6, a7, a8, a9, a10, a11, a12, a13, a14, a15, a16, a17, a18, a19, a20,
      a21, a22, a23, a24, p0, p1, p2, p3, p4, w5] =
    [a0, a1, a2, a3, a4, a5, a6, a7, a8, a9, a10, a11, a12, a13, a14, a15, a16, a17, a18, a19, a20,
      a21, a22, a23, a24, p0 XOR word_rotl 1 p2, p1 XOR word_rotl 1 p3, p2 XOR word_rotl 1 p4,
      p3 XOR word_rotl 1 p0, p4 XOR word_rotl 1 p1, word_rotl 1 p0]"
  by (simp add: op_defs Let_def)

lemma theta_ops:
  "fold (logical_op r) [(3, 0), (3, 1), (3, 2), (3, 3), (3, 4)]
    [a0, a1, a2, a3, a4, a5, a6, a7, a8, a9, a10, a11, a12, a13, a14, a15, a16, a17, a18, a19, a20,
      a21, a22, a23, a24, t1, t2, t3, t4, t0, w5] =
    [a0 XOR t0, a1 XOR t1, a2 XOR t2, a3 XOR t3, a4 XOR t4, a5 XOR t0, a6 XOR t1, a7 XOR t2, a8 XOR t3,
      a9 XOR t4, a10 XOR t0, a11 XOR t1, a12 XOR t2, a13 XOR t3, a14 XOR t4, a15 XOR t0,
      a16 XOR t1, a17 XOR t2, a18 XOR t3, a19 XOR t4, a20 XOR t0, a21 XOR t1, a22 XOR t2,
      a23 XOR t3, a24 XOR t4, t1, t2, t3, t4, t0, w5]"
  by (simp add: op_defs row_one [simplified])

lemma rotl_0: "word_rotl 0 (x :: u64) = x"
  by (rule bit_word_eqI) (simp add: bit_word_rotl_iff)

lemma rho_ops:
  "fold (logical_op r) [(4, 0), (4, 1), (4, 2), (4, 3), (4, 4)]
    [a0, a1, a2, a3, a4, a5, a6, a7, a8, a9, a10, a11, a12, a13, a14, a15, a16, a17, a18, a19, a20,
      a21, a22, a23, a24, w0, w1, w2, w3, w4, w5] =
    [a0, word_rotl 1 (a1), word_rotl 62 (a2), word_rotl 28 (a3), word_rotl 27 (a4), word_rotl 36 (a5),
      word_rotl 44 (a6), word_rotl 6 (a7), word_rotl 55 (a8), word_rotl 20 (a9), word_rotl 3 (a10),
      word_rotl 10 (a11), word_rotl 43 (a12), word_rotl 25 (a13), word_rotl 39 (a14),
      word_rotl 41 (a15), word_rotl 45 (a16), word_rotl 15 (a17), word_rotl 21 (a18),
      word_rotl 8 (a19), word_rotl 18 (a20), word_rotl 2 (a21), word_rotl 61 (a22),
      word_rotl 56 (a23), word_rotl 14 (a24), w0, w1, w2, w3, w4, w5]"
  by (simp add: op_defs rotl_0)

lemma upt_25: "[0..<25] = [0, 1, 2, 3, 4, 5, 6, 7, 8, 9, 10, 11, 12, 13, 14, 15, 16, 17, 18, 19, 20, 21, 22, 23, 24]"
  by (simp add: upt_rec)

lemma upt_31: "[0..<31] = [0, 1, 2, 3, 4, 5, 6, 7, 8, 9, 10, 11, 12, 13, 14, 15, 16, 17, 18, 19, 20, 21, 22, 23,
    24, 25, 26, 27, 28, 29, 30]"
  by (simp add: upt_rec)

lemma advance_lanes:
  "advance lanes = map ((!) lanes)
    [0, 6, 12, 18, 24, 3, 9, 10, 16, 22, 1, 7, 13, 19, 20, 4, 5, 11, 17, 23, 2, 8, 14, 15, 21,
     25, 26, 27, 28, 29, 30]"
  unfolding advance_def perm_def row_one upt_31 by simp

lemma chi_op:
  "logical_op r (5, it) lanes =
    (let row = map (\<lambda>j. PERMUTATIONS_ADJUSTED ! 1 ! (it * 5 + j)) [1, 2, 3, 4];
         a = lanes ! (row ! 0); b = lanes ! (row ! 1); c = lanes ! (row ! 2); d = lanes ! (row ! 3)
     in lanes[row ! 0 := a XOR (NOT b AND c), row ! 1 := b XOR (NOT c AND d), row ! 2 := c, row ! 3 := d,
        25 := NOT a AND b, 26 := a])"
  "logical_op r (6, it) lanes =
    (let row = map (\<lambda>j. PERMUTATIONS_ADJUSTED ! 1 ! (it * 5 + j)) [0, 3, 4];
         a = lanes ! (row ! 0); b = lanes ! (row ! 1); c = lanes ! (row ! 2)
     in lanes[row ! 0 := a XOR lanes ! 25, row ! 1 := b XOR (NOT c AND a), row ! 2 := c XOR (NOT a AND lanes ! 26),
        25 := lanes ! 25, 26 := lanes ! 26, 27 := lanes ! 27])"
  by (simp_all add: op_defs Let_def)

lemma chi_ops:
  "advance (fold (logical_op r) [(5, 0), (6, 0), (5, 1), (6, 1), (5, 2), (6, 2), (5, 3), (6, 3), (5, 4), (6, 4)]
    [a0, a1, a2, a3, a4, a5, a6, a7, a8, a9, a10, a11, a12, a13, a14, a15, a16, a17, a18, a19, a20,
      a21, a22, a23, a24, w0, w1, w2, w3, w4, w5]) =
    [a0 XOR (NOT a6 AND a12), a6 XOR (NOT a12 AND a18), a12 XOR (NOT a18 AND a24),
      a18 XOR (NOT a24 AND a0), a24 XOR (NOT a0 AND a6), a3 XOR (NOT a9 AND a10),
      a9 XOR (NOT a10 AND a16), a10 XOR (NOT a16 AND a22), a16 XOR (NOT a22 AND a3),
      a22 XOR (NOT a3 AND a9), a1 XOR (NOT a7 AND a13), a7 XOR (NOT a13 AND a19),
      a13 XOR (NOT a19 AND a20), a19 XOR (NOT a20 AND a1), a20 XOR (NOT a1 AND a7),
      a4 XOR (NOT a5 AND a11), a5 XOR (NOT a11 AND a17), a11 XOR (NOT a17 AND a23),
      a17 XOR (NOT a23 AND a4), a23 XOR (NOT a4 AND a5), a2 XOR (NOT a8 AND a14),
      a8 XOR (NOT a14 AND a15), a14 XOR (NOT a15 AND a21), a15 XOR (NOT a21 AND a2),
      a21 XOR (NOT a2 AND a8), NOT a8 AND a14, a8, w2, w3, w4, w5]"
  by (simp add: chi_op advance_lanes row_one [simplified])

section \<open>The reference on explicit states\<close>

lemma replicate_5: "replicate 5 x = [x, x, x, x, x]"
  by (simp add: numeral_eq_Suc)

lemma column_parities_lanes:
  "column_parities [a0, a1, a2, a3, a4, a5, a6, a7, a8, a9, a10, a11, a12, a13, a14, a15, a16, a17, a18, a19, a20,
      a21, a22, a23, a24, w0, w1, w2, w3, w4, w5] =
    [a0 XOR a5 XOR a10 XOR a15 XOR a20, a1 XOR a6 XOR a11 XOR a16 XOR a21,
      a2 XOR a7 XOR a12 XOR a17 XOR a22, a3 XOR a8 XOR a13 XOR a18 XOR a23,
      a4 XOR a9 XOR a14 XOR a19 XOR a24]"
  by (simp add: column_parities_def upt_5 replicate_5 xor.assoc)

lemma theta_lanes:
  "fold (\<lambda>x state. theta_column x (theta_value array x) state) [0..<5]
    [a0, a1, a2, a3, a4, a5, a6, a7, a8, a9, a10, a11, a12, a13, a14, a15, a16, a17, a18, a19, a20,
      a21, a22, a23, a24, w0, w1, w2, w3, w4, w5] =
    [a0 XOR theta_value array 0, a1 XOR theta_value array 1, a2 XOR theta_value array 2,
      a3 XOR theta_value array 3, a4 XOR theta_value array 4, a5 XOR theta_value array 0,
      a6 XOR theta_value array 1, a7 XOR theta_value array 2, a8 XOR theta_value array 3,
      a9 XOR theta_value array 4, a10 XOR theta_value array 0, a11 XOR theta_value array 1,
      a12 XOR theta_value array 2, a13 XOR theta_value array 3, a14 XOR theta_value array 4,
      a15 XOR theta_value array 0, a16 XOR theta_value array 1, a17 XOR theta_value array 2,
      a18 XOR theta_value array 3, a19 XOR theta_value array 4, a20 XOR theta_value array 0,
      a21 XOR theta_value array 1, a22 XOR theta_value array 2, a23 XOR theta_value array 3,
      a24 XOR theta_value array 4, w0, w1, w2, w3, w4, w5]"
  by (simp add: theta_column_def upt_5)

lemma rho_pi_lanes:
  "rho_pi [a0, a1, a2, a3, a4, a5, a6, a7, a8, a9, a10, a11, a12, a13, a14, a15, a16, a17, a18, a19, a20,
      a21, a22, a23, a24, w0, w1, w2, w3, w4, w5] =
    [a0, word_rotl 44 (a6), word_rotl 43 (a12), word_rotl 21 (a18), word_rotl 14 (a24),
      word_rotl 28 (a3), word_rotl 20 (a9), word_rotl 3 (a10), word_rotl 45 (a16),
      word_rotl 61 (a22), word_rotl 1 (a1), word_rotl 6 (a7), word_rotl 25 (a13),
      word_rotl 8 (a19), word_rotl 18 (a20), word_rotl 27 (a4), word_rotl 36 (a5),
      word_rotl 10 (a11), word_rotl 15 (a17), word_rotl 56 (a23), word_rotl 62 (a2),
      word_rotl 55 (a8), word_rotl 39 (a14), word_rotl 41 (a15), word_rotl 2 (a21), w0, w1, w2, w3,
      w4, w5]"
  by (simp add: rho_pi_def upt_24 PI_def RHO_def Let_def)

lemma chi_lanes:
  "chi [a0, a1, a2, a3, a4, a5, a6, a7, a8, a9, a10, a11, a12, a13, a14, a15, a16, a17, a18, a19, a20,
      a21, a22, a23, a24, w0, w1, w2, w3, w4, w5] =
    [a0 XOR (NOT a1 AND a2), a1 XOR (NOT a2 AND a3), a2 XOR (NOT a3 AND a4), a3 XOR (NOT a4 AND a0),
      a4 XOR (NOT a0 AND a1), a5 XOR (NOT a6 AND a7), a6 XOR (NOT a7 AND a8),
      a7 XOR (NOT a8 AND a9), a8 XOR (NOT a9 AND a5), a9 XOR (NOT a5 AND a6),
      a10 XOR (NOT a11 AND a12), a11 XOR (NOT a12 AND a13), a12 XOR (NOT a13 AND a14),
      a13 XOR (NOT a14 AND a10), a14 XOR (NOT a10 AND a11), a15 XOR (NOT a16 AND a17),
      a16 XOR (NOT a17 AND a18), a17 XOR (NOT a18 AND a19), a18 XOR (NOT a19 AND a15),
      a19 XOR (NOT a15 AND a16), a20 XOR (NOT a21 AND a22), a21 XOR (NOT a22 AND a23),
      a22 XOR (NOT a23 AND a24), a23 XOR (NOT a24 AND a20), a24 XOR (NOT a20 AND a21), w0, w1, w2,
      w3, w4, w5]"
  by (simp add: chi_def upt_5 Let_def)

section \<open>A round\<close>

lemma no_constant: "ROUND_CONSTANTS_ADJUSTED ! 0 = 0"
  by (simp add: ROUND_CONSTANTS_ADJUSTED_def)

lemma iota_ops:
  assumes "r < 25" "a' = a0 XOR ROUND_CONSTANTS_ADJUSTED ! r"
    "column_parities [a', a1, a2, a3, a4, a5, a6, a7, a8, a9, a10, a11, a12, a13, a14, a15, a16, a17, a18, a19, a20,
      a21, a22, a23, a24, w0, w1, w2, w3, w4, w5] = [p0, p1, p2, p3, p4]"
  shows "fold (logical_op r) [(0, 0), (0, 1), (0, 2), (0, 3), (0, 4)]
    [a0, a1, a2, a3, a4, a5, a6, a7, a8, a9, a10, a11, a12, a13, a14, a15, a16, a17, a18, a19, a20,
      a21, a22, a23, a24, w0, w1, w2, w3, w4, w5] =
    [a', a1, a2, a3, a4, a5, a6, a7, a8, a9, a10, a11, a12, a13, a14, a15, a16, a17, a18, a19, a20,
      a21, a22, a23, a24, p0, p1, p2, p3, p4, w5]"
  using assms(3) by (simp add: iota_op [OF assms(1)] assms(2) [symmetric] Let_def column_parities_lanes no_constant)

lemma round_ops_stages:
  "round_ops = [(0, 0), (0, 1), (0, 2), (0, 3), (0, 4)] @ [(1, 0), (2, 0)] @
     [(3, 0), (3, 1), (3, 2), (3, 3), (3, 4)] @ [(4, 0), (4, 1), (4, 2), (4, 3), (4, 4)] @
     [(5, 0), (6, 0), (5, 1), (6, 1), (5, 2), (6, 2), (5, 3), (6, 3), (5, 4), (6, 4)]"
  by (simp add: round_ops_def)

definition theta :: "u64 list \<Rightarrow> u64 list" where
  "theta state =
     (let array = column_parities state
      in fold (\<lambda>x state. theta_column x (theta_value array x) state) [0..<5] state)"

text \<open>The scratch words the operations of a round leave.\<close>

definition round_scratch :: "u64 list \<Rightarrow> u64 list" where
  "round_scratch state =
     (let p = column_parities state; rows = rho_pi (theta state)
      in [NOT (rows ! 21) AND rows ! 22, rows ! 21, theta_value p 3, theta_value p 4, theta_value p 0,
          word_rotl 1 (p ! 0)])"

lemma explicit_round:
  assumes "r < 25" "a' = a0 XOR ROUND_CONSTANTS_ADJUSTED ! r"
  shows "advance (fold (logical_op r) round_ops
    [a0, a1, a2, a3, a4, a5, a6, a7, a8, a9, a10, a11, a12, a13, a14, a15, a16, a17, a18, a19, a20,
      a21, a22, a23, a24, w0, w1, w2, w3, w4, w5]) =
    (let state = [a', a1, a2, a3, a4, a5, a6, a7, a8, a9, a10, a11, a12, a13, a14, a15, a16, a17, a18, a19, a20,
      a21, a22, a23, a24, w0, w1, w2, w3, w4, w5]
     in take 25 (chi (rho_pi (theta state))) @ round_scratch state)"
proof -
  let ?state = "[a', a1, a2, a3, a4, a5, a6, a7, a8, a9, a10, a11, a12, a13, a14, a15, a16, a17, a18, a19, a20,
      a21, a22, a23, a24, w0, w1, w2, w3, w4, w5]"
  obtain p0 p1 p2 p3 p4 where p: "column_parities ?state = [p0, p1, p2, p3, p4]"
    by (simp only: column_parities_lanes)
  show ?thesis
    by (simp only: round_ops_stages fold_append comp_apply iota_ops [OF assms p] p Let_def theta_def
        round_scratch_def mix_ops theta_ops rho_ops chi_ops theta_lanes rho_pi_lanes chi_lanes)
      (simp add: theta_value_def)
qed

section \<open>The permutation\<close>

lemma length_31: "length xs = 31 \<Longrightarrow> xs = map ((!) xs) [0..<31]"
  and length_25: "length xs = 25 \<Longrightarrow> xs = map ((!) xs) [0..<25]"
  and length_6: "length xs = 6 \<Longrightarrow> xs = map ((!) xs) [0..<6]"
  by (metis map_nth)+

text \<open>The state with the round constant on lane 0, as the reference has it at the start of round \<open>r\<close>.\<close>

definition keyed :: "nat \<Rightarrow> u64 list \<Rightarrow> u64 list" where
  "keyed r lanes = lanes[0 := lanes ! 0 XOR ROUND_CONSTANTS_ADJUSTED ! r]"

lemma logical_round:
  assumes "r < 25" "length lanes = 31"
  shows "advance (fold (logical_op r) round_ops lanes) =
    (let state = keyed r lanes in take 25 (chi (rho_pi (theta state))) @ round_scratch state)"
proof -
  obtain a0 a1 a2 a3 a4 a5 a6 a7 a8 a9 a10 a11 a12 a13 a14 a15 a16 a17 a18 a19 a20 a21 a22 a23 a24
    w0 w1 w2 w3 w4 w5 where
    "lanes = [a0, a1, a2, a3, a4, a5, a6, a7, a8, a9, a10, a11, a12, a13, a14, a15, a16, a17, a18, a19, a20,
      a21, a22, a23, a24, w0, w1, w2, w3, w4, w5]"
    using that [OF length_31 [OF assms(2), unfolded upt_31 list.map]] .
  then show ?thesis
    using explicit_round [OF assms(1) refl] by (simp only: keyed_def Let_def list_update.simps nat.case nth_Cons_0)
qed

text \<open>A round does not look at the scratch words.\<close>

lemma lanes_of_round:
  assumes "length xs = 25" "length ws = 6" "length ws' = 6"
  shows "\<exists>ys. length ys = 25 \<and> chi (rho_pi (theta (xs @ ws))) = ys @ ws \<and>
    chi (rho_pi (theta (xs @ ws'))) = ys @ ws' \<and> round_scratch (xs @ ws') = round_scratch (xs @ ws)"
proof -
  obtain a0 a1 a2 a3 a4 a5 a6 a7 a8 a9 a10 a11 a12 a13 a14 a15 a16 a17 a18 a19 a20 a21 a22 a23 a24 where xs: "xs = [a0, a1, a2, a3, a4, a5, a6, a7, a8, a9, a10, a11, a12, a13, a14, a15, a16, a17, a18, a19, a20,
      a21, a22, a23, a24]"
    using that [OF length_25 [OF assms(1), unfolded upt_25 list.map]] .
  obtain w0 w1 w2 w3 w4 w5 where ws: "ws = [w0, w1, w2, w3, w4, w5]"
    using that [OF length_6 [OF assms(2), unfolded upt_6 list.map]] .
  obtain v0 v1 v2 v3 v4 v5 where ws': "ws' = [v0, v1, v2, v3, v4, v5]"
    using that [OF length_6 [OF assms(3), unfolded upt_6 list.map]] .
  show ?thesis
    unfolding xs ws ws' append.simps theta_def round_scratch_def Let_def column_parities_lanes theta_lanes
      rho_pi_lanes chi_lanes
    by (intro exI [of _ "take 25 (chi (rho_pi (theta (xs @ ws))))"])
      (simp add: xs ws theta_def column_parities_lanes theta_lanes rho_pi_lanes chi_lanes Let_def)
qed

lemma last_theta_lanes:
  "fold (\<lambda>x state.
     let t = theta_value array x; t2 = word_rotl 1 (array ! ((x + 1) mod 5));
         state = (if x = 0 then state[29 := t] else state);
         state = (if x = 3 then state[27 := t] else state);
         state = (if x = 4 then state[28 := t, 30 := t2] else state)
     in theta_column x t state) [0..<5]
    [a0, a1, a2, a3, a4, a5, a6, a7, a8, a9, a10, a11, a12, a13, a14, a15, a16, a17, a18, a19, a20,
      a21, a22, a23, a24, w0, w1, w2, w3, w4, w5] =
    [a0 XOR theta_value array 0, a1 XOR theta_value array 1, a2 XOR theta_value array 2,
      a3 XOR theta_value array 3, a4 XOR theta_value array 4, a5 XOR theta_value array 0,
      a6 XOR theta_value array 1, a7 XOR theta_value array 2, a8 XOR theta_value array 3,
      a9 XOR theta_value array 4, a10 XOR theta_value array 0, a11 XOR theta_value array 1,
      a12 XOR theta_value array 2, a13 XOR theta_value array 3, a14 XOR theta_value array 4,
      a15 XOR theta_value array 0, a16 XOR theta_value array 1, a17 XOR theta_value array 2,
      a18 XOR theta_value array 3, a19 XOR theta_value array 4, a20 XOR theta_value array 0,
      a21 XOR theta_value array 1, a22 XOR theta_value array 2, a23 XOR theta_value array 3,
      a24 XOR theta_value array 4, w0, w1, theta_value array 3, theta_value array 4,
      theta_value array 0, word_rotl 1 (array ! 0)]"
  by (simp add: theta_column_def upt_5 Let_def)

lemma last_round_explicit:
  "keccak_last_round [a0, a1, a2, a3, a4, a5, a6, a7, a8, a9, a10, a11, a12, a13, a14, a15, a16, a17, a18, a19, a20,
      a21, a22, a23, a24, w0, w1, w2, w3, w4, w5] =
    (let state = [a0, a1, a2, a3, a4, a5, a6, a7, a8, a9, a10, a11, a12, a13, a14, a15, a16, a17, a18, a19, a20,
      a21, a22, a23, a24, w0, w1, w2, w3, w4, w5]; rows = take 25 (chi (rho_pi (theta state))) @ round_scratch state;
         rows = rows[0 := rows ! 0 XOR RC ! 23]
     in rows[25 := rows ! 0 XOR rows ! 5 XOR rows ! 10 XOR rows ! 15 XOR rows ! 20])"
proof -
  let ?state = "[a0, a1, a2, a3, a4, a5, a6, a7, a8, a9, a10, a11, a12, a13, a14, a15, a16, a17, a18, a19, a20,
      a21, a22, a23, a24, w0, w1, w2, w3, w4, w5]"
  define array where "array = column_parities ?state"
  show ?thesis
    unfolding keccak_last_round_def theta_def round_scratch_def Let_def
    unfolding array_def [symmetric] last_theta_lanes [unfolded Let_def] theta_lanes rho_pi_lanes
    by (simp add: chi_lanes)
qed

end
