(* ===== verification/Keccak_Permutation.thy ===== *)
theory Keccak_Permutation
  imports Keccak_Rounds
begin

text \<open>
  The 649 operations of the Keccak delegation, composed: they compute \<open>keccak_f1600_impl_ext\<close>, lanes and
  scratch words, and leave the final control value.
\<close>

lemma rc_adjusted:
  assumes "r < 24"
  shows "ROUND_CONSTANTS_ADJUSTED ! Suc r = RC ! r"
proof -
  have "tl ROUND_CONSTANTS_ADJUSTED = RC" by (simp add: ROUND_CONSTANTS_ADJUSTED_def RC_def)
  then show ?thesis using assms length_rows(2) by (metis Suc_less_eq length_tl nth_tl diff_Suc_1 numeral_eq_Suc
      pred_numeral_simps(3) semiring_norm(26) BitM.simps)
qed

lemma view_ends: "length state = 31 \<Longrightarrow> view 0 state = state" "length state = 31 \<Longrightarrow> view 24 state = state"
proof -
  have "PERMUTATIONS_ADJUSTED ! 0 = [0..<25]" "PERMUTATIONS_ADJUSTED ! 24 = [0..<25]"
    unfolding upt_25 by (simp_all add: PERMUTATIONS_ADJUSTED_def)
  then have "perm 0 i = i" "perm 24 i = i" for i
    by (simp_all add: perm_def)
  then show "length state = 31 \<Longrightarrow> view 0 state = state" "length state = 31 \<Longrightarrow> view 24 state = state"
    by (auto simp: view_def intro: nth_equalityI)
qed

lemma length_keyed [simp]: "length (keyed r lanes) = length lanes"
  by (simp add: keyed_def)

lemma length_round_scratch [simp]: "length (round_scratch state) = 6"
  by (simp add: round_scratch_def Let_def)

lemma keccak_round_eq:
  "keccak_round r state =
     (let rows = chi (rho_pi (theta state)) in rows[0 := rows ! 0 XOR RC ! r])"
  by (simp add: keccak_round_def theta_def Let_def)

lemma round_step:
  assumes "r < 24" "length lanes = 31" "length state = 31" "take 25 (keyed r lanes) = take 25 state"
  shows "length (keccak_round r state) = 31 \<and>
    take 25 (keyed (Suc r) (advance (fold (logical_op r) round_ops lanes))) = take 25 (keccak_round r state) \<and>
    advance (fold (logical_op r) round_ops lanes) =
      take 25 (chi (rho_pi (theta state))) @ round_scratch state"
proof -
  let ?k = "keyed r lanes"
  have "length (take 25 state) = 25" "length (drop 25 ?k) = 6" "length (drop 25 state) = 6"
    using assms(2,3) by simp_all
  from lanes_of_round [OF this] obtain ys where ys: "length ys = 25"
    "chi (rho_pi (theta (take 25 ?k @ drop 25 ?k))) = ys @ drop 25 ?k"
    "chi (rho_pi (theta (take 25 state @ drop 25 state))) = ys @ drop 25 state"
    "round_scratch (take 25 state @ drop 25 state) = round_scratch (take 25 ?k @ drop 25 ?k)"
    unfolding assms(4) by auto
  note y = ys(2-4) [unfolded append_take_drop_id]
  have adv: "advance (fold (logical_op r) round_ops lanes) = ys @ round_scratch state"
    using logical_round [of r lanes] assms(1,2) y ys(1) by (simp add: Let_def)
  have "keccak_round r state = ys[0 := ys ! 0 XOR RC ! r] @ drop 25 state"
    using y ys(1) by (simp add: keccak_round_eq Let_def nth_append list_update_append)
  then show ?thesis
    using adv y ys(1) assms(1,3) rc_adjusted [OF assms(1)]
    by (simp add: keyed_def nth_append list_update_append)
qed

lemma rounds_logical:
  assumes "length state = 31" "r \<le> 24"
  shows "\<exists>s. keccak_small_steps (27 * r) (control_of 0 0 0, state) = Inr (control_of 0 0 r, s) \<and>
    length s = 31 \<and> length (fold keccak_round [0..<r] state) = 31 \<and>
    take 25 (keyed r (view r s)) = take 25 (fold keccak_round [0..<r] state)"
  using assms(2)
proof (induction r)
  case 0
  then show ?case using assms(1) view_ends(1) no_constant by (simp add: keyed_def)
next
  case (Suc r)
  then obtain s where s: "keccak_small_steps (27 * r) (control_of 0 0 0, state) = Inr (control_of 0 0 r, s)"
    "length s = 31" "length (fold keccak_round [0..<r] state) = 31"
    "take 25 (keyed r (view r s)) = take 25 (fold keccak_round [0..<r] state)" by auto
  have r: "r < 24" using Suc.prems by simp
  obtain t where t: "keccak_small_steps 27 (control_of 0 0 r, s) = Inr (control_of 0 0 (Suc r), t)"
    "length t = 31" "view (Suc r) t = advance (fold (logical_op r) round_ops (view r s))"
    using round_logical [OF r s(2)] by auto
  have "keccak_small_steps (27 * r + 27) (control_of 0 0 0, state) = Inr (control_of 0 0 (Suc r), t)"
    unfolding keccak_small_steps_add s(1) by (simp add: t(1))
  moreover have "length (view r s) = 31" by (simp add: view_def)
  ultimately show ?case
    using conjunct1 [OF round_step [OF r _ s(3,4)]] conjunct1 [OF conjunct2 [OF round_step [OF r _ s(3,4)]]] t(2)
    by (simp add: add.commute t(3) [symmetric])
qed

lemma last_iota:
  assumes "length rows = 31"
  shows "logical_op 24 (0, 0) rows =
    (let rows = rows[0 := rows ! 0 XOR RC ! 23]
     in rows[25 := rows ! 0 XOR rows ! 5 XOR rows ! 10 XOR rows ! 15 XOR rows ! 20])"
  using assms rc_adjusted [of 23]
  by (simp add: iota_op Let_def) (auto intro!: nth_equalityI simp: nth_list_update)

lemma last_round_logical:
  assumes "length state = 31"
  shows "keccak_last_round state =
    logical_op 24 (0, 0) (take 25 (chi (rho_pi (theta state))) @ round_scratch state)"
proof -
  have "length (take 25 state) = 25" "length (drop 25 state) = 6" using assms by simp_all
  from lanes_of_round [OF this this(2)] have "25 \<le> length (chi (rho_pi (theta state)))" by auto
  then have "length (take 25 (chi (rho_pi (theta state))) @ round_scratch state) = 31" by simp
  note iota = last_iota [OF this]
  obtain a0 a1 a2 a3 a4 a5 a6 a7 a8 a9 a10 a11 a12 a13 a14 a15 a16 a17 a18 a19 a20 a21 a22 a23 a24
    w0 w1 w2 w3 w4 w5 where
    state: "state = [a0, a1, a2, a3, a4, a5, a6, a7, a8, a9, a10, a11, a12, a13, a14, a15, a16, a17, a18, a19,
     a20, a21, a22, a23, a24, w0, w1, w2, w3, w4, w5]"
    using that [OF length_31 [OF assms, unfolded upt_31 list.map]] .
  show ?thesis unfolding iota unfolding state last_round_explicit Let_def ..
qed

lemma small_steps_permute:
  assumes "length state = 31"
  shows "keccak_small_steps NUM_DELEGATION_CALLS_FOR_KECCAK_F1600 (INITIAL_KECCAK_F1600_CONTROL_VALUE, state) =
    Inr (FINAL_KECCAK_F1600_CONTROL_VALUE, keccak_f1600_impl_ext state)"
proof -
  let ?x = "fold keccak_round [0..<23] state"
  obtain s where s: "keccak_small_steps (27 * 23) (control_of 0 0 0, state) = Inr (control_of 0 0 23, s)"
    "length s = 31" "length ?x = 31" "take 25 (keyed 23 (view 23 s)) = take 25 ?x"
    using rounds_logical [OF assms, of 23] by auto
  have len: "length (view 23 s) = 31" by (simp add: view_def)
  obtain t where t: "keccak_small_steps 27 (control_of 0 0 23, s) = Inr (control_of 0 0 24, t)" "length t = 31"
    "view 24 t = take 25 (chi (rho_pi (theta ?x))) @ round_scratch ?x"
    using round_logical [OF _ s(2), of 23] round_step [OF _ len s(3,4)] by auto
  have bump: "keccak_special5_impl_bump_control 0 0 24 = Inr (control_of 0 1 24)"
    by (simp add: keccak_special5_impl_bump_control_def control_of_def)
  obtain u where u: "keccak_small_step (control_of 0 0 24, t) = Inr (control_of 0 1 24, u)" "length u = 31"
    "view 24 u = logical_op 24 (0, 0) (view 24 t)"
    using small_step_logical [of 0 0 24 t, OF _ _ t(2) bump] by (auto simp: round_ops_def)
  have last: "keccak_last_round ?x = logical_op 24 (0, 0) (view 24 t)"
    unfolding t(3) using last_round_logical [OF s(3)] .
  have "27 * 23 + (27 + 1) = NUM_DELEGATION_CALLS_FOR_KECCAK_F1600"
    by (simp add: NUM_DELEGATION_CALLS_FOR_KECCAK_F1600_def)
  moreover have "keccak_small_steps (27 * 23 + (27 + 1)) (control_of 0 0 0, state) = Inr (control_of 0 1 24, u)"
    unfolding keccak_small_steps_add s(1) by (simp add: keccak_small_steps_add t(1) u(1))
  moreover have "u = keccak_f1600_impl_ext state"
    using u last view_ends(2) by (simp add: keccak_f1600_impl_ext_def)
  moreover have "control_of 0 0 0 = INITIAL_KECCAK_F1600_CONTROL_VALUE"
    "control_of 0 1 24 = FINAL_KECCAK_F1600_CONTROL_VALUE"
    by (simp_all add: control_of_def INITIAL_KECCAK_F1600_CONTROL_VALUE_def FINAL_KECCAK_F1600_CONTROL_VALUE_def)
  ultimately show ?thesis by simp
qed

end
