(* ===== verification/VM_Keccak_Call.thy ===== *)
theory VM_Keccak_Call
  imports VM_Delegations Keccak_Permutation
begin

text \<open>
  The effect of a Keccak delegation on the machine: it replaces the 31 limbs of the state in memory by
  their permutation, as the 649 small operations do, and takes 649 cycles.
\<close>

section \<open>The times of the last accesses\<close>

text \<open>The loop of the constant follows the small operations: the same control values, checks and indices.\<close>

lemma small_step_front:
  "keccak_small_steps (Suc n) x = bindE (keccak_small_step x) (keccak_small_steps n)"
  using keccak_small_steps_add [of 1 n x] by simp

lemma offset_aligned: "k < 649 \<Longrightarrow> unat (word_of_nat k * TIMESTAMP_STEP) mod 4 = 0"
  by (simp add: TIMESTAMP_STEP_def unat_word_ariths unat_of_nat)

lemma fold_update_Suc_set:
  "x \<in> set (fold (\<lambda>j xs. xs[idx j := v]) js xs) \<Longrightarrow> x \<in> insert v (set xs)"
proof (induction js arbitrary: xs)
  case (Cons j js)
  then have "x \<in> insert v (set (xs[idx j := v]))" by simp
  then show ?case using set_update_subset_insert by fastforce
qed simp

lemma length_fold_update: "length (fold (\<lambda>j xs. xs[idx j := f j]) js xs) = length xs"
  by (induction js arbitrary: xs) simp_all

lemma loop_follows:
  assumes "keccak_small_steps (length ks) (control, state) = Inr (control', state')"
    "\<forall>k \<in> set ks. k < 649" "\<forall>x \<in> set result. unat x mod 4 = 0"
  shows "\<exists>offs. keccak_offsets_loop ks control result = Inr (control', offs) \<and>
    length offs = length result \<and> (\<forall>x \<in> set offs. unat x mod 4 = 0)"
  using assms
proof (induction ks arbitrary: control state result)
  case (Cons k ks)
  obtain c s where s: "keccak_small_step (control, state) = Inr (c, s)"
    "keccak_small_steps (length ks) (c, s) = Inr (control', state')"
    using Cons.prems(1) [unfolded list.size add_0_right add_Suc_right small_step_front] by auto
  let ?off = "word_of_nat k * TIMESTAMP_STEP"
  obtain p it r idx where d: "keccak_special5_impl_decode_control control = Inr (p, it, r)"
    "keccak_special5_impl_bump_control p it r = Inr c"
    "keccak_special5_impl_extract_indices p it r = Inr idx"
    using s(1) by (auto simp: keccak_small_step_def)
  let ?result = "fold (\<lambda>j res. res[idx ! j := ?off]) [0..<6] result"
  have "unat ?off mod 4 = 0" using offset_aligned Cons.prems(2) by simp
  then have "\<forall>x \<in> set ?result. unat x mod 4 = 0"
    using Cons.prems(3) fold_update_Suc_set by fastforce
  from Cons.IH [OF s(2) _ this] Cons.prems(2) show ?case
    using d by (simp add: length_fold_update Let_def)
qed simp

lemma offsets_exist:
  "\<exists>offs. keccak_final_timestamp_offsets = Inr offs \<and> length offs = 31 \<and> (\<forall>x \<in> set offs. unat x mod 4 = 0)"
proof -
  have n: "length [0..<NUM_DELEGATION_CALLS_FOR_KECCAK_F1600] = NUM_DELEGATION_CALLS_FOR_KECCAK_F1600"
    unfolding length_upt by (rule diff_zero)
  have k: "\<forall>k \<in> set [0..<NUM_DELEGATION_CALLS_FOR_KECCAK_F1600]. k < 649"
    unfolding set_upt Ball_def atLeastLessThan_iff by (simp add: NUM_DELEGATION_CALLS_FOR_KECCAK_F1600_def)
  have z: "\<forall>x \<in> set (replicate 31 0 :: u64 list). unat x mod 4 = 0" by simp
  have "length (replicate 31 0 :: u64 list) = 31" by simp
  from small_steps_permute [OF this]
  have "keccak_small_steps (length [0..<NUM_DELEGATION_CALLS_FOR_KECCAK_F1600])
      (INITIAL_KECCAK_F1600_CONTROL_VALUE, replicate 31 0) =
    Inr (FINAL_KECCAK_F1600_CONTROL_VALUE, keccak_f1600_impl_ext (replicate 31 0))"
    unfolding n .
  from loop_follows [OF this k z]
  obtain offs where offs: "keccak_offsets_loop [0..<NUM_DELEGATION_CALLS_FOR_KECCAK_F1600]
      INITIAL_KECCAK_F1600_CONTROL_VALUE (replicate 31 0) = Inr (FINAL_KECCAK_F1600_CONTROL_VALUE, offs)"
    "length offs = 31" "\<forall>x \<in> set offs. unat x mod 4 = 0" by auto
  then have "\<forall>x \<in> set offs. x mod TIMESTAMP_STEP = 0"
    by (simp add: TIMESTAMP_STEP_def word_unat_eq_iff unat_mod)
  with offs show ?thesis by (simp add: keccak_final_timestamp_offsets_def)
qed

lemma steps_length:
  "keccak_small_steps n (c, state) = Inr (c', state') \<Longrightarrow> length state' = length state"
proof (induction n arbitrary: c' state')
  case (Suc n)
  then show ?case by (fastforce simp: keccak_small_step_def length_fold_update)
qed simp

section \<open>Writing the state back\<close>

lemma or_2_of_3': "unat (t :: u64) mod 4 = 3 \<Longrightarrow> t OR 2 = t"
  using or_2_of_3 [of t] by (simp add: word_unat_eq_iff unat_mod)

context recorded_memory
begin

lemma write_limb:
  assumes "block_in (words r) a 2" "\<forall>i \<in> set (block a 2). writable i"
    "\<forall>i \<in> set (block a 2). last r i < unat base" "ready (2 + m) s"
    "unat base mod 4 = 3" "unat off mod 4 = 0" "unat base + unat off < 2 ^ 64"
  shows "\<exists>r1 s1. keccak_write_back S R base ((v, off) # vs) a r s =
      bindE (add_u32 (a + 4) 4) (\<lambda>a. keccak_write_back S R base vs a r1 s1) \<and>
    words r1 = words r \<and> ready m s1 \<and>
    (\<forall>i. word r1 i = (if i \<in> set (block a 2) then [ucast v, ucast (drop_bit 32 v)] ! (i - unat a div 4)
       else word r i)) \<and> (\<forall>i. i \<notin> set (block a 2) \<longrightarrow> last r1 i = last r i)"
proof -
  let ?t = "base + off"
  have t: "add_u64 base off = Inr ?t" "unat ?t = unat base + unat off"
    using assms(7) by (simp_all add: add_u64_def unat_word_ariths)
  have m: "unat ?t mod 4 = 3" using assms(5,6) t(2) by (metis mod_add_eq add_0_right mod_mod_trivial)
  then have g: "?t mod TIMESTAMP_STEP = 3" by (simp add: TIMESTAMP_STEP_def word_unat_eq_iff unat_mod)
  have two: "length [x, y] = 2" for x y :: u32 by simp
  have "last r i < unat (?t OR 2)" if "i \<in> set (block a 2)" for i
    using assms(3) t(2) or_2_of_3' [OF m] that by fastforce
  then obtain r1 s1 where w: "write_back_words R S [ucast v, ucast (drop_bit 32 v)] a ?t r s = Inr (r1, s1)"
    "words r1 = words r" "ready m s1"
    "\<forall>i. word r1 i = (if i \<in> set (block a 2) then [ucast v, ucast (drop_bit 32 v)] ! (i - unat a div 4)
       else word r i)"
    "\<forall>i. last r1 i = (if i \<in> set (block a 2) then unat (?t OR 2) else last r i)"
    using write_block [where r = r and a = a and vs = "[ucast v, ucast (drop_bit 32 v)]" and t = ?t
        and m = m and s = s, unfolded two] assms(1,2,4) by blast
  have a: "add_u32 a 4 = Inr (a + 4)" using block_inD(4) [of "words r" a "Suc 0"] assms(1) by (simp add: numeral_2_eq_2)
  have "keccak_write_back S R base ((v, off) # vs) a r s =
      bindE (add_u32 (a + 4) 4) (\<lambda>a. keccak_write_back S R base vs a r1 s1)"
    using w(1) t(1) g a by (auto simp: bindE_def split: sum.splits prod.splits)
  then show ?thesis using w by (intro exI [of _ r1] exI [of _ s1]) simp
qed

lemma keccak_write_block:
  assumes "block_in (words r) a (2 * length vs)" "\<forall>i \<in> set (block a (2 * length vs)). writable i"
    "\<forall>i \<in> set (block a (2 * length vs)). last r i < unat base" "ready (2 * length vs + m) s"
    "unat base mod 4 = 3" "\<forall>(v, off) \<in> set vs. unat off mod 4 = 0 \<and> unat base + unat off < 2 ^ 64"
  shows "\<exists>r' s'. keccak_write_back S R base vs a r s = Inr (r', s') \<and> words r' = words r \<and> ready m s' \<and>
    (\<forall>i. word r' i = (if i \<in> set (block a (2 * length vs))
       then words_of_limbs (map fst vs) ! (i - unat a div 4) else word r i))"
  using assms(1-4,6)
proof (induction vs arbitrary: a r s)
  case (Cons e vs)
  obtain v off where e: "e = (v, off)" by force
  let ?n = "2 * length vs"
  have n: "2 * length (e # vs) = Suc (Suc ?n)" by simp
  note b1 = block_inD [OF Cons.prems(1) [unfolded n]]
  have a8: "a + 4 + 4 = a + 8" by simp
  note b2 = block_inD [OF b1(5), unfolded a8]
  have in2: "block_in (words r) a 2"
    using Cons.prems(1) by (simp add: block_in_def)
  have blk: "i \<in> set (block a (Suc (Suc ?n))) \<longleftrightarrow> i \<in> set (block a 2) \<or> i \<in> set (block (a + 8) ?n)"
    "i \<in> set (block a 2) \<Longrightarrow> i \<notin> set (block (a + 8) ?n)" for i
    using b1(6) b2(6) by (auto simp: set_block)
  have "ready (2 + (?n + m)) s" using Cons.prems(4) by (simp add: add.assoc)
  moreover have "\<forall>i \<in> set (block a 2). writable i" "\<forall>i \<in> set (block a 2). last r i < unat base"
    using Cons.prems(2,3) blk unfolding n by blast+
  ultimately obtain r1 s1 where 1: "keccak_write_back S R base (e # vs) a r s =
      bindE (add_u32 (a + 4) 4) (\<lambda>a. keccak_write_back S R base vs a r1 s1)"
    "words r1 = words r" "ready (?n + m) s1"
    "\<forall>i. word r1 i = (if i \<in> set (block a 2) then [ucast v, ucast (drop_bit 32 v)] ! (i - unat a div 4)
       else word r i)" "\<forall>i. i \<notin> set (block a 2) \<longrightarrow> last r1 i = last r i"
    using write_limb [OF in2, of base "?n + m" s off v vs] assms(5) Cons.prems(5) by (auto simp: e)
  have "last r1 i < unat base" if "i \<in> set (block (a + 8) ?n)" for i
    using that blk [of i] 1(5) Cons.prems(3) unfolding n by metis
  then have "block_in (words r1) (a + 8) ?n" "\<forall>i \<in> set (block (a + 8) ?n). writable i"
    "\<forall>i \<in> set (block (a + 8) ?n). last r1 i < unat base"
    "\<forall>(v, off) \<in> set vs. unat off mod 4 = 0 \<and> unat base + unat off < 2 ^ 64"
    using b2(5) Cons.prems(2,3,5) blk 1(2,5) unfolding n by auto
  from Cons.IH [OF this(1-3) 1(3) this(4)] obtain r' s' where 2:
    "keccak_write_back S R base vs (a + 8) r1 s1 = Inr (r', s')" "words r' = words r1" "ready m s'"
    "\<forall>i. word r' i = (if i \<in> set (block (a + 8) ?n)
       then words_of_limbs (map fst vs) ! (i - unat (a + 8) div 4) else word r1 i)" by blast
  have "word r' i = (if i \<in> set (block a (2 * length (e # vs)))
      then words_of_limbs (map fst (e # vs)) ! (i - unat a div 4) else word r i)" for i
  proof (cases "i \<in> set (block (a + 8) ?n)")
    case True
    then have "i - unat a div 4 = Suc (Suc (i - unat (a + 8) div 4))"
      using b1(6) b2(6) unfolding set_block by linarith
    then show ?thesis using True 2(4) blk(1) [of i] by (simp add: e n)
  next
    case False
    have "i - unat a div 4 = 0 \<or> i - unat a div 4 = 1" if "i \<in> set (block a 2)"
      using that by (auto simp: set_block)
    then show ?thesis using False 2(4) 1(4) blk(1) [of i] unfolding n by (auto simp: e)
  qed
  moreover have "keccak_write_back S R base (e # vs) a r s = Inr (r', s')"
    using 1(1) 2(1) b2(4) by simp
  ultimately show ?case using 1(2) 2(2,3) by metis
qed simp

end

section \<open>The call\<close>

context machine
begin

lemma keccak_call_effect:
  assumes start: "cycle_start (62 + m) K st r s" "K + 1298 < 2 ^ 64" "unat (st_ts st) + 2596 < 2 ^ 64"
    and x10: "reg_vals st ! 10 = INITIAL_KECCAK_F1600_CONTROL_VALUE"
    and x11: "reg_vals st ! 11 = x11" "ROM_BYTE_SIZE \<le> x11" "x11 mod 256 = 0" "block_in (words r) x11 62"
      "\<forall>i \<in> set (block x11 62). writable i"
  shows "\<exists>st' r' s'. keccak_special5_call C S R st r s = Inr (st', r', s') \<and>
    limbs_of_words (map (word r') (block x11 62)) =
      keccak_f1600_impl_ext (limbs_of_words (map (word r) (block x11 62))) \<and>
    (\<forall>i. i \<notin> set (block x11 62) \<longrightarrow> word r' i = word r i) \<and>
    reg_vals st' = (reg_vals st)[10 := FINAL_KECCAK_F1600_CONTROL_VALUE] \<and>
    st_pc st' = st_pc st + 2596 \<and> unat (st_ts st') = unat (st_ts st) + 2592 \<and> words r' = words r \<and>
    cycle_done m (K + 1298) st' r' s'"
proof -
  let ?n = "NUM_DELEGATION_CALLS_FOR_KECCAK_F1600"
  have n: "?n = 649" by (rule NUM_DELEGATION_CALLS_FOR_KECCAK_F1600_def)
  have cyc: "cycle_at 0 st" "fresh (unat (st_ts st)) r" "ready (62 + m) s" "within K (st_counters st)"
    using start(1) by (simp_all add: cycle_start_def)
  have len: "length (st_regs st) = 32" and ts: "unat (st_ts st) mod 4 = 0"
    using cycle_atD(1,2) [OF cyc(1)] by auto
  have regs: "reg_val (st_regs st ! 10) = INITIAL_KECCAK_F1600_CONTROL_VALUE" "reg_val (st_regs st ! 11) = x11"
    using x10 x11(1) len by (simp_all add: reg_vals_def)
  define lt where "lt = st_ts st + word_of_nat (?n - 1) * TIMESTAMP_STEP"
  have lt: "add_u64 (st_ts st) (word_of_nat (?n - 1) * TIMESTAMP_STEP) = Inr lt"
    "unat lt = unat (st_ts st) + 2592"
    using time_ahead [OF ts, of ?n] start(3) by (simp_all add: lt_def n)
  have lt3: "add_u64 lt 3 = Inr (lt + 3)"
    using lt(2) start(3) by (simp add: add_u64_def)
  let ?state = "limbs_of_words (map (word r) (block x11 62))"
  let ?out = "keccak_f1600_impl_ext ?state"
  have pk: "peek_limbs R 31 x11 r = Inr ?state"
    using peek_block [OF x11(4)] by (simp add: peek_limbs_words)
  have "length ?state = 31" by (simp add: length_limbs_of_words)
  note perm = small_steps_permute [OF this]
  have out: "length ?out = 31"
    using steps_length [OF perm] \<open>length ?state = 31\<close> by simp
  obtain offs where offs: "keccak_final_timestamp_offsets = Inr offs" "length offs = 31"
    "\<forall>x \<in> set offs. unat x mod 4 = 0"
    using offsets_exist by blast
  let ?base = "st_ts st OR 3"
  have base: "unat ?base = unat (st_ts st) + 3" "unat ?base mod 4 = 3"
    using unat_or_low(3) [OF ts] ts by (simp_all add: mod_add_left_eq [symmetric])
  have vs: "\<forall>(v, off) \<in> set (zip ?out offs). unat off mod 4 = 0 \<and> unat ?base + unat off < 2 ^ 64"
    using offs(3) bound_final_offsets [OF offs(1)] base(1) start(3) by (fastforce dest: set_zip_rightD)
  have two: "2 * length (zip ?out offs) = 62" and fst: "map fst (zip ?out offs) = ?out"
    using out offs(2) by simp_all
  have "i < words r" if "i \<in> set (block x11 62)" for i
    using that x11(4) by (simp add: set_block block_in_def)
  then have early: "\<forall>i \<in> set (block x11 62). last r i < unat ?base"
    using cyc(2) base(1) unfolding fresh_def by (metis trans_less_add1)
  obtain r1 s1 where w: "keccak_write_back S R ?base (zip ?out offs) x11 r s = Inr (r1, s1)"
    "words r1 = words r" "ready m s1"
    "\<forall>i. word r1 i = (if i \<in> set (block x11 62) then words_of_limbs ?out ! (i - unat x11 div 4) else word r i)"
    using keccak_write_block [where a = x11 and vs = "zip ?out offs" and base = ?base and m = m and s = s
        and r = r, unfolded two fst, OF x11(4,5) early cyc(3) base(2) vs] by blast
  have un: "unat (word_of_nat ?n :: u64) = 649" by (simp add: n)
  obtain c1 where c1: "c_bump_keccak C (word_of_nat ?n) (st_counters st) = Inr c1" "within (K + 649) c1"
    using bump_keccak [OF cyc(4), of "word_of_nat ?n"] start(2) un by auto
  obtain c2 where c2: "c_log_multiple C SHIFT_BINARY_CSR (word_of_nat ?n) c1 = Inr c2" "within (K + 1298) c2"
    using log_multiple [OF _ c1(2), of SHIFT_BINARY_CSR "word_of_nat ?n"] start(2) un
    by (auto simp: add.commute)
  define st2 where "st2 = st\<lparr>st_regs := (st_regs st)
      [10 := \<lparr>reg_ts = lt + 3, reg_val = FINAL_KECCAK_F1600_CONTROL_VALUE\<rparr>,
       11 := (st_regs st ! 11)\<lparr>reg_ts := lt + 3\<rparr>, 0 := (st_regs st ! 0)\<lparr>reg_ts := lt OR 2\<rparr>],
      st_ts := lt, st_pc := st_pc st + 4 * word_of_nat ?n, st_counters := c2\<rparr>"
  have tm: "st_ts st mod 4 = 0" using ts by (simp add: word_unat_eq_iff unat_mod)
  have call: "keccak_special5_call C S R st r s = Inr (st2, r1, s1)"
    unfolding keccak_special5_call_def
    using len regs x11(2,3) tm lt(1) lt3 pk offs(1) w(1) c1(1) c2(1)
    by (simp add: index_ok Let_def st2_def INITIAL_KECCAK_F1600_CONTROL_VALUE_def) blast
  have "cycle_at 4 st" "fresh (unat (st_ts st) + 4) r"
    using cyc(1,2) by (auto intro: cycle_at_mono fresh_mono)
  then have "cycle_done m (K + 1298) st2 r1 s1"
    using keep_keccak [OF _ _ call] w(3) c2(2) by (simp add: cycle_done_def st2_def)
  moreover have "map (word r1) (block x11 62) = words_of_limbs ?out"
    using w(4) out by (intro map_block_update) auto
  moreover have "reg_vals st2 = (reg_vals st)[10 := FINAL_KECCAK_F1600_CONTROL_VALUE]"
    by (rule nth_equalityI) (auto simp: st2_def reg_vals_def len nth_list_update)
  ultimately show ?thesis
    using call w(2,4) lt(2)
    by (intro exI [of _ st2] exI [of _ r1] exI [of _ s1]) (simp add: limbs_of_words_of_limbs st2_def n)
qed

end

end
