(* ===== verification/VM_Cycles.thy ===== *)
theory VM_Cycles
  imports VM_Run
begin

text \<open>
  Time and counters: every instruction is counted once in one circuit family, and a delegation as many
  times as it takes cycles, so for counters that satisfy \<open>cycle_counters\<close> the counted cycles are the
  elapsed time divided by 4.
\<close>

definition counts :: "('c \<Rightarrow> nat) \<Rightarrow> 'c State \<Rightarrow> nat \<Rightarrow> 'c State \<Rightarrow> bool" where
  "counts cycles st n st' \<longleftrightarrow>
     4 * cycles (st_counters st') + unat (st_ts st) = 4 * (cycles (st_counters st) + n) + unat (st_ts st')"

lemma counters_helpers:
  "touch_x0 off st = Inr st' \<Longrightarrow> st_counters st' = st_counters st"
  "read_register off i st = Inr (v, st') \<Longrightarrow> st_counters st' = st_counters st"
  "write_register off i w st = Inr (v, st') \<Longrightarrow> st_counters st' = st_counters st"
  "second_operand b st instr = Inr (v, st') \<Longrightarrow> st_counters st' = st_counters st"
  "jump_to a st = Inr st' \<Longrightarrow> st_counters st' = st_counters st"
  by (auto simp: touch_x0_def read_register_def write_register_def second_operand_def jump_to_def
      Let_def split: if_splits)

lemma time_unchanged:
  "touch_x0 off st = Inr st' \<Longrightarrow> st_ts st' = st_ts st \<and> st_counters st' = st_counters st"
  "read_register off i st = Inr (v, st') \<Longrightarrow> st_ts st' = st_ts st \<and> st_counters st' = st_counters st"
  "write_register off i w st = Inr (v, st') \<Longrightarrow> st_ts st' = st_ts st \<and> st_counters st' = st_counters st"
  "second_operand b st instr = Inr (v, st') \<Longrightarrow> st_ts st' = st_ts st \<and> st_counters st' = st_counters st"
  "jump_to a st = Inr st' \<Longrightarrow> st_ts st' = st_ts st \<and> st_counters st' = st_counters st"
  by (auto simp: ts_helpers counters_helpers)

context cycle_counters
begin

lemma count_family:
  "increment_family_counter C fam st = Inr st' \<Longrightarrow>
     cycles (st_counters st') = cycles (st_counters st) + 1 \<and> st_ts st' = st_ts st"
  by (auto simp: increment_family_counter_def dest: log_family_counts)

lemma count_register_ops:
  "add_op C b st i = Inr st' \<Longrightarrow> counts cycles st (Suc 0) st'" "sub_op C st i = Inr st' \<Longrightarrow> counts cycles st (Suc 0) st'"
  "and_op C b st i = Inr st' \<Longrightarrow> counts cycles st (Suc 0) st'" "or_op C b st i = Inr st' \<Longrightarrow> counts cycles st (Suc 0) st'"
  "xor_op C b st i = Inr st' \<Longrightarrow> counts cycles st (Suc 0) st'" "sll_op C b st i = Inr st' \<Longrightarrow> counts cycles st (Suc 0) st'"
  "srl_op C b st i = Inr st' \<Longrightarrow> counts cycles st (Suc 0) st'" "sra_op C b st i = Inr st' \<Longrightarrow> counts cycles st (Suc 0) st'"
  "slt_op C b st i = Inr st' \<Longrightarrow> counts cycles st (Suc 0) st'" "sltu_op C b st i = Inr st' \<Longrightarrow> counts cycles st (Suc 0) st'"
  "mul_op C st i = Inr st' \<Longrightarrow> counts cycles st (Suc 0) st'" "mulhu_op C st i = Inr st' \<Longrightarrow> counts cycles st (Suc 0) st'"
  "divu_op C st i = Inr st' \<Longrightarrow> counts cycles st (Suc 0) st'" "remu_op C st i = Inr st' \<Longrightarrow> counts cycles st (Suc 0) st'"
  "mop_addmod C st i = Inr st' \<Longrightarrow> counts cycles st (Suc 0) st'"
  "mop_submod C st i = Inr st' \<Longrightarrow> counts cycles st (Suc 0) st'"
  "mop_mulmod C st i = Inr st' \<Longrightarrow> counts cycles st (Suc 0) st'"
  "lui_op C st i = Inr st' \<Longrightarrow> counts cycles st (Suc 0) st'" "auipc_op C st i = Inr st' \<Longrightarrow> counts cycles st (Suc 0) st'"
  "jal_op C st i = Inr st' \<Longrightarrow> counts cycles st (Suc 0) st'" "jalr_op C st i = Inr st' \<Longrightarrow> counts cycles st (Suc 0) st'"
  "branch_op C st i = Inr st' \<Longrightarrow> counts cycles st (Suc 0) st'"
  by (auto simp: add_op_def sub_op_def and_op_def or_op_def xor_op_def sll_op_def srl_op_def
      sra_op_def slt_op_def sltu_op_def mul_op_def mulhu_op_def divu_op_def remu_op_def
      mop_addmod_def mop_submod_def mop_mulmod_def lui_op_def auipc_op_def jal_op_def jalr_op_def
      branch_op_def Let_def counts_def dest!: time_unchanged count_family split: if_splits)

lemma count_memory_ops:
  "sw_op C S R st r s i = Inr (st', r', s') \<Longrightarrow> counts cycles st (Suc 0) st'"
  "lw_op C S R st r s i = Inr (st', r', s') \<Longrightarrow> counts cycles st (Suc 0) st'"
  "sh_op C S R st r s i = Inr (st', r', s') \<Longrightarrow> counts cycles st (Suc 0) st'"
  "sb_op C S R st r s i = Inr (st', r', s') \<Longrightarrow> counts cycles st (Suc 0) st'"
  "lh_op C S R b st r s i = Inr (st', r', s') \<Longrightarrow> counts cycles st (Suc 0) st'"
  "lb_op C S R b st r s i = Inr (st', r', s') \<Longrightarrow> counts cycles st (Suc 0) st'"
  "nd_read C S ND st s i nd = Inr (st', s', nd') \<Longrightarrow> counts cycles st (Suc 0) st'"
  "nd_write C R ND st r i nd = Inr (st', nd') \<Longrightarrow> counts cycles st (Suc 0) st'"
  by (auto simp: sw_op_def lw_op_def sh_op_def sb_op_def lh_op_def lb_op_def nd_read_def nd_write_def
      Let_def counts_def dest!: time_unchanged count_family)

lemma count_bigint:
  "bigint_call C S R U st r s = Inr (st', r', s') \<Longrightarrow> counts cycles st (Suc 0) st'"
  by (auto simp: bigint_call_def Let_def counts_def
      dest!: time_unchanged count_family bumps_keep_cycles)

lemma count_calls:
  assumes "add_u64 t (word_of_nat (n - 1) * TIMESTAMP_STEP) = Inr lt" "0 < n" "n < 2 ^ 60"
  shows "unat lt + 4 = unat t + 4 * n" "unat (word_of_nat n :: u64) = n"
proof -
  have "unat (word_of_nat (n - 1) * TIMESTAMP_STEP) = 4 * (n - 1)"
    using assms(3) by (simp add: TIMESTAMP_STEP_def unat_word_ariths unat_of_nat)
  then show "unat lt + 4 = unat t + 4 * n"
    using unat_add_u64 [OF assms(1)] assms(2) by simp
  show "unat (word_of_nat n :: u64) = n" using assms(3) by (simp add: unat_of_nat)
qed

lemma count_blake:
  assumes "blake2_round_function_call C S R st r s = Inr (st', r', s')"
  shows "counts cycles st (Suc 0) st'"
proof -
  define n :: nat where
    "n = (if has_mask (blake_control_bitmask (reg_val (st_regs st ! 12))) TEST_IF_REDUCE_ROUNDS_MASK
          then 7 else 10)"
  obtain lt c1 c where n: "add_u64 (st_ts st) (word_of_nat (n - 1) * TIMESTAMP_STEP) = Inr lt"
    "c_bump_blake C (word_of_nat n) (st_counters st) = Inr c1"
    "c_log_multiple C SHIFT_BINARY_CSR (word_of_nat n) c1 = Inr c"
    "st_ts st' = lt" "st_counters st' = c"
    using assms unfolding blake2_round_function_call_def Let_def
    by (auto simp: index_eq_Inr n_def)
  have "n = 7 \<or> n = 10" by (simp add: n_def)
  then show ?thesis
    using count_calls [OF n(1)] bumps_keep_cycles(2) [OF n(2)] log_counts [OF n(3)] n(4,5)
    by (auto simp: counts_def)
qed

lemma count_keccak:
  assumes "keccak_special5_call C S R st r s = Inr (st', r', s')"
  shows "counts cycles st (Suc 0) st'"
proof -
  let ?n = NUM_DELEGATION_CALLS_FOR_KECCAK_F1600
  obtain lt c1 c where n: "add_u64 (st_ts st) (word_of_nat (?n - 1) * TIMESTAMP_STEP) = Inr lt"
    "c_bump_keccak C (word_of_nat ?n) (st_counters st) = Inr c1"
    "c_log_multiple C SHIFT_BINARY_CSR (word_of_nat ?n) c1 = Inr c"
    "st_ts st' = lt" "st_counters st' = c"
    using assms unfolding keccak_special5_call_def Let_def by (auto simp: index_eq_Inr)
  have "?n = 649" by (simp add: NUM_DELEGATION_CALLS_FOR_KECCAK_F1600_def)
  then show ?thesis
    using count_calls [OF n(1)] bumps_keep_cycles(3) [OF n(2)] log_counts [OF n(3)] n(4,5)
    by (auto simp: counts_def)
qed

lemma count_register_step:
  "register_step C st i n = Some (Inr st') \<Longrightarrow> counts cycles st (Suc 0) st'"
  by (cases n) (auto simp: illegal_def intro: count_register_ops)

lemma count_memory_step:
  "memory_step C S R U st r s i n = Some (Inr (st', r', s')) \<Longrightarrow> counts cycles st (Suc 0) st'"
  by (cases n) (auto simp: call_delegation_def split: if_splits
      intro: count_memory_ops count_bigint count_blake count_keccak)

lemma count_run_step:
  "run_step C S R ND U tape st r s nd = Inr (st', r', s', nd') \<Longrightarrow> counts cycles st (Suc 0) st'"
  by (auto simp: run_step_def Let_def split: option.splits if_splits
      dest: count_register_step count_memory_step count_memory_ops(7,8))

lemma count_run_body:
  "run_body C S R ND U tape st r s nd = Inr (ret, st', r', s', nd') \<Longrightarrow> counts cycles st 0 st'"
  by (fastforce simp: run_body_def Let_def counts_def TIMESTAMP_STEP_def split: if_splits
      dest!: count_run_step unat_add_u64)

lemma counts_trans: "counts cycles st 0 st1 \<Longrightarrow> counts cycles st1 0 st2 \<Longrightarrow> counts cycles st 0 st2"
  by (simp add: counts_def)

lemma count_run:
  "run_basic_unrolled C S R ND U tape n st r s nd = Inr (b, st', r', s', nd') \<Longrightarrow> counts cycles st 0 st'"
proof (induction n arbitrary: st r s nd)
  case (Suc n)
  then show ?case
    by (auto split: option.splits dest!: count_run_body intro: counts_trans)
qed (simp add: counts_def)

end

end
