(* ===== verification/VM_Properties.thy ===== *)
theory VM_Properties
  imports VM_Loop VM_Invariant VM_Cycles
begin

text \<open>
  What the virtual machine guarantees: its properties as theorems on the memory, the snapshotter and
  the counters of the program, each with an instance at a concrete program.
\<close>

section \<open>The start of a program\<close>

definition zero_counters :: DelegationsAndFamiliesCounters where
  "zero_counters =
     \<lparr>fc_add_sub_family = 0, fc_binary_shift_csr_family = 0, fc_slt_branch_family = 0,
      fc_mul_div_family = 0, fc_word_size_mem_family = 0, fc_subword_size_mem_family = 0,
      fc_blake_calls = 0, fc_bigint_calls = 0, fc_keccak_calls = 0\<rparr>"

abbreviation "start \<equiv> initial_with_counters zero_counters"

lemma loaded_inv:
  assumes "from_rom_content bits content total_size = Inr ram"
  shows "rom.machine_inv (initial_with_counters c) ram"
  using from_rom_content_rom(5) [OF assms] cycle_at_initial
  by (simp add: rom.machine_inv_def initial_with_counters_def INITIAL_TIMESTAMP_def)

lemma loaded_loop_state:
  assumes "from_rom_content bits content total_size = Inr ram"
    and "new_with_cycle_limit (bivec_ops inner outer) limit start = Inr snap"
    and "N + 61 \<le> limit" "N < 2 ^ 62 - 1"
  shows "families_machine.loop_state inner outer N start ram snap"
  unfolding families_machine.loop_state_def
proof (intro conjI exI)
  show "cycle_at 0 start" "rom.fresh (unat (st_ts start)) ram"
    using loaded_inv [OF assms(1), of zero_counters] by (simp_all add: rom.machine_inv_def)
  show "chunk_space (bivec_holds inner outer) (\<lambda>b. inner * outer) (N + 61) 62 snap"
    using bivec_log.chunk_space_mono [OF bivec_log.chunk_space_new [OF assms(2)] assms(3)] by simp
  show "unat (st_ts start) + 4 * N < 2 ^ 64"
    using assms(4) by (simp add: initial_with_counters_def INITIAL_TIMESTAMP_def)
  show "families_within 0 (st_counters start)"
    by (simp add: initial_with_counters_def zero_counters_def families_within_def)
  show "0 + N < 2 ^ 64" using assms(4) by simp
qed

text \<open>A program for the instances: the square of 5 in register 2, then a jump to itself.\<close>

definition square_program :: "instruction list" where
  "square_program = [from_imm Addi 0 0 1 5, from_imm Mul 1 1 2 0, from_imm Jal 0 0 0 0]"

lemma csr_free_square: "csr_free (read_instruction square_program)"
proof -
  have "\<forall>i \<in> set square_program. wf_instr i \<and>
      i_name i \<notin> {ZicsrDelegation, ZicsrNonDeterminismRead, ZicsrNonDeterminismWrite}"
    by (simp add: square_program_def from_imm_def wf_instr_def)
  then show ?thesis
    by (auto simp: csr_free_def read_instruction_def Let_def get_unchecked_eq_Inr)
qed

lemma square_run:
  "\<exists>s. isa_run 131072 65536 (program_of (read_instruction square_program)) 3
     (isa_of m start) = Some (True, s) \<and> isa_regs s ! 2 = 25"
  by (simp add: numeral_3_eq_3 program_of_def read_instruction_def square_program_def from_imm_def
      isa_step_def Let_def get_unchecked_def isa_alu_words isa_jump_def isa_write_def isa_of_def
      initial_with_counters_def reg_vals_def)

lemma empty_rom_loads: "\<exists>ram. from_rom_content 0 [] 131072 = Inr ram"
  by (simp add: from_rom_content_def is_power_of_two_def Let_def)

lemma small_log: "\<exists>snap. new_with_cycle_limit (bivec_ops 64 1) 64 st = Inr snap"
  by (simp add: new_with_cycle_limit_def bivec_ops_def bivec_new_def)

lemma square_runs:
  obtains ram snap st ram' snap' where
    "from_rom_content 0 [] 131072 = Inr ram"
    "new_with_cycle_limit (bivec_ops 64 1) 64 start = Inr snap"
    "run_basic_unrolled families_counters (simple_snapshotter_ops (bivec_ops 64 1)) (rom_ram_ops 0)
       ND U (read_instruction square_program) 3 start ram snap nd = Inr (True, st, ram', snap', nd)"
proof -
  obtain ram where ram: "from_rom_content 0 [] 131072 = Inr ram" using empty_rom_loads by blast
  obtain snap where snap: "new_with_cycle_limit (bivec_ops 64 1) 64 start = Inr snap"
    using small_log by blast
  have "families_machine.loop_state 64 1 3 start ram snap"
    using loaded_loop_state [OF ram snap] by simp
  from families_machine.run_refines [where bits = 0 and ND = ND and U = U and nd = nd,
      OF this csr_free_square refl]
  obtain st ram' snap' where
    "run_basic_unrolled families_counters (simple_snapshotter_ops (bivec_ops 64 1)) (rom_ram_ops 0)
       ND U (read_instruction square_program) 3 start ram snap nd = Inr (True, st, ram', snap', nd)"
    using from_rom_content_rom(1,2) [OF ram] square_run [of "rom_word ram"] by auto
  then show ?thesis using that ram snap by blast
qed

section \<open>Execution\<close>



text \<open>
  C8: the invariant of the machine.  Whatever program runs from a loaded memory, delegations and
  non-determinism included, with any counters and any snapshotter: when the loop returns, there are
  32 registers, register 0 is zero, the time is a multiple of 4, and every register and every memory
  word was last accessed before it, so the next cycle's accesses are ordered after all others.
\<close>

theorem run_keeps_invariant:
  assumes "from_rom_content bits content total_size = Inr ram"
    and "run_basic_unrolled C S (rom_ram_ops bits) ND U tape N (initial_with_counters c) ram snap nd =
      Inr (ended, st, ram', snap', nd')"
  shows "length (st_regs st) = 32 \<and> reg_val (st_regs st ! 0) = 0 \<and> unat (st_ts st) mod 4 = 0 \<and>
    (\<forall>r \<in> set (st_regs st). reg_ts r < st_ts st) \<and> (\<forall>slot \<in> set (backing ram'). reg_ts slot < st_ts st)"
proof -
  have "rom.machine_inv st ram'"
    using rom.inv_run_basic_unrolled [OF assms(2) loaded_inv [OF assms(1)]] .
  then show ?thesis
    by (auto simp: rom.machine_inv_def rom.fresh_def cycle_at_def word_less_nat_alt rom_last_def
        in_set_conv_nth)
qed

theorem run_keeps_invariant_witness:
  "\<forall>U. \<exists>ram snap st ram' snap'.
     run_basic_unrolled families_counters (simple_snapshotter_ops (bivec_ops 64 1)) (rom_ram_ops 0)
       unit_nd U (read_instruction square_program) 3 start ram snap () = Inr (True, st, ram', snap', ()) \<and>
     reg_val (st_regs st ! 0) = 0 \<and> unat (st_ts st) mod 4 = 0"
proof
  fix U
  obtain ram snap st ram' snap' where r: "from_rom_content 0 [] 131072 = Inr ram"
    "run_basic_unrolled families_counters (simple_snapshotter_ops (bivec_ops 64 1)) (rom_ram_ops 0)
       unit_nd U (read_instruction square_program) 3 start ram snap () = Inr (True, st, ram', snap', ())"
    using square_runs by metis
  with run_keeps_invariant [OF r] show "\<exists>ram snap st ram' snap'.
     run_basic_unrolled families_counters (simple_snapshotter_ops (bivec_ops 64 1)) (rom_ram_ops 0)
       unit_nd U (read_instruction square_program) 3 start ram snap () = Inr (True, st, ram', snap', ()) \<and>
     reg_val (st_regs st ! 0) = 0 \<and> unat (st_ts st) mod 4 = 0" by blast
qed

text \<open>
  C9: the counters count the cycles.  Whatever program runs, the six family counters together grow by
  the elapsed time divided by 4: a delegation that takes 7, 10 or 649 cycles is counted as many times.
\<close>

theorem family_counters_count_cycles:
  assumes "run_basic_unrolled families_counters S R ND U tape N st ram snap nd =
      Inr (ended, st', ram', snap', nd')"
  shows "4 * families_cycles (st_counters st') + unat (st_ts st) =
    4 * families_cycles (st_counters st) + unat (st_ts st')"
  using families.count_run [OF assms] by (simp add: counts_def)

theorem family_counters_count_cycles_witness:
  "\<forall>U. \<exists>ram snap st ram' snap'.
     run_basic_unrolled families_counters (simple_snapshotter_ops (bivec_ops 64 1)) (rom_ram_ops 0)
       unit_nd U (read_instruction square_program) 3 start ram snap () = Inr (True, st, ram', snap', ()) \<and>
     4 * families_cycles (st_counters st) + 4 = unat (st_ts st)"
proof
  fix U
  obtain ram snap st ram' snap' where r:
    "run_basic_unrolled families_counters (simple_snapshotter_ops (bivec_ops 64 1)) (rom_ram_ops 0)
       unit_nd U (read_instruction square_program) 3 start ram snap () = Inr (True, st, ram', snap', ())"
    using square_runs by metis
  have "4 * families_cycles (st_counters st) + 4 = unat (st_ts st)"
    using family_counters_count_cycles [OF r]
    by (simp add: initial_with_counters_def INITIAL_TIMESTAMP_def zero_counters_def families_cycles_def)
  with r show "\<exists>ram snap st ram' snap'.
     run_basic_unrolled families_counters (simple_snapshotter_ops (bivec_ops 64 1)) (rom_ram_ops 0)
       unit_nd U (read_instruction square_program) 3 start ram snap () = Inr (True, st, ram', snap', ()) \<and>
     4 * families_cycles (st_counters st) + 4 = unat (st_ts st)" by blast
qed

section \<open>The two loops\<close>

lemma body_time:
  assumes "run_body C S R ND U tape st r s nd = Inr (ret, st', r', s', nd')"
    "\<forall>i. tape (st_pc st) = Inr i \<longrightarrow> i_name i \<noteq> ZicsrDelegation"
  shows "unat (st_ts st') = unat (st_ts st) + 4"
proof -
  obtain st1 nd1 where 1: "run_step C S R ND U tape st r s nd = Inr (st1, r', nd1)"
    "add_u64 (st_ts st1) TIMESTAMP_STEP = Inr (st_ts st')"
    using assms(1) by (auto simp: run_body_def Let_def split: if_splits)
  have mem: "memory_step C S R U st r s i (i_name i) = Some (Inr (st1, r', s1)) \<Longrightarrow>
      i_name i \<noteq> ZicsrDelegation \<Longrightarrow> st_ts st1 = st_ts st" for i s1
    by (cases "i_name i") (auto simp: ts_memory_ops)
  have "st_ts st1 = st_ts st"
    using 1(1) assms(2)
    by (cases nd1) (auto simp: run_step_def Let_def split: option.splits if_splits
        dest: mem ts_register_step [OF _ refl] ts_memory_ops)
  then show ?thesis using 1(2) by (auto simp: TIMESTAMP_STEP_def dest: unat_add_u64)
qed

text \<open>
  C10: the two loops agree.  For a program without delegations, whose instructions take one cycle
  each, running up to the time \<open>4 * N\<close> later is running \<open>N\<close> cycles, whatever happens, errors included.
\<close>

theorem loops_agree:
  assumes "\<forall>pc i. tape pc = Inr i \<longrightarrow> i_name i \<noteq> ZicsrDelegation"
    and "unat (st_ts st) + 4 * N < 2 ^ 64"
  shows "run_by_timestamp_bound C S R ND U tape (st_ts st + 4 * word_of_nat N) st ram snap nd =
    run_basic_unrolled C S R ND U tape N st ram snap nd"
  using assms(2)
proof (induction N arbitrary: st ram snap nd)
  case 0
  then show ?case by (simp add: run_by_timestamp_bound.simps)
next
  case (Suc N)
  let ?bound = "st_ts st + 4 * word_of_nat (Suc N)"
  have "unat ?bound = unat (st_ts st) + 4 * Suc N"
    using Suc.prems by (simp add: unat_word_ariths unat_of_nat del: of_nat_Suc)
  then have lt: "st_ts st < ?bound" by (simp add: word_less_nat_alt)
  show ?case
  proof (cases "run_body C S R ND U tape st ram snap nd")
    case (Inl e)
    then show ?thesis using lt by (subst run_by_timestamp_bound.simps) simp
  next
    case (Inr x)
    obtain ret st1 ram1 snap1 nd1 where x: "x = (ret, st1, ram1, snap1, nd1)" by (cases x) auto
    have t: "unat (st_ts st1) = unat (st_ts st) + 4"
      using body_time [OF Inr [unfolded x]] assms(1) by blast
    then have "st_ts st1 = st_ts st + 4"
      using Suc.prems by (simp add: word_unat_eq_iff unat_word_ariths)
    then have b: "?bound = st_ts st1 + 4 * word_of_nat N" by (simp add: algebra_simps)
    have IH: "run_by_timestamp_bound C S R ND U tape (st_ts st1 + 4 * word_of_nat N) st1 ram1 snap1 nd1 =
        run_basic_unrolled C S R ND U tape N st1 ram1 snap1 nd1"
      using Suc.IH Suc.prems t by simp
    have "run_by_timestamp_bound C S R ND U tape ?bound st ram snap nd =
        (case ret of Some b \<Rightarrow> Inr (b, st1, ram1, snap1, nd1)
         | None \<Rightarrow> run_by_timestamp_bound C S R ND U tape ?bound st1 ram1 snap1 nd1)"
      using lt Inr x by (subst run_by_timestamp_bound.simps) simp
    then show ?thesis using Inr x IH unfolding b by (cases ret) simp_all
  qed
qed

theorem loops_agree_witness:
  "\<forall>U. \<exists>ram snap st ram' snap'.
     run_by_timestamp_bound families_counters (simple_snapshotter_ops (bivec_ops 64 1)) (rom_ram_ops 0)
       unit_nd U (read_instruction square_program) 16 start ram snap () = Inr (True, st, ram', snap', ())"
proof
  fix U
  obtain ram snap st ram' snap' where r:
    "run_basic_unrolled families_counters (simple_snapshotter_ops (bivec_ops 64 1)) (rom_ram_ops 0)
       unit_nd U (read_instruction square_program) 3 start ram snap () = Inr (True, st, ram', snap', ())"
    using square_runs by metis
  have "\<forall>pc i. read_instruction square_program pc = Inr i \<longrightarrow> i_name i \<noteq> ZicsrDelegation"
    using csr_free_square by (auto simp: csr_free_def)
  from loops_agree [OF this, where st = start and N = 3 and C = families_counters
      and S = "simple_snapshotter_ops (bivec_ops 64 1)" and R = "rom_ram_ops 0" and ND = unit_nd
      and U = U and ram = ram and snap = snap and nd = "()"]
  have "run_by_timestamp_bound families_counters (simple_snapshotter_ops (bivec_ops 64 1))
      (rom_ram_ops 0) unit_nd U (read_instruction square_program) 16 start ram snap () =
      Inr (True, st, ram', snap', ())"
    unfolding r by (simp add: initial_with_counters_def INITIAL_TIMESTAMP_def)
  then show "\<exists>ram snap st ram' snap'.
     run_by_timestamp_bound families_counters (simple_snapshotter_ops (bivec_ops 64 1)) (rom_ram_ops 0)
       unit_nd U (read_instruction square_program) 16 start ram snap () = Inr (True, st, ram', snap', ())"
    by blast
qed

end
