(* ===== verification/VM_Delegation_Properties.thy ===== *)
theory VM_Delegation_Properties
  imports VM_Keccak_Call VM_Properties
begin

text \<open>
  The properties of the three delegations: what their arithmetic computes, against the reference
  hash, the integers and the step-by-step permutation, and what a call does to registers and memory.
\<close>

section \<open>Instances\<close>

text \<open>An integer library that satisfies the documentation, by arithmetic on natural numbers.\<close>

fun nat_limbs :: "nat \<Rightarrow> nat \<Rightarrow> u64 list" where
  "nat_limbs 0 x = []"
| "nat_limbs (Suc n) x = word_of_nat x # nat_limbs n (x div 2 ^ 64)"

lemma length_nat_limbs [simp]: "length (nat_limbs n x) = n"
  by (induction n arbitrary: x) simp_all

lemma limbs_val_nat_limbs: "limbs_val (nat_limbs n x) = x mod 2 ^ (64 * n)"
proof (induction n arbitrary: x)
  case (Suc n)
  have "(2 :: nat) ^ (64 * Suc n) = 2 ^ 64 * 2 ^ (64 * n)"
    unfolding power_add [symmetric] by simp
  then have "x mod 2 ^ (64 * Suc n) = 2 ^ 64 * (x div 2 ^ 64 mod 2 ^ (64 * n)) + x mod 2 ^ 64"
    by (simp only: mod_mult2_eq)
  then show ?case
    by (simp only: nat_limbs.simps limbs_val.simps Suc unat_of_nat take_bit_eq_mod len_of_numeral_defs add.commute)
      simp
qed simp

definition nat_ruint :: ruint_ops where
  "nat_ruint =
     \<lparr>u_carrying_add_n = (\<lambda>a b c.
        let s = limbs_val a + limbs_val b + of_bool c in (nat_limbs 4 s, 2 ^ 256 \<le> s)),
      u_borrowing_sub_n = (\<lambda>a b c.
        let s = 2 ^ 256 + limbs_val a - (limbs_val b + of_bool c)
        in (nat_limbs 4 s, limbs_val a < limbs_val b + of_bool c)),
      u_overflowing_mul = (\<lambda>a b.
        let p = limbs_val a * limbs_val b in (nat_limbs 4 p, 2 ^ 256 \<le> p)),
      u_widening_mul = (\<lambda>a b. nat_limbs 8 (limbs_val a * limbs_val b))\<rparr>"

lemma add_split: "(s :: nat) < 2 * M \<Longrightarrow> s mod M + M * of_bool (M \<le> s) = s"
  by (cases "M \<le> s") (simp_all add: le_mod_geq)

lemma sub_split:
  assumes "(a :: nat) < M" "b < M" "c \<le> 1"
  shows "(M + a - (b + c)) mod M + b + c = a + M * of_bool (a < b + c)"
proof (cases "a < b + c")
  case False
  then have "M + a - (b + c) = M + (a - (b + c))" by simp
  then have "(M + a - (b + c)) mod M = a - (b + c)" using assms(1) by (simp only: mod_add_self1) simp
  then show ?thesis using False by simp
qed (use assms in simp)

lemma nat_ruint_documented: "ruint_documented nat_ruint"
proof -
  have lt: "limbs_val xs < 2 ^ 256" if "length xs = 4" for xs using limbs_val_less [of xs] that by simp
  have val: "limbs_val (nat_limbs 4 x) = x mod 2 ^ 256" "limbs_val (nat_limbs 8 x) = x mod 2 ^ 512" for x
    using limbs_val_nat_limbs [of 4 x] limbs_val_nat_limbs [of 8 x] by simp_all
  have add: "limbs_val a + limbs_val b + of_bool c < 2 * 2 ^ 256" if "length a = 4" "length b = 4" for a b c
    using lt [OF that(1)] lt [OF that(2)] by (cases c) simp_all
  have "limbs_val a * limbs_val b < 2 ^ 256 * 2 ^ 256" if "length a = 4" "length b = 4" for a b
    using lt [OF that(1)] lt [OF that(2)] by (intro mult_strict_mono) auto
  then have mul: "limbs_val a * limbs_val b < 2 ^ 512" if "length a = 4" "length b = 4" for a b
    using that by (simp only: power_add [symmetric]) simp
  have one: "of_bool c \<le> (1 :: nat)" for c by (cases c) simp_all
  have carrying: "length r = 4 \<and> limbs_val r + 2 ^ 256 * of_bool ov = limbs_val a + limbs_val b + of_bool c"
    if "length a = 4" "length b = 4" "u_carrying_add_n nat_ruint a b c = (r, ov)" for a b c r ov
    using that(3) add_split [OF add [OF that(1,2), of c]]
    by (auto simp only: nat_ruint_def ruint_ops.simps Let_def prod.inject val length_nat_limbs)
  have borrowing: "length r = 4 \<and> limbs_val r + limbs_val b + of_bool c = limbs_val a + 2 ^ 256 * of_bool ov"
    if "length a = 4" "length b = 4" "u_borrowing_sub_n nat_ruint a b c = (r, ov)" for a b c r ov
    using that(3) sub_split [OF lt [OF that(1)] lt [OF that(2)] one [of c]]
    by (auto simp only: nat_ruint_def ruint_ops.simps Let_def prod.inject val length_nat_limbs)
  have product: "length r = 4 \<and> limbs_val r = limbs_val a * limbs_val b mod 2 ^ 256 \<and>
      ov = (2 ^ 256 \<le> limbs_val a * limbs_val b)" if "u_overflowing_mul nat_ruint a b = (r, ov)" for a b r ov
    using that by (auto simp only: nat_ruint_def ruint_ops.simps Let_def prod.inject val length_nat_limbs)
  have widening: "length (u_widening_mul nat_ruint a b) = 8 \<and>
      limbs_val (u_widening_mul nat_ruint a b) = limbs_val a * limbs_val b"
    if "length a = 4" "length b = 4" for a b
    by (simp only: nat_ruint_def ruint_ops.simps val length_nat_limbs mod_less [OF mul [OF that]] simp_thms)
  show ?thesis
    unfolding ruint_documented_def using carrying borrowing product widening by blast
qed

text \<open>A loaded memory of 8 MB with arguments in the registers.\<close>

definition with_args :: "u32 \<Rightarrow> u32 \<Rightarrow> u32 \<Rightarrow> DelegationsAndFamiliesCounters State" where
  "with_args a b c =
     start\<lparr>st_regs := (st_regs start)[10 := \<lparr>reg_ts = 0, reg_val = a\<rparr>, 11 := \<lparr>reg_ts = 0, reg_val = b\<rparr>,
       12 := \<lparr>reg_ts = 0, reg_val = c\<rparr>]\<rparr>"

lemma with_args_state:
  "cycle_at 0 (with_args a b c)" "unat (st_ts (with_args a b c)) = 4"
  "reg_vals (with_args a b c) ! 10 = a" "reg_vals (with_args a b c) ! 11 = b"
  "reg_vals (with_args a b c) ! 12 = c" "families_within 0 (st_counters (with_args a b c))"
proof -
  show "cycle_at 0 (with_args a b c)"
    using cycle_at_initial [of zero_counters]
    by (auto simp: with_args_def cycle_at_def initial_with_counters_def INITIAL_TIMESTAMP_def
        dest!: set_update_subset_insert [THEN subsetD])
qed (simp_all add: with_args_def initial_with_counters_def INITIAL_TIMESTAMP_def reg_vals_def
    zero_counters_def families_within_def)

lemma large_memory:
  obtains ram where "from_rom_content 0 [] 8388608 = Inr ram" "length (backing ram) = 2097152"
    "rom.fresh 4 ram" "\<forall>i < 2097152. rom_word ram i = 0"
proof -
  obtain ram where ram: "from_rom_content 0 [] 8388608 = Inr ram"
    by (simp add: from_rom_content_def is_power_of_two_def Let_def)
  note r = from_rom_content_rom [OF ram]
  have "length (backing ram) = 2097152" using r(1) by simp
  then show ?thesis using that ram r(4,5) by simp
qed

lemma large_log:
  "\<exists>snap :: (DelegationsAndFamiliesCounters, _) SimpleSnapshotter.
     chunk_space (bivec_holds 64 1) (\<lambda>b. 64 * 1) (0 + 62) 62 snap"
proof -
  obtain snap where "new_with_cycle_limit (bivec_ops 64 1) 64 start = Inr snap"
    using small_log by blast
  from bivec_log.chunk_space_mono [OF bivec_log.chunk_space_new [OF this], of "0 + 62" 62]
  show ?thesis by fastforce
qed

lemma arg_block:
  assumes "length (backing ram) = 2097152" "unat a mod 4 = 0" "4194304 \<le> unat a" "unat a \<le> 4198400" "n \<le> 64"
  shows "block_in (length (backing ram)) a n" "\<forall>i \<in> set (block a n). rom_words 0 \<le> i"
    "\<forall>i < 2097152. rom_word ram i = 0 \<Longrightarrow> map (rom_word ram) (block a n) = replicate n 0"
  using assms by (auto simp: block_in_def set_block rom_words_def unat_aligned block_def intro!: nth_equalityI)

section \<open>The Blake2s delegation\<close>

lemma length_blake_result: "length (blake_result c state input) = 8"
  by (simp add: blake_result_def Let_def blake_compress_two_to_one_def)

lemma prefix_8: "xs @ ys = zs \<Longrightarrow> length xs = 8 \<Longrightarrow> take 8 zs = xs"
  by auto

lemma blake_rounds_are:
  assumes "length state = 24" "blake_permutation_bitmask x12 = 1" "c = blake_control_bitmask x12"
  shows "\<exists>e. length e = 16 \<and> blake_iterate (rounds_of c) state input x12 =
    Inr (blake_result c state input @ e, blake_final_x12 (has_mask c TEST_IF_REDUCE_ROUNDS_MASK) c)"
proof -
  have len: "length (take 8 state) = 8" "length (drop 8 state) = 16" using assms(1) by simp_all
  obtain h e where he: "blake_steps c [0..<rounds_of c] input (take 8 state,
      blake_prepare (has_mask c TEST_IF_COMPRESSION_MODE_MASK) (take 8 state) (drop 8 state)) = (h, e)"
    by force
  have "0 < rounds_of c" "rounds_of c \<le> 10" by (simp_all add: rounds_of_def)
  then show ?thesis
    using iterate_from_start [OF assms(2) _ _ len(1), of "rounds_of c" "drop 8 state" input] he
      steps_result [OF len, of c input] len(2) steps_all [of c input "take 8 state"]
    by (auto simp: assms(3) [symmetric] x12_of_final Let_def)
qed

text \<open>
  C17: the rounds compute the compression function of the reference implementation.  Iterating the
  single round from the first permutation, 7 or 10 times as the control bits ask, leaves in the first 8 words
  the compression (of the block into the hash value, or of two nodes into one, in the chosen order), and in
  register 12 the control value after which the machine moves on.
\<close>

theorem blake_rounds_compress:
  assumes "length state = 24" "blake_permutation_bitmask x12 = 1" "c = blake_control_bitmask x12"
  shows "\<exists>e. length e = 16 \<and> blake_iterate (rounds_of c) state input x12 =
    Inr (blake_result c state input @ e, blake_final_x12 (has_mask c TEST_IF_REDUCE_ROUNDS_MASK) c)"
  using assms by (rule blake_rounds_are)

theorem blake_rounds_compress_witness:
  "\<exists>e. blake_iterate 7 (replicate 24 0) (replicate 16 0) 0x90000 =
    Inr (blake_result 1 (replicate 24 0) (replicate 16 0) @ e, blake_final_x12 True 1)"
proof -
  have "blake_permutation_bitmask 0x90000 = 1" "blake_control_bitmask 0x90000 = 1"
    by (simp_all add: blake_permutation_bitmask_def blake_control_bitmask_def BLAKE2S_NUM_CONTROL_BITS_def)
  then show ?thesis
    using blake_rounds_compress [of "replicate 24 0" "0x90000" 1 "replicate 16 0"]
    by (auto simp: rounds_of_def has_mask_def TEST_IF_REDUCE_ROUNDS_MASK_def)
qed

text \<open>
  C18: a Blake2s call of the machine.  With a control value of a first round, a state of 24 words and an input
  of 16 words in separate blocks of writable memory above the ROM, the call succeeds, puts the compression into
  the first 8 words of the state, leaves the memory outside the state and the registers but 12 as they are,
  and moves program counter and time by the number of rounds.
\<close>

theorem blake_call_computes:
  assumes "cycle_at 0 st" "rom.fresh (unat (st_ts st)) ram" "unat (st_ts st) + 40 < 2 ^ 64"
    and "chunk_space (bivec_holds inner outer) (\<lambda>b. inner * outer) (T + 40) 40 snap"
    and "families_within K (st_counters st)" "K + 20 < 2 ^ 64"
    and "reg_vals st ! 10 = x10" "ROM_BYTE_SIZE \<le> x10" "x10 mod 128 = 0" "block_in (length (backing ram)) x10 24"
    and "\<forall>i \<in> set (block x10 24). rom_words bits \<le> i"
    and "reg_vals st ! 11 = x11" "ROM_BYTE_SIZE \<le> x11" "x11 mod 64 = 0" "block_in (length (backing ram)) x11 16"
    and "set (block x10 24) \<inter> set (block x11 16) = {}"
    and "blake_permutation_bitmask (reg_vals st ! 12) = 1" "c = blake_control_bitmask (reg_vals st ! 12)"
  shows "\<exists>st' ram' snap'.
    blake2_round_function_call families_counters (simple_snapshotter_ops (bivec_ops inner outer))
      (rom_ram_ops bits) st ram snap = Inr (st', ram', snap') \<and>
    take 8 (map (rom_word ram') (block x10 24)) =
      blake_result c (map (rom_word ram) (block x10 24)) (map (rom_word ram) (block x11 16)) \<and>
    (\<forall>i. i \<notin> set (block x10 24) \<longrightarrow> rom_word ram' i = rom_word ram i) \<and>
    reg_vals st' ! 12 = blake_final_x12 (has_mask c TEST_IF_REDUCE_ROUNDS_MASK) c \<and>
    (\<forall>j < 32. j \<noteq> 12 \<longrightarrow> reg_vals st' ! j = reg_vals st ! j) \<and>
    st_pc st' = st_pc st + 4 * word_of_nat (rounds_of c) \<and>
    unat (st_ts st') + 4 = unat (st_ts st) + 4 * rounds_of c"
proof -
  have start: "families_machine.step.cycle_start inner outer T (40 + 0) K st ram snap"
    using assms(1,2,4,5) by (simp add: families_machine.step.cycle_start_def)
  let ?state = "map (rom_word ram) (block x10 24)" and ?input = "map (rom_word ram) (block x11 16)"
  have "length ?state = 24" by simp
  from blake_rounds_are [OF this assms(17,18)] obtain e where
    e: "length e = 16" "blake_iterate (rounds_of c) ?state ?input (reg_vals st ! 12) =
      Inr (blake_result c ?state ?input @ e, blake_final_x12 (has_mask c TEST_IF_REDUCE_ROUNDS_MASK) c)"
    by blast
  have "length (blake_result c ?state ?input) = 8" by (rule length_blake_result)
  then show ?thesis
    using families_machine.step.blake_call_effect [where bits = bits, OF start assms(6,3,7-11) assms(12-16) refl assms(17,18)] e(2)
    by (auto simp: rounds_of_def dest: prefix_8)
qed

theorem blake_call_computes_witness:
  "\<exists>ram snap st' ram' snap'. from_rom_content 0 [] 8388608 = Inr ram \<and>
     blake2_round_function_call families_counters (simple_snapshotter_ops (bivec_ops 64 1)) (rom_ram_ops 0)
       (with_args 0x400000 0x400080 0x90000) ram snap = Inr (st', ram', snap') \<and>
     take 8 (map (rom_word ram') (block 0x400000 24)) = blake_result 1 (replicate 24 0) (replicate 16 0)"
proof -
  obtain ram where ram: "from_rom_content 0 [] 8388608 = Inr ram" "length (backing ram) = 2097152"
    "rom.fresh 4 ram" "\<forall>i < 2097152. rom_word ram i = 0" by (rule large_memory)
  obtain snap :: "(DelegationsAndFamiliesCounters, _) SimpleSnapshotter" where
    log: "chunk_space (bivec_holds 64 1) (\<lambda>b. 64 * 1) (0 + 62) 62 snap"
    using large_log by blast
  have snap: "chunk_space (bivec_holds 64 1) (\<lambda>b. 64 * 1) (0 + 40) 40 snap"
    by (rule bivec_log.chunk_space_mono [OF log]) simp_all
  have c: "blake_permutation_bitmask 0x90000 = 1" "blake_control_bitmask 0x90000 = 1"
    by (simp_all add: blake_permutation_bitmask_def blake_control_bitmask_def BLAKE2S_NUM_CONTROL_BITS_def)
  have disj: "set (block 0x400000 24) \<inter> set (block 0x400080 16) = {}"
    by (auto simp: set_block)
  note a = with_args_state [where a = "0x400000" and b = "0x400080" and c = "0x90000"]
  have start: "rom.fresh (unat (st_ts (with_args 0x400000 0x400080 0x90000))) ram"
    "unat (st_ts (with_args 0x400000 0x400080 0x90000)) + 40 < 2 ^ 64"
    "blake_permutation_bitmask (reg_vals (with_args 0x400000 0x400080 0x90000) ! 12) = 1"
    "1 = blake_control_bitmask (reg_vals (with_args 0x400000 0x400080 0x90000) ! 12)"
    using ram(3) c unfolding a(2,5) by simp_all
  note x10 = arg_block [where a = "0x400000" and n = 24, OF ram(2), simplified]
    and x11 = arg_block [where a = "0x400080" and n = 16, OF ram(2), simplified]
  have rom: "ROM_BYTE_SIZE \<le> 0x400000" "ROM_BYTE_SIZE \<le> 0x400080"
    "(0x400000 :: u32) mod 128 = 0" "(0x400080 :: u32) mod 64 = 0" "(0 :: nat) + 20 < 2 ^ 64"
    by (simp_all add: ROM_BYTE_SIZE_def)
  show ?thesis
    using blake_call_computes [where inner = 64 and outer = 1 and bits = 0,
        OF a(1) start(1,2) snap a(6) rom(5) a(3) rom(1,3) x10(1,2) a(4) rom(2,4) x11(1) disj start(3,4)] ram(1)
    unfolding x10(3) [OF ram(4)] x11(3) [OF ram(4)] by blast
qed

section \<open>The delegation for 256-bit integers\<close>

text \<open>
  C19: the integer operation.  The control words with exactly one of the seven operation bits, and the
  carry bit or not, are accepted, and the result and the flag are those of addition, subtraction both
  ways, low and high product, comparison and copy modulo \<open>2\<^sup>2\<^sup>5\<^sup>6\<close>, for every integer library that
  satisfies its documentation; every other control word fails an assertion.
\<close>

theorem bigint_computes:
  assumes "ruint_documented U" "length a = 4" "length b = 4"
  shows "(\<exists>r ov. bigint_impl U a b (control_word op cin) = Inr (r, ov) \<and> length r = 4 \<and>
      (limbs_val r, ov) = big_result op (limbs_val a) (limbs_val b) (of_bool cin)) \<and>
    ((\<forall>op cin. x12 \<noteq> control_word op cin) \<longrightarrow> bigint_impl U a b x12 = Inl AssertFailed)"
  using bigint_impl_ok [OF assms] bigint_impl_error by blast

theorem bigint_computes_witness:
  "\<exists>r. bigint_impl nat_ruint [3, 0, 0, 0] [5, 0, 0, 0] (control_word BigSub False) = Inr (r, True) \<and>
     limbs_val r = 2 ^ 256 - 2"
  using bigint_computes [OF nat_ruint_documented, of "[3, 0, 0, 0]" "[5, 0, 0, 0]" BigSub False 0] by auto

text \<open>
  C20: an integer call of the machine.  On two distinct aligned blocks above the ROM, the call replaces the
  first number by the result, puts the flag in register 12, and leaves the rest of the memory and the
  other registers as they are.
\<close>

theorem bigint_call_computes:
  assumes "cycle_at 0 st" "rom.fresh (unat (st_ts st)) ram"
    and "chunk_space (bivec_holds inner outer) (\<lambda>b. inner * outer) (T + 17) 17 snap"
    and "families_within K (st_counters st)" "K + 2 < 2 ^ 64" "ruint_documented U"
    and "reg_vals st ! 10 = x10" "ROM_BYTE_SIZE \<le> x10" "x10 mod 32 = 0" "block_in (length (backing ram)) x10 8"
    and "\<forall>i \<in> set (block x10 8). rom_words bits \<le> i"
    and "reg_vals st ! 11 = x11" "ROM_BYTE_SIZE \<le> x11" "x11 mod 32 = 0" "block_in (length (backing ram)) x11 8"
    and "x10 \<noteq> x11" "reg_vals st ! 12 = control_word op cin"
    and "a = limbs_of_words (map (rom_word ram) (block x10 8))"
    and "b = limbs_of_words (map (rom_word ram) (block x11 8))"
  shows "\<exists>st' ram' snap' ov.
    bigint_call families_counters (simple_snapshotter_ops (bivec_ops inner outer)) (rom_ram_ops bits) U
      st ram snap = Inr (st', ram', snap') \<and>
    (limbs_val (limbs_of_words (map (rom_word ram') (block x10 8))), ov) =
      big_result op (limbs_val a) (limbs_val b) (of_bool cin) \<and>
    (\<forall>i. i \<notin> set (block x10 8) \<longrightarrow> rom_word ram' i = rom_word ram i) \<and>
    reg_vals st' = (reg_vals st)[12 := of_bool ov] \<and> st_pc st' = st_pc st + 4 \<and> st_ts st' = st_ts st"
proof -
  have start: "families_machine.step.cycle_start inner outer T (17 + 0) K st ram snap"
    using assms(1-4) by (simp add: families_machine.step.cycle_start_def)
  have len: "length a = 4" "length b = 4"
    by (simp_all add: assms(18,19) length_limbs_of_words)
  obtain r ov where r: "bigint_impl U a b (control_word op cin) = Inr (r, ov)" "length r = 4"
    "(limbs_val r, ov) = big_result op (limbs_val a) (limbs_val b) (of_bool cin)"
    using bigint_impl_ok [OF assms(6) len] by blast
  from families_machine.step.bigint_call_effect [where bits = bits, OF start assms(5,7-11) assms(12-17)
      r(1) [unfolded assms(18,19)] r(2)] r(3)
  show ?thesis by blast
qed

theorem bigint_call_computes_witness:
  "\<exists>ram snap st' ram' snap'. from_rom_content 0 [] 8388608 = Inr ram \<and>
     bigint_call families_counters (simple_snapshotter_ops (bivec_ops 64 1)) (rom_ram_ops 0) nat_ruint
       (with_args 0x400000 0x400020 (control_word BigCopy True)) ram snap = Inr (st', ram', snap') \<and>
     limbs_val (limbs_of_words (map (rom_word ram') (block 0x400000 8))) = 1"
proof -
  obtain ram where ram: "from_rom_content 0 [] 8388608 = Inr ram" "length (backing ram) = 2097152"
    "rom.fresh 4 ram" "\<forall>i < 2097152. rom_word ram i = 0" by (rule large_memory)
  obtain snap :: "(DelegationsAndFamiliesCounters, _) SimpleSnapshotter" where
    log: "chunk_space (bivec_holds 64 1) (\<lambda>b. 64 * 1) (0 + 62) 62 snap"
    using large_log by blast
  have snap: "chunk_space (bivec_holds 64 1) (\<lambda>b. 64 * 1) (0 + 17) 17 snap"
    by (rule bivec_log.chunk_space_mono [OF log]) simp_all
  let ?w = "control_word BigCopy True"
  note a = with_args_state [where a = "0x400000" and b = "0x400020" and c = ?w]
  have start: "rom.fresh (unat (st_ts (with_args 0x400000 0x400020 ?w))) ram" using ram(3) unfolding a(2) .
  note x10 = arg_block [where a = "0x400000" and n = 8, OF ram(2), simplified]
    and x11 = arg_block [where a = "0x400020" and n = 8, OF ram(2), simplified]
  have rom: "ROM_BYTE_SIZE \<le> 0x400000" "ROM_BYTE_SIZE \<le> 0x400020"
    "(0x400000 :: u32) mod 32 = 0" "(0x400020 :: u32) mod 32 = 0" "(0 :: nat) + 2 < 2 ^ 64"
    "(0x400000 :: u32) \<noteq> 0x400020"
    by (simp_all add: ROM_BYTE_SIZE_def)
  have "replicate 8 (0 :: u32) = [0, 0, 0, 0, 0, 0, 0, 0]" by (simp add: numeral_eq_Suc)
  then have zeros: "limbs_val (limbs_of_words (map (rom_word ram) (block 0x400020 8))) = 0"
    unfolding x11(3) [OF ram(4)] by (simp add: limb_of_words_def)
  have "big_result BigCopy x 0 (of_bool True) = (1, False)" for x by simp
  then show ?thesis
    using bigint_call_computes [where inner = 64 and outer = 1 and bits = 0 and op = BigCopy and cin = True,
        OF a(1) start snap a(6) rom(5) nat_ruint_documented a(3) rom(1,3) x10(1,2) a(4) rom(2,4) x11(1) rom(6)
          a(5) refl refl] ram(1)
    unfolding zeros prod_eq_iff by (metis fst_conv)
qed

section \<open>The Keccak delegation\<close>

text \<open>
  C21: the 649 small operations, each on at most six words chosen by the control register, started
  with control value 0 on any state, succeed, end with the final control value, and compute the
  permutation as the virtual machine executes it in one step, scratch words included.
\<close>

theorem keccak_operations_permute:
  assumes "length state = 31"
  shows "keccak_small_steps NUM_DELEGATION_CALLS_FOR_KECCAK_F1600 (INITIAL_KECCAK_F1600_CONTROL_VALUE, state) =
    Inr (FINAL_KECCAK_F1600_CONTROL_VALUE, keccak_f1600_impl_ext state)"
  using assms by (rule small_steps_permute)

theorem keccak_operations_permute_witness:
  "keccak_small_steps 649 (0, replicate 31 0) = Inr (1544, keccak_f1600_impl_ext (replicate 31 0))"
  using keccak_operations_permute [of "replicate 31 0"]
  by (simp add: NUM_DELEGATION_CALLS_FOR_KECCAK_F1600_def INITIAL_KECCAK_F1600_CONTROL_VALUE_def
      FINAL_KECCAK_F1600_CONTROL_VALUE_def del: keccak_small_steps.simps)

text \<open>
  C22: a Keccak call of the machine.  The call replaces the 31 limbs of an aligned block above the ROM
  by their permutation, leaves the rest of the memory, takes the control register from its first to
  its last value, and moves program counter and time by 649 cycles; in particular the constant with the
  times of the last accesses is well defined.
\<close>

theorem keccak_call_computes:
  assumes "cycle_at 0 st" "rom.fresh (unat (st_ts st)) ram" "unat (st_ts st) + 2596 < 2 ^ 64"
    and "chunk_space (bivec_holds inner outer) (\<lambda>b. inner * outer) (T + 62) 62 snap"
    and "families_within K (st_counters st)" "K + 1298 < 2 ^ 64"
    and "reg_vals st ! 10 = INITIAL_KECCAK_F1600_CONTROL_VALUE"
    and "reg_vals st ! 11 = x11" "ROM_BYTE_SIZE \<le> x11" "x11 mod 256 = 0" "block_in (length (backing ram)) x11 62"
    and "\<forall>i \<in> set (block x11 62). rom_words bits \<le> i"
  shows "\<exists>st' ram' snap'.
    keccak_special5_call families_counters (simple_snapshotter_ops (bivec_ops inner outer)) (rom_ram_ops bits)
      st ram snap = Inr (st', ram', snap') \<and>
    limbs_of_words (map (rom_word ram') (block x11 62)) =
      keccak_f1600_impl_ext (limbs_of_words (map (rom_word ram) (block x11 62))) \<and>
    (\<forall>i. i \<notin> set (block x11 62) \<longrightarrow> rom_word ram' i = rom_word ram i) \<and>
    reg_vals st' = (reg_vals st)[10 := FINAL_KECCAK_F1600_CONTROL_VALUE] \<and>
    st_pc st' = st_pc st + 2596 \<and> unat (st_ts st') = unat (st_ts st) + 2592"
proof -
  have start: "families_machine.step.cycle_start inner outer T (62 + 0) K st ram snap"
    using assms(1,2,4,5) by (simp add: families_machine.step.cycle_start_def)
  from families_machine.step.keccak_call_effect [where bits = bits, OF start assms(6,3,7-12)]
  show ?thesis by blast
qed

theorem keccak_call_computes_witness:
  "\<exists>ram snap st' ram' snap'. from_rom_content 0 [] 8388608 = Inr ram \<and>
     keccak_special5_call families_counters (simple_snapshotter_ops (bivec_ops 64 1)) (rom_ram_ops 0)
       (with_args 0 0x400000 0) ram snap = Inr (st', ram', snap') \<and> reg_vals st' ! 11 = 0x400000"
proof -
  obtain ram where ram: "from_rom_content 0 [] 8388608 = Inr ram" "length (backing ram) = 2097152"
    "rom.fresh 4 ram" "\<forall>i < 2097152. rom_word ram i = 0" by (rule large_memory)
  obtain snap :: "(DelegationsAndFamiliesCounters, _) SimpleSnapshotter" where
    log: "chunk_space (bivec_holds 64 1) (\<lambda>b. 64 * 1) (0 + 62) 62 snap"
    using large_log by blast
  have snap: "chunk_space (bivec_holds 64 1) (\<lambda>b. 64 * 1) (0 + 62) 62 snap"
    by (rule bivec_log.chunk_space_mono [OF log]) simp_all
  note a = with_args_state [where a = "0" and b = "0x400000" and c = "0"]
  have start: "rom.fresh (unat (st_ts (with_args 0 0x400000 0))) ram"
    "unat (st_ts (with_args 0 0x400000 0)) + 2596 < 2 ^ 64"
    "reg_vals (with_args 0 0x400000 0) ! 10 = INITIAL_KECCAK_F1600_CONTROL_VALUE"
    using ram(3) unfolding a(2,3) by (simp_all add: INITIAL_KECCAK_F1600_CONTROL_VALUE_def)
  note x11 = arg_block [where a = "0x400000" and n = 62, OF ram(2), simplified]
  have rom: "ROM_BYTE_SIZE \<le> 0x400000" "(0x400000 :: u32) mod 256 = 0" "(0 :: nat) + 1298 < 2 ^ 64"
    by (simp_all add: ROM_BYTE_SIZE_def)
  from keccak_call_computes [where inner = 64 and outer = 1 and bits = 0,
      OF a(1) start(1,2) snap a(6) rom(3) start(3) a(4) rom(1,2) x11(1,2)]
  obtain st' ram' snap' where call: "keccak_special5_call families_counters
      (simple_snapshotter_ops (bivec_ops 64 1)) (rom_ram_ops 0) (with_args 0 0x400000 0) ram snap =
      Inr (st', ram', snap')"
    "reg_vals st' = (reg_vals (with_args 0 0x400000 0))[10 := FINAL_KECCAK_F1600_CONTROL_VALUE]" by blast
  have "reg_vals st' ! 11 = 0x400000" unfolding call(2) using a(4) by simp
  then show ?thesis using ram(1) call(1) by blast
qed

end
