(* ===== verification/Witness_Data.thy ===== *)
theory Witness_Data
  imports VM_State VM_Keccak
begin

text \<open>
  The records of execution that the circuits prove: one per cycle (\<open>NonMemoryOpcodeTracingDataWithTimestamp\<close> and
  \<open>MemoryOpcodeTracingDataWithTimestamp\<close> of \<open>risc_v_simulator/src/machine_mode_only_unrolled/mod.rs\<close>) and one per
  delegation call (\<open>riscv_transpiler/src/witness/delegation/mod.rs\<close>), and the tracers of
  \<open>riscv_transpiler/src/witness/mod.rs\<close> that write them into destination buffers.
\<close>

section \<open>Timestamps in 48 bits\<close>

datatype TimestampData = TimestampData (limb_0: u16) (limb_1: u16) (limb_2: u16)

definition from_scalar :: "u64 \<Rightarrow> TimestampData" where
  "from_scalar ts = TimestampData (ucast ts) (ucast (drop_bit 16 ts)) (ucast (drop_bit 32 ts))"

definition as_scalar :: "TimestampData \<Rightarrow> u64" where
  "as_scalar t = ucast (limb_0 t) OR push_bit 16 (ucast (limb_1 t)) OR push_bit 32 (ucast (limb_2 t))"

lemma as_scalar_from_scalar: "as_scalar (from_scalar ts) = take_bit 48 ts"
proof (rule bit_word_eqI)
  fix n assume "n < LENGTH(64)"
  consider "n < 16" | "16 \<le> n" "n < 32" | "32 \<le> n" "n < 48" | "48 \<le> n" by linarith
  then show "bit (as_scalar (from_scalar ts)) n = bit (take_bit 48 ts) n"
    by cases (auto simp: as_scalar_def from_scalar_def bit_simps dest: bit_imp_le_length)
qed

lemma as_scalar_small: "unat ts < 2 ^ 48 \<Longrightarrow> as_scalar (from_scalar ts) = ts"
  by (simp add: as_scalar_from_scalar word_unat_eq_iff unat_take_bit)

section \<open>Records of a cycle\<close>

record NonMemoryOpcodeTracingData =
  nm_initial_pc :: u32
  nm_rs1_value :: u32
  nm_rs2_value :: u32
  nm_rd_old_value :: u32
  nm_rd_value :: u32
  nm_new_pc :: u32
  nm_delegation_type :: u16

record LoadOpcodeTracingData =
  ld_initial_pc :: u32
  ld_rs1_value :: u32
  ld_aligned_ram_address :: u32
  ld_aligned_ram_read_value :: u32
  ld_rd_old_value :: u32
  ld_rd_value :: u32

record StoreOpcodeTracingData =
  sd_initial_pc :: u32
  sd_rs1_value :: u32
  sd_aligned_ram_address :: u32
  sd_aligned_ram_old_value :: u32
  sd_rs2_value :: u32
  sd_aligned_ram_write_value :: u32

definition MEM_LOAD_TRACE_DATA_MARKER :: u16 where "MEM_LOAD_TRACE_DATA_MARKER = 0"
definition MEM_STORE_TRACE_DATA_MARKER :: u16 where
  "MEM_STORE_TRACE_DATA_MARKER = MEM_LOAD_TRACE_DATA_MARKER + 1"

text \<open>The two \<open>transmute\<close>s between the records of six words: field by field, in the order of the fields.\<close>

definition store_as_load :: "StoreOpcodeTracingData \<Rightarrow> LoadOpcodeTracingData" where
  "store_as_load s =
     \<lparr>ld_initial_pc = sd_initial_pc s, ld_rs1_value = sd_rs1_value s,
      ld_aligned_ram_address = sd_aligned_ram_address s,
      ld_aligned_ram_read_value = sd_aligned_ram_old_value s, ld_rd_old_value = sd_rs2_value s,
      ld_rd_value = sd_aligned_ram_write_value s\<rparr>"

definition load_as_store :: "LoadOpcodeTracingData \<Rightarrow> StoreOpcodeTracingData" where
  "load_as_store l =
     \<lparr>sd_initial_pc = ld_initial_pc l, sd_rs1_value = ld_rs1_value l,
      sd_aligned_ram_address = ld_aligned_ram_address l,
      sd_aligned_ram_old_value = ld_aligned_ram_read_value l, sd_rs2_value = ld_rd_old_value l,
      sd_aligned_ram_write_value = ld_rd_value l\<rparr>"

lemma load_as_store_as_load [simp]: "load_as_store (store_as_load s) = s"
  by (simp add: load_as_store_def store_as_load_def)

record NonMemoryOpcodeTracingDataWithTimestamp =
  nmt_opcode_data :: NonMemoryOpcodeTracingData
  nmt_rs1_read_timestamp :: TimestampData
  nmt_rs2_read_timestamp :: TimestampData
  nmt_rd_read_timestamp :: TimestampData
  nmt_cycle_timestamp :: TimestampData

record MemoryOpcodeTracingDataWithTimestamp =
  mt_opcode_data :: LoadOpcodeTracingData
  mt_discr :: u16
  mt_rs1_read_timestamp :: TimestampData
  mt_rs2_or_ram_read_timestamp :: TimestampData
  mt_rd_or_ram_read_timestamp :: TimestampData
  mt_cycle_timestamp :: TimestampData

datatype UnifiedOpcodeTracingDataWithTimestamp =
    NonMem NonMemoryOpcodeTracingDataWithTimestamp
  | Mem MemoryOpcodeTracingDataWithTimestamp

subsection \<open>Accessors\<close>

fun u_initial_pc :: "UnifiedOpcodeTracingDataWithTimestamp \<Rightarrow> u32" where
  "u_initial_pc (NonMem inner) = nm_initial_pc (nmt_opcode_data inner)"
| "u_initial_pc (Mem inner) = ld_initial_pc (mt_opcode_data inner)"

fun u_final_pc :: "UnifiedOpcodeTracingDataWithTimestamp \<Rightarrow> u32" where
  "u_final_pc (NonMem inner) = nm_new_pc (nmt_opcode_data inner)"
| "u_final_pc (Mem inner) = ld_initial_pc (mt_opcode_data inner) + 4"

text \<open>A memory record is a load or, by a debug assertion, a store.\<close>

definition mem_case :: "MemoryOpcodeTracingDataWithTimestamp \<Rightarrow> 'a \<Rightarrow> 'a \<Rightarrow> 'a res" where
  "mem_case inner load store =
     (if mt_discr inner = MEM_LOAD_TRACE_DATA_MARKER then Inr load
      else bindE (guardE (mt_discr inner = MEM_STORE_TRACE_DATA_MARKER) DebugAssertFailed) (\<lambda>_. Inr store))"

fun rs2_is_reg :: "UnifiedOpcodeTracingDataWithTimestamp \<Rightarrow> bool res" where
  "rs2_is_reg (NonMem inner) = Inr True"
| "rs2_is_reg (Mem inner) = mem_case inner False True"

fun rd_is_reg :: "UnifiedOpcodeTracingDataWithTimestamp \<Rightarrow> bool res" where
  "rd_is_reg (NonMem inner) = Inr True"
| "rd_is_reg (Mem inner) = mem_case inner True False"

fun u_delegation_type :: "UnifiedOpcodeTracingDataWithTimestamp \<Rightarrow> u16" where
  "u_delegation_type (NonMem inner) = nm_delegation_type (nmt_opcode_data inner)"
| "u_delegation_type (Mem inner) = 0"

fun rs1_read_value :: "UnifiedOpcodeTracingDataWithTimestamp \<Rightarrow> u32" where
  "rs1_read_value (NonMem inner) = nm_rs1_value (nmt_opcode_data inner)"
| "rs1_read_value (Mem inner) = ld_rs1_value (mt_opcode_data inner)"

fun rs2_or_mem_load_read_value :: "UnifiedOpcodeTracingDataWithTimestamp \<Rightarrow> u32 res" where
  "rs2_or_mem_load_read_value (NonMem inner) = Inr (nm_rs2_value (nmt_opcode_data inner))"
| "rs2_or_mem_load_read_value (Mem inner) =
     mem_case inner (ld_aligned_ram_read_value (mt_opcode_data inner))
       (sd_rs2_value (load_as_store (mt_opcode_data inner)))"

fun rd_or_mem_store_read_value :: "UnifiedOpcodeTracingDataWithTimestamp \<Rightarrow> u32 res" where
  "rd_or_mem_store_read_value (NonMem inner) = Inr (nm_rd_old_value (nmt_opcode_data inner))"
| "rd_or_mem_store_read_value (Mem inner) =
     mem_case inner (ld_rd_old_value (mt_opcode_data inner))
       (sd_aligned_ram_old_value (load_as_store (mt_opcode_data inner)))"

fun rd_or_mem_store_write_value :: "UnifiedOpcodeTracingDataWithTimestamp \<Rightarrow> u32 res" where
  "rd_or_mem_store_write_value (NonMem inner) = Inr (nm_rd_value (nmt_opcode_data inner))"
| "rd_or_mem_store_write_value (Mem inner) =
     mem_case inner (ld_rd_value (mt_opcode_data inner))
       (sd_aligned_ram_write_value (load_as_store (mt_opcode_data inner)))"

fun u_rs1_read_timestamp :: "UnifiedOpcodeTracingDataWithTimestamp \<Rightarrow> u64" where
  "u_rs1_read_timestamp (NonMem inner) = as_scalar (nmt_rs1_read_timestamp inner)"
| "u_rs1_read_timestamp (Mem inner) = as_scalar (mt_rs1_read_timestamp inner)"

fun rs2_or_mem_load_read_timestamp :: "UnifiedOpcodeTracingDataWithTimestamp \<Rightarrow> u64" where
  "rs2_or_mem_load_read_timestamp (NonMem inner) = as_scalar (nmt_rs2_read_timestamp inner)"
| "rs2_or_mem_load_read_timestamp (Mem inner) = as_scalar (mt_rs2_or_ram_read_timestamp inner)"

fun rd_or_mem_store_read_timestamp :: "UnifiedOpcodeTracingDataWithTimestamp \<Rightarrow> u64" where
  "rd_or_mem_store_read_timestamp (NonMem inner) = as_scalar (nmt_rd_read_timestamp inner)"
| "rd_or_mem_store_read_timestamp (Mem inner) = as_scalar (mt_rd_or_ram_read_timestamp inner)"

fun u_cycle_timestamp :: "UnifiedOpcodeTracingDataWithTimestamp \<Rightarrow> u64" where
  "u_cycle_timestamp (NonMem inner) = as_scalar (nmt_cycle_timestamp inner)"
| "u_cycle_timestamp (Mem inner) = as_scalar (mt_cycle_timestamp inner)"

text \<open>The methods of the memory record; a discriminant that is neither panics.\<close>

definition by_discr :: "MemoryOpcodeTracingDataWithTimestamp \<Rightarrow> 'a res \<Rightarrow> 'a res \<Rightarrow> 'a res" where
  "by_discr m store load =
     (if mt_discr m = MEM_STORE_TRACE_DATA_MARKER then store
      else if mt_discr m = MEM_LOAD_TRACE_DATA_MARKER then load else Inl Panic)"

definition as_load_data :: "MemoryOpcodeTracingDataWithTimestamp \<Rightarrow> LoadOpcodeTracingData res" where
  "as_load_data m = by_discr m (Inl Panic) (Inr (mt_opcode_data m))"

definition as_store_data :: "MemoryOpcodeTracingDataWithTimestamp \<Rightarrow> StoreOpcodeTracingData res" where
  "as_store_data m = by_discr m (Inr (load_as_store (mt_opcode_data m))) (Inl Panic)"

definition mt_initial_pc :: "MemoryOpcodeTracingDataWithTimestamp \<Rightarrow> u32 res" where
  "mt_initial_pc m =
     by_discr m (Inr (sd_initial_pc (load_as_store (mt_opcode_data m)))) (Inr (ld_initial_pc (mt_opcode_data m)))"

definition rs2_or_ram_read_value :: "MemoryOpcodeTracingDataWithTimestamp \<Rightarrow> u32 res" where
  "rs2_or_ram_read_value m =
     by_discr m (Inr (sd_rs2_value (load_as_store (mt_opcode_data m))))
       (Inr (ld_aligned_ram_read_value (mt_opcode_data m)))"

definition ram_address :: "MemoryOpcodeTracingDataWithTimestamp \<Rightarrow> u32 res" where
  "ram_address m =
     by_discr m (Inr (sd_aligned_ram_address (load_as_store (mt_opcode_data m))))
       (Inr (ld_aligned_ram_address (mt_opcode_data m)))"

definition rd_or_ram_read_value :: "MemoryOpcodeTracingDataWithTimestamp \<Rightarrow> u32 res" where
  "rd_or_ram_read_value m =
     by_discr m (bindE (as_store_data m) (\<lambda>s. Inr (sd_aligned_ram_old_value s)))
       (Inr (ld_rd_old_value (mt_opcode_data m)))"

definition rd_or_ram_write_value :: "MemoryOpcodeTracingDataWithTimestamp \<Rightarrow> u32 res" where
  "rd_or_ram_write_value m =
     by_discr m (bindE (as_store_data m) (\<lambda>s. Inr (sd_aligned_ram_write_value s)))
       (Inr (ld_rd_value (mt_opcode_data m)))"

section \<open>Records of a delegation\<close>

record RegisterOrIndirectReadData =
  rr_read_value :: u32
  rr_timestamp :: TimestampData

record RegisterOrIndirectReadWriteData =
  rw_read_value :: u32
  rw_write_value :: u32
  rw_timestamp :: TimestampData

text \<open>The constant parameters of the type are the lengths of the four lists.\<close>

record DelegationWitness =
  dw_write_timestamp :: u64
  dw_reg_accesses :: "RegisterOrIndirectReadWriteData list"
  dw_indirect_reads :: "RegisterOrIndirectReadData list"
  dw_indirect_writes :: "RegisterOrIndirectReadWriteData list"
  dw_variables_offsets :: "u16 list"

text \<open>The empty witness of a type with the given sizes.\<close>

definition dw_empty :: "nat \<Rightarrow> nat \<Rightarrow> nat \<Rightarrow> nat \<Rightarrow> DelegationWitness" where
  "dw_empty reg_accesses indirect_reads indirect_writes variable_offsets =
     \<lparr>dw_write_timestamp = 0,
      dw_reg_accesses = replicate reg_accesses
        \<lparr>rw_read_value = 0, rw_write_value = 0, rw_timestamp = TimestampData 0 0 0\<rparr>,
      dw_indirect_reads = replicate indirect_reads \<lparr>rr_read_value = 0, rr_timestamp = TimestampData 0 0 0\<rparr>,
      dw_indirect_writes = replicate indirect_writes
        \<lparr>rw_read_value = 0, rw_write_value = 0, rw_timestamp = TimestampData 0 0 0\<rparr>,
      dw_variables_offsets = replicate variable_offsets 0\<rparr>"

section \<open>Layouts of the delegations\<close>

text \<open>\<open>DelegationAbiDescription\<close>: which words behind which of the 32 registers a delegation reads and
  which it also writes, as ranges \<open>(start, end)\<close>.\<close>

record DelegationAbiDescription =
  DELEGATION_TYPE :: u16
  BASE_REGISTER :: nat
  INDIRECT_READS_DESCRIPTION :: "(nat \<times> nat) list"
  INDIRECT_WRITES_DESCRIPTION :: "(nat \<times> nat) list"
  VARIABLE_OFFSETS_DESCRIPTION :: "u16 list"

definition range_is_empty :: "nat \<times> nat \<Rightarrow> bool" where
  "range_is_empty r \<longleftrightarrow> \<not> fst r < snd r"

definition use_read_indirects :: "DelegationAbiDescription \<Rightarrow> nat \<Rightarrow> bool res" where
  "use_read_indirects D reg_idx =
     bindE (index (INDIRECT_READS_DESCRIPTION D) reg_idx) (\<lambda>reads.
     bindE (index (INDIRECT_WRITES_DESCRIPTION D) reg_idx) (\<lambda>writes.
     if range_is_empty reads
     then bindE (guardE (\<not> range_is_empty writes) DebugAssertFailed) (\<lambda>_. Inr False)
     else bindE (guardE (range_is_empty writes) DebugAssertFailed) (\<lambda>_. Inr True)))"

definition BIGINT_X10_NUM_WRITES :: nat where "BIGINT_X10_NUM_WRITES = 8"
definition BIGINT_X11_NUM_READS :: nat where "BIGINT_X11_NUM_READS = 8"
definition NUM_BIGINT_REGISTER_ACCESSES :: nat where "NUM_BIGINT_REGISTER_ACCESSES = 3"
definition NUM_BIGINT_VARIABLE_OFFSETS :: nat where "NUM_BIGINT_VARIABLE_OFFSETS = 0"
definition BLAKE2S_X10_NUM_WRITES :: nat where "BLAKE2S_X10_NUM_WRITES = 8 + 16"
definition BLAKE2S_X11_NUM_READS :: nat where "BLAKE2S_X11_NUM_READS = 16"
definition NUM_BLAKE2S_REGISTER_ACCESSES :: nat where "NUM_BLAKE2S_REGISTER_ACCESSES = 3"
definition NUM_BLAKE2S_VARIABLE_OFFSETS :: nat where "NUM_BLAKE2S_VARIABLE_OFFSETS = 0"
definition NUM_X10_INDIRECT_U64_WORDS :: nat where "NUM_X10_INDIRECT_U64_WORDS = 6"
definition KECCAK_SPECIAL5_NUM_VARIABLE_OFFSETS :: nat where
  "KECCAK_SPECIAL5_NUM_VARIABLE_OFFSETS = NUM_X10_INDIRECT_U64_WORDS"
definition NUM_KECCAK_SPECIAL5_REGISTER_ACCESSES :: nat where "NUM_KECCAK_SPECIAL5_REGISTER_ACCESSES = 2"
definition NUM_KECCAK_SPECIAL5_INDIRECT_READS :: nat where "NUM_KECCAK_SPECIAL5_INDIRECT_READS = 0"
definition KECCAK_SPECIAL5_X11_NUM_WRITES :: nat where
  "KECCAK_SPECIAL5_X11_NUM_WRITES = NUM_X10_INDIRECT_U64_WORDS * 2"

lemmas witness_sizes = BIGINT_X10_NUM_WRITES_def BIGINT_X11_NUM_READS_def NUM_BIGINT_REGISTER_ACCESSES_def
  NUM_BIGINT_VARIABLE_OFFSETS_def BLAKE2S_X10_NUM_WRITES_def BLAKE2S_X11_NUM_READS_def
  NUM_BLAKE2S_REGISTER_ACCESSES_def NUM_BLAKE2S_VARIABLE_OFFSETS_def NUM_X10_INDIRECT_U64_WORDS_def
  KECCAK_SPECIAL5_NUM_VARIABLE_OFFSETS_def NUM_KECCAK_SPECIAL5_REGISTER_ACCESSES_def
  NUM_KECCAK_SPECIAL5_INDIRECT_READS_def KECCAK_SPECIAL5_X11_NUM_WRITES_def

definition BigintAbiDescription :: DelegationAbiDescription where
  "BigintAbiDescription =
     \<lparr>DELEGATION_TYPE = ucast BIGINT_OPS_WITH_CONTROL_CSR_REGISTER, BASE_REGISTER = 10,
      INDIRECT_READS_DESCRIPTION = (replicate 32 (0, 0))[11 := (0, BIGINT_X11_NUM_READS)],
      INDIRECT_WRITES_DESCRIPTION = (replicate 32 (0, 0))[10 := (0, BIGINT_X10_NUM_WRITES)],
      VARIABLE_OFFSETS_DESCRIPTION = []\<rparr>"

definition Blake2sRoundFunctionAbiDescription :: DelegationAbiDescription where
  "Blake2sRoundFunctionAbiDescription =
     \<lparr>DELEGATION_TYPE = ucast BLAKE2S_DELEGATION_CSR_REGISTER, BASE_REGISTER = 10,
      INDIRECT_READS_DESCRIPTION = (replicate 32 (0, 0))[11 := (0, BLAKE2S_X11_NUM_READS)],
      INDIRECT_WRITES_DESCRIPTION = (replicate 32 (0, 0))[10 := (0, BLAKE2S_X10_NUM_WRITES)],
      VARIABLE_OFFSETS_DESCRIPTION = []\<rparr>"

definition KeccakSpecial5AbiDescription :: DelegationAbiDescription where
  "KeccakSpecial5AbiDescription =
     \<lparr>DELEGATION_TYPE = ucast KECCAK_SPECIAL5_CSR_REGISTER, BASE_REGISTER = 10,
      INDIRECT_READS_DESCRIPTION = replicate 32 (0, 0),
      INDIRECT_WRITES_DESCRIPTION = (replicate 32 (0, 0))[11 := (0, KECCAK_SPECIAL5_X11_NUM_WRITES)],
      VARIABLE_OFFSETS_DESCRIPTION = replicate KECCAK_SPECIAL5_NUM_VARIABLE_OFFSETS 0\<rparr>"

end
