(* ===== verification/Witness_Tracer.thy ===== *)
theory Witness_Tracer
  imports Witness_Data
begin

text \<open>
  The tracers of \<open>riscv_transpiler/src/witness/mod.rs\<close>.  A destination holder has slices of a larger
  buffer and fills them in order; when they are full, further records are dropped, which is how a
  replay of a chunk stops at the end of its circuit.
\<close>

section \<open>The trait\<close>

text \<open>The constant parameters of the methods are arguments; the sizes of a delegation's witness are those of
  its lists.\<close>

record 't tracer_ops =
  t_needs_family :: "circuit_family \<Rightarrow> 't \<Rightarrow> bool"
  t_needs_delegation :: "u16 \<Rightarrow> 't \<Rightarrow> bool"
  t_write_non_memory :: "circuit_family \<Rightarrow> NonMemoryOpcodeTracingDataWithTimestamp \<Rightarrow> 't \<Rightarrow> 't res"
  t_write_memory :: "circuit_family \<Rightarrow> MemoryOpcodeTracingDataWithTimestamp \<Rightarrow> 't \<Rightarrow> 't res"
  t_write_delegation :: "u16 \<Rightarrow> DelegationWitness \<Rightarrow> 't \<Rightarrow> 't res"

definition unit_tracer :: "unit tracer_ops" where
  "unit_tracer =
     \<lparr>t_needs_family = (\<lambda>family t. True), t_needs_delegation = (\<lambda>delegation_type t. True),
      t_write_non_memory = (\<lambda>family data t. Inr t), t_write_memory = (\<lambda>family data t. Inr t),
      t_write_delegation = (\<lambda>delegation_type data t. Inr t)\<rparr>"

section \<open>Destination holders\<close>

text \<open>\<open>buffers\<close> are the slices that are left; \<open>filled\<close> is the memory in front of them, in order, which the
  holder no longer has but its owner will read.\<close>

record 'e DestinationHolder =
  dh_filled :: "'e list"
  dh_buffers :: "'e list list"

text \<open>The body all holders share: write through the pointer to the first slice, which must not be empty, and
  drop the slice when nothing is left of it.\<close>

definition write_to_buffers :: "'e \<Rightarrow> 'e DestinationHolder \<Rightarrow> 'e DestinationHolder res" where
  "write_to_buffers data holder =
     (case dh_buffers holder of
        [] \<Rightarrow> Inr holder
      | first # rest \<Rightarrow>
          bindE (guardE (0 < length first) UndefinedBehaviour) (\<lambda>_.
          let first = tl first
          in Inr (holder\<lparr>dh_filled := dh_filled holder @ [data],
               dh_buffers := if first = [] then rest else first # rest\<rparr>)))"

definition delegation_holder ::
  "u16 \<Rightarrow> nat \<Rightarrow> nat \<Rightarrow> nat \<Rightarrow> nat \<Rightarrow> DelegationWitness DestinationHolder tracer_ops" where
  "delegation_holder delegation_type reg_accesses indirect_reads indirect_writes variable_offsets =
     \<lparr>t_needs_family = (\<lambda>family t. False),
      t_needs_delegation = (\<lambda>delegation_type_t t. delegation_type_t = delegation_type),
      t_write_non_memory = (\<lambda>family data t. Inr t),
      t_write_memory = (\<lambda>family data t. Inr t),
      t_write_delegation = (\<lambda>delegation_type_t data t.
        if delegation_type = delegation_type_t
        then bindE (guardE (reg_accesses = length (dw_reg_accesses data)) DebugAssertFailed) (\<lambda>_.
             bindE (guardE (indirect_reads = length (dw_indirect_reads data)) DebugAssertFailed) (\<lambda>_.
             bindE (guardE (indirect_writes = indirect_writes) DebugAssertFailed) (\<lambda>_.
             bindE (guardE (variable_offsets = length (dw_variables_offsets data)) DebugAssertFailed) (\<lambda>_.
             write_to_buffers data t))))
        else Inr t)\<rparr>"

definition bigint_holder :: "DelegationWitness DestinationHolder tracer_ops" where
  "bigint_holder = delegation_holder (ucast BIGINT_OPS_WITH_CONTROL_CSR_REGISTER) NUM_BIGINT_REGISTER_ACCESSES
     BIGINT_X11_NUM_READS BIGINT_X10_NUM_WRITES NUM_BIGINT_VARIABLE_OFFSETS"

definition blake_holder :: "DelegationWitness DestinationHolder tracer_ops" where
  "blake_holder = delegation_holder (ucast BLAKE2S_DELEGATION_CSR_REGISTER) NUM_BLAKE2S_REGISTER_ACCESSES
     BLAKE2S_X11_NUM_READS BLAKE2S_X10_NUM_WRITES NUM_BLAKE2S_VARIABLE_OFFSETS"

definition keccak_holder :: "DelegationWitness DestinationHolder tracer_ops" where
  "keccak_holder = delegation_holder (ucast KECCAK_SPECIAL5_CSR_REGISTER) NUM_KECCAK_SPECIAL5_REGISTER_ACCESSES
     NUM_KECCAK_SPECIAL5_INDIRECT_READS KECCAK_SPECIAL5_X11_NUM_WRITES KECCAK_SPECIAL5_NUM_VARIABLE_OFFSETS"

definition non_mem_holder ::
  "circuit_family \<Rightarrow> NonMemoryOpcodeTracingDataWithTimestamp DestinationHolder tracer_ops" where
  "non_mem_holder family =
     \<lparr>t_needs_family = (\<lambda>family_t t. family_t = family),
      t_needs_delegation = (\<lambda>delegation_type t. False),
      t_write_non_memory = (\<lambda>family_t data t. if family = family_t then write_to_buffers data t else Inr t),
      t_write_memory = (\<lambda>family_t data t. Inr t),
      t_write_delegation = (\<lambda>delegation_type data t. Inr t)\<rparr>"

definition mem_holder ::
  "circuit_family \<Rightarrow> MemoryOpcodeTracingDataWithTimestamp DestinationHolder tracer_ops" where
  "mem_holder family =
     \<lparr>t_needs_family = (\<lambda>family_t t. family_t = family),
      t_needs_delegation = (\<lambda>delegation_type t. False),
      t_write_non_memory = (\<lambda>family_t data t. Inr t),
      t_write_memory = (\<lambda>family_t data t. if family = family_t then write_to_buffers data t else Inr t),
      t_write_delegation = (\<lambda>delegation_type data t. Inr t)\<rparr>"

definition unified_holder :: "UnifiedOpcodeTracingDataWithTimestamp DestinationHolder tracer_ops" where
  "unified_holder =
     \<lparr>t_needs_family = (\<lambda>family_t t. True),
      t_needs_delegation = (\<lambda>delegation_type t. False),
      t_write_non_memory = (\<lambda>family_t data t. write_to_buffers (NonMem data) t),
      t_write_memory = (\<lambda>family_t data t. write_to_buffers (Mem data) t),
      t_write_delegation = (\<lambda>delegation_type data t. Inr t)\<rparr>"

text \<open>The holders of uninitialised buffers: the elements are \<open>MaybeUninit\<close>, and a written one is \<open>Some\<close>.\<close>

definition uninit_delegation_holder ::
  "u16 \<Rightarrow> nat \<Rightarrow> nat \<Rightarrow> nat \<Rightarrow> nat \<Rightarrow> DelegationWitness option DestinationHolder tracer_ops" where
  "uninit_delegation_holder delegation_type reg_accesses indirect_reads indirect_writes variable_offsets =
     \<lparr>t_needs_family = (\<lambda>family t. False),
      t_needs_delegation = (\<lambda>delegation_type_t t. delegation_type_t = delegation_type),
      t_write_non_memory = (\<lambda>family data t. Inr t),
      t_write_memory = (\<lambda>family data t. Inr t),
      t_write_delegation = (\<lambda>delegation_type_t data t.
        if delegation_type = delegation_type_t
        then bindE (guardE (reg_accesses = length (dw_reg_accesses data)) DebugAssertFailed) (\<lambda>_.
             bindE (guardE (indirect_reads = length (dw_indirect_reads data)) DebugAssertFailed) (\<lambda>_.
             bindE (guardE (indirect_writes = indirect_writes) DebugAssertFailed) (\<lambda>_.
             bindE (guardE (variable_offsets = length (dw_variables_offsets data)) DebugAssertFailed) (\<lambda>_.
             write_to_buffers (Some data) t))))
        else Inr t)\<rparr>"

definition uninit_bigint_holder :: "DelegationWitness option DestinationHolder tracer_ops" where
  "uninit_bigint_holder = uninit_delegation_holder (ucast BIGINT_OPS_WITH_CONTROL_CSR_REGISTER) NUM_BIGINT_REGISTER_ACCESSES
     BIGINT_X11_NUM_READS BIGINT_X10_NUM_WRITES NUM_BIGINT_VARIABLE_OFFSETS"

definition uninit_blake_holder :: "DelegationWitness option DestinationHolder tracer_ops" where
  "uninit_blake_holder = uninit_delegation_holder (ucast BLAKE2S_DELEGATION_CSR_REGISTER) NUM_BLAKE2S_REGISTER_ACCESSES
     BLAKE2S_X11_NUM_READS BLAKE2S_X10_NUM_WRITES NUM_BLAKE2S_VARIABLE_OFFSETS"

definition uninit_keccak_holder :: "DelegationWitness option DestinationHolder tracer_ops" where
  "uninit_keccak_holder = uninit_delegation_holder (ucast KECCAK_SPECIAL5_CSR_REGISTER) NUM_KECCAK_SPECIAL5_REGISTER_ACCESSES
     NUM_KECCAK_SPECIAL5_INDIRECT_READS KECCAK_SPECIAL5_X11_NUM_WRITES KECCAK_SPECIAL5_NUM_VARIABLE_OFFSETS"

definition uninit_non_mem_holder ::
  "circuit_family \<Rightarrow> NonMemoryOpcodeTracingDataWithTimestamp option DestinationHolder tracer_ops" where
  "uninit_non_mem_holder family =
     \<lparr>t_needs_family = (\<lambda>family_t t. family_t = family),
      t_needs_delegation = (\<lambda>delegation_type t. False),
      t_write_non_memory = (\<lambda>family_t data t.
        if family = family_t then write_to_buffers (Some data) t else Inr t),
      t_write_memory = (\<lambda>family_t data t. Inr t),
      t_write_delegation = (\<lambda>delegation_type data t. Inr t)\<rparr>"

definition uninit_mem_holder ::
  "circuit_family \<Rightarrow> MemoryOpcodeTracingDataWithTimestamp option DestinationHolder tracer_ops" where
  "uninit_mem_holder family =
     \<lparr>t_needs_family = (\<lambda>family_t t. family_t = family),
      t_needs_delegation = (\<lambda>delegation_type t. False),
      t_write_non_memory = (\<lambda>family_t data t. Inr t),
      t_write_memory = (\<lambda>family_t data t.
        if family = family_t then write_to_buffers (Some data) t else Inr t),
      t_write_delegation = (\<lambda>delegation_type data t. Inr t)\<rparr>"

definition uninit_unified_holder ::
  "UnifiedOpcodeTracingDataWithTimestamp option DestinationHolder tracer_ops" where
  "uninit_unified_holder =
     \<lparr>t_needs_family = (\<lambda>family_t t. True),
      t_needs_delegation = (\<lambda>delegation_type t. False),
      t_write_non_memory = (\<lambda>family_t data t. write_to_buffers (Some (NonMem data)) t),
      t_write_memory = (\<lambda>family_t data t. write_to_buffers (Some (Mem data)) t),
      t_write_delegation = (\<lambda>delegation_type data t. Inr t)\<rparr>"

text \<open>\<open>make_tracer\<close> and \<open>make_uninit_tracer\<close> of the constructors.\<close>

definition make_holder :: "'e list list \<Rightarrow> 'e DestinationHolder" where
  "make_holder buffers = \<lparr>dh_filled = [], dh_buffers = buffers\<rparr>"

section \<open>The contract of a tracer\<close>

text \<open>\<open>good t xs\<close>: the records \<open>xs\<close> were traced so far and the tracer can take more.  A record is kept,
  tagged by what it is, if the tracer asks for its kind.\<close>

datatype traced =
    NonMemOf circuit_family NonMemoryOpcodeTracingDataWithTimestamp
  | MemOf circuit_family MemoryOpcodeTracingDataWithTimestamp
  | DelegationOf u16 DelegationWitness

text \<open>The sizes the circuits fix for the delegations.\<close>

definition witness_fits :: "u16 \<Rightarrow> DelegationWitness \<Rightarrow> bool" where
  "witness_fits delegation_type data \<longleftrightarrow>
     (length (dw_reg_accesses data), length (dw_indirect_reads data), length (dw_indirect_writes data),
      length (dw_variables_offsets data)) =
     (if delegation_type = ucast BIGINT_OPS_WITH_CONTROL_CSR_REGISTER then (3, 8, 8, 0)
      else if delegation_type = ucast BLAKE2S_DELEGATION_CSR_REGISTER then (3, 16, 24, 0)
      else (2, 0, 12, 6))"

locale witness_tracer =
  fixes T :: "'t tracer_ops" and holds :: "'t \<Rightarrow> traced list \<Rightarrow> bool"
    and takes_family :: "circuit_family \<Rightarrow> bool" and takes_delegation :: "u16 \<Rightarrow> bool"
  assumes needs_family: "holds t xs \<Longrightarrow> t_needs_family T fam t = takes_family fam"
    and needs_delegation: "holds t xs \<Longrightarrow> t_needs_delegation T dt t = takes_delegation dt"
    and non_memory: "holds t xs \<Longrightarrow> takes_family fam \<Longrightarrow>
      \<exists>t'. t_write_non_memory T fam nm t = Inr t' \<and> holds t' (xs @ [NonMemOf fam nm])"
    and memory: "holds t xs \<Longrightarrow> takes_family fam \<Longrightarrow>
      \<exists>t'. t_write_memory T fam m t = Inr t' \<and> holds t' (xs @ [MemOf fam m])"
    and delegation: "holds t xs \<Longrightarrow> takes_delegation dt \<Longrightarrow> witness_fits dt dw \<Longrightarrow>
      \<exists>t'. t_write_delegation T dt dw t = Inr t' \<and> holds t' (xs @ [DelegationOf dt dw])"

section \<open>The tracers satisfy the contract\<close>

interpretation unit_trace: witness_tracer unit_tracer "\<lambda>t xs. True" "\<lambda>fam. True" "\<lambda>dt. True"
  by unfold_locales (simp_all add: unit_tracer_def)

text \<open>A holder has kept the first of the records \<open>es\<close>, as many as fit.\<close>

definition holder_keeps :: "nat \<Rightarrow> 'e list \<Rightarrow> 'e DestinationHolder \<Rightarrow> bool" where
  "holder_keeps capacity es h \<longleftrightarrow>
     dh_filled h = take capacity es \<and> [] \<notin> set (dh_buffers h) \<and>
     length (dh_filled h) + length (concat (dh_buffers h)) = capacity"

lemma make_holder_keeps:
  "[] \<notin> set buffers \<Longrightarrow> holder_keeps (length (concat buffers)) [] (make_holder buffers)"
  by (simp add: holder_keeps_def make_holder_def)

lemma write_keeps:
  assumes "holder_keeps n es h"
  shows "\<exists>h'. write_to_buffers e h = Inr h' \<and> holder_keeps n (es @ [e]) h'"
proof -
  have h: "dh_filled h = take n es" "[] \<notin> set (dh_buffers h)"
    "length (dh_filled h) + length (concat (dh_buffers h)) = n"
    using assms unfolding holder_keeps_def by blast+
  have l: "length (dh_filled h) = min (length es) n" unfolding h(1) by simp
  show ?thesis
  proof (cases "dh_buffers h")
    case Nil
    with h(3) l have "n \<le> length es" by simp
    then show ?thesis using assms Nil by (simp add: holder_keeps_def write_to_buffers_def)
  next
    case (Cons first rest)
    then obtain x first' where f: "first = x # first'" using h(2) by (cases first) auto
    with h(3) l Cons have "length es < n" by simp
    then show ?thesis using h Cons f by (auto simp: holder_keeps_def write_to_buffers_def Let_def)
  qed
qed

text \<open>The records a holder is for.\<close>

definition delegations_of :: "u16 \<Rightarrow> traced list \<Rightarrow> DelegationWitness list" where
  "delegations_of dt xs =
     concat (map (\<lambda>x. case x of DelegationOf d w \<Rightarrow> if d = dt then [w] else [] | _ \<Rightarrow> []) xs)"

definition non_mems_of :: "circuit_family \<Rightarrow> traced list \<Rightarrow> NonMemoryOpcodeTracingDataWithTimestamp list" where
  "non_mems_of fam xs =
     concat (map (\<lambda>x. case x of NonMemOf f r \<Rightarrow> if f = fam then [r] else [] | _ \<Rightarrow> []) xs)"

definition mems_of :: "circuit_family \<Rightarrow> traced list \<Rightarrow> MemoryOpcodeTracingDataWithTimestamp list" where
  "mems_of fam xs =
     concat (map (\<lambda>x. case x of MemOf f r \<Rightarrow> if f = fam then [r] else [] | _ \<Rightarrow> []) xs)"

definition cycles_of :: "traced list \<Rightarrow> UnifiedOpcodeTracingDataWithTimestamp list" where
  "cycles_of xs =
     concat (map (\<lambda>x. case x of NonMemOf f r \<Rightarrow> [NonMem r] | MemOf f r \<Rightarrow> [Mem r] | _ \<Rightarrow> []) xs)"

lemmas records_of = delegations_of_def non_mems_of_def mems_of_def cycles_of_def

lemma records_of_append [simp]:
  "delegations_of dt (xs @ ys) = delegations_of dt xs @ delegations_of dt ys"
  "non_mems_of fam (xs @ ys) = non_mems_of fam xs @ non_mems_of fam ys"
  "mems_of fam (xs @ ys) = mems_of fam xs @ mems_of fam ys"
  "cycles_of (xs @ ys) = cycles_of xs @ cycles_of ys"
  by (simp_all add: records_of)

lemmas holder_defs = delegation_holder_def non_mem_holder_def mem_holder_def unified_holder_def
  uninit_delegation_holder_def uninit_non_mem_holder_def uninit_mem_holder_def uninit_unified_holder_def

lemmas csr_values = BIGINT_OPS_WITH_CONTROL_CSR_REGISTER_def BLAKE2S_DELEGATION_CSR_REGISTER_def
  KECCAK_SPECIAL5_CSR_REGISTER_def NON_DETERMINISM_CSR_def

interpretation bigint_trace: witness_tracer bigint_holder
  "\<lambda>h xs. holder_keeps n (delegations_of (ucast BIGINT_OPS_WITH_CONTROL_CSR_REGISTER) xs) h"
  "\<lambda>fam. False" "\<lambda>dt. dt = ucast BIGINT_OPS_WITH_CONTROL_CSR_REGISTER" for n
  by unfold_locales
    (auto simp: bigint_holder_def holder_defs records_of witness_fits_def witness_sizes guardE_def
      intro!: write_keeps)

interpretation blake_trace: witness_tracer blake_holder
  "\<lambda>h xs. holder_keeps n (delegations_of (ucast BLAKE2S_DELEGATION_CSR_REGISTER) xs) h"
  "\<lambda>fam. False" "\<lambda>dt. dt = ucast BLAKE2S_DELEGATION_CSR_REGISTER" for n
  by unfold_locales
    (auto simp: blake_holder_def holder_defs records_of witness_fits_def witness_sizes guardE_def
      csr_values intro!: write_keeps)

interpretation keccak_trace: witness_tracer keccak_holder
  "\<lambda>h xs. holder_keeps n (delegations_of (ucast KECCAK_SPECIAL5_CSR_REGISTER) xs) h"
  "\<lambda>fam. False" "\<lambda>dt. dt = ucast KECCAK_SPECIAL5_CSR_REGISTER" for n
  by unfold_locales
    (auto simp: keccak_holder_def holder_defs records_of witness_fits_def witness_sizes guardE_def
      csr_values intro!: write_keeps)

interpretation non_mem_trace: witness_tracer "non_mem_holder family"
  "\<lambda>h xs. holder_keeps n (non_mems_of family xs) h" "\<lambda>fam. fam = family" "\<lambda>dt. False" for n family
  by unfold_locales (auto simp: holder_defs records_of intro!: write_keeps)

interpretation mem_trace: witness_tracer "mem_holder family"
  "\<lambda>h xs. holder_keeps n (mems_of family xs) h" "\<lambda>fam. fam = family" "\<lambda>dt. False" for n family
  by unfold_locales (auto simp: holder_defs records_of intro!: write_keeps)

interpretation unified_trace: witness_tracer unified_holder
  "\<lambda>h xs. holder_keeps n (cycles_of xs) h" "\<lambda>fam. True" "\<lambda>dt. False" for n
  by unfold_locales (auto simp: holder_defs records_of intro!: write_keeps)

interpretation uninit_bigint_trace: witness_tracer uninit_bigint_holder
  "\<lambda>h xs. holder_keeps n (map Some (delegations_of (ucast BIGINT_OPS_WITH_CONTROL_CSR_REGISTER) xs)) h"
  "\<lambda>fam. False" "\<lambda>dt. dt = ucast BIGINT_OPS_WITH_CONTROL_CSR_REGISTER" for n
  by unfold_locales
    (auto simp: uninit_bigint_holder_def holder_defs records_of witness_fits_def witness_sizes guardE_def
      csr_values intro!: write_keeps)

interpretation uninit_blake_trace: witness_tracer uninit_blake_holder
  "\<lambda>h xs. holder_keeps n (map Some (delegations_of (ucast BLAKE2S_DELEGATION_CSR_REGISTER) xs)) h"
  "\<lambda>fam. False" "\<lambda>dt. dt = ucast BLAKE2S_DELEGATION_CSR_REGISTER" for n
  by unfold_locales
    (auto simp: uninit_blake_holder_def holder_defs records_of witness_fits_def witness_sizes guardE_def
      csr_values intro!: write_keeps)

interpretation uninit_keccak_trace: witness_tracer uninit_keccak_holder
  "\<lambda>h xs. holder_keeps n (map Some (delegations_of (ucast KECCAK_SPECIAL5_CSR_REGISTER) xs)) h"
  "\<lambda>fam. False" "\<lambda>dt. dt = ucast KECCAK_SPECIAL5_CSR_REGISTER" for n
  by unfold_locales
    (auto simp: uninit_keccak_holder_def holder_defs records_of witness_fits_def witness_sizes guardE_def
      csr_values intro!: write_keeps)

interpretation uninit_non_mem_trace: witness_tracer "uninit_non_mem_holder family"
  "\<lambda>h xs. holder_keeps n (map Some (non_mems_of family xs)) h" "\<lambda>fam. fam = family" "\<lambda>dt. False"
  for n family
  by unfold_locales (auto simp: holder_defs records_of intro!: write_keeps)

interpretation uninit_mem_trace: witness_tracer "uninit_mem_holder family"
  "\<lambda>h xs. holder_keeps n (map Some (mems_of family xs)) h" "\<lambda>fam. fam = family" "\<lambda>dt. False"
  for n family
  by unfold_locales (auto simp: holder_defs records_of intro!: write_keeps)

interpretation uninit_unified_trace: witness_tracer uninit_unified_holder
  "\<lambda>h xs. holder_keeps n (map Some (cycles_of xs)) h" "\<lambda>fam. True" "\<lambda>dt. False" for n
  by unfold_locales (auto simp: holder_defs records_of intro!: write_keeps)

end
