(* ===== verification/Replayer_Ram.thy ===== *)
theory Replayer_Ram
  imports VM_Snapshot Witness_Tracer
begin

text \<open>
  The memory of a replay (\<open>ReplayerRam\<close> of \<open>riscv_transpiler/src/replayer/mod.rs\<close>): no memory at all, but
  the log of what the machine read, as slices of the snapshotter's buffer, from which every access takes the next
  entry.  Then the register helpers of \<open>replayer/instructions/mod.rs\<close>, which also return the time of the previous
  access, and the record of a cycle they are collected for.
\<close>

section \<open>The log as a memory\<close>

record ReplayerRam =
  ram_log :: "log_entry list list"

definition log_time :: "log_entry \<Rightarrow> u64" where
  "log_time e = (case e of (value, (low, high)) \<Rightarrow> ucast low OR push_bit 32 (ucast high))"

definition replay_peek_word :: "u32 \<Rightarrow> ReplayerRam \<Rightarrow> u32 res" where
  "replay_peek_word address ram =
     bindE (guardE (address mod 4 = 0) DebugAssertFailed) (\<lambda>_.
     bindE (guardE (length (ram_log ram) > 0) DebugAssertFailed) (\<lambda>_.
     bindE (get_unchecked (ram_log ram) 0) (\<lambda>src.
     bindE (get_unchecked src 0) (\<lambda>(value, _).
     Inr value))))"

text \<open>The first slice without its first \<open>n\<close> entries, or no longer there when nothing is left of it.\<close>

definition advance_log :: "nat \<Rightarrow> ReplayerRam \<Rightarrow> ReplayerRam" where
  "advance_log n ram =
     (let next = drop n (hd (ram_log ram))
      in ram\<lparr>ram_log := (if length next > 0 then next # tl (ram_log ram) else tl (ram_log ram))\<rparr>)"

definition replay_read_word :: "u32 \<Rightarrow> u64 \<Rightarrow> ReplayerRam \<Rightarrow> ((u64 \<times> u32) \<times> ReplayerRam) res" where
  "replay_read_word address timestamp ram =
     bindE (guardE (address mod 4 = 0) DebugAssertFailed) (\<lambda>_.
     bindE (guardE (length (ram_log ram) > 0) DebugAssertFailed) (\<lambda>_.
     bindE (get_unchecked (ram_log ram) 0) (\<lambda>src.
     bindE (get_unchecked src 0) (\<lambda>entry.
     let read_timestamp = log_time entry
     in bindE (guardE (read_timestamp < timestamp) DebugAssertFailed) (\<lambda>_.
        Inr ((read_timestamp, fst entry), advance_log 1 ram))))))"

definition replay_write_word ::
  "u32 \<Rightarrow> u32 \<Rightarrow> u64 \<Rightarrow> ReplayerRam \<Rightarrow> ((u64 \<times> u32) \<times> ReplayerRam) res" where
  "replay_write_word address word timestamp ram =
     bindE (guardE (address mod 4 = 0) DebugAssertFailed) (\<lambda>_.
     bindE (guardE (length (ram_log ram) > 0) DebugAssertFailed) (\<lambda>_.
     bindE (get_unchecked (ram_log ram) 0) (\<lambda>src.
     bindE (get_unchecked src 0) (\<lambda>entry.
     let read_timestamp = log_time entry
     in bindE (guardE (read_timestamp < timestamp) DebugAssertFailed) (\<lambda>_.
        Inr ((read_timestamp, fst entry), advance_log 1 ram))))))"

text \<open>A read of the ROM is recorded as a read of 0.\<close>

definition replay_mask_read :: "nat \<Rightarrow> ReplayerRam \<Rightarrow> u32 \<Rightarrow> u32 \<Rightarrow> (u32 \<times> u32) res" where
  "replay_mask_read bits ram address value =
     bindE (guardE (address mod 4 = 0) DebugAssertFailed) (\<lambda>_.
     Inr (address, if address < push_bit (16 + bits) 1 then 0 else value))"

definition replay_skip :: "nat \<Rightarrow> ReplayerRam \<Rightarrow> ReplayerRam res" where
  "replay_skip num_snapshots ram =
     bindE (get_unchecked (ram_log ram) 0) (\<lambda>src.
     bindE (guardE (length src \<ge> num_snapshots) DebugAssertFailed) (\<lambda>_.
     Inr (advance_log num_snapshots ram)))"

definition replayer_ram_ops :: "nat \<Rightarrow> ReplayerRam ram_ops" where
  "replayer_ram_ops bits =
     \<lparr>r_peek_word = replay_peek_word, r_read_word = replay_read_word,
      r_mask_read_for_witness = replay_mask_read bits, r_write_word = replay_write_word,
      r_skip_if_replaying = replay_skip\<rparr>"

subsection \<open>What is left of the log\<close>

text \<open>\<open>replays ram xs\<close>: the entries of the log that are left are \<open>xs\<close>, and no slice is empty.\<close>

definition replays :: "ReplayerRam \<Rightarrow> log_entry list \<Rightarrow> bool" where
  "replays ram xs \<longleftrightarrow> [] \<notin> set (ram_log ram) \<and> concat (ram_log ram) = xs"

text \<open>One slice: the whole log is in the first.\<close>

definition one_slice :: "ReplayerRam \<Rightarrow> bool" where
  "one_slice ram \<longleftrightarrow> length (ram_log ram) \<le> 1"

lemma replays_Cons:
  assumes "replays ram (x # xs)"
  obtains src rest where "ram_log ram = (x # src) # rest" "[] \<notin> set rest" "xs = src @ concat rest"
proof (cases "ram_log ram")
  case Nil
  then show ?thesis using assms by (simp add: replays_def)
next
  case (Cons s rest)
  then obtain y src where "s = y # src" using assms by (cases s) (auto simp: replays_def)
  then show ?thesis using that [of src rest] assms Cons by (auto simp: replays_def)
qed

lemma replays_advance:
  assumes "replays ram (ys @ zs)" "length ys \<le> length (hd (ram_log ram))" "ram_log ram \<noteq> []"
  shows "replays (advance_log (length ys) ram) zs"
proof -
  obtain s rest where s: "ram_log ram = s # rest" using assms(3) by (cases "ram_log ram") auto
  then have c: "s @ concat rest = ys @ zs" and r: "[] \<notin> set rest"
    using assms(1) by (auto simp: replays_def)
  have "zs = drop (length ys) (s @ concat rest)" unfolding c by simp
  then have "zs = drop (length ys) s @ concat rest" using assms(2) s by simp
  then show ?thesis using r s by (simp add: replays_def advance_log_def Let_def)
qed

lemma one_slice_advance: "one_slice ram \<Longrightarrow> one_slice (advance_log n ram)"
  by (auto simp: one_slice_def advance_log_def Let_def)

lemma replay_pop:
  assumes "replays ram (x # xs)" "a mod 4 = 0" "log_time x < t"
  shows "replay_read_word a t ram = Inr ((log_time x, fst x), advance_log 1 ram)"
    "replay_write_word a w t ram = Inr ((log_time x, fst x), advance_log 1 ram)"
    "replay_peek_word a ram = Inr (fst x)" "replays (advance_log 1 ram) xs"
proof -
  obtain src rest where r: "ram_log ram = (x # src) # rest" using replays_Cons [OF assms(1)] by blast
  then show "replay_read_word a t ram = Inr ((log_time x, fst x), advance_log 1 ram)"
    "replay_write_word a w t ram = Inr ((log_time x, fst x), advance_log 1 ram)"
    using assms(2,3) by (simp_all add: replay_read_word_def replay_write_word_def get_unchecked_def)
  show "replay_peek_word a ram = Inr (fst x)"
    using r assms(2) by (simp add: replay_peek_word_def get_unchecked_def split_def)
  show "replays (advance_log 1 ram) xs"
    using replays_advance [of ram "[x]" xs] assms(1) r by simp
qed

lemma replay_skip_ok:
  assumes "replays ram (ys @ zs)" "one_slice ram" "ys \<noteq> []" "n = length ys"
  shows "replay_skip n ram = Inr (advance_log n ram)" "replays (advance_log n ram) zs"
proof -
  obtain s where s: "ram_log ram = [s]" "s = ys @ zs"
    using assms(1-3) by (cases "ram_log ram") (auto simp: replays_def one_slice_def)
  then show "replay_skip n ram = Inr (advance_log n ram)"
    by (simp add: replay_skip_def get_unchecked_def assms(4))
  show "replays (advance_log n ram) zs"
    using replays_advance [of ram ys zs] assms(1,4) s by simp
qed

lemma log_time_read: "log_time (log_of_read v rt) = rt"
  by (rule bit_word_eqI)
    (auto simp: log_time_def log_of_read_def bit_simps dest: bit_imp_le_length)

lemma log_time_value: "log_time (log_of_value v) = 0"
  by (simp add: log_time_def log_of_value_def)

lemma log_value [simp]: "fst (log_of_read v rt) = v" "fst (log_of_value v) = v"
  by (simp_all add: log_of_read_def log_of_value_def)

section \<open>Register helpers\<close>

definition read_register_with_ts :: "u64 \<Rightarrow> u8 \<Rightarrow> 'c State \<Rightarrow> ((u32 \<times> u64) \<times> 'c State) res" where
  "read_register_with_ts offset reg_idx st =
     bindE (get_unchecked (st_regs st) (unat reg_idx)) (\<lambda>reg.
     let existing_value = reg_val reg; ts = reg_ts reg
     in bindE (guardE (ts < (st_ts st OR offset)) DebugAssertFailed) (\<lambda>_.
        Inr ((existing_value, ts),
          st\<lparr>st_regs := (st_regs st)[unat reg_idx := reg\<lparr>reg_ts := st_ts st OR offset\<rparr>]\<rparr>)))"

definition touch_x0_with_ts :: "u64 \<Rightarrow> 'c State \<Rightarrow> (u64 \<times> 'c State) res" where
  "touch_x0_with_ts offset st =
     bindE (get_unchecked (st_regs st) 0) (\<lambda>reg.
     let ts = reg_ts reg
     in bindE (guardE (ts < (st_ts st OR offset)) DebugAssertFailed) (\<lambda>_.
        Inr (ts, st\<lparr>st_regs := (st_regs st)[0 := reg\<lparr>reg_ts := st_ts st OR offset\<rparr>]\<rparr>)))"

text \<open>The value the caller continues with is returned first.\<close>

definition write_register_with_ts ::
  "u64 \<Rightarrow> u8 \<Rightarrow> u32 \<Rightarrow> 'c State \<Rightarrow> ((u32 \<times> u32 \<times> u64) \<times> 'c State) res" where
  "write_register_with_ts offset reg_idx value st =
     (let value = (if reg_idx = 0 then 0 else value)
      in bindE (get_unchecked (st_regs st) (unat reg_idx)) (\<lambda>reg.
         bindE (guardE (reg_ts reg < (st_ts st OR offset)) DebugAssertFailed) (\<lambda>_.
         let existing_value = reg_val reg; ts = reg_ts reg
         in Inr ((value, existing_value, ts), st\<lparr>st_regs := (st_regs st)
              [unat reg_idx := \<lparr>reg_ts = st_ts st OR offset, reg_val = value\<rparr>]\<rparr>))))"

text \<open>The record of a cycle without memory access, written if the tracer needs its family: the
  \<open>if tracer.needs_tracing_data_for_circuit_family\<close> of the instructions.\<close>

definition non_mem_record ::
  "'c State \<Rightarrow> u32 \<times> u64 \<Rightarrow> u32 \<times> u64 \<Rightarrow> u32 \<times> u32 \<times> u64 \<Rightarrow> u32 \<Rightarrow> u16 \<Rightarrow> NonMemoryOpcodeTracingDataWithTimestamp"
  where
  "non_mem_record st rs1 rs2 rd new_pc delegation_type =
     (case rs1 of (rs1_value, rs1_ts) \<Rightarrow> case rs2 of (rs2_value, rs2_ts) \<Rightarrow> case rd of (rd_value, rd_old_value, rd_ts) \<Rightarrow>
      \<lparr>nmt_opcode_data =
         \<lparr>nm_initial_pc = st_pc st, nm_rs1_value = rs1_value, nm_rs2_value = rs2_value,
          nm_rd_old_value = rd_old_value, nm_rd_value = rd_value, nm_new_pc = new_pc,
          nm_delegation_type = delegation_type\<rparr>,
       nmt_rs1_read_timestamp = from_scalar rs1_ts, nmt_rs2_read_timestamp = from_scalar rs2_ts,
       nmt_rd_read_timestamp = from_scalar rd_ts, nmt_cycle_timestamp = from_scalar (st_ts st)\<rparr>)"

definition trace_non_mem ::
  "'t tracer_ops \<Rightarrow> circuit_family \<Rightarrow> NonMemoryOpcodeTracingDataWithTimestamp \<Rightarrow> 't \<Rightarrow> 't res" where
  "trace_non_mem T family traced_data tracer =
     (if t_needs_family T family tracer then t_write_non_memory T family traced_data tracer else Inr tracer)"

lemma with_ts_forgets:
  "bindE (read_register_with_ts off i st) (\<lambda>((v, ts), st). Inr (v, st)) = read_register off i st"
  "bindE (touch_x0_with_ts off st) (\<lambda>(ts, st). Inr st) = touch_x0 off st"
  "bindE (write_register_with_ts off i w st) (\<lambda>((v, old, ts), st). Inr (v, st)) = write_register off i w st"
  by (simp_all add: read_register_with_ts_def read_register_def touch_x0_with_ts_def touch_x0_def
      write_register_with_ts_def write_register_def bindE_assoc Let_def)

lemma read_with_ts_ok:
  assumes "cycle_at k st" "k \<le> unat off" "off < 4" "i < 32"
  shows "read_register_with_ts off i st =
    Inr ((reg_vals st ! unat i, reg_ts (st_regs st ! unat i)), touch_reg off i st)"
  using assms cycle_at_fresh [OF assms]
  by (simp add: read_register_with_ts_def get_unchecked_def guardE_def touch_reg_def reg_vals_def
      u8_index cycle_atD(1))

lemma touch_with_ts_ok:
  assumes "cycle_at k st" "k \<le> unat off" "off < 4"
  shows "touch_x0_with_ts off st = Inr (reg_ts (st_regs st ! 0), touch_reg off 0 st)"
  using assms cycle_at_fresh [OF assms, of 0]
  by (simp add: touch_x0_with_ts_def get_unchecked_def guardE_def touch_reg_def cycle_atD(1))

lemma write_with_ts_ok:
  assumes "cycle_at k st" "k \<le> unat off" "off < 4" "i < 32"
  shows "write_register_with_ts off i v st = Inr ((if i = 0 then 0 else v, reg_vals st ! unat i,
    reg_ts (st_regs st ! unat i)), set_reg off i v st)"
  using assms cycle_at_fresh [OF assms]
  by (simp add: write_register_with_ts_def get_unchecked_def guardE_def set_reg_def reg_vals_def
      u8_index cycle_atD(1))

end
