(* ===== verification/Replayer_Instr.thy ===== *)
theory Replayer_Instr
  imports Replayer_Ram VM_Instr
begin

text \<open>
  The register instructions of a replay (\<open>riscv_transpiler/src/replayer/instructions\<close>), one definition per
  function: the state changes as in the machine, the counters stay, and the tracer gets the record of the cycle if it
  needs the family.
\<close>

section \<open>Second operand\<close>

text \<open>The \<open>if USE_IMM\<close> at the head of the arithmetic instructions: with an immediate the record has the
  value 0 of register 0.\<close>

definition second_operand_with_ts ::
  "bool \<Rightarrow> 'c State \<Rightarrow> instruction \<Rightarrow> ((u32 \<times> u64 \<times> u32) \<times> 'c State) res" where
  "second_operand_with_ts use_imm st instr =
     (if use_imm
      then bindE (touch_x0_with_ts 1 st) (\<lambda>(rs2_ts, st). Inr ((0, rs2_ts, i_imm instr), st))
      else bindE (read_register_with_ts 1 (i_rs2 instr) st) (\<lambda>((rs2_value, rs2_ts), st).
           Inr ((rs2_value, rs2_ts, rs2_value), st)))"

section \<open>add_sub\<close>

definition replay_add_op ::
  "'t tracer_ops \<Rightarrow> bool \<Rightarrow> 'c State \<Rightarrow> instruction \<Rightarrow> 't \<Rightarrow> ('c State \<times> 't) res" where
  "replay_add_op T use_imm st instr tracer =
     bindE (read_register_with_ts 0 (i_rs1 instr) st) (\<lambda>((rs1_value, rs1_ts), st).
     bindE (second_operand_with_ts use_imm st instr) (\<lambda>((rs2_value, rs2_ts, rs2_value_to_use), st).
     let rd = rs1_value + rs2_value_to_use
     in bindE (write_register_with_ts 2 (i_rd instr) rd st) (\<lambda>((rd, rd_old_value, rd_ts), st).
        bindE (trace_non_mem T ADD_SUB_LUI_AUIPC_MOP
          (non_mem_record st (rs1_value, rs1_ts) (rs2_value, rs2_ts) (rd, rd_old_value, rd_ts)
            (st_pc st + 4) 0) tracer) (\<lambda>tracer.
        Inr (default_increase_pc st, tracer)))))"

definition replay_sub_op ::
  "'t tracer_ops \<Rightarrow> 'c State \<Rightarrow> instruction \<Rightarrow> 't \<Rightarrow> ('c State \<times> 't) res" where
  "replay_sub_op T st instr tracer =
     bindE (read_register_with_ts 0 (i_rs1 instr) st) (\<lambda>((rs1_value, rs1_ts), st).
     bindE (read_register_with_ts 1 (i_rs2 instr) st) (\<lambda>((rs2_value, rs2_ts), st).
     let rd = rs1_value - rs2_value
     in bindE (write_register_with_ts 2 (i_rd instr) rd st) (\<lambda>((rd, rd_old_value, rd_ts), st).
        bindE (trace_non_mem T ADD_SUB_LUI_AUIPC_MOP
          (non_mem_record st (rs1_value, rs1_ts) (rs2_value, rs2_ts) (rd, rd_old_value, rd_ts)
            (st_pc st + 4) 0) tracer) (\<lambda>tracer.
        Inr (default_increase_pc st, tracer)))))"

section \<open>binary\<close>

definition replay_and ::
  "'t tracer_ops \<Rightarrow> bool \<Rightarrow> 'c State \<Rightarrow> instruction \<Rightarrow> 't \<Rightarrow> ('c State \<times> 't) res" where
  "replay_and T use_imm st instr tracer =
     bindE (read_register_with_ts 0 (i_rs1 instr) st) (\<lambda>((rs1_value, rs1_ts), st).
     bindE (second_operand_with_ts use_imm st instr) (\<lambda>((rs2_value, rs2_ts, rs2_value_to_use), st).
     let rd = rs1_value AND rs2_value_to_use
     in bindE (write_register_with_ts 2 (i_rd instr) rd st) (\<lambda>((rd, rd_old_value, rd_ts), st).
        bindE (trace_non_mem T SHIFT_BINARY_CSR
          (non_mem_record st (rs1_value, rs1_ts) (rs2_value, rs2_ts) (rd, rd_old_value, rd_ts)
            (st_pc st + 4) 0) tracer) (\<lambda>tracer.
        Inr (default_increase_pc st, tracer)))))"

definition replay_or ::
  "'t tracer_ops \<Rightarrow> bool \<Rightarrow> 'c State \<Rightarrow> instruction \<Rightarrow> 't \<Rightarrow> ('c State \<times> 't) res" where
  "replay_or T use_imm st instr tracer =
     bindE (read_register_with_ts 0 (i_rs1 instr) st) (\<lambda>((rs1_value, rs1_ts), st).
     bindE (second_operand_with_ts use_imm st instr) (\<lambda>((rs2_value, rs2_ts, rs2_value_to_use), st).
     let rd = rs1_value OR rs2_value_to_use
     in bindE (write_register_with_ts 2 (i_rd instr) rd st) (\<lambda>((rd, rd_old_value, rd_ts), st).
        bindE (trace_non_mem T SHIFT_BINARY_CSR
          (non_mem_record st (rs1_value, rs1_ts) (rs2_value, rs2_ts) (rd, rd_old_value, rd_ts)
            (st_pc st + 4) 0) tracer) (\<lambda>tracer.
        Inr (default_increase_pc st, tracer)))))"

definition replay_xor ::
  "'t tracer_ops \<Rightarrow> bool \<Rightarrow> 'c State \<Rightarrow> instruction \<Rightarrow> 't \<Rightarrow> ('c State \<times> 't) res" where
  "replay_xor T use_imm st instr tracer =
     bindE (read_register_with_ts 0 (i_rs1 instr) st) (\<lambda>((rs1_value, rs1_ts), st).
     bindE (second_operand_with_ts use_imm st instr) (\<lambda>((rs2_value, rs2_ts, rs2_value_to_use), st).
     let rd = rs1_value XOR rs2_value_to_use
     in bindE (write_register_with_ts 2 (i_rd instr) rd st) (\<lambda>((rd, rd_old_value, rd_ts), st).
        bindE (trace_non_mem T SHIFT_BINARY_CSR
          (non_mem_record st (rs1_value, rs1_ts) (rs2_value, rs2_ts) (rd, rd_old_value, rd_ts)
            (st_pc st + 4) 0) tracer) (\<lambda>tracer.
        Inr (default_increase_pc st, tracer)))))"

section \<open>shifts\<close>

definition replay_sll ::
  "'t tracer_ops \<Rightarrow> bool \<Rightarrow> 'c State \<Rightarrow> instruction \<Rightarrow> 't \<Rightarrow> ('c State \<times> 't) res" where
  "replay_sll T use_imm st instr tracer =
     bindE (read_register_with_ts 0 (i_rs1 instr) st) (\<lambda>((rs1_value, rs1_ts), st).
     bindE (second_operand_with_ts use_imm st instr) (\<lambda>((rs2_value, rs2_ts, rs2_value_to_use), st).
     let rd = push_bit (unat (rs2_value_to_use mod 32)) rs1_value
     in bindE (write_register_with_ts 2 (i_rd instr) rd st) (\<lambda>((rd, rd_old_value, rd_ts), st).
        bindE (trace_non_mem T SHIFT_BINARY_CSR
          (non_mem_record st (rs1_value, rs1_ts) (rs2_value, rs2_ts) (rd, rd_old_value, rd_ts)
            (st_pc st + 4) 0) tracer) (\<lambda>tracer.
        Inr (default_increase_pc st, tracer)))))"

definition replay_srl ::
  "'t tracer_ops \<Rightarrow> bool \<Rightarrow> 'c State \<Rightarrow> instruction \<Rightarrow> 't \<Rightarrow> ('c State \<times> 't) res" where
  "replay_srl T use_imm st instr tracer =
     bindE (read_register_with_ts 0 (i_rs1 instr) st) (\<lambda>((rs1_value, rs1_ts), st).
     bindE (second_operand_with_ts use_imm st instr) (\<lambda>((rs2_value, rs2_ts, rs2_value_to_use), st).
     let rd = drop_bit (unat (rs2_value_to_use mod 32)) rs1_value
     in bindE (write_register_with_ts 2 (i_rd instr) rd st) (\<lambda>((rd, rd_old_value, rd_ts), st).
        bindE (trace_non_mem T SHIFT_BINARY_CSR
          (non_mem_record st (rs1_value, rs1_ts) (rs2_value, rs2_ts) (rd, rd_old_value, rd_ts)
            (st_pc st + 4) 0) tracer) (\<lambda>tracer.
        Inr (default_increase_pc st, tracer)))))"

definition replay_sra ::
  "'t tracer_ops \<Rightarrow> bool \<Rightarrow> 'c State \<Rightarrow> instruction \<Rightarrow> 't \<Rightarrow> ('c State \<times> 't) res" where
  "replay_sra T use_imm st instr tracer =
     bindE (read_register_with_ts 0 (i_rs1 instr) st) (\<lambda>((rs1_value, rs1_ts), st).
     bindE (second_operand_with_ts use_imm st instr) (\<lambda>((rs2_value, rs2_ts, rs2_value_to_use), st).
     let rd = signed_drop_bit (unat (rs2_value_to_use mod 32)) rs1_value
     in bindE (write_register_with_ts 2 (i_rd instr) rd st) (\<lambda>((rd, rd_old_value, rd_ts), st).
        bindE (trace_non_mem T SHIFT_BINARY_CSR
          (non_mem_record st (rs1_value, rs1_ts) (rs2_value, rs2_ts) (rd, rd_old_value, rd_ts)
            (st_pc st + 4) 0) tracer) (\<lambda>tracer.
        Inr (default_increase_pc st, tracer)))))"

section \<open>slt\<close>

definition replay_slt ::
  "'t tracer_ops \<Rightarrow> bool \<Rightarrow> 'c State \<Rightarrow> instruction \<Rightarrow> 't \<Rightarrow> ('c State \<times> 't) res" where
  "replay_slt T use_imm st instr tracer =
     bindE (read_register_with_ts 0 (i_rs1 instr) st) (\<lambda>((rs1_value, rs1_ts), st).
     bindE (second_operand_with_ts use_imm st instr) (\<lambda>((rs2_value, rs2_ts, rs2_value_to_use), st).
     let rd = (if rs1_value <s rs2_value_to_use then 1 else 0)
     in bindE (write_register_with_ts 2 (i_rd instr) rd st) (\<lambda>((rd, rd_old_value, rd_ts), st).
        bindE (trace_non_mem T JUMP_BRANCH_SLT
          (non_mem_record st (rs1_value, rs1_ts) (rs2_value, rs2_ts) (rd, rd_old_value, rd_ts)
            (st_pc st + 4) 0) tracer) (\<lambda>tracer.
        Inr (default_increase_pc st, tracer)))))"

definition replay_sltu ::
  "'t tracer_ops \<Rightarrow> bool \<Rightarrow> 'c State \<Rightarrow> instruction \<Rightarrow> 't \<Rightarrow> ('c State \<times> 't) res" where
  "replay_sltu T use_imm st instr tracer =
     bindE (read_register_with_ts 0 (i_rs1 instr) st) (\<lambda>((rs1_value, rs1_ts), st).
     bindE (second_operand_with_ts use_imm st instr) (\<lambda>((rs2_value, rs2_ts, rs2_value_to_use), st).
     let rd = (if rs1_value < rs2_value_to_use then 1 else 0)
     in bindE (write_register_with_ts 2 (i_rd instr) rd st) (\<lambda>((rd, rd_old_value, rd_ts), st).
        bindE (trace_non_mem T JUMP_BRANCH_SLT
          (non_mem_record st (rs1_value, rs1_ts) (rs2_value, rs2_ts) (rd, rd_old_value, rd_ts)
            (st_pc st + 4) 0) tracer) (\<lambda>tracer.
        Inr (default_increase_pc st, tracer)))))"

section \<open>mul_div\<close>

definition replay_mul ::
  "'t tracer_ops \<Rightarrow> 'c State \<Rightarrow> instruction \<Rightarrow> 't \<Rightarrow> ('c State \<times> 't) res" where
  "replay_mul T st instr tracer =
     bindE (read_register_with_ts 0 (i_rs1 instr) st) (\<lambda>((rs1_value, rs1_ts), st).
     bindE (read_register_with_ts 1 (i_rs2 instr) st) (\<lambda>((rs2_value, rs2_ts), st).
     let rd = rs1_value * rs2_value
     in bindE (write_register_with_ts 2 (i_rd instr) rd st) (\<lambda>((rd, rd_old_value, rd_ts), st).
        bindE (trace_non_mem T MUL_DIV
          (non_mem_record st (rs1_value, rs1_ts) (rs2_value, rs2_ts) (rd, rd_old_value, rd_ts)
            (st_pc st + 4) 0) tracer) (\<lambda>tracer.
        Inr (default_increase_pc st, tracer)))))"

definition replay_mulhu ::
  "'t tracer_ops \<Rightarrow> 'c State \<Rightarrow> instruction \<Rightarrow> 't \<Rightarrow> ('c State \<times> 't) res" where
  "replay_mulhu T st instr tracer =
     bindE (read_register_with_ts 0 (i_rs1 instr) st) (\<lambda>((rs1_value, rs1_ts), st).
     bindE (read_register_with_ts 1 (i_rs2 instr) st) (\<lambda>((rs2_value, rs2_ts), st).
     let rd = ucast (drop_bit 32 ((ucast rs1_value :: u64) * ucast rs2_value))
     in bindE (write_register_with_ts 2 (i_rd instr) rd st) (\<lambda>((rd, rd_old_value, rd_ts), st).
        bindE (trace_non_mem T MUL_DIV
          (non_mem_record st (rs1_value, rs1_ts) (rs2_value, rs2_ts) (rd, rd_old_value, rd_ts)
            (st_pc st + 4) 0) tracer) (\<lambda>tracer.
        Inr (default_increase_pc st, tracer)))))"

definition replay_divu ::
  "'t tracer_ops \<Rightarrow> 'c State \<Rightarrow> instruction \<Rightarrow> 't \<Rightarrow> ('c State \<times> 't) res" where
  "replay_divu T st instr tracer =
     bindE (read_register_with_ts 0 (i_rs1 instr) st) (\<lambda>((rs1_value, rs1_ts), st).
     bindE (read_register_with_ts 1 (i_rs2 instr) st) (\<lambda>((rs2_value, rs2_ts), st).
     let rd = (if rs2_value = 0 then 0xffffffff else rs1_value div rs2_value)
     in bindE (write_register_with_ts 2 (i_rd instr) rd st) (\<lambda>((rd, rd_old_value, rd_ts), st).
        bindE (trace_non_mem T MUL_DIV
          (non_mem_record st (rs1_value, rs1_ts) (rs2_value, rs2_ts) (rd, rd_old_value, rd_ts)
            (st_pc st + 4) 0) tracer) (\<lambda>tracer.
        Inr (default_increase_pc st, tracer)))))"

definition replay_remu ::
  "'t tracer_ops \<Rightarrow> 'c State \<Rightarrow> instruction \<Rightarrow> 't \<Rightarrow> ('c State \<times> 't) res" where
  "replay_remu T st instr tracer =
     bindE (read_register_with_ts 0 (i_rs1 instr) st) (\<lambda>((rs1_value, rs1_ts), st).
     bindE (read_register_with_ts 1 (i_rs2 instr) st) (\<lambda>((rs2_value, rs2_ts), st).
     let rd = (if rs2_value = 0 then rs1_value else rs1_value mod rs2_value)
     in bindE (write_register_with_ts 2 (i_rd instr) rd st) (\<lambda>((rd, rd_old_value, rd_ts), st).
        bindE (trace_non_mem T MUL_DIV
          (non_mem_record st (rs1_value, rs1_ts) (rs2_value, rs2_ts) (rd, rd_old_value, rd_ts)
            (st_pc st + 4) 0) tracer) (\<lambda>tracer.
        Inr (default_increase_pc st, tracer)))))"

section \<open>mop\<close>

definition replay_mop_addmod ::
  "'t tracer_ops \<Rightarrow> 'c State \<Rightarrow> instruction \<Rightarrow> 't \<Rightarrow> ('c State \<times> 't) res" where
  "replay_mop_addmod T st instr tracer =
     bindE (read_register_with_ts 0 (i_rs1 instr) st) (\<lambda>((rs1_value, rs1_ts), st).
     bindE (read_register_with_ts 1 (i_rs2 instr) st) (\<lambda>((rs2_value, rs2_ts), st).
     bindE (from_nonreduced_u32 rs1_value) (\<lambda>operand_1.
     bindE (from_nonreduced_u32 rs2_value) (\<lambda>operand_2.
     let rd = to_reduced_u32 (add_assign_impl operand_1 operand_2)
     in bindE (write_register_with_ts 2 (i_rd instr) rd st) (\<lambda>((rd, rd_old_value, rd_ts), st).
        bindE (trace_non_mem T ADD_SUB_LUI_AUIPC_MOP
          (non_mem_record st (rs1_value, rs1_ts) (rs2_value, rs2_ts) (rd, rd_old_value, rd_ts)
            (st_pc st + 4) 0) tracer) (\<lambda>tracer.
        Inr (default_increase_pc st, tracer)))))))"

definition replay_mop_submod ::
  "'t tracer_ops \<Rightarrow> 'c State \<Rightarrow> instruction \<Rightarrow> 't \<Rightarrow> ('c State \<times> 't) res" where
  "replay_mop_submod T st instr tracer =
     bindE (read_register_with_ts 0 (i_rs1 instr) st) (\<lambda>((rs1_value, rs1_ts), st).
     bindE (read_register_with_ts 1 (i_rs2 instr) st) (\<lambda>((rs2_value, rs2_ts), st).
     bindE (from_nonreduced_u32 rs1_value) (\<lambda>operand_1.
     bindE (from_nonreduced_u32 rs2_value) (\<lambda>operand_2.
     bindE (sub_assign_impl operand_1 operand_2) (\<lambda>difference.
     let rd = to_reduced_u32 difference
     in bindE (write_register_with_ts 2 (i_rd instr) rd st) (\<lambda>((rd, rd_old_value, rd_ts), st).
        bindE (trace_non_mem T ADD_SUB_LUI_AUIPC_MOP
          (non_mem_record st (rs1_value, rs1_ts) (rs2_value, rs2_ts) (rd, rd_old_value, rd_ts)
            (st_pc st + 4) 0) tracer) (\<lambda>tracer.
        Inr (default_increase_pc st, tracer))))))))"

definition replay_mop_mulmod ::
  "'t tracer_ops \<Rightarrow> 'c State \<Rightarrow> instruction \<Rightarrow> 't \<Rightarrow> ('c State \<times> 't) res" where
  "replay_mop_mulmod T st instr tracer =
     bindE (read_register_with_ts 0 (i_rs1 instr) st) (\<lambda>((rs1_value, rs1_ts), st).
     bindE (read_register_with_ts 1 (i_rs2 instr) st) (\<lambda>((rs2_value, rs2_ts), st).
     bindE (from_nonreduced_u32 rs1_value) (\<lambda>operand_1.
     bindE (from_nonreduced_u32 rs2_value) (\<lambda>operand_2.
     let rd = to_reduced_u32 (mul_assign_impl operand_1 operand_2)
     in bindE (write_register_with_ts 2 (i_rd instr) rd st) (\<lambda>((rd, rd_old_value, rd_ts), st).
        bindE (trace_non_mem T ADD_SUB_LUI_AUIPC_MOP
          (non_mem_record st (rs1_value, rs1_ts) (rs2_value, rs2_ts) (rd, rd_old_value, rd_ts)
            (st_pc st + 4) 0) tracer) (\<lambda>tracer.
        Inr (default_increase_pc st, tracer)))))))"

section \<open>lui_auipc\<close>

definition replay_lui ::
  "'t tracer_ops \<Rightarrow> 'c State \<Rightarrow> instruction \<Rightarrow> 't \<Rightarrow> ('c State \<times> 't) res" where
  "replay_lui T st instr tracer =
     bindE (guardE (i_rs1 instr = 0) DebugAssertFailed) (\<lambda>_.
     bindE (guardE (i_rs2 instr = 0) DebugAssertFailed) (\<lambda>_.
     bindE (touch_x0_with_ts 0 st) (\<lambda>(rs1_ts, st).
     bindE (touch_x0_with_ts 1 st) (\<lambda>(rs2_ts, st).
     let rd = i_imm instr
     in bindE (write_register_with_ts 2 (i_rd instr) rd st) (\<lambda>((rd, rd_old_value, rd_ts), st).
        bindE (trace_non_mem T ADD_SUB_LUI_AUIPC_MOP
          (non_mem_record st (0, rs1_ts) (0, rs2_ts) (rd, rd_old_value, rd_ts) (st_pc st + 4) 0) tracer)
          (\<lambda>tracer.
        Inr (default_increase_pc st, tracer)))))))"

definition replay_auipc ::
  "'t tracer_ops \<Rightarrow> 'c State \<Rightarrow> instruction \<Rightarrow> 't \<Rightarrow> ('c State \<times> 't) res" where
  "replay_auipc T st instr tracer =
     bindE (guardE (i_rs1 instr = 0) DebugAssertFailed) (\<lambda>_.
     bindE (guardE (i_rs2 instr = 0) DebugAssertFailed) (\<lambda>_.
     bindE (touch_x0_with_ts 0 st) (\<lambda>(rs1_ts, st).
     bindE (touch_x0_with_ts 1 st) (\<lambda>(rs2_ts, st).
     let rd = st_pc st + i_imm instr
     in bindE (write_register_with_ts 2 (i_rd instr) rd st) (\<lambda>((rd, rd_old_value, rd_ts), st).
        bindE (trace_non_mem T ADD_SUB_LUI_AUIPC_MOP
          (non_mem_record st (0, rs1_ts) (0, rs2_ts) (rd, rd_old_value, rd_ts) (st_pc st + 4) 0) tracer)
          (\<lambda>tracer.
        Inr (default_increase_pc st, tracer)))))))"

section \<open>jal_jalr and branch\<close>

text \<open>A replay follows the recorded jumps: the alignment of their targets is not checked again.\<close>

definition replay_jal ::
  "'t tracer_ops \<Rightarrow> 'c State \<Rightarrow> instruction \<Rightarrow> 't \<Rightarrow> ('c State \<times> 't) res" where
  "replay_jal T st instr tracer =
     bindE (touch_x0_with_ts 0 st) (\<lambda>(rs1_ts, st).
     bindE (touch_x0_with_ts 1 st) (\<lambda>(rs2_ts, st).
     let rd = st_pc st + 4
     in bindE (write_register_with_ts 2 (i_rd instr) rd st) (\<lambda>((rd, rd_old_value, rd_ts), st).
        let jump_address = st_pc st + i_imm instr
        in bindE (trace_non_mem T JUMP_BRANCH_SLT
             (non_mem_record st (0, rs1_ts) (0, rs2_ts) (rd, rd_old_value, rd_ts) jump_address 0) tracer)
             (\<lambda>tracer.
           Inr (st\<lparr>st_pc := jump_address\<rparr>, tracer)))))"

definition replay_jalr ::
  "'t tracer_ops \<Rightarrow> 'c State \<Rightarrow> instruction \<Rightarrow> 't \<Rightarrow> ('c State \<times> 't) res" where
  "replay_jalr T st instr tracer =
     bindE (read_register_with_ts 0 (i_rs1 instr) st) (\<lambda>((rs1_value, rs1_ts), st).
     bindE (touch_x0_with_ts 1 st) (\<lambda>(rs2_ts, st).
     let rd = st_pc st + 4
     in bindE (write_register_with_ts 2 (i_rd instr) rd st) (\<lambda>((rd, rd_old_value, rd_ts), st).
        let jump_address = (rs1_value + i_imm instr) AND NOT 0x1
        in bindE (trace_non_mem T JUMP_BRANCH_SLT
             (non_mem_record st (rs1_value, rs1_ts) (0, rs2_ts) (rd, rd_old_value, rd_ts) jump_address 0)
             tracer) (\<lambda>tracer.
           Inr (st\<lparr>st_pc := jump_address\<rparr>, tracer)))))"

definition replay_branch ::
  "'t tracer_ops \<Rightarrow> 'c State \<Rightarrow> instruction \<Rightarrow> 't \<Rightarrow> ('c State \<times> 't) res" where
  "replay_branch T st instr tracer =
     bindE (read_register_with_ts 0 (i_rs1 instr) st) (\<lambda>((rs1_value, rs1_ts), st).
     bindE (read_register_with_ts 1 (i_rs2 instr) st) (\<lambda>((rs2_value, rs2_ts), st).
     bindE (write_register_with_ts 2 0 0 st) (\<lambda>((_, rd_old_value, rd_ts), st).
     let jump_address = st_pc st + i_imm instr; funct3 = i_rd instr
     in bindE (branch_condition funct3 rs1_value rs2_value) (\<lambda>should_jump.
        let jump_address = (if should_jump then jump_address else st_pc st + 4)
        in bindE (trace_non_mem T JUMP_BRANCH_SLT
             (non_mem_record st (rs1_value, rs1_ts) (rs2_value, rs2_ts) (0, rd_old_value, rd_ts)
               jump_address 0) tracer) (\<lambda>tracer.
           Inr (st\<lparr>st_pc := jump_address\<rparr>, tracer))))))"

end
