(* ===== verification/Replayer_Memory.thy ===== *)
theory Replayer_Memory
  imports Replayer_Instr VM_Memory VM_Words
begin

text \<open>
  The loads, stores and non-determinism instructions of a replay
  (\<open>riscv_transpiler/src/replayer/instructions/memory/mod.rs\<close> and \<open>replayer/instructions/zicsr/mod.rs\<close>).  The memory is
  generic; in a replay it is the log, so a load and a store both take an entry.
\<close>

section \<open>Records of a memory access\<close>

definition store_record ::
  "'c State \<Rightarrow> u32 \<times> u64 \<Rightarrow> u32 \<times> u64 \<Rightarrow> u32 \<Rightarrow> u32 \<times> u32 \<times> u64 \<Rightarrow> MemoryOpcodeTracingDataWithTimestamp" where
  "store_record st rs1 rs2 address access =
     (case rs1 of (rs1_value, rs1_ts) \<Rightarrow> case rs2 of (rs2_value, rs2_ts) \<Rightarrow>
      case access of (ram_old_value, new_value, ram_timestamp) \<Rightarrow>
      \<lparr>mt_opcode_data = store_as_load
         \<lparr>sd_initial_pc = st_pc st, sd_rs1_value = rs1_value, sd_aligned_ram_address = address,
          sd_aligned_ram_old_value = ram_old_value, sd_rs2_value = rs2_value,
          sd_aligned_ram_write_value = new_value\<rparr>,
       mt_discr = MEM_STORE_TRACE_DATA_MARKER, mt_rs1_read_timestamp = from_scalar rs1_ts,
       mt_rs2_or_ram_read_timestamp = from_scalar rs2_ts,
       mt_rd_or_ram_read_timestamp = from_scalar ram_timestamp,
       mt_cycle_timestamp = from_scalar (st_ts st)\<rparr>)"

definition load_record ::
  "'c State \<Rightarrow> u32 \<times> u64 \<Rightarrow> u32 \<Rightarrow> u32 \<times> u64 \<Rightarrow> u32 \<times> u32 \<times> u64 \<Rightarrow> MemoryOpcodeTracingDataWithTimestamp" where
  "load_record st rs1 address access rd =
     (case rs1 of (rs1_value, rs1_ts) \<Rightarrow> case access of (ram_value, ram_timestamp) \<Rightarrow>
      case rd of (rd_value, rd_old_value, rd_ts) \<Rightarrow>
      \<lparr>mt_opcode_data =
         \<lparr>ld_initial_pc = st_pc st, ld_rs1_value = rs1_value, ld_aligned_ram_address = address,
          ld_aligned_ram_read_value = ram_value, ld_rd_old_value = rd_old_value, ld_rd_value = rd_value\<rparr>,
       mt_discr = MEM_LOAD_TRACE_DATA_MARKER, mt_rs1_read_timestamp = from_scalar rs1_ts,
       mt_rs2_or_ram_read_timestamp = from_scalar ram_timestamp,
       mt_rd_or_ram_read_timestamp = from_scalar rd_ts,
       mt_cycle_timestamp = from_scalar (st_ts st)\<rparr>)"

text \<open>The \<open>if tracer.needs_tracing_data_for_circuit_family\<close> of the loads, whose record has the masked read, and of the stores.\<close>

definition trace_store ::
  "'t tracer_ops \<Rightarrow> circuit_family \<Rightarrow> MemoryOpcodeTracingDataWithTimestamp \<Rightarrow> 't \<Rightarrow> 't res" where
  "trace_store T family traced_data tracer =
     (if t_needs_family T family tracer then t_write_memory T family traced_data tracer else Inr tracer)"

definition trace_load ::
  "'t tracer_ops \<Rightarrow> 'r ram_ops \<Rightarrow> circuit_family \<Rightarrow> 'c State \<Rightarrow> 'r \<Rightarrow> u32 \<times> u64 \<Rightarrow> u32 \<Rightarrow> u32 \<times> u64 \<Rightarrow>
    u32 \<times> u32 \<times> u64 \<Rightarrow> 't \<Rightarrow> 't res" where
  "trace_load T R family st ram rs1 address access rd tracer =
     (if t_needs_family T family tracer
      then bindE (r_mask_read_for_witness R ram address (fst access))
             (\<lambda>(address_for_witness, ram_value_after_masking).
           t_write_memory T family
             (load_record st rs1 address_for_witness (ram_value_after_masking, snd access) rd) tracer)
      else Inr tracer)"

section \<open>memory\<close>

definition replay_sw ::
  "'t tracer_ops \<Rightarrow> 'r ram_ops \<Rightarrow> 'c State \<Rightarrow> 'r \<Rightarrow> instruction \<Rightarrow> 't \<Rightarrow> ('c State \<times> 'r \<times> 't) res" where
  "replay_sw T R st ram instr tracer =
     bindE (read_register_with_ts 0 (i_rs1 instr) st) (\<lambda>((rs1_value, rs1_ts), st).
     bindE (read_register_with_ts 1 (i_rs2 instr) st) (\<lambda>((rs2_value, rs2_ts), st).
     let address = rs1_value + i_imm instr
     in bindE (guardE (address mod 4 = 0) DebugAssertFailed) (\<lambda>_.
        bindE (r_write_word R address rs2_value (st_ts st OR 2) ram) (\<lambda>((ram_timestamp, ram_old_value), ram).
        bindE (trace_store T LOAD_STORE_WORD_ONLY
          (store_record st (rs1_value, rs1_ts) (rs2_value, rs2_ts) address
            (ram_old_value, rs2_value, ram_timestamp)) tracer) (\<lambda>tracer.
        Inr (default_increase_pc st, ram, tracer))))))"

definition replay_lw ::
  "'t tracer_ops \<Rightarrow> 'r ram_ops \<Rightarrow> 'c State \<Rightarrow> 'r \<Rightarrow> instruction \<Rightarrow> 't \<Rightarrow> ('c State \<times> 'r \<times> 't) res" where
  "replay_lw T R st ram instr tracer =
     bindE (read_register_with_ts 0 (i_rs1 instr) st) (\<lambda>((rs1_value, rs1_ts), st).
     let address = rs1_value + i_imm instr
     in bindE (guardE (address mod 4 = 0) DebugAssertFailed) (\<lambda>_.
        bindE (r_read_word R address (st_ts st OR 1) ram) (\<lambda>((ram_timestamp, ram_old_value), ram).
        let rd = ram_old_value
        in bindE (write_register_with_ts 2 (i_rd instr) rd st) (\<lambda>((rd, rd_old_value, rd_ts), st).
           bindE (trace_load T R LOAD_STORE_WORD_ONLY st ram (rs1_value, rs1_ts) address
             (ram_old_value, ram_timestamp) (rd, rd_old_value, rd_ts) tracer) (\<lambda>tracer.
           Inr (default_increase_pc st, ram, tracer))))))"

definition replay_sh ::
  "'t tracer_ops \<Rightarrow> 'r ram_ops \<Rightarrow> 'c State \<Rightarrow> 'r \<Rightarrow> instruction \<Rightarrow> 't \<Rightarrow> ('c State \<times> 'r \<times> 't) res" where
  "replay_sh T R st ram instr tracer =
     bindE (read_register_with_ts 0 (i_rs1 instr) st) (\<lambda>((rs1_value, rs1_ts), st).
     bindE (read_register_with_ts 1 (i_rs2 instr) st) (\<lambda>((rs2_value, rs2_ts), st).
     let address = rs1_value + i_imm instr
     in bindE (guardE (address mod 2 = 0) DebugAssertFailed) (\<lambda>_.
        let aligned_address = address AND NOT 3; value = rs2_value AND 0x0000ffff
        in bindE (r_peek_word R aligned_address ram) (\<lambda>existing_value.
           bindE (sh_mask address) (\<lambda>mask.
           let new_value = push_bit (unat ((address mod 4) * 8)) value OR (existing_value AND mask)
           in bindE (r_write_word R aligned_address new_value (st_ts st OR 2) ram)
                (\<lambda>((ram_timestamp, ram_old_value), ram).
              bindE (trace_store T LOAD_STORE_SUBWORD_ONLY
                (store_record st (rs1_value, rs1_ts) (rs2_value, rs2_ts) aligned_address
                  (ram_old_value, new_value, ram_timestamp)) tracer) (\<lambda>tracer.
              Inr (default_increase_pc st, ram, tracer))))))))"

definition replay_sb ::
  "'t tracer_ops \<Rightarrow> 'r ram_ops \<Rightarrow> 'c State \<Rightarrow> 'r \<Rightarrow> instruction \<Rightarrow> 't \<Rightarrow> ('c State \<times> 'r \<times> 't) res" where
  "replay_sb T R st ram instr tracer =
     bindE (read_register_with_ts 0 (i_rs1 instr) st) (\<lambda>((rs1_value, rs1_ts), st).
     bindE (read_register_with_ts 1 (i_rs2 instr) st) (\<lambda>((rs2_value, rs2_ts), st).
     let address = rs1_value + i_imm instr;
         aligned_address = address AND NOT 3; value = rs2_value AND 0x000000ff
     in bindE (r_peek_word R aligned_address ram) (\<lambda>existing_value.
           bindE (sb_mask address) (\<lambda>mask.
           let new_value = push_bit (unat ((address mod 4) * 8)) value OR (existing_value AND mask)
           in bindE (r_write_word R aligned_address new_value (st_ts st OR 2) ram)
                (\<lambda>((ram_timestamp, ram_old_value), ram).
              bindE (trace_store T LOAD_STORE_SUBWORD_ONLY
                (store_record st (rs1_value, rs1_ts) (rs2_value, rs2_ts) aligned_address
                  (ram_old_value, new_value, ram_timestamp)) tracer) (\<lambda>tracer.
              Inr (default_increase_pc st, ram, tracer)))))))"

definition replay_lh ::
  "'t tracer_ops \<Rightarrow> 'r ram_ops \<Rightarrow> bool \<Rightarrow> 'c State \<Rightarrow> 'r \<Rightarrow> instruction \<Rightarrow> 't \<Rightarrow> ('c State \<times> 'r \<times> 't) res" where
  "replay_lh T R sext st ram instr tracer =
     bindE (read_register_with_ts 0 (i_rs1 instr) st) (\<lambda>((rs1_value, rs1_ts), st).
     let address = rs1_value + i_imm instr
     in bindE (guardE (address mod 2 = 0) DebugAssertFailed) (\<lambda>_.
        let aligned_address = address AND NOT 3
        in bindE (r_read_word R aligned_address (st_ts st OR 1) ram) (\<lambda>((ram_timestamp, ram_old_value), ram).
           let rd = lh_value sext address ram_old_value
           in bindE (write_register_with_ts 2 (i_rd instr) rd st) (\<lambda>((rd, rd_old_value, rd_ts), st).
              bindE (trace_load T R LOAD_STORE_SUBWORD_ONLY st ram (rs1_value, rs1_ts) aligned_address
                (ram_old_value, ram_timestamp) (rd, rd_old_value, rd_ts) tracer) (\<lambda>tracer.
              Inr (default_increase_pc st, ram, tracer))))))"

definition replay_lb ::
  "'t tracer_ops \<Rightarrow> 'r ram_ops \<Rightarrow> bool \<Rightarrow> 'c State \<Rightarrow> 'r \<Rightarrow> instruction \<Rightarrow> 't \<Rightarrow> ('c State \<times> 'r \<times> 't) res" where
  "replay_lb T R sext st ram instr tracer =
     bindE (read_register_with_ts 0 (i_rs1 instr) st) (\<lambda>((rs1_value, rs1_ts), st).
     let address = rs1_value + i_imm instr; aligned_address = address AND NOT 3
     in bindE (r_read_word R aligned_address (st_ts st OR 1) ram) (\<lambda>((ram_timestamp, ram_old_value), ram).
           let rd = lb_value sext address ram_old_value
           in bindE (write_register_with_ts 2 (i_rd instr) rd st) (\<lambda>((rd, rd_old_value, rd_ts), st).
              bindE (trace_load T R LOAD_STORE_SUBWORD_ONLY st ram (rs1_value, rs1_ts) aligned_address
                (ram_old_value, ram_timestamp) (rd, rd_old_value, rd_ts) tracer) (\<lambda>tracer.
              Inr (default_increase_pc st, ram, tracer)))))"

section \<open>zicsr\<close>



text \<open>\<open>stub\<close> is the constant \<open>REPLAY_NON_DETERMINISM_VIA_RAM_STUB\<close> of the memory: whether the values of the
  source are in its log.\<close>

definition replay_nd_read ::
  "'t tracer_ops \<Rightarrow> 'r ram_ops \<Rightarrow> 'n nd_ops \<Rightarrow> bool \<Rightarrow> 'c State \<Rightarrow> 'r \<Rightarrow> instruction \<Rightarrow> 't \<Rightarrow> 'n \<Rightarrow>
    ('c State \<times> 'r \<times> 't \<times> 'n) res" where
  "replay_nd_read T R ND stub st ram instr tracer nd =
     bindE (touch_x0_with_ts 0 st) (\<lambda>(rs1_ts, st).
     bindE (touch_x0_with_ts 1 st) (\<lambda>(rs2_ts, st).
     bindE (if stub
            then bindE (r_read_word R ROM_BYTE_SIZE INITIAL_TIMESTAMP ram) (\<lambda>((ts, value), ram).
                 bindE (guardE (ts = 0) AssertFailed) (\<lambda>_. Inr (value, ram, nd)))
            else bindE (n_read ND nd) (\<lambda>(value, nd). Inr (value, ram, nd))) (\<lambda>(rd, ram, nd).
     bindE (write_register_with_ts 2 (i_rd instr) rd st) (\<lambda>((rd, rd_old_value, rd_ts), st).
     bindE (trace_non_mem T SHIFT_BINARY_CSR
       (non_mem_record st (0, rs1_ts) (0, rs2_ts) (rd, rd_old_value, rd_ts) (st_pc st + 4)
         (ucast NON_DETERMINISM_CSR)) tracer) (\<lambda>tracer.
     Inr (default_increase_pc st, ram, tracer, nd))))))"

definition replay_nd_write ::
  "'t tracer_ops \<Rightarrow> 'c State \<Rightarrow> instruction \<Rightarrow> 't \<Rightarrow> ('c State \<times> 't) res" where
  "replay_nd_write T st instr tracer =
     bindE (read_register_with_ts 0 (i_rs1 instr) st) (\<lambda>((rs1_value, rs1_ts), st).
     bindE (touch_x0_with_ts 1 st) (\<lambda>(rs2_ts, st).
     bindE (touch_x0_with_ts 2 st) (\<lambda>(rd_ts, st).
     bindE (trace_non_mem T SHIFT_BINARY_CSR
       (non_mem_record st (rs1_value, rs1_ts) (0, rs2_ts) (0, 0, rd_ts) (st_pc st + 4)
         (ucast NON_DETERMINISM_CSR)) tracer) (\<lambda>tracer.
     Inr (default_increase_pc st, tracer)))))"

end
