(* ===== verification/Replayer_Delegations.thy ===== *)
theory Replayer_Delegations
  imports Replayer_Memory VM_Bigint VM_Blake VM_Keccak
begin

text \<open>
  The delegation calls of a replay (\<open>riscv_transpiler/src/replayer/delegations\<close>).  A call that nobody traces skips
  its entries of the log and only moves the registers; otherwise it reads them, records the cycles of the
  calling instruction and, for the circuit of the delegation, one witness per invocation of that circuit.
\<close>

section \<open>Cycles of the calling instruction\<close>

text \<open>The block \<open>cycle\<close>: register 0 is touched three times within one record.\<close>

definition delegation_cycle ::
  "'t tracer_ops \<Rightarrow> u16 \<Rightarrow> 'c State \<Rightarrow> 't \<Rightarrow> ('c State \<times> 't) res" where
  "delegation_cycle T csr st tracer =
     (let next_pc = st_pc st + 4
      in bindE (index (st_regs st) 0) (\<lambda>reg0.
         let x0_timestamp = reg_ts reg0;
             st = st\<lparr>st_regs := (st_regs st)[0 := reg0\<lparr>reg_ts := st_ts st OR 2\<rparr>]\<rparr>
         in bindE (t_write_non_memory T SHIFT_BINARY_CSR
              (non_mem_record st (0, x0_timestamp) (0, st_ts st) (0, 0, st_ts st OR 1) next_pc csr) tracer)
              (\<lambda>tracer.
            Inr (st\<lparr>st_pc := next_pc\<rparr>, tracer))))"

text \<open>The loop over \<open>num_rounds\<close> cycles; time does not move after the last.\<close>

fun delegation_cycles ::
  "'t tracer_ops \<Rightarrow> u16 \<Rightarrow> nat \<Rightarrow> nat list \<Rightarrow> 'c State \<Rightarrow> 't \<Rightarrow> ('c State \<times> 't) res" where
  "delegation_cycles T csr num_rounds [] st tracer = Inr (st, tracer)"
| "delegation_cycles T csr num_rounds (call_round # rest) st tracer =
     (let last_round = (call_round = num_rounds - 1)
      in bindE (delegation_cycle T csr st tracer) (\<lambda>(st, tracer).
         bindE (if last_round then Inr st
                else bindE (add_u64 (st_ts st) TIMESTAMP_STEP) (\<lambda>t. Inr (st\<lparr>st_ts := t\<rparr>))) (\<lambda>st.
         delegation_cycles T csr num_rounds rest st tracer)))"

text \<open>Without records of the cycles: time, program counter and register 0 at once.\<close>

definition jump_cycles :: "nat \<Rightarrow> 'c State \<Rightarrow> 'c State res" where
  "jump_cycles num_rounds st =
     bindE (add_u64 (st_ts st) (word_of_nat (num_rounds - 1) * TIMESTAMP_STEP)) (\<lambda>t.
     let st = st\<lparr>st_ts := t, st_pc := st_pc st + word_of_nat (4 * num_rounds)\<rparr>
     in bindE (index (st_regs st) 0) (\<lambda>reg0.
        Inr (st\<lparr>st_regs := (st_regs st)[0 := reg0\<lparr>reg_ts := st_ts st OR 2\<rparr>]\<rparr>)))"

section \<open>bigint\<close>

fun replay_read_u256 ::
  "'r ram_ops \<Rightarrow> nat \<Rightarrow> u32 \<Rightarrow> u64 \<Rightarrow> 'r \<Rightarrow> (u64 list \<times> RegisterOrIndirectReadData list \<times> 'r) res" where
  "replay_read_u256 R 0 addr timestamp ram = Inr ([], [], ram)"
| "replay_read_u256 R (Suc limbs) addr timestamp ram =
     bindE (r_read_word R addr timestamp ram) (\<lambda>((read_ts, low), ram).
     let low_witness = \<lparr>rr_read_value = low, rr_timestamp = from_scalar read_ts\<rparr>
     in bindE (add_u32 addr 4) (\<lambda>addr.
        bindE (r_read_word R addr timestamp ram) (\<lambda>((read_ts, high), ram).
        let high_witness = \<lparr>rr_read_value = high, rr_timestamp = from_scalar read_ts\<rparr>
        in bindE (add_u32 addr 4) (\<lambda>addr.
           bindE (replay_read_u256 R limbs addr timestamp ram) (\<lambda>(dst, witness, ram).
           Inr (limb_of_words low high # dst, low_witness # high_witness # witness, ram))))))"

text \<open>The values written are 0 until \<open>put_result\<close>.\<close>

fun replay_read_u256_for_update ::
  "'r ram_ops \<Rightarrow> nat \<Rightarrow> u32 \<Rightarrow> u64 \<Rightarrow> 'r \<Rightarrow> (u64 list \<times> RegisterOrIndirectReadWriteData list \<times> 'r) res" where
  "replay_read_u256_for_update R 0 addr timestamp ram = Inr ([], [], ram)"
| "replay_read_u256_for_update R (Suc limbs) addr timestamp ram =
     bindE (r_read_word R addr timestamp ram) (\<lambda>((read_ts, low), ram).
     let low_witness = \<lparr>rw_read_value = low, rw_write_value = 0, rw_timestamp = from_scalar read_ts\<rparr>
     in bindE (add_u32 addr 4) (\<lambda>addr.
        bindE (r_read_word R addr timestamp ram) (\<lambda>((read_ts, high), ram).
        let high_witness = \<lparr>rw_read_value = high, rw_write_value = 0, rw_timestamp = from_scalar read_ts\<rparr>
        in bindE (add_u32 addr 4) (\<lambda>addr.
           bindE (replay_read_u256_for_update R limbs addr timestamp ram) (\<lambda>(dst, witness, ram).
           Inr (limb_of_words low high # dst, low_witness # high_witness # witness, ram))))))"

fun put_result ::
  "u64 list \<Rightarrow> RegisterOrIndirectReadWriteData list \<Rightarrow> RegisterOrIndirectReadWriteData list" where
  "put_result (src # limbs) (low # high # witness) =
     low\<lparr>rw_write_value := ucast src\<rparr> # high\<lparr>rw_write_value := ucast (drop_bit 32 src)\<rparr> #
     put_result limbs witness"
| "put_result _ witness = witness"

text \<open>Without a witness: the carry the machine computed is in the log.\<close>

definition replay_bigint_skip :: "'r ram_ops \<Rightarrow> 'r \<Rightarrow> u64 \<Rightarrow> (u32 \<times> 'r) res" where
  "replay_bigint_skip R ram timestamp =
     bindE (r_skip_if_replaying R 16 ram) (\<lambda>ram.
     bindE (r_read_word R 0 (timestamp OR 3) ram) (\<lambda>((ts, expected_of), ram).
     bindE (guardE (ts = 0) AssertFailed) (\<lambda>_. Inr (expected_of, ram))))"

definition replay_bigint_registers :: "u32 \<Rightarrow> 'c State \<Rightarrow> 'c State res" where
  "replay_bigint_registers expected_of st =
     bindE (read_register_with_ts 3 10 st) (\<lambda>(x10, st).
     bindE (read_register_with_ts 3 11 st) (\<lambda>(x11, st).
     bindE (write_register_with_ts 3 12 expected_of st) (\<lambda>(x12, st). Inr st)))"

definition replay_bigint_witness ::
  "'r ram_ops \<Rightarrow> ruint_ops \<Rightarrow> 'c State \<Rightarrow> 'r \<Rightarrow> (DelegationWitness \<times> 'c State \<times> 'r) res" where
  "replay_bigint_witness R U st ram =
     (let write_ts = st_ts st OR 3
      in bindE (read_register_with_ts 3 10 st) (\<lambda>((x10, x10_ts), st).
         bindE (read_register_with_ts 3 11 st) (\<lambda>((x11, x11_ts), st).
         bindE (index (st_regs st) 12) (\<lambda>reg12.
         let x12 = reg_val reg12
         in bindE (replay_read_u256 R 4 x11 write_ts ram) (\<lambda>(b, indirect_reads, ram).
            bindE (replay_read_u256_for_update R 4 x10 write_ts ram) (\<lambda>(a, indirect_writes, ram).
            bindE (r_read_word R 0 write_ts ram) (\<lambda>((ts, expected_of), ram).
            bindE (guardE (ts = 0) AssertFailed) (\<lambda>_.
            bindE (bigint_impl U a b x12) (\<lambda>(result_value, new_x12).
            let new_x12 = of_bool new_x12
            in bindE (guardE (expected_of = new_x12) AssertFailed) (\<lambda>_.
               bindE (write_register_with_ts 3 12 new_x12 st) (\<lambda>((new_x12, old_x12, x12_ts), st).
               Inr (\<lparr>dw_write_timestamp = write_ts,
                      dw_reg_accesses =
                        [\<lparr>rw_read_value = x10, rw_write_value = x10, rw_timestamp = from_scalar x10_ts\<rparr>,
                         \<lparr>rw_read_value = x11, rw_write_value = x11, rw_timestamp = from_scalar x11_ts\<rparr>,
                         \<lparr>rw_read_value = x12, rw_write_value = new_x12, rw_timestamp = from_scalar x12_ts\<rparr>],
                      dw_indirect_reads = indirect_reads,
                      dw_indirect_writes = put_result result_value indirect_writes,
                      dw_variables_offsets = []\<rparr>, st, ram))))))))))))"

definition replay_bigint_call ::
  "'t tracer_ops \<Rightarrow> 'r ram_ops \<Rightarrow> ruint_ops \<Rightarrow> 'c State \<Rightarrow> 'r \<Rightarrow> 't \<Rightarrow> ('c State \<times> 'r \<times> 't) res" where
  "replay_bigint_call T R U st ram tracer =
     (let csr = ucast BIGINT_OPS_WITH_CONTROL_CSR_REGISTER;
          needs_cycle_data = t_needs_family T SHIFT_BINARY_CSR tracer;
          needs_delegation_data = t_needs_delegation T csr tracer;
          touch = (\<lambda>st. bindE (index (st_regs st) 0) (\<lambda>reg0.
            Inr (st\<lparr>st_pc := st_pc st + 4,
                   st_regs := (st_regs st)[0 := reg0\<lparr>reg_ts := st_ts st OR 2\<rparr>]\<rparr>)))
      in if \<not> needs_cycle_data \<and> \<not> needs_delegation_data
         then bindE (replay_bigint_skip R ram (st_ts st)) (\<lambda>(expected_of, ram).
              bindE (touch st) (\<lambda>st.
              bindE (replay_bigint_registers expected_of st) (\<lambda>st. Inr (st, ram, tracer))))
         else
           bindE (if needs_cycle_data then delegation_cycle T csr st tracer
                  else bindE (touch st) (\<lambda>st. Inr (st, tracer))) (\<lambda>(st, tracer).
           if needs_delegation_data
           then bindE (replay_bigint_witness R U st ram) (\<lambda>(witness, st, ram).
                bindE (t_write_delegation T csr witness tracer) (\<lambda>tracer. Inr (st, ram, tracer)))
           else bindE (replay_bigint_skip R ram (st_ts st)) (\<lambda>(expected_of, ram).
                bindE (replay_bigint_registers expected_of st) (\<lambda>st. Inr (st, ram, tracer)))))"

section \<open>Blocks with times\<close>

text \<open>The loops that fill the arrays of values and of times.\<close>

fun replay_read_words ::
  "'r ram_ops \<Rightarrow> nat \<Rightarrow> u32 \<Rightarrow> u64 \<Rightarrow> 'r \<Rightarrow> (u32 list \<times> u64 list \<times> 'r) res" where
  "replay_read_words R 0 addr timestamp ram = Inr ([], [], ram)"
| "replay_read_words R (Suc n) addr timestamp ram =
     bindE (r_read_word R addr timestamp ram) (\<lambda>((ts, value), ram).
     bindE (add_u32 addr 4) (\<lambda>addr.
     bindE (replay_read_words R n addr timestamp ram) (\<lambda>(values, timestamps, ram).
     Inr (value # values, ts # timestamps, ram))))"

text \<open>The times of the first invocation are those of the log, the later ones those of the invocation before.\<close>

definition read_times :: "nat \<Rightarrow> u64 list \<Rightarrow> u64 \<Rightarrow> u64 list" where
  "read_times call_round initial_timestamps previous_round_write_ts =
     (if call_round = 0 then initial_timestamps
      else map (\<lambda>_. previous_round_write_ts) initial_timestamps)"

definition read_accesses :: "u32 list \<Rightarrow> u64 list \<Rightarrow> RegisterOrIndirectReadData list" where
  "read_accesses values timestamps =
     map (\<lambda>(value, ts). \<lparr>rr_read_value = value, rr_timestamp = from_scalar ts\<rparr>) (zip values timestamps)"

definition update_accesses :: "u32 list \<Rightarrow> u64 list \<Rightarrow> u32 list \<Rightarrow> RegisterOrIndirectReadWriteData list" where
  "update_accesses values timestamps new_values =
     map (\<lambda>((value, ts), new_value).
         \<lparr>rw_read_value = value, rw_write_value = new_value, rw_timestamp = from_scalar ts\<rparr>)
       (zip (zip values timestamps) new_values)"

section \<open>blake2_round_function\<close>

text \<open>The variables of the loop over the rounds.\<close>

record blake_replay =
  br_state :: "u32 list"
  br_extended :: "u32 list"
  br_control :: u32
  br_x10_timestamp :: u64
  br_x11_timestamp :: u64
  br_x12_timestamp :: u64
  br_previous :: u64
  br_current :: u64

definition blake_next_control :: "u32 \<Rightarrow> u32 \<Rightarrow> u32" where
  "blake_next_control control_bitmask control_flow_reg =
     (let permutation_bitmask = drop_bit (16 + BLAKE2S_NUM_CONTROL_BITS) control_flow_reg;
          shifted_permutation_bitmask =
            push_bit 1 permutation_bitmask AND (push_bit BLAKE2S_MAX_ROUNDS 1 - 1)
      in push_bit 16
           (control_bitmask OR push_bit BLAKE2S_NUM_CONTROL_BITS shifted_permutation_bitmask))"

text \<open>One round: the witness and the variables after it.\<close>

definition replay_blake_round ::
  "u32 \<Rightarrow> nat \<Rightarrow> u32 \<Rightarrow> u32 \<Rightarrow> u32 list \<Rightarrow> u64 list \<Rightarrow> u64 list \<Rightarrow> nat \<Rightarrow> blake_replay \<Rightarrow>
    (DelegationWitness \<times> blake_replay) res" where
  "replay_blake_round control_bitmask num_rounds x10 x11 input state_timestamps input_timestamps call_round v =
     (let mode_compression = has_mask control_bitmask TEST_IF_COMPRESSION_MODE_MASK;
          is_right = has_mask control_bitmask TEST_IF_INPUT_IS_RIGHT_NODE_MASK;
          last_round = (call_round = num_rounds - 1);
          updated_control_flow = blake_next_control control_bitmask (br_control v);
          write_ts = br_current v OR 3;
          extended_state = (if call_round = 0
            then blake_prepare mode_compression (br_state v) (br_extended v) else br_extended v);
          buffer = blake_message mode_compression is_right (br_state v) input
      in bindE (index SIGMAS call_round) (\<lambda>sigma.
         let extended_state = mixing_function extended_state buffer sigma;
             blake_state = (if last_round then blake_finish mode_compression (br_state v) extended_state
                            else br_state v)
         in bindE (add_u64 (br_current v) TIMESTAMP_STEP) (\<lambda>current_timestamp.
            Inr (\<lparr>dw_write_timestamp = write_ts,
                   dw_reg_accesses =
                     [\<lparr>rw_read_value = x10, rw_write_value = x10,
                       rw_timestamp = from_scalar (br_x10_timestamp v)\<rparr>,
                      \<lparr>rw_read_value = x11, rw_write_value = x11,
                       rw_timestamp = from_scalar (br_x11_timestamp v)\<rparr>,
                      \<lparr>rw_read_value = br_control v, rw_write_value = updated_control_flow,
                       rw_timestamp = from_scalar (br_x12_timestamp v)\<rparr>],
                   dw_indirect_reads =
                     read_accesses input (read_times call_round input_timestamps (br_previous v)),
                   dw_indirect_writes =
                     update_accesses (br_state v @ br_extended v)
                       (read_times call_round state_timestamps (br_previous v))
                       (blake_state @ extended_state),
                   dw_variables_offsets = []\<rparr>,
                 \<lparr>br_state = blake_state, br_extended = extended_state, br_control = updated_control_flow,
                  br_x10_timestamp = write_ts, br_x11_timestamp = write_ts, br_x12_timestamp = write_ts,
                  br_previous = write_ts, br_current = current_timestamp\<rparr>))))"

fun replay_blake_rounds ::
  "'t tracer_ops \<Rightarrow> u32 \<Rightarrow> nat \<Rightarrow> u32 \<Rightarrow> u32 \<Rightarrow> u32 list \<Rightarrow> u64 list \<Rightarrow> u64 list \<Rightarrow> nat list \<Rightarrow> blake_replay \<Rightarrow> 't \<Rightarrow>
    (blake_replay \<times> 't) res" where
  "replay_blake_rounds T ctl num_rounds x10 x11 input sts its [] v tracer = Inr (v, tracer)"
| "replay_blake_rounds T ctl num_rounds x10 x11 input sts its (call_round # rest) v tracer =
     bindE (replay_blake_round ctl num_rounds x10 x11 input sts its call_round v) (\<lambda>(witness, v).
     bindE (t_write_delegation T (ucast BLAKE2S_DELEGATION_CSR_REGISTER) witness tracer) (\<lambda>tracer.
     replay_blake_rounds T ctl num_rounds x10 x11 input sts its rest v tracer))"

definition replay_blake_registers :: "u32 \<Rightarrow> 'c State \<Rightarrow> 'c State res" where
  "replay_blake_registers final_x12 st =
     bindE (index (st_regs st) 10) (\<lambda>reg10.
     bindE (index (st_regs st) 11) (\<lambda>reg11.
     bindE (index (st_regs st) 12) (\<lambda>reg12.
     let t = st_ts st OR 3
     in Inr (st\<lparr>st_regs := (st_regs st)
          [10 := reg10\<lparr>reg_ts := t\<rparr>, 11 := reg11\<lparr>reg_ts := t\<rparr>,
           12 := \<lparr>reg_ts = t, reg_val = final_x12\<rparr>]\<rparr>))))"

definition replay_blake_witnesses ::
  "'t tracer_ops \<Rightarrow> 'r ram_ops \<Rightarrow> u32 \<Rightarrow> nat \<Rightarrow> u32 \<Rightarrow> u32 \<Rightarrow> u32 \<Rightarrow> u64 \<Rightarrow> 'c State \<Rightarrow> 'r \<Rightarrow> 't \<Rightarrow> ('r \<times> 't) res"
  where
  "replay_blake_witnesses T R control_bitmask num_rounds x10 x11 x12 timestamp_on_entry st ram tracer =
     bindE (add_u64 timestamp_on_entry (word_of_nat (num_rounds - 1) * TIMESTAMP_STEP)) (\<lambda>t.
     bindE (add_u64 t 3) (\<lambda>upper_bound_read_timestamp.
     bindE (add_u64 upper_bound_read_timestamp 1) (\<lambda>artificial_read_timestamp.
     bindE (replay_read_words R 24 x10 artificial_read_timestamp ram)
       (\<lambda>(blake_state_full, state_timestamps, ram).
     bindE (replay_read_words R 16 x11 artificial_read_timestamp ram) (\<lambda>(input, input_timestamps, ram).
     bindE (index (st_regs st) 10) (\<lambda>reg10.
     bindE (index (st_regs st) 11) (\<lambda>reg11.
     bindE (index (st_regs st) 12) (\<lambda>reg12.
     bindE (replay_blake_rounds T control_bitmask num_rounds x10 x11 input state_timestamps input_timestamps
         [0..<num_rounds]
         \<lparr>br_state = take 8 blake_state_full, br_extended = drop 8 blake_state_full, br_control = x12,
          br_x10_timestamp = reg_ts reg10, br_x11_timestamp = reg_ts reg11, br_x12_timestamp = reg_ts reg12,
          br_previous = 0, br_current = timestamp_on_entry\<rparr> tracer) (\<lambda>(v, tracer).
     bindE (guardE (br_current v - TIMESTAMP_STEP = st_ts st) AssertFailed) (\<lambda>_.
     Inr (ram, tracer)))))))))))"

definition replay_blake2_round_function_call ::
  "'t tracer_ops \<Rightarrow> 'r ram_ops \<Rightarrow> 'c State \<Rightarrow> 'r \<Rightarrow> 't \<Rightarrow> ('c State \<times> 'r \<times> 't) res" where
  "replay_blake2_round_function_call T R st ram tracer =
     (let csr = ucast BLAKE2S_DELEGATION_CSR_REGISTER;
          needs_cycle_data = t_needs_family T SHIFT_BINARY_CSR tracer;
          needs_delegation_data = t_needs_delegation T csr tracer
      in bindE (index (st_regs st) 10) (\<lambda>reg10.
         bindE (index (st_regs st) 11) (\<lambda>reg11.
         bindE (index (st_regs st) 12) (\<lambda>reg12.
         let x10 = reg_val reg10; x11 = reg_val reg11; x12 = reg_val reg12
         in bindE (guardE (ROM_BYTE_SIZE \<le> x10) AssertFailed) (\<lambda>_.
            bindE (guardE (ROM_BYTE_SIZE \<le> x11) AssertFailed) (\<lambda>_.
            bindE (guardE (x10 \<noteq> x11) AssertFailed) (\<lambda>_.
            bindE (guardE (x10 mod 128 = 0) AssertFailed) (\<lambda>_.
            bindE (guardE (x11 mod 64 = 0) AssertFailed) (\<lambda>_.
            let control_bitmask = blake_control_bitmask x12;
                reduced_rounds = has_mask control_bitmask TEST_IF_REDUCE_ROUNDS_MASK;
                permutation_bitmask = blake_permutation_bitmask x12
            in bindE (guardE (is_power_of_two permutation_bitmask) AssertFailed) (\<lambda>_.
               bindE (guardE (trailing_zeros permutation_bitmask = 0) AssertFailed) (\<lambda>_.
               let final_x12 = blake_final_x12 reduced_rounds control_bitmask;
                   num_rounds = (if reduced_rounds then 7 else 10 :: nat)
               in if \<not> needs_cycle_data \<and> \<not> needs_delegation_data
                  then bindE (r_skip_if_replaying R (24 + 16) ram) (\<lambda>ram.
                       bindE (jump_cycles num_rounds st) (\<lambda>st.
                       bindE (replay_blake_registers final_x12 st) (\<lambda>st. Inr (st, ram, tracer))))
                  else
                    let timestamp_on_entry = st_ts st
                    in bindE (if needs_cycle_data
                              then delegation_cycles T csr num_rounds [0..<num_rounds] st tracer
                              else bindE (jump_cycles num_rounds st) (\<lambda>st. Inr (st, tracer))) (\<lambda>(st, tracer).
                       bindE (if needs_delegation_data
                              then replay_blake_witnesses T R control_bitmask num_rounds x10 x11 x12
                                     timestamp_on_entry st ram tracer
                              else bindE (r_skip_if_replaying R (24 + 16) ram) (\<lambda>ram. Inr (ram, tracer)))
                         (\<lambda>(ram, tracer).
                       bindE (replay_blake_registers final_x12 st) (\<lambda>st. Inr (st, ram, tracer)))))))))))))))"

end
