(* ===== verification/Replayer_Keccak.thy ===== *)
theory Replayer_Keccak
  imports Replayer_Delegations
begin

text \<open>
  The Keccak delegation of a replay (\<open>riscv_transpiler/src/replayer/delegations/keccak_special5.rs\<close>): one witness for
  each of the 649 small operations, computed on a local copy of the state with the times of its words.
\<close>

text \<open>The loop that fills the local state and its times, two words a lane.\<close>

fun replay_read_lanes ::
  "'r ram_ops \<Rightarrow> nat \<Rightarrow> u32 \<Rightarrow> u64 \<Rightarrow> 'r \<Rightarrow> (u64 list \<times> u64 list \<times> 'r) res" where
  "replay_read_lanes R 0 addr timestamp ram = Inr ([], [], ram)"
| "replay_read_lanes R (Suc n) addr timestamp ram =
     bindE (r_read_word R addr timestamp ram) (\<lambda>((low_ts, low_value), ram).
     bindE (add_u32 addr 4) (\<lambda>addr.
     bindE (r_read_word R addr timestamp ram) (\<lambda>((high_ts, high_value), ram).
     bindE (add_u32 addr 4) (\<lambda>addr.
     bindE (replay_read_lanes R n addr timestamp ram) (\<lambda>(lanes, timestamps, ram).
     Inr ((ucast low_value OR push_bit 32 (ucast high_value)) # lanes,
       low_ts # high_ts # timestamps, ram))))))"

text \<open>The variables of the loop over the operations.\<close>

record keccak_replay =
  kr_state :: "u64 list"
  kr_timestamps :: "u64 list"
  kr_control :: u32
  kr_x10_timestamp :: u64
  kr_x11_timestamp :: u64
  kr_current :: u64

text \<open>The accesses of an operation to its six lanes: two words each, with their times, and what it writes.\<close>

definition lane_accesses ::
  "nat list \<Rightarrow> u64 list \<Rightarrow> u64 list \<Rightarrow> u64 list \<Rightarrow> RegisterOrIndirectReadWriteData list" where
  "lane_accesses state_indexes local_state timestamps outputs =
     concat (map (\<lambda>i.
       let state_index = state_indexes ! i; value = local_state ! state_index; new = outputs ! i
       in [\<lparr>rw_read_value = ucast value, rw_write_value = ucast new,
            rw_timestamp = from_scalar (timestamps ! (2 * state_index))\<rparr>,
           \<lparr>rw_read_value = ucast (drop_bit 32 value), rw_write_value = ucast (drop_bit 32 new),
            rw_timestamp = from_scalar (timestamps ! (2 * state_index + 1))\<rparr>]) [0..<6])"

text \<open>One operation: the witness and the variables after it.\<close>

definition replay_keccak_round :: "u32 \<Rightarrow> keccak_replay \<Rightarrow> (DelegationWitness \<times> keccak_replay) res" where
  "replay_keccak_round x11 v =
     bindE (keccak_special5_impl_decode_control (kr_control v)) (\<lambda>(precompile, iteration, round).
     bindE (keccak_special5_impl_bump_control precompile iteration round) (\<lambda>next_control_reg.
     bindE (keccak_special5_impl_extract_indices precompile iteration round) (\<lambda>state_indexes.
     bindE (guardE (\<forall>i \<in> set state_indexes. i < length (kr_state v)) IndexOutOfBounds) (\<lambda>_.
     let write_ts = kr_current v OR 3; state_inputs = map ((!) (kr_state v)) state_indexes
     in bindE (keccak_special5_impl_compute_outputs precompile iteration round state_inputs) (\<lambda>state_outputs.
        bindE (add_u64 (kr_current v) TIMESTAMP_STEP) (\<lambda>current_timestamp.
        Inr (\<lparr>dw_write_timestamp = write_ts,
               dw_reg_accesses =
                 [\<lparr>rw_read_value = kr_control v, rw_write_value = next_control_reg,
                   rw_timestamp = from_scalar (kr_x10_timestamp v)\<rparr>,
                  \<lparr>rw_read_value = x11, rw_write_value = x11, rw_timestamp = from_scalar (kr_x11_timestamp v)\<rparr>],
               dw_indirect_reads = [],
               dw_indirect_writes = lane_accesses state_indexes (kr_state v) (kr_timestamps v) state_outputs,
               dw_variables_offsets = map word_of_nat state_indexes\<rparr>,
             \<lparr>kr_state = fold (\<lambda>i state. state[state_indexes ! i := state_outputs ! i]) [0..<6] (kr_state v),
              kr_timestamps = fold (\<lambda>i ts. ts[2 * state_indexes ! i := write_ts, 2 * state_indexes ! i + 1 := write_ts])
                [0..<6] (kr_timestamps v),
              kr_control = next_control_reg, kr_x10_timestamp = write_ts, kr_x11_timestamp = write_ts,
              kr_current = current_timestamp\<rparr>)))))))"

fun replay_keccak_rounds ::
  "'t tracer_ops \<Rightarrow> u32 \<Rightarrow> nat \<Rightarrow> keccak_replay \<Rightarrow> 't \<Rightarrow> (keccak_replay \<times> 't) res" where
  "replay_keccak_rounds T x11 0 v tracer = Inr (v, tracer)"
| "replay_keccak_rounds T x11 (Suc rounds) v tracer =
     bindE (replay_keccak_round x11 v) (\<lambda>(witness, v).
     bindE (t_write_delegation T (ucast KECCAK_SPECIAL5_CSR_REGISTER) witness tracer) (\<lambda>tracer.
     replay_keccak_rounds T x11 rounds v tracer))"

definition replay_keccak_witnesses ::
  "'t tracer_ops \<Rightarrow> 'r ram_ops \<Rightarrow> u32 \<Rightarrow> u32 \<Rightarrow> u64 \<Rightarrow> 'c State \<Rightarrow> 'r \<Rightarrow> 't \<Rightarrow> ('r \<times> 't) res" where
  "replay_keccak_witnesses T R x10 x11 timestamp_on_entry st ram tracer =
     bindE (add_u64 timestamp_on_entry
       (word_of_nat (NUM_DELEGATION_CALLS_FOR_KECCAK_F1600 - 1) * TIMESTAMP_STEP)) (\<lambda>t.
     bindE (add_u64 t 3) (\<lambda>upper_bound_read_timestamp.
     bindE (add_u64 upper_bound_read_timestamp 1) (\<lambda>artificial_read_timestamp.
     bindE (replay_read_lanes R 31 x11 artificial_read_timestamp ram) (\<lambda>(local_state, timestamps, ram).
     bindE (index (st_regs st) 10) (\<lambda>reg10.
     bindE (index (st_regs st) 11) (\<lambda>reg11.
     bindE (replay_keccak_rounds T x11 NUM_DELEGATION_CALLS_FOR_KECCAK_F1600
         \<lparr>kr_state = local_state, kr_timestamps = timestamps, kr_control = x10,
          kr_x10_timestamp = reg_ts reg10, kr_x11_timestamp = reg_ts reg11,
          kr_current = timestamp_on_entry\<rparr> tracer) (\<lambda>(v, tracer).
     bindE (guardE (kr_current v - TIMESTAMP_STEP = st_ts st) AssertFailed) (\<lambda>_.
     Inr (ram, tracer)))))))))"

definition replay_keccak_registers :: "'c State \<Rightarrow> 'c State res" where
  "replay_keccak_registers st =
     bindE (index (st_regs st) 10) (\<lambda>reg10.
     bindE (index (st_regs st) 11) (\<lambda>reg11.
     let t = st_ts st OR 3
     in Inr (st\<lparr>st_regs := (st_regs st)
          [10 := \<lparr>reg_ts = t, reg_val = FINAL_KECCAK_F1600_CONTROL_VALUE\<rparr>, 11 := reg11\<lparr>reg_ts := t\<rparr>]\<rparr>)))"

definition replay_keccak_special5_call ::
  "'t tracer_ops \<Rightarrow> 'r ram_ops \<Rightarrow> 'c State \<Rightarrow> 'r \<Rightarrow> 't \<Rightarrow> ('c State \<times> 'r \<times> 't) res" where
  "replay_keccak_special5_call T R st ram tracer =
     (let csr = ucast KECCAK_SPECIAL5_CSR_REGISTER;
          needs_cycle_data = t_needs_family T SHIFT_BINARY_CSR tracer;
          needs_delegation_data = t_needs_delegation T csr tracer;
          n = NUM_DELEGATION_CALLS_FOR_KECCAK_F1600
      in bindE (index (st_regs st) 10) (\<lambda>reg10.
         bindE (index (st_regs st) 11) (\<lambda>reg11.
         let x10 = reg_val reg10; x11 = reg_val reg11
         in bindE (guardE (st_ts st mod 4 = 0) DebugAssertFailed) (\<lambda>_.
            bindE (guardE (ROM_BYTE_SIZE \<le> x11) AssertFailed) (\<lambda>_.
            bindE (guardE (x10 < push_bit 11 1) AssertFailed) (\<lambda>_.
            bindE (guardE (x11 mod 256 = 0) AssertFailed) (\<lambda>_.
            bindE (guardE (x10 = INITIAL_KECCAK_F1600_CONTROL_VALUE) AssertFailed) (\<lambda>_.
            if \<not> needs_cycle_data \<and> \<not> needs_delegation_data
            then bindE (r_skip_if_replaying R (31 * 2) ram) (\<lambda>ram.
                 bindE (jump_cycles n st) (\<lambda>st.
                 bindE (replay_keccak_registers st) (\<lambda>st. Inr (st, ram, tracer))))
            else
              let timestamp_on_entry = st_ts st
              in bindE (if needs_cycle_data then delegation_cycles T csr n [0..<n] st tracer
                        else bindE (jump_cycles n st) (\<lambda>st. Inr (st, tracer))) (\<lambda>(st, tracer).
                 bindE (add_u64 timestamp_on_entry (word_of_nat (n - 1) * TIMESTAMP_STEP)) (\<lambda>t.
                 bindE (guardE (st_ts st = t) AssertFailed) (\<lambda>_.
                 bindE (if needs_delegation_data
                        then replay_keccak_witnesses T R x10 x11 timestamp_on_entry st ram tracer
                        else bindE (r_skip_if_replaying R (31 * 2) ram) (\<lambda>ram. Inr (ram, tracer)))
                   (\<lambda>(ram, tracer).
                 bindE (replay_keccak_registers st) (\<lambda>st. Inr (st, ram, tracer))))))))))))))"

end
