(* ===== verification/Replayer_Run.thy ===== *)
theory Replayer_Run
  imports Replayer_Keccak VM_Run
begin

text \<open>
  The replay itself (\<open>ReplayerVM\<close> of \<open>riscv_transpiler/src/replayer/mod.rs\<close>): the dispatch of one instruction and the
  loop up to a timestamp, generic in the tracer \<open>T\<close>, the memory \<open>R\<close> with its constant \<open>stub\<close>, the source \<open>ND\<close> and
  the integer library \<open>U\<close>.
\<close>

definition replay_call_delegation ::
  "'t tracer_ops \<Rightarrow> 'r ram_ops \<Rightarrow> ruint_ops \<Rightarrow> 'c State \<Rightarrow> 'r \<Rightarrow> instruction \<Rightarrow> 't \<Rightarrow> ('c State \<times> 'r \<times> 't) res"
  where
  "replay_call_delegation T R U st ram instr tracer =
     bindE (guardE (i_rs1 instr = 0) DebugAssertFailed) (\<lambda>_.
     bindE (guardE (i_rs2 instr = 0) DebugAssertFailed) (\<lambda>_.
     bindE (guardE (i_rd instr = 0) DebugAssertFailed) (\<lambda>_.
     if i_imm instr = delegation_code BigInt then replay_bigint_call T R U st ram tracer
     else if i_imm instr = delegation_code Blake then replay_blake2_round_function_call T R st ram tracer
     else if i_imm instr = delegation_code Keccak then replay_keccak_special5_call T R st ram tracer
     else Inl UndefinedBehaviour)))"

text \<open>The register instructions; \<open>None\<close> for those that also reach memory or the source.\<close>

fun replay_register_step ::
  "'t tracer_ops \<Rightarrow> 'c State \<Rightarrow> instruction \<Rightarrow> 't \<Rightarrow> InstructionName \<Rightarrow> ('c State \<times> 't) res option" where
  "replay_register_step T st instr t Illegal = Some (Inl Panic)"
| "replay_register_step T st instr t Lui = Some (replay_lui T st instr t)"
| "replay_register_step T st instr t Auipc = Some (replay_auipc T st instr t)"
| "replay_register_step T st instr t Jal = Some (replay_jal T st instr t)"
| "replay_register_step T st instr t Jalr = Some (replay_jalr T st instr t)"
| "replay_register_step T st instr t Slt = Some (replay_slt T False st instr t)"
| "replay_register_step T st instr t Slti = Some (replay_slt T True st instr t)"
| "replay_register_step T st instr t Sltu = Some (replay_sltu T False st instr t)"
| "replay_register_step T st instr t Sltiu = Some (replay_sltu T True st instr t)"
| "replay_register_step T st instr t Branch = Some (replay_branch T st instr t)"
| "replay_register_step T st instr t Add = Some (replay_add_op T False st instr t)"
| "replay_register_step T st instr t Addi = Some (replay_add_op T True st instr t)"
| "replay_register_step T st instr t Sub = Some (replay_sub_op T st instr t)"
| "replay_register_step T st instr t Xor = Some (replay_xor T False st instr t)"
| "replay_register_step T st instr t Xori = Some (replay_xor T True st instr t)"
| "replay_register_step T st instr t And = Some (replay_and T False st instr t)"
| "replay_register_step T st instr t Andi = Some (replay_and T True st instr t)"
| "replay_register_step T st instr t Or = Some (replay_or T False st instr t)"
| "replay_register_step T st instr t Ori = Some (replay_or T True st instr t)"
| "replay_register_step T st instr t Sll = Some (replay_sll T False st instr t)"
| "replay_register_step T st instr t Slli = Some (replay_sll T True st instr t)"
| "replay_register_step T st instr t Srl = Some (replay_srl T False st instr t)"
| "replay_register_step T st instr t Srli = Some (replay_srl T True st instr t)"
| "replay_register_step T st instr t Sra = Some (replay_sra T False st instr t)"
| "replay_register_step T st instr t Srai = Some (replay_sra T True st instr t)"
| "replay_register_step T st instr t Mul = Some (replay_mul T st instr t)"
| "replay_register_step T st instr t Mulhu = Some (replay_mulhu T st instr t)"
| "replay_register_step T st instr t Divu = Some (replay_divu T st instr t)"
| "replay_register_step T st instr t Remu = Some (replay_remu T st instr t)"
| "replay_register_step T st instr t ZimopAdd = Some (replay_mop_addmod T st instr t)"
| "replay_register_step T st instr t ZimopSub = Some (replay_mop_submod T st instr t)"
| "replay_register_step T st instr t ZimopMul = Some (replay_mop_mulmod T st instr t)"
| "replay_register_step T st instr t ZicsrNonDeterminismWrite = Some (replay_nd_write T st instr t)"
| "replay_register_step T st instr t _ = None"

fun replay_memory_step ::
  "'t tracer_ops \<Rightarrow> 'r ram_ops \<Rightarrow> ruint_ops \<Rightarrow> 'c State \<Rightarrow> 'r \<Rightarrow> instruction \<Rightarrow> 't \<Rightarrow> InstructionName \<Rightarrow>
    ('c State \<times> 'r \<times> 't) res option" where
  "replay_memory_step T R U st ram instr t Sw = Some (replay_sw T R st ram instr t)"
| "replay_memory_step T R U st ram instr t Lw = Some (replay_lw T R st ram instr t)"
| "replay_memory_step T R U st ram instr t Sh = Some (replay_sh T R st ram instr t)"
| "replay_memory_step T R U st ram instr t Lhu = Some (replay_lh T R False st ram instr t)"
| "replay_memory_step T R U st ram instr t Lh = Some (replay_lh T R True st ram instr t)"
| "replay_memory_step T R U st ram instr t Sb = Some (replay_sb T R st ram instr t)"
| "replay_memory_step T R U st ram instr t Lbu = Some (replay_lb T R False st ram instr t)"
| "replay_memory_step T R U st ram instr t Lb = Some (replay_lb T R True st ram instr t)"
| "replay_memory_step T R U st ram instr t ZicsrDelegation =
     Some (replay_call_delegation T R U st ram instr t)"
| "replay_memory_step T R U st ram instr t _ = None"

definition replay_step ::
  "'t tracer_ops \<Rightarrow> 'r ram_ops \<Rightarrow> 'n nd_ops \<Rightarrow> bool \<Rightarrow> ruint_ops \<Rightarrow> (u32 \<Rightarrow> instruction res) \<Rightarrow>
    'c State \<Rightarrow> 'r \<Rightarrow> 'n \<Rightarrow> 't \<Rightarrow> ('c State \<times> 'r \<times> 'n \<times> 't) res" where
  "replay_step T R ND stub U tape st ram nd tracer =
     bindE (tape (st_pc st)) (\<lambda>instr.
     case replay_register_step T st instr tracer (i_name instr) of
       Some m \<Rightarrow> bindE m (\<lambda>(st, tracer). Inr (st, ram, nd, tracer))
     | None \<Rightarrow>
       (case replay_memory_step T R U st ram instr tracer (i_name instr) of
          Some m \<Rightarrow> bindE m (\<lambda>(st, ram, tracer). Inr (st, ram, nd, tracer))
        | None \<Rightarrow>
          if i_name instr = ZicsrNonDeterminismRead
          then bindE (replay_nd_read T R ND stub st ram instr tracer nd) (\<lambda>(st, ram, tracer, nd).
               Inr (st, ram, nd, tracer))
          else Inl Panic))"

text \<open>The body of the loop: a step, the next cycle's timestamp, and the end of the program.\<close>

definition replay_body ::
  "'t tracer_ops \<Rightarrow> 'r ram_ops \<Rightarrow> 'n nd_ops \<Rightarrow> bool \<Rightarrow> ruint_ops \<Rightarrow> (u32 \<Rightarrow> instruction res) \<Rightarrow>
    'c State \<Rightarrow> 'r \<Rightarrow> 'n \<Rightarrow> 't \<Rightarrow> (bool \<times> 'c State \<times> 'r \<times> 'n \<times> 't) res" where
  "replay_body T R ND stub U tape st ram nd tracer =
     (let pc = st_pc st
      in bindE (replay_step T R ND stub U tape st ram nd tracer) (\<lambda>(st, ram, nd, tracer).
         bindE (add_u64 (st_ts st) TIMESTAMP_STEP) (\<lambda>t.
         let st = st\<lparr>st_ts := t\<rparr> in Inr (st_pc st = pc, st, ram, nd, tracer))))"

section \<open>Time only moves forward\<close>

lemma ts_with_ts:
  "read_register_with_ts off i st = Inr (v, st') \<Longrightarrow> st_ts st' = st_ts st"
  "touch_x0_with_ts off st = Inr (ts, st') \<Longrightarrow> st_ts st' = st_ts st"
  "write_register_with_ts off i w st = Inr (r, st') \<Longrightarrow> st_ts st' = st_ts st"
  "second_operand_with_ts b st instr = Inr (s, st') \<Longrightarrow> st_ts st' = st_ts st"
  by (auto simp: read_register_with_ts_def touch_x0_with_ts_def write_register_with_ts_def
      second_operand_with_ts_def Let_def split: if_splits)

lemma ts_replay_register_ops:
  "replay_add_op T b st i t = Inr (st', t') \<Longrightarrow> st_ts st' = st_ts st"
  "replay_sub_op T st i t = Inr (st', t') \<Longrightarrow> st_ts st' = st_ts st"
  "replay_and T b st i t = Inr (st', t') \<Longrightarrow> st_ts st' = st_ts st"
  "replay_or T b st i t = Inr (st', t') \<Longrightarrow> st_ts st' = st_ts st"
  "replay_xor T b st i t = Inr (st', t') \<Longrightarrow> st_ts st' = st_ts st"
  "replay_sll T b st i t = Inr (st', t') \<Longrightarrow> st_ts st' = st_ts st"
  "replay_srl T b st i t = Inr (st', t') \<Longrightarrow> st_ts st' = st_ts st"
  "replay_sra T b st i t = Inr (st', t') \<Longrightarrow> st_ts st' = st_ts st"
  "replay_slt T b st i t = Inr (st', t') \<Longrightarrow> st_ts st' = st_ts st"
  "replay_sltu T b st i t = Inr (st', t') \<Longrightarrow> st_ts st' = st_ts st"
  "replay_mul T st i t = Inr (st', t') \<Longrightarrow> st_ts st' = st_ts st"
  "replay_mulhu T st i t = Inr (st', t') \<Longrightarrow> st_ts st' = st_ts st"
  "replay_divu T st i t = Inr (st', t') \<Longrightarrow> st_ts st' = st_ts st"
  "replay_remu T st i t = Inr (st', t') \<Longrightarrow> st_ts st' = st_ts st"
  "replay_mop_addmod T st i t = Inr (st', t') \<Longrightarrow> st_ts st' = st_ts st"
  "replay_mop_submod T st i t = Inr (st', t') \<Longrightarrow> st_ts st' = st_ts st"
  "replay_mop_mulmod T st i t = Inr (st', t') \<Longrightarrow> st_ts st' = st_ts st"
  "replay_lui T st i t = Inr (st', t') \<Longrightarrow> st_ts st' = st_ts st"
  "replay_auipc T st i t = Inr (st', t') \<Longrightarrow> st_ts st' = st_ts st"
  "replay_jal T st i t = Inr (st', t') \<Longrightarrow> st_ts st' = st_ts st"
  "replay_jalr T st i t = Inr (st', t') \<Longrightarrow> st_ts st' = st_ts st"
  "replay_branch T st i t = Inr (st', t') \<Longrightarrow> st_ts st' = st_ts st"
  "replay_nd_write T st i t = Inr (st', t') \<Longrightarrow> st_ts st' = st_ts st"
  by (auto simp: replay_add_op_def replay_sub_op_def replay_and_def replay_or_def replay_xor_def
      replay_sll_def replay_srl_def replay_sra_def replay_slt_def replay_sltu_def replay_mul_def
      replay_mulhu_def replay_divu_def replay_remu_def replay_mop_addmod_def replay_mop_submod_def
      replay_mop_mulmod_def replay_lui_def replay_auipc_def replay_jal_def replay_jalr_def
      replay_branch_def replay_nd_write_def Let_def dest!: ts_with_ts split: prod.splits)

lemma ts_replay_memory_ops:
  "replay_sw T R st ram i t = Inr (st', ram', t') \<Longrightarrow> st_ts st' = st_ts st"
  "replay_lw T R st ram i t = Inr (st', ram', t') \<Longrightarrow> st_ts st' = st_ts st"
  "replay_sh T R st ram i t = Inr (st', ram', t') \<Longrightarrow> st_ts st' = st_ts st"
  "replay_sb T R st ram i t = Inr (st', ram', t') \<Longrightarrow> st_ts st' = st_ts st"
  "replay_lh T R b st ram i t = Inr (st', ram', t') \<Longrightarrow> st_ts st' = st_ts st"
  "replay_lb T R b st ram i t = Inr (st', ram', t') \<Longrightarrow> st_ts st' = st_ts st"
  "replay_nd_read T R ND stub st ram i t nd = Inr (st', ram', t', nd') \<Longrightarrow> st_ts st' = st_ts st"
  by (auto simp: replay_sw_def replay_lw_def replay_sh_def replay_sb_def replay_lh_def replay_lb_def
      replay_nd_read_def Let_def dest!: ts_with_ts split: prod.splits if_splits)

lemma ts_delegation_parts:
  "delegation_cycle T csr st t = Inr (st', t') \<Longrightarrow> st_ts st' = st_ts st"
  "replay_bigint_registers ov st = Inr st' \<Longrightarrow> st_ts st' = st_ts st"
  "replay_bigint_witness R U st ram = Inr (w, st', ram') \<Longrightarrow> st_ts st' = st_ts st"
  "replay_blake_registers x st = Inr st' \<Longrightarrow> st_ts st' = st_ts st"
  "replay_keccak_registers st = Inr st' \<Longrightarrow> st_ts st' = st_ts st"
  by (auto simp: delegation_cycle_def replay_bigint_registers_def replay_bigint_witness_def
      replay_blake_registers_def replay_keccak_registers_def Let_def dest!: ts_with_ts split: prod.splits)

lemma ts_delegation_cycles:
  "delegation_cycles T csr n ks st t = Inr (st', t') \<Longrightarrow> unat (st_ts st) \<le> unat (st_ts st')"
proof (induction ks arbitrary: st t)
  case (Cons k ks)
  then show ?case
    by (fastforce simp: Let_def split: if_splits dest: ts_delegation_parts(1) dest!: unat_add_u64)
qed simp

lemma ts_jump_cycles: "jump_cycles n st = Inr st' \<Longrightarrow> unat (st_ts st) \<le> unat (st_ts st')"
  by (auto simp: jump_cycles_def Let_def dest!: unat_add_u64)

lemma ts_replay_bigint:
  "replay_bigint_call T R U st ram t = Inr (st', ram', t') \<Longrightarrow> st_ts st' = st_ts st"
  by (auto simp: replay_bigint_call_def Let_def split: if_splits dest!: ts_delegation_parts)

lemma ts_replay_blake:
  "replay_blake2_round_function_call T R st ram t = Inr (st', ram', t') \<Longrightarrow>
    unat (st_ts st) \<le> unat (st_ts st')"
  unfolding replay_blake2_round_function_call_def Let_def
  by (auto split: if_splits prod.splits dest!: ts_delegation_parts ts_jump_cycles ts_delegation_cycles)

lemma ts_replay_keccak:
  "replay_keccak_special5_call T R st ram t = Inr (st', ram', t') \<Longrightarrow>
    unat (st_ts st) \<le> unat (st_ts st')"
  unfolding replay_keccak_special5_call_def Let_def
  by (auto split: if_splits prod.splits dest!: ts_delegation_parts ts_jump_cycles ts_delegation_cycles)

lemma ts_replay_register_step:
  "replay_register_step T st i t n = Some m \<Longrightarrow> m = Inr (st', t') \<Longrightarrow> unat (st_ts st) \<le> unat (st_ts st')"
  by (cases n) (auto simp: ts_replay_register_ops)

lemma ts_replay_call_delegation:
  "replay_call_delegation T R U st ram i t = Inr (st', ram', t') \<Longrightarrow> unat (st_ts st) \<le> unat (st_ts st')"
  using ts_replay_bigint [of T R U st ram t st' ram' t'] ts_replay_blake [of T R st ram t st' ram' t']
    ts_replay_keccak [of T R st ram t st' ram' t']
  by (auto simp: replay_call_delegation_def split: if_splits)

lemma ts_replay_memory_step:
  "replay_memory_step T R U st ram i t n = Some m \<Longrightarrow> m = Inr (st', ram', t') \<Longrightarrow>
    unat (st_ts st) \<le> unat (st_ts st')"
  by (cases n) (auto simp: ts_replay_memory_ops dest: ts_replay_call_delegation)

lemma ts_replay_step:
  assumes "replay_step T R ND stub U tape st ram nd t = Inr (st', ram', nd', t')"
  shows "unat (st_ts st) \<le> unat (st_ts st')"
  using assms unfolding replay_step_def
  by (auto split: option.splits if_splits prod.splits
      dest: ts_replay_register_step [OF _ refl] ts_replay_memory_step [OF _ refl] ts_replay_memory_ops(7))

lemma ts_replay_body:
  assumes "replay_body T R ND stub U tape st ram nd t = Inr (stop, st', ram', nd', t')"
  shows "unat (st_ts st) < unat (st_ts st')"
  using assms ts_replay_step [of T R ND stub U tape st ram nd t]
  by (fastforce simp: replay_body_def Let_def TIMESTAMP_STEP_def dest!: unat_add_u64)

section \<open>The loop\<close>

function replay_by_timestamp_bound ::
  "'t tracer_ops \<Rightarrow> 'r ram_ops \<Rightarrow> 'n nd_ops \<Rightarrow> bool \<Rightarrow> ruint_ops \<Rightarrow> (u32 \<Rightarrow> instruction res) \<Rightarrow> u64 \<Rightarrow>
    'c State \<Rightarrow> 'r \<Rightarrow> 'n \<Rightarrow> 't \<Rightarrow> ('c State \<times> 'r \<times> 'n \<times> 't) res" where
  "replay_by_timestamp_bound T R ND stub U tape timestamp_bound st ram nd tracer =
     (if st_ts st < timestamp_bound
      then bindE (replay_body T R ND stub U tape st ram nd tracer) (\<lambda>(stop, st, ram, nd, tracer).
           if stop then Inr (st, ram, nd, tracer)
           else replay_by_timestamp_bound T R ND stub U tape timestamp_bound st ram nd tracer)
      else Inr (st, ram, nd, tracer))"
  by pat_completeness auto

termination
  by (relation "measure (\<lambda>(T, R, ND, stub, U, tape, bound, st, ram, nd, tracer).
        unat bound - unat (st_ts st))")
    (auto simp: word_less_nat_alt dest!: ts_replay_body intro!: diff_less_mono2)

declare replay_by_timestamp_bound.simps [simp del]

definition replay_basic_unrolled ::
  "'t tracer_ops \<Rightarrow> 'r ram_ops \<Rightarrow> 'n nd_ops \<Rightarrow> bool \<Rightarrow> ruint_ops \<Rightarrow> (u32 \<Rightarrow> instruction res) \<Rightarrow> usize \<Rightarrow>
    'c State \<Rightarrow> 'r \<Rightarrow> 'n \<Rightarrow> 't \<Rightarrow> ('c State \<times> 'r \<times> 'n \<times> 't) res" where
  "replay_basic_unrolled T R ND stub U tape cycle_bound st ram nd tracer =
     bindE (mul_u64 TIMESTAMP_STEP cycle_bound) (\<lambda>d.
     bindE (add_u64 (st_ts st) d) (\<lambda>final_ts.
     replay_by_timestamp_bound T R ND stub U tape final_ts st ram nd tracer))"

end
