(* ===== verification/Replay_Trace.thy ===== *)
theory Replay_Trace
  imports Replayer_Run
begin

text \<open>
  The whole trace of a replay, and what a tracer sees of it.  \<open>collect_tracer\<close> asks for everything and keeps it in
  order; a replay with another tracer does the same to the state and feeds the tracer the collected records it asks
  for.  So the circuits' replays, each with its own tracer, are projections of one trace.
\<close>

section \<open>The whole trace\<close>

definition collect_tracer :: "traced list tracer_ops" where
  "collect_tracer =
     \<lparr>t_needs_family = (\<lambda>family t. True), t_needs_delegation = (\<lambda>delegation_type t. True),
      t_write_non_memory = (\<lambda>family data t. Inr (t @ [NonMemOf family data])),
      t_write_memory = (\<lambda>family data t. Inr (t @ [MemOf family data])),
      t_write_delegation = (\<lambda>delegation_type data t. Inr (t @ [DelegationOf delegation_type data]))\<rparr>"

lemma collect_tracer_sel [simp]:
  "t_needs_family collect_tracer fam t" "t_needs_delegation collect_tracer dt t"
  "t_write_non_memory collect_tracer fam nm t = Inr (t @ [NonMemOf fam nm])"
  "t_write_memory collect_tracer fam m t = Inr (t @ [MemOf fam m])"
  "t_write_delegation collect_tracer dt w t = Inr (t @ [DelegationOf dt w])"
  by (simp_all add: collect_tracer_def)

lemma trace_collect [simp]:
  "trace_non_mem collect_tracer fam nm t = Inr (t @ [NonMemOf fam nm])"
  "trace_store collect_tracer fam m t = Inr (t @ [MemOf fam m])"
  by (simp_all add: trace_non_mem_def trace_store_def)

text \<open>A tracer is offered a list of records.\<close>

fun feed_one :: "'t tracer_ops \<Rightarrow> traced \<Rightarrow> 't \<Rightarrow> 't res" where
  "feed_one T (NonMemOf fam nm) t = trace_non_mem T fam nm t"
| "feed_one T (MemOf fam m) t = trace_store T fam m t"
| "feed_one T (DelegationOf dt w) t =
     (if t_needs_delegation T dt t then t_write_delegation T dt w t else Inr t)"

fun feed :: "'t tracer_ops \<Rightarrow> traced list \<Rightarrow> 't \<Rightarrow> 't res" where
  "feed T [] t = Inr t"
| "feed T (r # rs) t = bindE (feed_one T r t) (feed T rs)"

lemma feed_append: "feed T (rs @ rs') t = bindE (feed T rs t) (feed T rs')"
proof (induction rs arbitrary: t)
  case (Cons r rs)
  then have "feed T (rs @ rs') = (\<lambda>t. bindE (feed T rs t) (feed T rs'))" by (rule ext)
  then show ?case by (simp add: bindE_assoc)
qed simp

lemma feed_end [simp]: "bindE m (feed T []) = m"
  by (cases m) simp_all

text \<open>A witness has the sizes of its circuit.\<close>

fun traced_fits :: "traced \<Rightarrow> bool" where
  "traced_fits (DelegationOf dt w) = witness_fits dt w"
| "traced_fits _ = True"

context witness_tracer
begin

fun kept :: "traced \<Rightarrow> bool" where
  "kept (NonMemOf fam nm) = takes_family fam"
| "kept (MemOf fam m) = takes_family fam"
| "kept (DelegationOf dt w) = takes_delegation dt"

lemma feed_holds:
  "holds t xs \<Longrightarrow> \<forall>r \<in> set rs. traced_fits r \<Longrightarrow>
    \<exists>t'. feed T rs t = Inr t' \<and> holds t' (xs @ filter kept rs)"
proof (induction rs arbitrary: t xs)
  case (Cons r rs)
  have "\<exists>t'. feed_one T r t = Inr t' \<and> holds t' (xs @ filter kept [r])"
    using Cons.prems non_memory [OF Cons.prems(1)] memory [OF Cons.prems(1)] delegation [OF Cons.prems(1)]
      needs_family [OF Cons.prems(1)] needs_delegation [OF Cons.prems(1)]
    by (cases r) (auto simp: trace_non_mem_def trace_store_def)
  then obtain t' where t': "feed_one T r t = Inr t'" "holds t' (xs @ filter kept [r])" by blast
  then show ?case using Cons.IH [OF t'(2)] Cons.prems(2) by (cases "kept r") simp_all
qed simp

end

section \<open>Instructions\<close>

text \<open>When the collecting replay ends in a state, the replay with \<open>T\<close> offers the new records to \<open>T\<close> and ends in
  the same state.\<close>

definition projects ::
  "'t tracer_ops \<Rightarrow> traced list \<Rightarrow> 't \<Rightarrow> ('a \<times> traced list) res \<Rightarrow> ('a \<times> 't) res \<Rightarrow> bool" where
  "projects T rs t mc mt \<longleftrightarrow>
     (\<forall>s rs'. mc = Inr (s, rs') \<longrightarrow>
       (\<exists>new. rs' = rs @ new \<and> mt = bindE (feed T new t) (\<lambda>t. Inr (s, t))))"

definition projects3 ::
  "'t tracer_ops \<Rightarrow> traced list \<Rightarrow> 't \<Rightarrow> ('a \<times> 'b \<times> traced list) res \<Rightarrow> ('a \<times> 'b \<times> 't) res \<Rightarrow> bool" where
  "projects3 T rs t mc mt \<longleftrightarrow>
     (\<forall>s r rs'. mc = Inr (s, r, rs') \<longrightarrow>
       (\<exists>new. rs' = rs @ new \<and> mt = bindE (feed T new t) (\<lambda>t. Inr (s, r, t))))"

lemma projects_bind:
  "(\<And>x. m = Inr x \<Longrightarrow> projects T rs t (f x) (g x)) \<Longrightarrow> projects T rs t (bindE m f) (bindE m g)"
  by (cases m) (auto simp: projects_def)

lemma projects3_bind:
  "(\<And>x. m = Inr x \<Longrightarrow> projects3 T rs t (f x) (g x)) \<Longrightarrow> projects3 T rs t (bindE m f) (bindE m g)"
  by (cases m) (auto simp: projects3_def)

lemma projects_trace:
  "projects T rs t (Inr (s, rs @ [NonMemOf fam r])) (bindE (trace_non_mem T fam r t) (\<lambda>t. Inr (s, t)))"
  by (simp add: projects_def bindE_assoc)

lemma projects3_store:
  "projects3 T rs t (Inr (s, ram, rs @ [MemOf fam r])) (bindE (trace_store T fam r t) (\<lambda>t. Inr (s, ram, t)))"
  by (simp add: projects3_def bindE_assoc)

lemma projects3_load:
  "projects3 T rs t
     (bindE (trace_load collect_tracer R fam st ram rs1 a acc rd rs) (\<lambda>t. Inr (s, ram, t)))
     (bindE (trace_load T R fam st ram rs1 a acc rd t) (\<lambda>t. Inr (s, ram, t)))"
  by (auto simp: projects3_def trace_load_def trace_store_def split_def)

lemmas projects_intros = projects_bind projects3_bind projects_trace projects3_store projects3_load

lemmas replay_register_defs = replay_add_op_def replay_sub_op_def replay_and_def replay_or_def replay_xor_def
  replay_sll_def replay_srl_def replay_sra_def replay_slt_def replay_sltu_def replay_mul_def replay_mulhu_def
  replay_divu_def replay_remu_def replay_mop_addmod_def replay_mop_submod_def replay_mop_mulmod_def
  replay_lui_def replay_auipc_def replay_jal_def replay_jalr_def replay_branch_def replay_nd_write_def

lemma projects_register_ops:
  "projects T rs t (replay_add_op collect_tracer b st i rs) (replay_add_op T b st i t)"
  "projects T rs t (replay_sub_op collect_tracer st i rs) (replay_sub_op T st i t)"
  "projects T rs t (replay_and collect_tracer b st i rs) (replay_and T b st i t)"
  "projects T rs t (replay_or collect_tracer b st i rs) (replay_or T b st i t)"
  "projects T rs t (replay_xor collect_tracer b st i rs) (replay_xor T b st i t)"
  "projects T rs t (replay_sll collect_tracer b st i rs) (replay_sll T b st i t)"
  "projects T rs t (replay_srl collect_tracer b st i rs) (replay_srl T b st i t)"
  "projects T rs t (replay_sra collect_tracer b st i rs) (replay_sra T b st i t)"
  "projects T rs t (replay_slt collect_tracer b st i rs) (replay_slt T b st i t)"
  "projects T rs t (replay_sltu collect_tracer b st i rs) (replay_sltu T b st i t)"
  "projects T rs t (replay_mul collect_tracer st i rs) (replay_mul T st i t)"
  "projects T rs t (replay_mulhu collect_tracer st i rs) (replay_mulhu T st i t)"
  "projects T rs t (replay_divu collect_tracer st i rs) (replay_divu T st i t)"
  "projects T rs t (replay_remu collect_tracer st i rs) (replay_remu T st i t)"
  "projects T rs t (replay_mop_addmod collect_tracer st i rs) (replay_mop_addmod T st i t)"
  "projects T rs t (replay_mop_submod collect_tracer st i rs) (replay_mop_submod T st i t)"
  "projects T rs t (replay_mop_mulmod collect_tracer st i rs) (replay_mop_mulmod T st i t)"
  "projects T rs t (replay_lui collect_tracer st i rs) (replay_lui T st i t)"
  "projects T rs t (replay_auipc collect_tracer st i rs) (replay_auipc T st i t)"
  "projects T rs t (replay_jal collect_tracer st i rs) (replay_jal T st i t)"
  "projects T rs t (replay_jalr collect_tracer st i rs) (replay_jalr T st i t)"
  "projects T rs t (replay_branch collect_tracer st i rs) (replay_branch T st i t)"
  "projects T rs t (replay_nd_write collect_tracer st i rs) (replay_nd_write T st i t)"
  unfolding replay_register_defs Let_def split_def trace_collect bindE_Inr
  by (intro projects_intros)+

lemma projects_memory_ops:
  "projects3 T rs t (replay_sw collect_tracer R st ram i rs) (replay_sw T R st ram i t)"
  "projects3 T rs t (replay_lw collect_tracer R st ram i rs) (replay_lw T R st ram i t)"
  "projects3 T rs t (replay_sh collect_tracer R st ram i rs) (replay_sh T R st ram i t)"
  "projects3 T rs t (replay_sb collect_tracer R st ram i rs) (replay_sb T R st ram i t)"
  "projects3 T rs t (replay_lh collect_tracer R b st ram i rs) (replay_lh T R b st ram i t)"
  "projects3 T rs t (replay_lb collect_tracer R b st ram i rs) (replay_lb T R b st ram i t)"
  unfolding replay_sw_def replay_lw_def replay_sh_def replay_sb_def replay_lh_def replay_lb_def
    Let_def split_def trace_collect bindE_Inr
  by (intro projects_intros)+

lemma projects_register_step:
  assumes "replay_register_step collect_tracer st i rs n = Some m"
  shows "\<exists>m'. replay_register_step T st i t n = Some m' \<and> projects T rs t m m'"
  using assms by (cases n) (auto simp: projects_register_ops, auto simp: projects_def)

end
