(* ===== verification/Replay_Simulation.thy ===== *)
theory Replay_Simulation
  imports Replay_Trace VM_Loop VM_Keccak_Call
begin

text \<open>
  A replay of the log follows the run that wrote it: from the same registers, program counter and time, a cycle of the
  machine that succeeds is a cycle of the collecting replay that succeeds, takes exactly the entries the machine
  appended, ends in the same registers, program counter and time, and collects one record per cycle, in the circuit family the
  machine counted.
\<close>

section \<open>States up to counters\<close>

abbreviation with_counters :: "'c State \<Rightarrow> 'c \<Rightarrow> 'c State" where
  "with_counters st d \<equiv> st\<lparr>st_counters := d\<rparr>"

lemma with_counters_helpers [simp]:
  "touch_reg off i (with_counters st d) = with_counters (touch_reg off i st) d"
  "set_reg off i v (with_counters st d) = with_counters (set_reg off i v st) d"
  "default_increase_pc (with_counters st d) = with_counters (default_increase_pc st) d"
  by (simp_all add: touch_reg_def set_reg_def default_increase_pc_def)

lemma with_pc [simp]:
  "touch_reg off i (st\<lparr>st_pc := p\<rparr>) = touch_reg off i st\<lparr>st_pc := p\<rparr>"
  "set_reg off i v (st\<lparr>st_pc := p\<rparr>) = set_reg off i v st\<lparr>st_pc := p\<rparr>"
  "with_counters (st\<lparr>st_pc := p\<rparr>) d = with_counters st d\<lparr>st_pc := p\<rparr>"
  by (simp_all add: touch_reg_def set_reg_def)

lemma touch_reg_twice: "touch_reg off' i (touch_reg off i st) = touch_reg off' i st"
  by (cases "unat i < length (st_regs st)")
    (simp_all add: touch_reg_def list_update_beyond)

lemma second_operand_with_ts_ok:
  "cycle_at (Suc 0) st \<Longrightarrow> i_rs2 i < 32 \<Longrightarrow> second_operand_with_ts b st i =
    Inr ((if b then 0 else reg_vals st ! unat (i_rs2 i),
          reg_ts (st_regs st ! unat (if b then 0 else i_rs2 i)),
          if b then i_imm i else reg_vals st ! unat (i_rs2 i)), touch_reg 1 (if b then 0 else i_rs2 i) st)"
  by (simp add: second_operand_with_ts_def touch_with_ts_ok [of 1] read_with_ts_ok [of 1])

lemmas access_with_ts_ok = read_with_ts_ok [of 0 _ 0, simplified] read_with_ts_ok [of 1 _ 1, simplified]
  touch_with_ts_ok [of 0 _ 0, simplified] touch_with_ts_ok [of 1 _ 1, simplified]
  touch_with_ts_ok [of 2 _ 2, simplified]
  write_with_ts_ok [of 2 _ 2, simplified] second_operand_with_ts_ok

section \<open>Register instructions\<close>

text \<open>The families of the circuits for cycles without a memory access, and for loads and stores.\<close>

fun non_mem_family :: "circuit_family \<Rightarrow> bool" where
  "non_mem_family fam = (fam \<in> {ADD_SUB_LUI_AUIPC_MOP, JUMP_BRANCH_SLT, SHIFT_BINARY_CSR, MUL_DIV})"

fun mem_family :: "circuit_family \<Rightarrow> bool" where
  "mem_family fam = (fam \<in> {LOAD_STORE_WORD_ONLY, LOAD_STORE_SUBWORD_ONLY})"

text \<open>A successful cycle of the machine ends with the increment of the counter of a family; the replay ends in the state
  before it and has one more record, of that family.\<close>

definition replayed ::
  "'c counter_ops \<Rightarrow> 'c State \<Rightarrow> 'c \<Rightarrow> traced list \<Rightarrow> 'c State res \<Rightarrow> ('c State \<times> traced list) res \<Rightarrow> bool" where
  "replayed C st d rs m mr \<longleftrightarrow>
     (\<forall>st'. m = Inr st' \<longrightarrow> (\<exists>fam st1 r. m = increment_family_counter C fam st1 \<and>
        non_mem_family fam \<and> st_counters st1 = st_counters st \<and> mr = Inr (with_counters st1 d, rs @ [NonMemOf fam r])))"

lemma replayed_incr:
  "st_counters st1 = st_counters st \<Longrightarrow> st2 = with_counters st1 d \<Longrightarrow> non_mem_family fam \<Longrightarrow>
    replayed C st d rs (increment_family_counter C fam st1) (Inr (st2, rs @ [NonMemOf fam r]))"
  unfolding replayed_def by blast

lemma replayed_fails: "replayed C st d rs (Inl e) mr"
  by (simp add: replayed_def)

lemma replayed_alu:
  fixes b :: bool and C :: "'c counter_ops" and d :: 'c and rs :: "traced list"
  assumes "cycle_at 0 st" "i_rs1 i < 32" "i_rs2 i < 32" "i_rd i < 32"
  defines "result \<equiv> \<lambda>m m'. replayed C st d rs m m'" and "st' \<equiv> with_counters st d"
  shows "result (add_op C b st i) (replay_add_op collect_tracer b st' i rs)"
    "result (sub_op C st i) (replay_sub_op collect_tracer st' i rs)"
    "result (and_op C b st i) (replay_and collect_tracer b st' i rs)"
    "result (or_op C b st i) (replay_or collect_tracer b st' i rs)"
    "result (xor_op C b st i) (replay_xor collect_tracer b st' i rs)"
    "result (sll_op C b st i) (replay_sll collect_tracer b st' i rs)"
    "result (srl_op C b st i) (replay_srl collect_tracer b st' i rs)"
    "result (sra_op C b st i) (replay_sra collect_tracer b st' i rs)"
    "result (slt_op C b st i) (replay_slt collect_tracer b st' i rs)"
    "result (sltu_op C b st i) (replay_sltu collect_tracer b st' i rs)"
    "result (mul_op C st i) (replay_mul collect_tracer st' i rs)"
    "result (mulhu_op C st i) (replay_mulhu collect_tracer st' i rs)"
    "result (divu_op C st i) (replay_divu collect_tracer st' i rs)"
    "result (remu_op C st i) (replay_remu collect_tracer st' i rs)"
  unfolding result_def st'_def using assms(1-4)
  by (simp_all add: replayed_incr add_op_def sub_op_def and_op_def or_op_def xor_op_def
      sll_op_def srl_op_def sra_op_def slt_op_def sltu_op_def mul_op_def mulhu_op_def divu_op_def remu_op_def
      replay_register_defs Let_def access_ok access_with_ts_ok)

lemma replayed_mop:
  fixes C :: "'c counter_ops" and d :: 'c and rs :: "traced list"
  assumes "cycle_at 0 st" "i_rs1 i < 32" "i_rs2 i < 32" "i_rd i < 32"
  defines "result \<equiv> \<lambda>m m'. replayed C st d rs m m'" and "st' \<equiv> with_counters st d"
  shows "result (mop_addmod C st i) (replay_mop_addmod collect_tracer st' i rs)"
    "result (mop_submod C st i) (replay_mop_submod collect_tracer st' i rs)"
    "result (mop_mulmod C st i) (replay_mop_mulmod collect_tracer st' i rs)"
proof -
  obtain c e where c: "from_nonreduced_u32 (reg_vals st ! unat (i_rs1 i)) = Inr c"
      "from_nonreduced_u32 (reg_vals st ! unat (i_rs2 i)) = Inr e"
    using from_nonreduced_ok by blast
  obtain f where f: "sub_assign_impl c e = Inr f" using mop_values(3) [OF c] by blast
  show "result (mop_addmod C st i) (replay_mop_addmod collect_tracer st' i rs)"
    "result (mop_submod C st i) (replay_mop_submod collect_tracer st' i rs)"
    "result (mop_mulmod C st i) (replay_mop_mulmod collect_tracer st' i rs)"
    unfolding result_def st'_def using assms(1-4) c f
    by (simp_all add: replayed_incr mop_addmod_def mop_submod_def mop_mulmod_def
        replay_register_defs Let_def access_ok access_with_ts_ok)
qed

lemma replayed_upper:
  fixes C :: "'c counter_ops" and d :: 'c and rs :: "traced list"
  assumes "cycle_at 0 st" "i_rs1 i = 0" "i_rs2 i = 0" "i_rd i < 32"
  shows "replayed C st d rs (lui_op C st i) (replay_lui collect_tracer (with_counters st d) i rs)"
    "replayed C st d rs (auipc_op C st i) (replay_auipc collect_tracer (with_counters st d) i rs)"
  using assms
  by (simp_all add: replayed_incr lui_op_def auipc_op_def replay_register_defs Let_def access_ok
      access_with_ts_ok touch_reg_twice)

text \<open>A jump of the replay is not checked, that of the machine is.\<close>

lemma replayed_jumps:
  fixes C :: "'c counter_ops" and d :: 'c and rs :: "traced list"
  assumes "cycle_at 0 st" "i_rs1 i < 32" "i_rs2 i = 0" "i_rd i < 32"
  shows "i_rs1 i = 0 \<Longrightarrow>
      replayed C st d rs (jal_op C st i) (replay_jal collect_tracer (with_counters st d) i rs)"
    "replayed C st d rs (jalr_op C st i) (replay_jalr collect_tracer (with_counters st d) i rs)"
  using assms
  by (simp_all add: replayed_incr replayed_fails jal_op_def jalr_op_def replay_register_defs Let_def access_ok
      access_with_ts_ok touch_reg_twice jump_to_def guardE_def)

lemma replayed_branch:
  fixes C :: "'c counter_ops" and d :: 'c and rs :: "traced list"
  assumes "cycle_at 0 st" "i_rs1 i < 32" "i_rs2 i < 32" "i_rd i < 32"
  shows "replayed C st d rs (branch_op C st i) (replay_branch collect_tracer (with_counters st d) i rs)"
  using assms
  by (cases "branch_condition (i_rd i) (reg_vals st ! unat (i_rs1 i)) (reg_vals st ! unat (i_rs2 i))")
    (simp_all add: replayed_incr replayed_fails branch_op_def replay_register_defs Let_def access_ok
      access_with_ts_ok touch_reg_twice jump_to_def guardE_def default_increase_pc_def)

lemmas replayed_register = replayed_alu replayed_mop replayed_upper replayed_jumps replayed_branch

text \<open>The operands the decoder produces.\<close>

definition replay_instr :: "instruction \<Rightarrow> bool" where
  "replay_instr i \<longleftrightarrow> wf_instr i \<and> (i_name i = ZicsrNonDeterminismWrite \<longrightarrow> i_rd i = 0)"

lemma replayed_register_step:
  assumes "cycle_at 0 st" "replay_instr i" "register_step C st i (i_name i) = Some m"
  shows "\<exists>mr. replay_register_step collect_tracer (with_counters st d) i rs (i_name i) = Some mr \<and>
    replayed C st d rs m mr"
  using assms unfolding replay_instr_def wf_instr_def
  by (cases "i_name i") (auto simp: replayed_register replayed_fails illegal_def)

section \<open>Memory instructions\<close>

lemma replayer_ram_sel [simp]:
  "r_read_word (replayer_ram_ops bits) = replay_read_word"
  "r_write_word (replayer_ram_ops bits) = replay_write_word"
  "r_peek_word (replayer_ram_ops bits) = replay_peek_word"
  "r_skip_if_replaying (replayer_ram_ops bits) = replay_skip"
  by (simp_all add: replayer_ram_ops_def)

locale logged_memory =
  word_memory R words word last writable + append_log S logged
  for R :: "'r ram_ops" and words word last writable
    and S :: "('c, 's) snapshotter_ops" and logged
begin

lemma access_before:
  "r_read_word R a t r = Inr ((rt, v), r') \<Longrightarrow> a mod 4 = 0 \<and> rt < (t OR 1)"
  "r_write_word R a w t r = Inr ((rt, v), r') \<Longrightarrow> a mod 4 = 0 \<and> rt < (t OR 2)"
  using read_possible [of a t r] read_effect [of a t r rt v r'] write_possible [of a w t r]
    write_effect [of a w t r rt v r'] by (auto simp: word_less_nat_alt)

text \<open>A successful cycle of the machine appends an entry that the replay takes.\<close>

definition memory_replayed ::
  "'c counter_ops \<Rightarrow> 'c State \<Rightarrow> 'c \<Rightarrow> traced list \<Rightarrow> log_entry list \<Rightarrow> ('c State \<times> 'r \<times> 's) res \<Rightarrow>
    (ReplayerRam \<Rightarrow> ('c State \<times> ReplayerRam \<times> traced list) res) \<Rightarrow> bool" where
  "memory_replayed C st d rs xs m mr \<longleftrightarrow>
     (\<forall>st' r' s'. m = Inr (st', r', s') \<longrightarrow>
       (\<exists>e fam st1 rec. logged s' (xs @ [e]) \<and> increment_family_counter C fam st1 = Inr st' \<and>
          mem_family fam \<and> st_counters st1 = st_counters st \<and>
          (\<forall>rram zs. replays rram (e # zs) \<longrightarrow>
            mr rram = Inr (with_counters st1 d, advance_log 1 rram, rs @ [MemOf fam rec]))))"

lemma memory_replayedI:
  assumes "\<And>st' r' s'. m = Inr (st', r', s') \<Longrightarrow>
    \<exists>e fam st1 rec. logged s' (xs @ [e]) \<and> increment_family_counter C fam st1 = Inr st' \<and>
      mem_family fam \<and> st_counters st1 = st_counters st \<and>
      (\<forall>rram zs. replays rram (e # zs) \<longrightarrow>
        mr rram = Inr (with_counters st1 d, advance_log 1 rram, rs @ [MemOf fam rec]))"
  shows "memory_replayed C st d rs xs m mr"
  using assms unfolding memory_replayed_def by blast

text \<open>The end of a load and of a store, after the operands are read.\<close>

lemma load_replayed:
  assumes "cycle_at 2 st0" "i_rd i < 32" "logged s xs" "st_counters st0 = st_counters st"
    "mem_family fam"
  shows "memory_replayed C st d rs xs
    (bindE (r_read_word R b (st_ts st0 OR 1) r) (\<lambda>((read_timestamp, old_value), ram).
     bindE (write_register 2 (i_rd i) (f old_value) st0) (\<lambda>(rd, st).
     bindE (s_append_memory_read S b old_value read_timestamp (st_ts st OR 1) s) (\<lambda>snap.
     bindE (increment_family_counter C fam (default_increase_pc st)) (\<lambda>st.
     Inr (st, ram, snap))))))
    (\<lambda>rram. bindE (replay_read_word b (st_ts st0 OR 1) rram) (\<lambda>((ram_timestamp, ram_old_value), ram).
     bindE (write_register_with_ts 2 (i_rd i) (f ram_old_value) (with_counters st0 d))
       (\<lambda>((rd, rd_old_value, rd_ts), st).
     bindE (trace_load collect_tracer (replayer_ram_ops bits) fam st ram rs1 b
       (ram_old_value, ram_timestamp) (rd, rd_old_value, rd_ts) rs) (\<lambda>tracer.
     Inr (default_increase_pc st, ram, tracer)))))"
proof (rule memory_replayedI, goal_cases)
  case (1 st' r' s')
  then obtain rt v where v: "r_read_word R b (st_ts st0 OR 1) r = Inr ((rt, v), r')"
    "s_append_memory_read S b v rt (st_ts st0 OR 1) s = Inr s'"
    "increment_family_counter C fam (default_increase_pc (set_reg 2 (i_rd i) (f v) st0)) = Inr st'"
    using assms(1,2) by (auto simp: write_register_ok [of 2 _ 2])
  have b: "b mod 4 = 0" "rt < (st_ts st0 OR 1)" using access_before(1) [OF v(1)] by simp_all
  let ?e = "log_of_read v rt"
  have "\<exists>rec. \<forall>ram. bindE (write_register_with_ts 2 (i_rd i) (f v) (with_counters st0 d))
       (\<lambda>((rd, rd_old_value, rd_ts), st).
     bindE (trace_load collect_tracer (replayer_ram_ops bits) fam st (ram :: ReplayerRam) rs1 b
       (v, rt) (rd, rd_old_value, rd_ts) rs) (\<lambda>tracer.
     Inr (default_increase_pc st, ram, tracer))) =
    Inr (with_counters (default_increase_pc (set_reg 2 (i_rd i) (f v) st0)) d, ram, rs @ [MemOf fam rec])"
    using b(1) assms(1,2)
    by (simp add: write_with_ts_ok [of 2 _ 2] trace_load_def replayer_ram_ops_def replay_mask_read_def split_def)
  then obtain rec where rec: "bindE (write_register_with_ts 2 (i_rd i) (f v) (with_counters st0 d))
       (\<lambda>((rd, rd_old_value, rd_ts), st).
     bindE (trace_load collect_tracer (replayer_ram_ops bits) fam st (ram :: ReplayerRam) rs1 b
       (v, rt) (rd, rd_old_value, rd_ts) rs) (\<lambda>tracer.
     Inr (default_increase_pc st, ram, tracer))) =
    Inr (with_counters (default_increase_pc (set_reg 2 (i_rd i) (f v) st0)) d, ram, rs @ [MemOf fam rec])"
    for ram by blast
  have "bindE (replay_read_word b (st_ts st0 OR 1) rram) (\<lambda>((ram_timestamp, ram_old_value), ram).
     bindE (write_register_with_ts 2 (i_rd i) (f ram_old_value) (with_counters st0 d))
       (\<lambda>((rd, rd_old_value, rd_ts), st).
     bindE (trace_load collect_tracer (replayer_ram_ops bits) fam st ram rs1 b
       (ram_old_value, ram_timestamp) (rd, rd_old_value, rd_ts) rs) (\<lambda>tracer.
     Inr (default_increase_pc st, ram, tracer)))) =
    Inr (with_counters (default_increase_pc (set_reg 2 (i_rd i) (f v) st0)) d, advance_log 1 rram,
      rs @ [MemOf fam rec])" if "replays rram (?e # zs)" for rram zs
    using replay_pop(1) [OF that b(1), of "st_ts st0 OR 1"] b(2) rec by (simp add: log_time_read)
  then show ?case
    using append_read [OF assms(3) v(2)] v(3) assms(4,5)
    by (intro exI [of _ ?e] exI [of _ fam]
        exI [of _ "default_increase_pc (set_reg 2 (i_rd i) (f v) st0)"] exI [of _ rec]) simp
qed

lemma store_replayed:
  assumes "logged s xs" "st_counters st0 = st_counters st" "mem_family fam"
    "\<And>rram old rt zs. replays rram (log_of_read old rt # zs) \<Longrightarrow> b mod 4 = 0 \<Longrightarrow> rt < (st_ts st0 OR 2) \<Longrightarrow>
      mr rram = Inr (with_counters (default_increase_pc st0) d, advance_log 1 rram,
        rs @ [MemOf fam (entry old rt)])"
  shows "memory_replayed C st d rs xs
    (bindE (r_write_word R b v (st_ts st0 OR 2) r) (\<lambda>((read_timestamp, old_value), ram).
     bindE (s_append_memory_read S b old_value read_timestamp (st_ts st0 OR 2) s) (\<lambda>snap.
     bindE (increment_family_counter C fam (default_increase_pc st0)) (\<lambda>st.
     Inr (st, ram, snap))))) mr"
proof (rule memory_replayedI, goal_cases)
  case (1 st' r' s')
  then obtain rt old where v: "r_write_word R b v (st_ts st0 OR 2) r = Inr ((rt, old), r')"
    "s_append_memory_read S b old rt (st_ts st0 OR 2) s = Inr s'"
    "increment_family_counter C fam (default_increase_pc st0) = Inr st'"
    by auto
  have "b mod 4 = 0" "rt < (st_ts st0 OR 2)" using access_before(2) [OF v(1)] by simp_all
  then show ?case
    using append_read [OF assms(1) v(2)] v(3) assms(2,3) assms(4) [of _ old rt]
    by (intro exI [of _ "log_of_read old rt"] exI [of _ fam] exI [of _ "default_increase_pc st0"]
        exI [of _ "entry old rt"]) simp
qed

lemma replayed_fails_memory: "memory_replayed C st d rs xs (Inl e) mr"
  by (simp add: memory_replayed_def)

lemma cycle_at_2: "cycle_at 0 st \<Longrightarrow> i < 32 \<Longrightarrow> cycle_at 2 (touch_reg 0 i st)"
  by (rule cycle_at_mono [OF cycle_touch(1)]) simp_all

lemma lw_replayed:
  assumes "cycle_at 0 st" "i_rs1 i < 32" "i_rd i < 32" "logged s xs"
  shows "memory_replayed C st d rs xs (lw_op C S R st r s i)
    (\<lambda>rram. replay_lw collect_tracer (replayer_ram_ops bits) (with_counters st d) rram i rs)"
  using load_replayed [of "touch_reg 0 (i_rs1 i) st" i s xs st LOAD_STORE_WORD_ONLY C d rs
      "reg_vals st ! unat (i_rs1 i) + i_imm i" r "\<lambda>v. v" bits]
    cycle_at_2 [OF assms(1,2)] assms
  by (simp add: lw_op_def replay_lw_def Let_def access_ok access_with_ts_ok replayed_fails_memory guardE_def)

lemma lh_replayed:
  assumes "cycle_at 0 st" "i_rs1 i < 32" "i_rd i < 32" "logged s xs"
  shows "memory_replayed C st d rs xs (lh_op C S R b st r s i)
    (\<lambda>rram. replay_lh collect_tracer (replayer_ram_ops bits) b (with_counters st d) rram i rs)"
proof -
  define a where "a = reg_vals st ! unat (i_rs1 i) + i_imm i"
  show ?thesis
    using load_replayed [of "touch_reg 0 (i_rs1 i) st" i s xs st LOAD_STORE_SUBWORD_ONLY C d rs "a AND NOT 3" r
        "lh_value b a" bits] cycle_at_2 [OF assms(1,2)] assms
    by (simp add: lh_op_def replay_lh_def Let_def access_ok access_with_ts_ok replayed_fails_memory guardE_def
        a_def [symmetric])
qed

lemma lb_replayed:
  assumes "cycle_at 0 st" "i_rs1 i < 32" "i_rd i < 32" "logged s xs"
  shows "memory_replayed C st d rs xs (lb_op C S R b st r s i)
    (\<lambda>rram. replay_lb collect_tracer (replayer_ram_ops bits) b (with_counters st d) rram i rs)"
proof -
  define a where "a = reg_vals st ! unat (i_rs1 i) + i_imm i"
  show ?thesis
    using load_replayed [of "touch_reg 0 (i_rs1 i) st" i s xs st LOAD_STORE_SUBWORD_ONLY C d rs "a AND NOT 3" r
        "lb_value b a" bits] cycle_at_2 [OF assms(1,2)] assms
    by (simp add: lb_op_def replay_lb_def Let_def access_ok access_with_ts_ok a_def [symmetric])
qed

lemma sw_replayed:
  assumes "cycle_at 0 st" "i_rs1 i < 32" "i_rs2 i < 32" "logged s xs"
  shows "memory_replayed C st d rs xs (sw_op C S R st r s i)
    (\<lambda>rram. replay_sw collect_tracer (replayer_ram_ops bits) (with_counters st d) rram i rs)"
proof -
  define a where "a = reg_vals st ! unat (i_rs1 i) + i_imm i"
  define st0 where "st0 = touch_reg 1 (i_rs2 i) (touch_reg 0 (i_rs1 i) st)"
  have "memory_replayed C st d rs xs
    (bindE (r_write_word R a (reg_vals st ! unat (i_rs2 i)) (st_ts st0 OR 2) r)
       (\<lambda>((read_timestamp, old_value), ram).
     bindE (s_append_memory_read S a old_value read_timestamp (st_ts st0 OR 2) s) (\<lambda>snap.
     bindE (increment_family_counter C LOAD_STORE_WORD_ONLY (default_increase_pc st0)) (\<lambda>st.
     Inr (st, ram, snap)))))
    (\<lambda>rram. replay_sw collect_tracer (replayer_ram_ops bits) (with_counters st d) rram i rs)"
    if "a mod 4 = 0"
  proof (rule store_replayed [OF assms(4), where entry = "\<lambda>old rt. store_record (with_counters st0 d) (reg_vals st ! unat (i_rs1 i), reg_ts (st_regs st ! unat (i_rs1 i)))
        (reg_vals st ! unat (i_rs2 i), reg_ts (st_regs (touch_reg 0 (i_rs1 i) st) ! unat (i_rs2 i)))
        a (old, reg_vals st ! unat (i_rs2 i), rt)"], goal_cases)
    case (3 rram old rt zs)
    from replay_pop(2) [OF 3(1,2), of "st_ts st0 OR 2"] 3(3) that assms(1-3) show ?case
      by (simp add: replay_sw_def Let_def access_with_ts_ok access_ok a_def [symmetric] log_time_read st0_def)
  qed (simp_all add: st0_def)
  then show ?thesis
    using assms(1-3)
    by (simp add: sw_op_def Let_def access_ok replayed_fails_memory guardE_def a_def [symmetric] st0_def)
qed

lemma sh_replayed:
  assumes "cycle_at 0 st" "i_rs1 i < 32" "i_rs2 i < 32" "logged s xs"
  shows "memory_replayed C st d rs xs (sh_op C S R st r s i)
    (\<lambda>rram. replay_sh collect_tracer (replayer_ram_ops bits) (with_counters st d) rram i rs)"
proof -
  define a where "a = reg_vals st ! unat (i_rs1 i) + i_imm i"
  define st0 where "st0 = touch_reg 1 (i_rs2 i) (touch_reg 0 (i_rs1 i) st)"
  have "memory_replayed C st d rs xs
    (bindE (r_write_word R (a AND NOT 3) v (st_ts st0 OR 2) r) (\<lambda>((read_timestamp, old_value), ram).
     bindE (s_append_memory_read S (a AND NOT 3) old_value read_timestamp (st_ts st0 OR 2) s) (\<lambda>snap.
     bindE (increment_family_counter C LOAD_STORE_SUBWORD_ONLY (default_increase_pc st0)) (\<lambda>st.
     Inr (st, ram, snap)))))
    (\<lambda>rram. replay_sh collect_tracer (replayer_ram_ops bits) (with_counters st d) rram i rs)"
    if "a mod 2 = 0" "sh_mask a = Inr mask" for mask v
  proof (rule store_replayed [OF assms(4), where entry = "\<lambda>old rt. store_record (with_counters st0 d) (reg_vals st ! unat (i_rs1 i), reg_ts (st_regs st ! unat (i_rs1 i)))
        (reg_vals st ! unat (i_rs2 i), reg_ts (st_regs (touch_reg 0 (i_rs1 i) st) ! unat (i_rs2 i)))
        (a AND NOT 3) (old, push_bit (unat ((a mod 4) * 8)) (reg_vals st ! unat (i_rs2 i) AND 0x0000ffff) OR (old AND mask), rt)"], goal_cases)
    case (3 rram old rt zs)
    from replay_pop(2,3) [OF 3(1,2), of "st_ts st0 OR 2"] 3(3) that assms(1-3) show ?case
      by (simp add: replay_sh_def Let_def access_with_ts_ok access_ok a_def [symmetric] log_time_read st0_def)
  qed (simp_all add: st0_def)
  then show ?thesis
    using assms(1-3)
    by (cases "r_peek_word R (a AND NOT 3) r"; cases "sh_mask a")
      (simp_all add: sh_op_def Let_def access_ok replayed_fails_memory guardE_def a_def [symmetric] st0_def)
qed

lemma sb_replayed:
  assumes "cycle_at 0 st" "i_rs1 i < 32" "i_rs2 i < 32" "logged s xs"
  shows "memory_replayed C st d rs xs (sb_op C S R st r s i)
    (\<lambda>rram. replay_sb collect_tracer (replayer_ram_ops bits) (with_counters st d) rram i rs)"
proof -
  define a where "a = reg_vals st ! unat (i_rs1 i) + i_imm i"
  define st0 where "st0 = touch_reg 1 (i_rs2 i) (touch_reg 0 (i_rs1 i) st)"
  have "memory_replayed C st d rs xs
    (bindE (r_write_word R (a AND NOT 3) v (st_ts st0 OR 2) r) (\<lambda>((read_timestamp, old_value), ram).
     bindE (s_append_memory_read S (a AND NOT 3) old_value read_timestamp (st_ts st0 OR 2) s) (\<lambda>snap.
     bindE (increment_family_counter C LOAD_STORE_SUBWORD_ONLY (default_increase_pc st0)) (\<lambda>st.
     Inr (st, ram, snap)))))
    (\<lambda>rram. replay_sb collect_tracer (replayer_ram_ops bits) (with_counters st d) rram i rs)"
    if "sb_mask a = Inr mask" for mask v
  proof (rule store_replayed [OF assms(4), where entry = "\<lambda>old rt. store_record (with_counters st0 d) (reg_vals st ! unat (i_rs1 i), reg_ts (st_regs st ! unat (i_rs1 i)))
        (reg_vals st ! unat (i_rs2 i), reg_ts (st_regs (touch_reg 0 (i_rs1 i) st) ! unat (i_rs2 i)))
        (a AND NOT 3) (old, push_bit (unat ((a mod 4) * 8)) (reg_vals st ! unat (i_rs2 i) AND 0x000000ff) OR (old AND mask), rt)"], goal_cases)
    case (3 rram old rt zs)
    from replay_pop(2,3) [OF 3(1,2), of "st_ts st0 OR 2"] 3(3) that assms(1-3) show ?case
      by (simp add: replay_sb_def Let_def access_with_ts_ok access_ok a_def [symmetric] log_time_read st0_def)
  qed (simp_all add: st0_def)
  then show ?thesis
    using assms(1-3)
    by (cases "r_peek_word R (a AND NOT 3) r"; cases "sb_mask a")
      (simp_all add: sb_op_def Let_def access_ok replayed_fails_memory guardE_def a_def [symmetric] st0_def)
qed

lemmas replayed_memory = lw_replayed lh_replayed lb_replayed sw_replayed sh_replayed sb_replayed

end

end
