(* ===== verification/Replay_Blocks.thy ===== *)
theory Replay_Blocks
  imports Replay_Simulation
begin

text \<open>
  The blocks of memory a delegation accesses: the entries the machine appends for a block, and the block as the
  replay reads it from those entries.
\<close>

section \<open>The entries of a block\<close>

lemma block_start: "a mod 4 = 0 \<Longrightarrow> unat a + 4 * n < 2 ^ 32 \<Longrightarrow> block_in (unat a div 4 + n) a n"
  by (simp add: block_in_def)

lemma add_u32_next:
  "add_u32 a 4 = Inr b \<Longrightarrow> unat b = unat a + 4 \<and> (a mod 4 = 0 \<longrightarrow> b mod 4 = 0) \<and>
    (a mod 4 = 0 \<longrightarrow> unat b div 4 = Suc (unat a div 4))"
  using unat_add_u32 [of a 4 b] by (auto simp: add_u32_eq_Inr unat_aligned)

lemma u32_bound: "unat (a :: u32) < 2 ^ 32"
  using unsigned_less [of a] by simp

context logged_memory
begin

lemma peek_logged:
  "peek_read_words R n a r = Inr ws \<Longrightarrow> a mod 4 = 0 \<Longrightarrow>
    ws = map (word r) (block a n) \<and> unat a + 4 * n < 2 ^ 32"
proof (induction n arbitrary: a ws)
  case (Suc n)
  then obtain v b ws' where *: "r_peek_word R a r = Inr v" "add_u32 a 4 = Inr b"
    "peek_read_words R n b r = Inr ws'" "ws = v # ws'" by auto
  note b = add_u32_next [OF *(2)]
  from Suc.IH [OF *(3)] b Suc.prems(2) show ?case
    using *(1,4) peek [of a r v] Suc.prems(2)
    by (auto simp: block_def upt_conv_Cons unat_div simp del: upt_Suc)
qed (use u32_bound in simp)

text \<open>\<open>block_logged\<close>: the entries of a block that was accessed at time \<open>t\<close>.\<close>

definition block_logged :: "'r \<Rightarrow> u32 \<Rightarrow> nat \<Rightarrow> nat \<Rightarrow> log_entry list \<Rightarrow> bool" where
  "block_logged r a n t es \<longleftrightarrow>
     map fst es = map (word r) (block a n) \<and> unat a + 4 * n < 2 ^ 32 \<and>
     (\<forall>e \<in> set es. unat (log_time e) < t)"

lemma block_logged_length: "block_logged r a n t es \<Longrightarrow> length es = n"
  unfolding block_logged_def by (metis length_map length_block)

lemma block_logged_Cons:
  assumes "block_logged r1 b n t es" "add_u32 a 4 = Inr b" "a mod 4 = 0" "unat (log_time e) < t"
    "fst e = word r (unat (a div 4))" "\<And>i. i \<noteq> unat (a div 4) \<Longrightarrow> word r1 i = word r i"
  shows "block_logged r a (Suc n) t (e # es)"
proof -
  note b = add_u32_next [OF assms(2)]
  have k: "unat b div 4 = Suc (unat a div 4)" using b assms(3) by blast
  have "unat (a div 4) = unat a div 4" by (simp add: unat_div)
  then have "unat (a div 4) \<notin> set (block b n)" unfolding set_block k by simp
  then have "map (word r1) (block b n) = map (word r) (block b n)" using assms(6) by force
  then show ?thesis
    using assms(1,3,4,5) b
    by (auto simp: block_logged_def block_def upt_conv_Cons unat_div simp del: upt_Suc)
qed

lemma read_words_logged:
  "read_words R S n a t r s = Inr (ws, r', s') \<Longrightarrow> logged s xs \<Longrightarrow> a mod 4 = 0 \<Longrightarrow>
    \<exists>es. logged s' (xs @ es) \<and> block_logged r a n (unat (t OR 1)) es \<and> ws = map fst es \<and>
      word r' = word r"
proof (induction n arbitrary: a ws r s xs)
  case (Suc n)
  then obtain rt v r1 s1 b ws' where *: "r_read_word R a t r = Inr ((rt, v), r1)"
    "s_append_memory_read S a v rt t s = Inr s1" "add_u32 a 4 = Inr b"
    "read_words R S n b t r1 s1 = Inr (ws', r', s')" "ws = v # ws'"
    by auto
  note b = add_u32_next [OF *(3)] and e = read_effect [OF *(1)]
  from Suc.IH [OF *(4) append_read [OF Suc.prems(2) *(2)]] b Suc.prems(3)
  obtain es where es: "logged s' ((xs @ [log_of_read v rt]) @ es)"
    "block_logged r1 b n (unat (t OR 1)) es" "ws' = map fst es" "word r' = word r1" by blast
  have "block_logged r a (Suc n) (unat (t OR 1)) (log_of_read v rt # es)"
    using block_logged_Cons [OF es(2) *(3) Suc.prems(3), of "log_of_read v rt" r] e
      access_before(1) [OF *(1)] by (simp add: log_time_read word_less_nat_alt)
  then show ?case using es e *(5) by (intro exI [of _ "log_of_read v rt # es"]) simp
qed (use u32_bound in \<open>auto simp: block_logged_def\<close>)

lemma write_words_logged:
  "write_back_words R S vs a t r s = Inr (r', s') \<Longrightarrow> logged s xs \<Longrightarrow> a mod 4 = 0 \<Longrightarrow>
    \<exists>es. logged s' (xs @ es) \<and> block_logged r a (length vs) (unat (t OR 2)) es"
proof (induction vs arbitrary: a r s xs)
  case (Cons v vs)
  then obtain rt old r1 s1 b where *: "r_write_word R a v t r = Inr ((rt, old), r1)"
    "s_append_memory_read S a old rt t s = Inr s1" "add_u32 a 4 = Inr b"
    "write_back_words R S vs b t r1 s1 = Inr (r', s')"
    by auto
  note b = add_u32_next [OF *(3)] and e = write_effect [OF *(1)]
  from Cons.IH [OF *(4) append_read [OF Cons.prems(2) *(2)]] b Cons.prems(3)
  obtain es where es: "logged s' ((xs @ [log_of_read old rt]) @ es)"
    "block_logged r1 b (length vs) (unat (t OR 2)) es" by blast
  have "block_logged r a (Suc (length vs)) (unat (t OR 2)) (log_of_read old rt # es)"
    using block_logged_Cons [OF es(2) *(3) Cons.prems(3), of "log_of_read old rt" r] e
      access_before(2) [OF *(1)] by (simp add: log_time_read word_less_nat_alt)
  then show ?case using es by (intro exI [of _ "log_of_read old rt # es"]) simp
qed (use u32_bound in \<open>auto simp: block_logged_def\<close>)

text \<open>The Keccak state is written at the times of its last accesses, the others at one time.\<close>

lemma keccak_write_logged:
  "keccak_write_back S R base ls a r s = Inr (r', s') \<Longrightarrow> logged s xs \<Longrightarrow> a mod 4 = 0 \<Longrightarrow>
    \<forall>(l, off) \<in> set ls. unat base + unat off < T \<Longrightarrow>
    \<exists>es. logged s' (xs @ es) \<and> block_logged r a (2 * length ls) T es"
proof (induction ls arbitrary: a r s xs)
  case (Cons p ls)
  obtain l off where p: "p = (l, off)" by (cases p)
  with Cons.prems(1) obtain w rt old r1 s1 b rt2 old2 r2 s2 c where *:
    "add_u64 base off = Inr w" "w mod TIMESTAMP_STEP = 3"
    "r_write_word R a (ucast l) w r = Inr ((rt, old), r1)"
    "s_append_memory_read S a old rt w s = Inr s1" "add_u32 a 4 = Inr b"
    "r_write_word R b (ucast (drop_bit 32 l)) w r1 = Inr ((rt2, old2), r2)"
    "s_append_memory_read S b old2 rt2 w s1 = Inr s2" "add_u32 b 4 = Inr c"
    "keccak_write_back S R base ls c r2 s2 = Inr (r', s')"
    by auto
  note b = add_u32_next [OF *(5)] and c = add_u32_next [OF *(8)] and e = write_effect [OF *(3)]
    write_effect [OF *(6)]
  have w: "unat w < T" using unat_add_u64 [OF *(1)] Cons.prems(4) p by simp
  have "w OR 2 = w" using *(2) or_2_of_3' [of w] by (simp add: TIMESTAMP_STEP_def word_unat_eq_iff unat_mod)
  then have t: "unat rt < T" "unat rt2 < T"
    using access_before(2) [OF *(3)] access_before(2) [OF *(6)] w by (simp_all add: word_less_nat_alt)
  have al: "b mod 4 = 0" "c mod 4 = 0" using b c Cons.prems(3) by simp_all
  from Cons.IH [OF *(9) append_read [OF append_read [OF Cons.prems(2) *(4)] *(7)] al(2)] Cons.prems(4)
  obtain es where es: "logged s' (((xs @ [log_of_read old rt]) @ [log_of_read old2 rt2]) @ es)"
    "block_logged r2 c (2 * length ls) T es" by auto
  have "block_logged r1 b (Suc (2 * length ls)) T (log_of_read old2 rt2 # es)"
    using block_logged_Cons [OF es(2) *(8) al(1), of "log_of_read old2 rt2" r1] e t by (simp add: log_time_read)
  then have "block_logged r a (Suc (Suc (2 * length ls))) T (log_of_read old rt # log_of_read old2 rt2 # es)"
    using block_logged_Cons [OF _ *(5) Cons.prems(3), of r1 _ T _ "log_of_read old rt" r] e t
    by (simp add: log_time_read)
  then show ?case using es
    by (intro exI [of _ "log_of_read old rt # log_of_read old2 rt2 # es"]) simp
qed (use u32_bound in \<open>auto simp: block_logged_def\<close>)

end

section \<open>The block in a replay\<close>

lemma replays_pop:
  assumes "replays ram (x # xs)"
  shows "replays (advance_log 1 ram) xs"
proof -
  obtain src rest where "ram_log ram = (x # src) # rest" using replays_Cons [OF assms] by blast
  then show ?thesis using replays_advance [of ram "[x]" xs] assms by simp
qed

lemma replay_read_words_ok:
  assumes "replays ram (es @ zs)" "a mod 4 = 0" "unat a + 4 * length es < 2 ^ 32"
    "\<forall>e \<in> set es. log_time e < t"
  shows "\<exists>ram'. replay_read_words (replayer_ram_ops bits) (length es) a t ram =
      Inr (map fst es, map log_time es, ram') \<and> replays ram' zs \<and> (one_slice ram \<longrightarrow> one_slice ram')"
  using assms
proof (induction es arbitrary: a ram)
  case (Cons e es)
  have "add_u32 a 4 = Inr (a + 4)" using Cons.prems(3) by (simp add: add_u32_def)
  note b = this add_u32_next [OF this]
  have p: "replays ram (e # es @ zs)" "log_time e < t" using Cons.prems(1,4) by simp_all
  note r = replay_pop(1,4) [OF p(1) Cons.prems(2) p(2)]
  have "(a + 4) mod 4 = 0" "unat (a + 4) + 4 * length es < 2 ^ 32" "\<forall>e \<in> set es. log_time e < t"
    using b Cons.prems(2-4) by auto
  from Cons.IH [OF r(2) this] obtain ram' where
    "replay_read_words (replayer_ram_ops bits) (length es) (a + 4) t (advance_log 1 ram) =
      Inr (map fst es, map log_time es, ram')" "replays ram' zs"
    "one_slice (advance_log 1 ram) \<longrightarrow> one_slice ram'" by blast
  then show ?case using r(1) b(1) one_slice_advance [of ram 1] by (simp add: replayer_ram_ops_def)
qed simp

lemma replay_read_u256_words:
  "replay_read_u256 R n a t ram = bindE (replay_read_words R (2 * n) a t ram)
     (\<lambda>(ws, ts, ram). Inr (limbs_of_words ws, read_accesses ws ts, ram))"
  by (induction n arbitrary: a ram) (auto simp: bindE_def read_accesses_def split: sum.splits)

lemma length_replay_read_words:
  "replay_read_words R n a t ram = Inr (ws, ts, ram') \<Longrightarrow> length ws = n \<and> length ts = n"
  by (induction n arbitrary: a ram ws ts) auto

lemma replay_read_u256_for_update_words:
  "replay_read_u256_for_update R n a t ram = bindE (replay_read_words R (2 * n) a t ram)
     (\<lambda>(ws, ts, ram). Inr (limbs_of_words ws, update_accesses ws ts (replicate (2 * n) 0), ram))"
  by (induction n arbitrary: a ram) (auto simp: bindE_def update_accesses_def split: sum.splits)

lemma replay_read_lanes_words:
  "replay_read_lanes R n a t ram = bindE (replay_read_words R (2 * n) a t ram)
     (\<lambda>(ws, ts, ram). Inr (limbs_of_words ws, ts, ram))"
  by (induction n arbitrary: a ram)
    (auto simp: bindE_def limb_of_words_def or.commute split: sum.splits)

end
