(* ===== verification/Replay_Calls.thy ===== *)
theory Replay_Calls
  imports Replay_Blocks Bigint_Spec VM_Delegations
begin

text \<open>
  The non-determinism instructions and the delegation calls of a replay follow those of the machine: the entries the
  machine appends are enough for the replay, which ends in the same registers, program counter and time, collects one
  record per cycle and one witness per invocation of a delegation's circuit.
\<close>

section \<open>Counters and records\<close>

text \<open>What an instruction does to the counters, as a sequence of calls.\<close>

datatype counter_event =
    LogFamily circuit_family
  | LogMultiple circuit_family usize
  | BumpBigint usize
  | BumpBlake usize
  | BumpKeccak usize

fun log_event :: "'c counter_ops \<Rightarrow> counter_event \<Rightarrow> 'c \<Rightarrow> 'c res" where
  "log_event C (LogFamily fam) c = c_log_family C fam c"
| "log_event C (LogMultiple fam n) c = c_log_multiple C fam n c"
| "log_event C (BumpBigint n) c = c_bump_bigint C n c"
| "log_event C (BumpBlake n) c = c_bump_blake C n c"
| "log_event C (BumpKeccak n) c = c_bump_keccak C n c"

fun log_events :: "'c counter_ops \<Rightarrow> counter_event list \<Rightarrow> 'c \<Rightarrow> 'c res" where
  "log_events C [] c = Inr c"
| "log_events C (e # es) c = bindE (log_event C e c) (log_events C es)"

lemma log_events_append: "log_events C (es @ es') c = bindE (log_events C es c) (log_events C es')"
proof (induction es arbitrary: c)
  case (Cons e es)
  then have "log_events C (es @ es') = (\<lambda>c. bindE (log_events C es c) (log_events C es'))" by (rule ext)
  then show ?case by (simp add: bindE_assoc)
qed simp

text \<open>What a record is counted as.\<close>

datatype record_tag = CycleOf circuit_family | CallOf u16

fun tag_of :: "traced \<Rightarrow> record_tag" where
  "tag_of (NonMemOf fam r) = CycleOf fam"
| "tag_of (MemOf fam r) = CycleOf fam"
| "tag_of (DelegationOf dt w) = CallOf dt"

definition records_tagged :: "record_tag \<Rightarrow> traced list \<Rightarrow> nat" where
  "records_tagged t rs = length (filter (\<lambda>r. tag_of r = t) rs)"

fun event_amount :: "record_tag \<Rightarrow> counter_event \<Rightarrow> nat" where
  "event_amount t (LogFamily fam) = of_bool (t = CycleOf fam)"
| "event_amount t (LogMultiple fam n) = (if t = CycleOf fam then unat n else 0)"
| "event_amount t (BumpBigint n) = (if t = CallOf (ucast BIGINT_OPS_WITH_CONTROL_CSR_REGISTER) then unat n else 0)"
| "event_amount t (BumpBlake n) = (if t = CallOf (ucast BLAKE2S_DELEGATION_CSR_REGISTER) then unat n else 0)"
| "event_amount t (BumpKeccak n) = (if t = CallOf (ucast KECCAK_SPECIAL5_CSR_REGISTER) then unat n else 0)"

definition tallies :: "counter_event list \<Rightarrow> traced list \<Rightarrow> bool" where
  "tallies evs rs \<longleftrightarrow> (\<forall>t. sum_list (map (event_amount t) evs) = records_tagged t rs)"

lemma tallies_append: "tallies evs rs \<Longrightarrow> tallies evs' rs' \<Longrightarrow> tallies (evs @ evs') (rs @ rs')"
  by (simp add: tallies_def records_tagged_def)

lemma tallies_Nil [simp]: "tallies [] []"
  by (simp add: tallies_def records_tagged_def)

section \<open>Sound witnesses\<close>

text \<open>
  A witness is sound when the values it writes are those its circuit computes from the values it reads: the 256-bit
  operation, one round of Blake, or one small operation of Keccak.
\<close>

definition bigint_sound :: "ruint_ops \<Rightarrow> DelegationWitness \<Rightarrow> bool" where
  "bigint_sound U w \<longleftrightarrow>
     (case bigint_impl U (limbs_of_words (map rw_read_value (dw_indirect_writes w)))
         (limbs_of_words (map rr_read_value (dw_indirect_reads w))) (rw_read_value (dw_reg_accesses w ! 2)) of
       Inr (out, overflow) \<Rightarrow> map rw_write_value (dw_indirect_writes w) = words_of_limbs out \<and>
         rw_write_value (dw_reg_accesses w ! 2) = of_bool overflow
     | Inl e \<Rightarrow> False)"

definition blake_sound :: "DelegationWitness \<Rightarrow> bool" where
  "blake_sound w \<longleftrightarrow>
     blake2_round_function_impl (map rw_read_value (dw_indirect_writes w)) (map rr_read_value (dw_indirect_reads w))
       (rw_read_value (dw_reg_accesses w ! 2)) =
     Inr (map rw_write_value (dw_indirect_writes w), rw_write_value (dw_reg_accesses w ! 2))"

definition keccak_sound :: "DelegationWitness \<Rightarrow> bool" where
  "keccak_sound w \<longleftrightarrow>
     (case keccak_special5_impl_decode_control (rw_read_value (dw_reg_accesses w ! 0)) of
       Inr (precompile, iteration, round) \<Rightarrow>
         keccak_special5_impl_bump_control precompile iteration round =
           Inr (rw_write_value (dw_reg_accesses w ! 0)) \<and>
         map_sum id (map word_of_nat) (keccak_special5_impl_extract_indices precompile iteration round) =
           Inr (dw_variables_offsets w) \<and>
         keccak_special5_impl_compute_outputs precompile iteration round
           (limbs_of_words (map rw_read_value (dw_indirect_writes w))) =
           Inr (limbs_of_words (map rw_write_value (dw_indirect_writes w)))
     | Inl e \<Rightarrow> False)"

fun traced_sound :: "ruint_ops \<Rightarrow> traced \<Rightarrow> bool" where
  "traced_sound U (DelegationOf dt w) \<longleftrightarrow> witness_fits dt w \<and>
     (if dt = ucast BIGINT_OPS_WITH_CONTROL_CSR_REGISTER then bigint_sound U w
      else if dt = ucast BLAKE2S_DELEGATION_CSR_REGISTER then blake_sound w else keccak_sound w)"
| "traced_sound U (NonMemOf fam r) \<longleftrightarrow> non_mem_family fam"
| "traced_sound U (MemOf fam r) \<longleftrightarrow> mem_family fam"

lemma sound_fits: "traced_sound U r \<Longrightarrow> traced_fits r"
  by (cases r) auto

lemma put_result_writes:
  "length ws = 2 * length ls \<Longrightarrow> map rw_write_value (put_result ls ws) = words_of_limbs ls"
  by (induction ls ws rule: put_result.induct) auto

lemma put_result_reads: "map rw_read_value (put_result ls ws) = map rw_read_value ws"
  by (induction ls ws rule: put_result.induct) auto

lemma access_values:
  "length ts = length ws \<Longrightarrow> map rr_read_value (read_accesses ws ts) = ws"
  "length ts = length ws \<Longrightarrow> length us = length ws \<Longrightarrow> map rw_read_value (update_accesses ws ts us) = ws"
  "length ts = length ws \<Longrightarrow> length us = length ws \<Longrightarrow> map rw_write_value (update_accesses ws ts us) = us"
  by (rule nth_equalityI; simp add: read_accesses_def update_accesses_def)+

lemma length_accesses [simp]:
  "length (read_accesses ws ts) = min (length ws) (length ts)"
  "length (update_accesses ws ts us) = min (min (length ws) (length ts)) (length us)"
  by (simp_all add: read_accesses_def update_accesses_def)

lemma put_result_length: "length (put_result ls ws) = length ws"
  by (induction ls ws rule: put_result.induct) auto

section \<open>A cycle of machine and replay\<close>

context logged_memory
begin

definition call_replayed ::
  "ruint_ops \<Rightarrow> 'c counter_ops \<Rightarrow> 'c \<Rightarrow> 'c \<Rightarrow> traced list \<Rightarrow> log_entry list \<Rightarrow> 'c State \<Rightarrow> 's \<Rightarrow>
    (ReplayerRam \<Rightarrow> ('c State \<times> ReplayerRam \<times> traced list) res) \<Rightarrow> bool" where
  "call_replayed U C c d rs xs st' s' mr \<longleftrightarrow>
     (\<exists>es evs new. logged s' (xs @ es) \<and> log_events C evs c = Inr (st_counters st') \<and>
        tallies evs new \<and> (\<forall>r \<in> set new. traced_sound U r) \<and>
        (\<forall>rram zs. replays rram (es @ zs) \<longrightarrow>
          (\<exists>rram'. mr rram = Inr (with_counters st' d, rram', rs @ new) \<and> replays rram' zs \<and>
             (one_slice rram \<longrightarrow> one_slice rram'))))"

lemma call_replayedI:
  assumes "logged s' (xs @ es)" "log_events C evs c = Inr (st_counters st')" "tallies evs new"
    "\<forall>r \<in> set new. traced_sound U r"
    "\<And>rram zs. replays rram (es @ zs) \<Longrightarrow>
      \<exists>rram'. mr rram = Inr (with_counters st' d, rram', rs @ new) \<and> replays rram' zs \<and>
        (one_slice rram \<longrightarrow> one_slice rram')"
  shows "call_replayed U C c d rs xs st' s' mr"
  unfolding call_replayed_def using assms by blast

lemma call_of_register:
  assumes "replayed C st d rs (Inr st') mr" "logged s' xs"
  shows "call_replayed U C (st_counters st) d rs xs st' s' (\<lambda>rram. bindE mr (\<lambda>(st, t). Inr (st, rram, t)))"
proof -
  obtain fam st1 r where *: "increment_family_counter C fam st1 = Inr st'" "st_counters st1 = st_counters st"
    "non_mem_family fam" "mr = Inr (with_counters st1 d, rs @ [NonMemOf fam r])"
    using assms(1) by (auto simp: replayed_def)
  then have "with_counters st1 d = with_counters st' d" by (auto simp: increment_family_counter_def)
  then show ?thesis
    using * assms(2)
    by (intro call_replayedI [where es = "[]" and evs = "[LogFamily fam]" and new = "[NonMemOf fam r]"])
      (auto simp: increment_family_counter_def tallies_def records_tagged_def)
qed

lemma call_of_memory:
  assumes "memory_replayed C st d rs xs m mr" "m = Inr (st', r', s')"
  shows "call_replayed U C (st_counters st) d rs xs st' s' mr"
proof -
  obtain e fam st1 rec where *: "logged s' (xs @ [e])" "increment_family_counter C fam st1 = Inr st'"
    "mem_family fam" "st_counters st1 = st_counters st" and mr: "\<forall>rram zs. replays rram (e # zs) \<longrightarrow>
      mr rram = Inr (with_counters st1 d, advance_log 1 rram, rs @ [MemOf fam rec])"
    using assms unfolding memory_replayed_def by blast
  have same: "with_counters st1 d = with_counters st' d" using *(2) by (auto simp: increment_family_counter_def)
  show ?thesis
  proof (rule call_replayedI [where es = "[e]" and evs = "[LogFamily fam]" and new = "[MemOf fam rec]"], goal_cases)
    case (5 rram zs)
    then show ?case using mr replays_pop [of rram e zs] one_slice_advance [of rram 1] same by auto
  qed (use * in \<open>auto simp: increment_family_counter_def tallies_def records_tagged_def\<close>)
qed

section \<open>Non-determinism\<close>

text \<open>The values of the source are in the log.\<close>

lemma set_x0_zero: "cycle_at k st \<Longrightarrow> set_reg off 0 0 st = touch_reg off 0 st"
proof -
  assume "cycle_at k st"
  then have "(st_regs st ! 0)\<lparr>reg_ts := st_ts st OR off\<rparr> = \<lparr>reg_ts = st_ts st OR off, reg_val = 0\<rparr>"
    by (intro Register.equality) (simp_all add: cycle_atD(3))
  then show ?thesis by (simp add: set_reg_def touch_reg_def)
qed

lemma nd_read_replayed:
  assumes "nd_read C S ND st s i nd = Inr (st', s', nd')" "cycle_at 0 st" "i_rd i < 32" "logged s xs"
  shows "call_replayed U C (st_counters st) d rs xs st' s'
    (\<lambda>rram. bindE (replay_nd_read collect_tracer (replayer_ram_ops bits) ND' True (with_counters st d) rram i rs nd2)
       (\<lambda>(st, rram, t, nd). Inr (st, rram, t)))"
proof -
  define st1 where "st1 = touch_reg 1 0 st"
  have c: "cycle_at 2 st1" using assms(2) by (simp add: st1_def access_ok)
  obtain v where v: "s_append_arbitrary_value S v s = Inr s'"
    "increment_family_counter C SHIFT_BINARY_CSR (default_increase_pc (set_reg 2 (i_rd i) v st1)) = Inr st'"
    using assms(1-3) by (auto simp: nd_read_def access_ok st1_def)
  define rec where "rec = non_mem_record (with_counters (set_reg 2 (i_rd i) v st1) d) (0, reg_ts (st_regs st ! 0))
    (0, reg_ts (st_regs (touch_reg 0 0 st) ! 0))
    (if i_rd i = 0 then 0 else v, reg_vals st1 ! unat (i_rd i), reg_ts (st_regs st1 ! unat (i_rd i)))
    (st_pc st + 4) (ucast NON_DETERMINISM_CSR)"
  have pop: "replay_read_word ROM_BYTE_SIZE INITIAL_TIMESTAMP rram = Inr ((0, v), advance_log 1 rram)"
    "replays (advance_log 1 rram) zs" if "replays rram (log_of_value v # zs)" for rram zs
    using replay_pop [OF that, of ROM_BYTE_SIZE INITIAL_TIMESTAMP]
    by (simp_all add: log_time_value ROM_BYTE_SIZE_def INITIAL_TIMESTAMP_def)
  have "bindE (replay_nd_read collect_tracer (replayer_ram_ops bits) ND' True (with_counters st d) rram i rs nd2)
       (\<lambda>(st, rram, t, nd). Inr (st, rram, t)) =
     Inr (with_counters st' d, advance_log 1 rram, rs @ [NonMemOf SHIFT_BINARY_CSR rec])"
    if "replays rram (log_of_value v # zs)" for rram zs
  proof -
    have pc: "st_pc st1 = st_pc st" by (simp add: st1_def)
    have "with_counters st' d = with_counters (default_increase_pc (set_reg 2 (i_rd i) v st1)) d"
      using v(2) by (auto simp: increment_family_counter_def)
    then show ?thesis
      using pop [OF that] assms(2,3) write_with_ts_ok [of 2 "with_counters st1 d" 2 "i_rd i" v] c
      by (simp add: replay_nd_read_def access_with_ts_ok cycle_touch touch_reg_twice st1_def [symmetric]
          rec_def pc)
  qed
  note run = this
  show ?thesis
  proof (rule call_replayedI [where es = "[log_of_value v]" and evs = "[LogFamily SHIFT_BINARY_CSR]"
        and new = "[NonMemOf SHIFT_BINARY_CSR rec]"], goal_cases)
    case (5 rram zs)
    then show ?case using run [of rram zs] pop(2) [of rram zs] one_slice_advance [of rram 1] by auto
  qed (use append_value [OF assms(4) v(1)] v(2) in
      \<open>auto simp: increment_family_counter_def tallies_def records_tagged_def st1_def\<close>)
qed

lemma nd_write_replayed:
  assumes "nd_write C R' ND st ram i nd = Inr (st', nd')" "cycle_at 0 st" "i_rs1 i < 32" "i_rd i = 0"
  shows "replayed C st d rs (Inr st') (replay_nd_write collect_tracer (with_counters st d) i rs)"
proof -
  define st1 where "st1 = touch_reg 1 0 (touch_reg 0 (i_rs1 i) st)"
  have c: "cycle_at 2 st1" using assms(2,3) by (simp add: st1_def access_ok)
  then have st': "increment_family_counter C SHIFT_BINARY_CSR (default_increase_pc (touch_reg 2 0 st1)) = Inr st'"
    using assms by (auto simp: nd_write_def access_ok st1_def [symmetric] set_x0_zero [OF c])
  show ?thesis
    unfolding st' [symmetric]
    using c assms(2,3)
    by (simp add: replay_nd_write_def access_with_ts_ok access_ok st1_def [symmetric])
      (rule replayed_incr; simp add: st1_def)
qed

section \<open>Bigint\<close>

lemma bigint_out_length:
  assumes "bigint_impl U a b x12 = Inr (out, ov)" "ruint_documented U" "length a = 4" "length b = 4"
  shows "length out = 4"
proof -
  have "x12 < push_bit BIGINT_NUM_CONTROL_BITS 1"
    "count_ones (x12 AND NOT (push_bit CARRY_BIT_IDX 1)) = 1"
    using assms(1) by (auto simp: bigint_impl_def Let_def simp del: push_bit_of_1)
  then obtain op cin where "x12 = control_word op cin" using valid_controls by blast
  then show ?thesis using bigint_impl_ok [OF assms(2-4), of op cin] assms(1) by auto
qed

lemma aligned_word:
  "(a :: u32) mod 32 = 0 \<Longrightarrow> a mod 4 = 0" "a mod 64 = 0 \<Longrightarrow> a mod 4 = 0"
  "a mod 128 = 0 \<Longrightarrow> a mod 4 = 0" "a mod 256 = 0 \<Longrightarrow> a mod 4 = 0"
proof -
  have "n mod 32 = 0 \<Longrightarrow> n mod 4 = 0" "n mod 64 = 0 \<Longrightarrow> n mod 4 = 0" "n mod 128 = 0 \<Longrightarrow> n mod 4 = 0"
    "n mod 256 = 0 \<Longrightarrow> n mod 4 = 0" for n :: nat by presburger+
  then show "a mod 32 = 0 \<Longrightarrow> a mod 4 = 0" "a mod 64 = 0 \<Longrightarrow> a mod 4 = 0"
    "a mod 128 = 0 \<Longrightarrow> a mod 4 = 0" "a mod 256 = 0 \<Longrightarrow> a mod 4 = 0"
    by (simp_all add: word_unat_eq_iff unat_mod)
qed

text \<open>What the machine did: the state it left and the entries it appended.\<close>

lemma bigint_logged:
  assumes call: "bigint_call C S R U st r s = Inr (st', r', s')"
    and c: "cycle_at 0 st" and log: "logged s xs" and U: "ruint_documented U"
  defines "x10 \<equiv> reg_vals st ! 10" and "x11 \<equiv> reg_vals st ! 11" and "x12 \<equiv> reg_vals st ! 12"
    and "t \<equiv> st_ts st OR 3"
  shows "\<exists>out ov bs as c1 c2.
    bigint_impl U (limbs_of_words (map fst as)) (limbs_of_words (map fst bs)) x12 = Inr (out, ov) \<and>
    logged s' (xs @ bs @ as @ [log_of_value (of_bool ov)]) \<and> length bs = 8 \<and> length as = 8 \<and>
    x10 mod 4 = 0 \<and> unat x10 + 32 < 2 ^ 32 \<and> x11 mod 4 = 0 \<and> unat x11 + 32 < 2 ^ 32 \<and>
    (\<forall>e \<in> set (bs @ as). log_time e < t) \<and>
    c_bump_bigint C 1 (st_counters st) = Inr c1 \<and> c_log_family C SHIFT_BINARY_CSR c1 = Inr c2 \<and>
    st' = st\<lparr>st_regs := (st_regs st)
      [0 := (st_regs st ! 0)\<lparr>reg_ts := st_ts st OR 2\<rparr>, 10 := (st_regs st ! 10)\<lparr>reg_ts := t\<rparr>,
       11 := (st_regs st ! 11)\<lparr>reg_ts := t\<rparr>, 12 := \<lparr>reg_ts = t, reg_val = of_bool ov\<rparr>],
      st_pc := st_pc st + 4, st_counters := c2\<rparr>"
proof -
  have len: "length (st_regs st) = 32" and ts: "unat (st_ts st) mod 4 = 0"
    using cycle_atD(1,2) [OF c] by auto
  have regs: "reg_val (st_regs st ! 10) = x10" "reg_val (st_regs st ! 11) = x11" "reg_val (st_regs st ! 12) = x12"
    by (simp_all add: x10_def x11_def x12_def len reg_vals_def)
  have times: "reg_ts (st_regs st ! 10) < t" "reg_ts (st_regs st ! 11) < t" "reg_ts (st_regs st ! 12) < t"
    using cycle_at_fresh [OF c, of 3 10] cycle_at_fresh [OF c, of 3 11] cycle_at_fresh [OF c, of 3 12]
    by (simp_all add: t_def)
  obtain a b r1 s1 out ov s2 c1 c2 where v: "x10 mod 32 = 0" "x11 mod 32 = 0"
    "peek_limbs R 4 x10 r = Inr a" "read_limbs R S 4 x11 t r s = Inr (b, r1, s1)"
    "bigint_impl U a b x12 = Inr (out, ov)" "write_back_limbs R S out x10 t r1 s1 = Inr (r', s2)"
    "s_append_arbitrary_value S (of_bool ov) s2 = Inr s'"
    "c_bump_bigint C 1 (st_counters st) = Inr c1" "c_log_family C SHIFT_BINARY_CSR c1 = Inr c2"
    "st' = st\<lparr>st_regs := (st_regs st)
      [0 := (st_regs st ! 0)\<lparr>reg_ts := st_ts st OR 2\<rparr>, 10 := (st_regs st ! 10)\<lparr>reg_ts := t\<rparr>,
       11 := (st_regs st ! 11)\<lparr>reg_ts := t\<rparr>, 12 := \<lparr>reg_ts = t, reg_val = of_bool ov\<rparr>],
      st_pc := st_pc st + 4, st_counters := c2\<rparr>"
    using call len regs times unfolding bigint_call_def read_register_def write_register_def t_def
    by (auto simp: index_ok get_unchecked_def Let_def default_increase_pc_def increment_family_counter_def)
  have al: "x10 mod 4 = 0" "x11 mod 4 = 0" using v(1,2) aligned_word(1) by blast+
  obtain wa where wa: "peek_read_words R 8 x10 r = Inr wa" "a = limbs_of_words wa"
    using v(3) by (auto simp: peek_limbs_words)
  obtain wb where wb: "read_words R S 8 x11 t r s = Inr (wb, r1, s1)" "b = limbs_of_words wb"
    using v(4) by (auto simp: read_limbs_words)
  note pa = peek_logged [OF wa(1) al(1)]
  obtain bs where bs: "logged s1 (xs @ bs)" "block_logged r x11 8 (unat (t OR 1)) bs" "wb = map fst bs"
    "word r1 = word r"
    using read_words_logged [OF wb(1) log al(2)] by blast
  have lb: "length bs = 8" using bs(2) by (rule block_logged_length)
  have "length wa = 8" using pa by simp
  then have out: "length out = 4"
    using bigint_out_length [OF v(5) U] wa(2) wb(2) bs(3) lb by (simp add: length_limbs_of_words)
  obtain as where as: "logged s2 ((xs @ bs) @ as)" "block_logged r1 x10 8 (unat (t OR 2)) as"
    using write_words_logged [of "words_of_limbs out" x10 t r1 s1 r' s2 "xs @ bs"] v(6) bs(1) al(1) out
    by (auto simp: write_back_limbs_words)
  have la: "length as = 8" using as(2) by (rule block_logged_length)
  have "map fst as = wa" using as(2) pa bs(4) by (simp add: block_logged_def)
  moreover have "unat (t OR 1) = unat t" "unat (t OR 2) = unat t"
    by (simp_all add: t_def)
  then have "\<forall>e \<in> set (bs @ as). log_time e < t"
    using as(2) bs(2) by (auto simp: block_logged_def word_less_nat_alt)
  ultimately show ?thesis
    using v al as bs la lb pa append_value [OF as(1) v(7)] wa(2) wb(2)
    by (intro exI [of _ out] exI [of _ ov] exI [of _ bs] exI [of _ as] exI [of _ c1] exI [of _ c2])
      (auto simp: block_logged_def)
qed

lemma bigint_replayed:
  assumes "bigint_call C S R U st r s = Inr (st', r', s')" "cycle_at 0 st" "logged s xs" "ruint_documented U"
  shows "call_replayed U C (st_counters st) d rs xs st' s'
    (\<lambda>rram. replay_bigint_call collect_tracer (replayer_ram_ops bits) U (with_counters st d) rram rs)"
proof -
  define x10 where "x10 = reg_vals st ! 10"
  define x11 where "x11 = reg_vals st ! 11"
  define x12 where "x12 = reg_vals st ! 12"
  define t where "t = st_ts st OR 3"
  have len: "length (st_regs st) = 32" and ts: "unat (st_ts st) mod 4 = 0"
    using cycle_atD(1,2) [OF assms(2)] by auto
  have regs: "reg_val (st_regs st ! 10) = x10" "reg_val (st_regs st ! 11) = x11" "reg_val (st_regs st ! 12) = x12"
    by (simp_all add: x10_def x11_def x12_def len reg_vals_def)
  have times: "reg_ts (st_regs st ! 10) < t" "reg_ts (st_regs st ! 11) < t" "reg_ts (st_regs st ! 12) < t"
    using cycle_at_fresh [OF assms(2), of 3 10] cycle_at_fresh [OF assms(2), of 3 11]
      cycle_at_fresh [OF assms(2), of 3 12] by (simp_all add: t_def)
  have t: "0 < t" using unat_or_low(3) [OF ts] by (simp add: t_def word_less_nat_alt)
  obtain out ov bs as c1 c2 where v:
    "bigint_impl U (limbs_of_words (map fst as)) (limbs_of_words (map fst bs)) x12 = Inr (out, ov)"
    "logged s' (xs @ bs @ as @ [log_of_value (of_bool ov)])" "length bs = 8" "length as = 8"
    "x10 mod 4 = 0" "unat x10 + 32 < 2 ^ 32" "x11 mod 4 = 0" "unat x11 + 32 < 2 ^ 32"
    "\<forall>e \<in> set (bs @ as). log_time e < t"
    "c_bump_bigint C 1 (st_counters st) = Inr c1" "c_log_family C SHIFT_BINARY_CSR c1 = Inr c2" and
    st': "st' = st\<lparr>st_regs := (st_regs st)
      [0 := (st_regs st ! 0)\<lparr>reg_ts := st_ts st OR 2\<rparr>, 10 := (st_regs st ! 10)\<lparr>reg_ts := t\<rparr>,
       11 := (st_regs st ! 11)\<lparr>reg_ts := t\<rparr>, 12 := \<lparr>reg_ts = t, reg_val = of_bool ov\<rparr>],
      st_pc := st_pc st + 4, st_counters := c2\<rparr>"
    using bigint_logged [OF assms] unfolding x10_def x11_def x12_def t_def by blast
  have out: "length out = 4"
    using bigint_out_length [OF v(1) assms(4)] v(3,4) by (simp add: length_limbs_of_words)
  define csr :: u16 where "csr = ucast BIGINT_OPS_WITH_CONTROL_CSR_REGISTER"
  define st0 where "st0 = with_counters st d\<lparr>st_regs := (st_regs st)[0 := (st_regs st ! 0)\<lparr>reg_ts := st_ts st OR 2\<rparr>]\<rparr>"
  define rec where "rec = non_mem_record st0 (0, reg_ts (st_regs st ! 0)) (0, st_ts st) (0, 0, st_ts st OR 1)
    (st_pc st + 4) csr"
  define w where "w = \<lparr>dw_write_timestamp = t,
    dw_reg_accesses =
      [\<lparr>rw_read_value = x10, rw_write_value = x10, rw_timestamp = from_scalar (reg_ts (st_regs st ! 10))\<rparr>,
       \<lparr>rw_read_value = x11, rw_write_value = x11, rw_timestamp = from_scalar (reg_ts (st_regs st ! 11))\<rparr>,
       \<lparr>rw_read_value = x12, rw_write_value = of_bool ov, rw_timestamp = from_scalar (reg_ts (st_regs st ! 12))\<rparr>],
    dw_indirect_reads = read_accesses (map fst bs) (map log_time bs),
    dw_indirect_writes = put_result out (update_accesses (map fst as) (map log_time as) (replicate 8 0)),
    dw_variables_offsets = []\<rparr>"
  have sound: "bigint_sound U w"
    using v(1,3,4) out
    by (simp add: bigint_sound_def w_def put_result_reads put_result_writes access_values)
  have cycle: "delegation_cycle collect_tracer csr (with_counters st d) rs =
      Inr (st0\<lparr>st_pc := st_pc st + 4\<rparr>, rs @ [NonMemOf SHIFT_BINARY_CSR rec])"
    by (simp add: delegation_cycle_def index_ok len Let_def rec_def st0_def)
  have wit: "\<exists>rram'. replay_bigint_witness (replayer_ram_ops bits) U (st0\<lparr>st_pc := st_pc st + 4\<rparr>) rram =
      Inr (w, with_counters st' d, rram') \<and> replays rram' zs \<and> (one_slice rram \<longrightarrow> one_slice rram')"
    if start: "replays rram ((bs @ as @ [log_of_value (of_bool ov)]) @ zs)" for rram zs
  proof -
    obtain rram1 where 1: "replay_read_words (replayer_ram_ops bits) (length bs) x11 t rram =
        Inr (map fst bs, map log_time bs, rram1)" "replays rram1 (as @ [log_of_value (of_bool ov)] @ zs)"
      "one_slice rram \<longrightarrow> one_slice rram1"
      using replay_read_words_ok [of rram bs "as @ [log_of_value (of_bool ov)] @ zs" x11 t bits] start v by auto
    obtain rram2 where 2: "replay_read_words (replayer_ram_ops bits) (length as) x10 t rram1 =
        Inr (map fst as, map log_time as, rram2)" "replays rram2 (log_of_value (of_bool ov) # zs)"
      "one_slice rram1 \<longrightarrow> one_slice rram2"
      using replay_read_words_ok [of rram1 as "[log_of_value (of_bool ov)] @ zs" x10 t bits] 1(2) v by auto
    have 3: "replay_read_word 0 t rram2 = Inr ((0, of_bool ov), advance_log 1 rram2)"
      using replay_pop(1) [OF 2(2), of 0 t] t by (simp add: log_time_value)
    have "replay_bigint_witness (replayer_ram_ops bits) U (st0\<lparr>st_pc := st_pc st + 4\<rparr>) rram =
      Inr (w, with_counters st' d, advance_log 1 rram2)"
      unfolding replay_bigint_witness_def read_register_with_ts_def write_register_with_ts_def
      using 1(1) 2(1) 3 v(1,3,4) len regs times
      by (simp add: Let_def get_unchecked_def index_ok st0_def t_def [symmetric] replay_read_u256_words
          replay_read_u256_for_update_words w_def st')
    then show ?thesis using replays_pop [OF 2(2)] one_slice_advance [of rram2 1] 1(3) 2(3) by blast
  qed
  show ?thesis
  proof (rule call_replayedI [where es = "bs @ as @ [log_of_value (of_bool ov)]"
        and evs = "[BumpBigint 1, LogFamily SHIFT_BINARY_CSR]"
        and new = "[NonMemOf SHIFT_BINARY_CSR rec, DelegationOf csr w]"], goal_cases)
    case (5 rram zs)
    then obtain rram' where "replay_bigint_witness (replayer_ram_ops bits) U (st0\<lparr>st_pc := st_pc st + 4\<rparr>) rram =
      Inr (w, with_counters st' d, rram')" "replays rram' zs" "one_slice rram \<longrightarrow> one_slice rram'"
      using wit by blast
    then show ?case using cycle by (simp add: replay_bigint_call_def Let_def csr_def [symmetric])
  qed (use v st' sound in \<open>auto simp: tallies_def records_tagged_def csr_def w_def witness_fits_def
      put_result_length\<close>)
qed

end

end
