(* ===== verification/Replay_Blake.thy ===== *)
theory Replay_Blake
  imports Replay_Calls Blake_Rounds
begin

text \<open>
  The Blake delegation: its replay follows the machine's call, with one record per cycle and one witness per round.
\<close>

section \<open>The cycles of a call\<close>

lemma length_SIGMAS_index: "k < 10 \<Longrightarrow> index SIGMAS k = Inr (SIGMAS ! k)"
  by (simp add: index_def length_SIGMAS)

definition cycle_records :: "traced list \<Rightarrow> bool" where
  "cycle_records rs \<longleftrightarrow> (\<forall>r \<in> set rs. \<exists>x. r = NonMemOf SHIFT_BINARY_CSR x)"

lemma cycle_records_simps [simp]:
  "cycle_records []" "cycle_records (r # rs) \<longleftrightarrow> (\<exists>x. r = NonMemOf SHIFT_BINARY_CSR x) \<and> cycle_records rs"
  by (simp_all add: cycle_records_def)

lemma records_tagged_cycles:
  "cycle_records rs \<Longrightarrow> records_tagged t rs = (if t = CycleOf SHIFT_BINARY_CSR then length rs else 0)"
  by (induction rs) (auto simp: records_tagged_def)

text \<open>The state after the cycles from \<open>k\<close> on.\<close>

definition after_cycles :: "nat \<Rightarrow> 'c State \<Rightarrow> 'c State" where
  "after_cycles m st =
     (let t = st_ts st + word_of_nat (m - 1) * TIMESTAMP_STEP
      in st\<lparr>st_ts := t, st_pc := st_pc st + word_of_nat (4 * m),
           st_regs := (st_regs st)[0 := (st_regs st ! 0)\<lparr>reg_ts := t OR 2\<rparr>]\<rparr>)"

lemma after_cycles_Suc:
  assumes "st_regs st \<noteq> []" "0 < m"
  shows "after_cycles m (st\<lparr>st_regs := (st_regs st)[0 := (st_regs st ! 0)\<lparr>reg_ts := x\<rparr>], st_pc := st_pc st + 4,
      st_ts := st_ts st + TIMESTAMP_STEP\<rparr>) = after_cycles (Suc m) st"
proof -
  define X where "X = word_of_nat (m - 1) * TIMESTAMP_STEP"
  have "(word_of_nat m :: u64) = word_of_nat (m - 1) + 1"
    using of_nat_Suc [of "m - 1", where ?'a = u64] assms(2) by (simp only: Suc_diff_1 add.commute)
  then have t: "st_ts st + TIMESTAMP_STEP + X = st_ts st + word_of_nat m * TIMESTAMP_STEP"
    unfolding X_def by (simp only: distrib_right mult_1 add.assoc add.commute [of TIMESTAMP_STEP])
  have p: "st_pc st + 4 + word_of_nat (4 * m) = st_pc st + word_of_nat (4 * Suc m)" by simp
  show ?thesis
    unfolding after_cycles_def Let_def X_def [symmetric] diff_Suc_1 t [symmetric] p [symmetric]
    using assms(1) by simp
qed

lemma cycles_step_time:
  assumes "0 < m" "unat (st_ts st) + 4 * m < 2 ^ 64"
  shows "add_u64 (st_ts st) TIMESTAMP_STEP = Inr (st_ts st + TIMESTAMP_STEP)"
    "unat (st_ts st + TIMESTAMP_STEP) = unat (st_ts st) + 4"
proof -
  show "add_u64 (st_ts st) TIMESTAMP_STEP = Inr (st_ts st + TIMESTAMP_STEP)"
    using assms by (simp add: add_u64_def TIMESTAMP_STEP_def)
  then show "unat (st_ts st + TIMESTAMP_STEP) = unat (st_ts st) + 4"
    by (auto dest: unat_add_u64 simp: TIMESTAMP_STEP_def)
qed

lemma delegation_cycles_run:
  assumes "k < n" "st_regs st \<noteq> []" "unat (st_ts st) + 4 * (n - 1 - k) < 2 ^ 64"
  shows "\<exists>recs. delegation_cycles collect_tracer csr n [k..<n] st rs =
      Inr (after_cycles (n - k) st, rs @ recs) \<and> length recs = n - k \<and> cycle_records recs"
  using assms
proof (induction "n - k" arbitrary: k st rs)
  case (Suc m)
  define st1 where "st1 = st\<lparr>st_regs := (st_regs st)[0 := (st_regs st ! 0)\<lparr>reg_ts := st_ts st OR 2\<rparr>],
    st_pc := st_pc st + 4\<rparr>"
  obtain r where r: "delegation_cycle collect_tracer csr st rs = Inr (st1, rs @ [NonMemOf SHIFT_BINARY_CSR r])"
    using Suc.prems(2) by (auto simp: delegation_cycle_def index_def Let_def st1_def)
  have u: "[k..<n] = k # [Suc k..<n]" using Suc.prems(1) by (simp add: upt_conv_Cons)
  show ?case
  proof (cases "k = n - 1")
    case True
    then have "[Suc k..<n] = []" "n - k = 1" using Suc.prems(1) by simp_all
    then show ?thesis unfolding u using r True by (simp add: st1_def after_cycles_def Let_def)
  next
    case False
    then have k: "Suc k < n" using Suc.prems(1) by simp
    then have m: "m = n - Suc k" "0 < m" "n - 1 - k = m" using Suc.hyps(2) by simp_all
    note t = cycles_step_time [of m st, OF m(2) Suc.prems(3) [unfolded m(3)]]
    let ?st = "st1\<lparr>st_ts := st_ts st + TIMESTAMP_STEP\<rparr>"
    have "unat (st_ts ?st) + 4 * (n - 1 - Suc k) < 2 ^ 64" "st_regs ?st \<noteq> []"
      using t(2) Suc.prems(2,3) k by (simp_all add: st1_def)
    from Suc.hyps(1) [OF m(1) k this(2,1)] obtain recs where
      recs: "delegation_cycles collect_tracer csr n [Suc k..<n] ?st (rs @ [NonMemOf SHIFT_BINARY_CSR r]) =
        Inr (after_cycles m ?st, (rs @ [NonMemOf SHIFT_BINARY_CSR r]) @ recs)" "length recs = m"
        "cycle_records recs"
      unfolding m(1) by blast
    have "after_cycles m ?st = after_cycles (n - k) st"
      using after_cycles_Suc [OF Suc.prems(2) m(2), of "st_ts st OR 2"] Suc.hyps(2) by (simp add: st1_def)
    moreover have "st_ts st1 = st_ts st" by (simp add: st1_def)
    ultimately show ?thesis
      unfolding u using r recs t(1) False Suc.hyps(2) m(1) by (auto simp: Let_def)
  qed
qed simp

lemma jump_cycles_run:
  "st_regs st \<noteq> [] \<Longrightarrow> unat (st_ts st) + 4 * (n - 1) < 2 ^ 64 \<Longrightarrow> jump_cycles n st = Inr (after_cycles n st)"
proof -
  assume a: "st_regs st \<noteq> []" "unat (st_ts st) + 4 * (n - 1) < 2 ^ 64"
  then have "unat (word_of_nat (n - 1) * TIMESTAMP_STEP :: u64) = 4 * (n - 1)"
    by (simp add: TIMESTAMP_STEP_def unat_word_ariths unat_of_nat)
  then have "add_u64 (st_ts st) (word_of_nat (n - 1) * TIMESTAMP_STEP) =
      Inr (st_ts st + word_of_nat (n - 1) * TIMESTAMP_STEP)"
    using a(2) by (simp add: add_u64_def)
  then show ?thesis using a(1) by (simp add: jump_cycles_def Let_def index_def after_cycles_def)
qed

section \<open>The rounds of a replay\<close>

lemma shift_of_rounds:
  "n \<le> 10 \<Longrightarrow> unat (word_of_nat (n - 1) * TIMESTAMP_STEP) = 4 * (n - 1)"
  by (simp add: TIMESTAMP_STEP_def unat_word_ariths unat_of_nat)

lemma rounds_of_bounds: "0 < rounds_of c" "rounds_of c \<le> 10" "rounds_of c \<noteq> 0"
  by (simp_all add: rounds_of_def)

lemma blake_next_control_round:
  assumes "blake_permutation_bitmask x12 = push_bit i 1" "i < 10"
  shows "blake_next_control c x12 = x12_of c (Suc i)"
proof -
  have "push_bit 1 (push_bit i 1 :: u32) AND (push_bit BLAKE2S_MAX_ROUNDS 1 - 1) = push_bit (Suc i) 1 AND 1023"
    using control_values assms(2) by (auto simp: list_all_iff simp del: push_bit_of_1)
  then show ?thesis
    using assms(1) unfolding blake_next_control_def x12_of_def Let_def BLAKE2S_NUM_CONTROL_BITS_def
      blake_permutation_bitmask_def by simp
qed

text \<open>The variables before round \<open>i\<close>.\<close>

definition round_ready :: "u32 \<Rightarrow> nat \<Rightarrow> blake_replay \<Rightarrow> bool" where
  "round_ready c i v \<longleftrightarrow>
     length (br_state v) = 8 \<and> length (br_extended v) = 16 \<and>
     (i < 10 \<longrightarrow> blake_control_bitmask (br_control v) = c \<and> blake_permutation_bitmask (br_control v) = push_bit i 1)"

lemma blake_round_sound:
  assumes "round_ready c i v" "i < rounds_of c" "c < 8" "unat (br_current v) + 4 < 2 ^ 64"
    and "length input = 16" "length sts = 24" "length its = 16"
  shows "\<exists>w v'. replay_blake_round c (rounds_of c) x10 x11 input sts its i v = Inr (w, v') \<and>
    traced_sound U (DelegationOf (ucast BLAKE2S_DELEGATION_CSR_REGISTER) w) \<and> round_ready c (Suc i) v' \<and>
    br_current v' = br_current v + TIMESTAMP_STEP"
proof -
  let ?mode = "has_mask c TEST_IF_COMPRESSION_MODE_MASK"
  note i = order_less_le_trans [OF assms(2) rounds_of_bounds(2)]
  have len: "length (br_state v) = 8" "length (br_extended v) = 16"
    and ctl: "blake_control_bitmask (br_control v) = c" "blake_permutation_bitmask (br_control v) = push_bit i 1"
    using assms(1) i by (simp_all add: round_ready_def)
  note nxt = blake_next_control_round [OF ctl(2) i, of c]
  define e0 where "e0 = (if i = 0 then blake_prepare ?mode (br_state v) (br_extended v) else br_extended v)"
  obtain h e where he: "blake_step c i input (br_state v, e0) = (h, e)" by force
  have lens: "length h = 8" "length e = 16"
    using blake_step_lengths [OF len(1) he] len by (simp_all add: e0_def)
  have last: "(i = rounds_of c - 1) = (i = 9 \<or> has_mask c TEST_IF_REDUCE_ROUNDS_MASK \<and> i = 6)"
    using assms(2) by (auto simp: rounds_of_def)
  have e: "mixing_function e0 (blake_message ?mode (has_mask c TEST_IF_INPUT_IS_RIGHT_NODE_MASK) (br_state v) input)
      (SIGMAS ! i) = e"
    and h: "(if i = rounds_of c - 1 then blake_finish ?mode (br_state v) e else br_state v) = h"
    unfolding last using he by (auto simp: blake_step_def Let_def)
  define w where "w = \<lparr>dw_write_timestamp = br_current v OR 3,
    dw_reg_accesses =
      [\<lparr>rw_read_value = x10, rw_write_value = x10, rw_timestamp = from_scalar (br_x10_timestamp v)\<rparr>,
       \<lparr>rw_read_value = x11, rw_write_value = x11, rw_timestamp = from_scalar (br_x11_timestamp v)\<rparr>,
       \<lparr>rw_read_value = br_control v, rw_write_value = x12_of c (Suc i), rw_timestamp = from_scalar (br_x12_timestamp v)\<rparr>],
    dw_indirect_reads = read_accesses input (read_times i its (br_previous v)),
    dw_indirect_writes = update_accesses (br_state v @ br_extended v) (read_times i sts (br_previous v)) (h @ e),
    dw_variables_offsets = []\<rparr>"
  have "add_u64 (br_current v) TIMESTAMP_STEP = Inr (br_current v + TIMESTAMP_STEP)"
    using assms(4) by (simp add: add_u64_def TIMESTAMP_STEP_def)
  then have run: "replay_blake_round c (rounds_of c) x10 x11 input sts its i v =
    Inr (w, \<lparr>br_state = h, br_extended = e, br_control = x12_of c (Suc i), br_x10_timestamp = br_current v OR 3,
      br_x11_timestamp = br_current v OR 3, br_x12_timestamp = br_current v OR 3,
      br_previous = br_current v OR 3, br_current = br_current v + TIMESTAMP_STEP\<rparr>)"
    unfolding replay_blake_round_def Let_def nxt e0_def [symmetric] using i
    by (simp add: e h [folded e] length_SIGMAS_index w_def del: One_nat_def split del: if_split)
  have times: "length (read_times i sts p) = 24" "length (read_times i its p) = 16" for p
    using assms(6,7) by (simp_all add: read_times_def)
  have "blake_sound w"
    using impl_is_step [OF len(1) i ctl, of "br_extended v" input] he lens times assms(5) len
    by (simp add: blake_sound_def w_def access_values e0_def)
  then have "traced_sound U (DelegationOf (ucast BLAKE2S_DELEGATION_CSR_REGISTER) w)"
    using times len lens assms(5) by (simp add: witness_fits_def csr_values w_def)
  moreover have "Suc i < 10 \<Longrightarrow> blake_control_bitmask (x12_of c (Suc i)) = c \<and>
      blake_permutation_bitmask (x12_of c (Suc i)) = push_bit (Suc i) 1"
    using x12_of_parts [OF assms(3)] by blast
  ultimately show ?thesis using run lens by (auto simp: round_ready_def)
qed

text \<open>The witnesses of the rounds from \<open>k\<close> on.\<close>

lemma blake_rounds_sound:
  assumes "round_ready c k v" "k \<le> rounds_of c" "c < 8"
    and "unat (br_current v) + 4 * (rounds_of c - k) < 2 ^ 64"
    and "length input = 16" "length sts = 24" "length its = 16"
  shows "\<exists>v' ws. replay_blake_rounds collect_tracer c (rounds_of c) x10 x11 input sts its [k..<rounds_of c] v rs =
      Inr (v', rs @ map (DelegationOf (ucast BLAKE2S_DELEGATION_CSR_REGISTER)) ws) \<and>
    length ws = rounds_of c - k \<and>
    (\<forall>w \<in> set ws. traced_sound U (DelegationOf (ucast BLAKE2S_DELEGATION_CSR_REGISTER) w)) \<and>
    unat (br_current v') = unat (br_current v) + 4 * (rounds_of c - k)"
  using assms(1,2,4)
proof (induction "rounds_of c - k" arbitrary: k v rs)
  case (Suc m)
  then have k: "k < rounds_of c" "[k..<rounds_of c] = k # [Suc k..<rounds_of c]"
    by (simp_all add: upt_conv_Cons)
  have n: "rounds_of c - k = Suc (rounds_of c - Suc k)" using k(1) by simp
  have t: "unat (br_current v) + 4 < 2 ^ 64" using Suc.prems(3) k(1) by simp
  obtain w v1 where w: "replay_blake_round c (rounds_of c) x10 x11 input sts its k v = Inr (w, v1)"
    "traced_sound U (DelegationOf (ucast BLAKE2S_DELEGATION_CSR_REGISTER) w)" "round_ready c (Suc k) v1"
    "br_current v1 = br_current v + TIMESTAMP_STEP"
    using blake_round_sound [OF Suc.prems(1) k(1) assms(3) t assms(5-7)] by blast
  have u: "unat (br_current v1) = unat (br_current v) + 4"
    using w(4) Suc.prems(3) k(1) by (simp add: TIMESTAMP_STEP_def unat_word_ariths)
  have "m = rounds_of c - Suc k" "Suc k \<le> rounds_of c"
    "unat (br_current v1) + 4 * (rounds_of c - Suc k) < 2 ^ 64"
    using Suc.hyps(2) k(1) Suc.prems(3) u by simp_all
  from Suc.hyps(1) [OF this(1) w(3) this(2,3), of "rs @ [DelegationOf (ucast BLAKE2S_DELEGATION_CSR_REGISTER) w]"]
  obtain v' ws where v': "replay_blake_rounds collect_tracer c (rounds_of c) x10 x11 input sts its
      [Suc k..<rounds_of c] v1 (rs @ [DelegationOf (ucast BLAKE2S_DELEGATION_CSR_REGISTER) w]) =
      Inr (v', (rs @ [DelegationOf (ucast BLAKE2S_DELEGATION_CSR_REGISTER) w]) @
        map (DelegationOf (ucast BLAKE2S_DELEGATION_CSR_REGISTER)) ws)"
    "length ws = rounds_of c - Suc k"
    "\<forall>w \<in> set ws. traced_sound U (DelegationOf (ucast BLAKE2S_DELEGATION_CSR_REGISTER) w)"
    "unat (br_current v') = unat (br_current v1) + 4 * (rounds_of c - Suc k)" by blast
  then show ?case
    unfolding k(2) using w(1,2) u n
    by (intro exI [of _ v'] exI [of _ "w # ws"]) (simp del: traced_sound.simps)
qed simp

text \<open>The replay computes the witnesses from the entries of the two blocks.\<close>

lemma blake_witnesses_ok:
  fixes st :: "'c State"
  assumes len: "length as = 24" "length bs = 16"
    and al: "x10 mod 4 = 0" "x11 mod 4 = 0" "unat x10 + 96 < 2 ^ 32" "unat x11 + 64 < 2 ^ 32"
    and early: "\<forall>e \<in> set (as @ bs). unat (log_time e) < unat t0 + 4 * (rounds_of c - 1) + 3"
    and time: "unat t0 + 4 * rounds_of c < 2 ^ 64" "unat (st_ts st) = unat t0 + 4 * (rounds_of c - 1)"
    and c: "blake_control_bitmask x12 = c" "blake_permutation_bitmask x12 = 1" "c < 8"
    and regs: "length (st_regs st) = 32"
  shows "\<exists>ws. length ws = rounds_of c \<and>
    (\<forall>w \<in> set ws. traced_sound U (DelegationOf (ucast BLAKE2S_DELEGATION_CSR_REGISTER) w)) \<and>
    (\<forall>rram zs. replays rram ((as @ bs) @ zs) \<longrightarrow> (\<exists>rram'.
      replay_blake_witnesses collect_tracer (replayer_ram_ops bits) c (rounds_of c) x10 x11 x12 t0 st rram rs =
        Inr (rram', rs @ map (DelegationOf (ucast BLAKE2S_DELEGATION_CSR_REGISTER)) ws) \<and>
      replays rram' zs \<and> (one_slice rram \<longrightarrow> one_slice rram')))"
proof -
  define X where "X = word_of_nat (rounds_of c - 1) * TIMESTAMP_STEP"
  have X: "unat X = 4 * (rounds_of c - 1)" unfolding X_def by (rule shift_of_rounds) (rule rounds_of_bounds)
  define t1 where "t1 = t0 + X"
  have t1: "add_u64 t0 X = Inr t1" "unat t1 = unat t0 + 4 * (rounds_of c - 1)"
    using time(1) X rounds_of_bounds(1) [of c] by (simp_all add: t1_def add_u64_def unat_word_ariths)
  have "unat t1 + 4 < 2 ^ 64" using time(1) t1(2) rounds_of_bounds(1) [of c] by simp
  then obtain T3 T where T: "add_u64 t1 3 = Inr T3" "add_u64 T3 1 = Inr T" "unat T = unat t1 + 4"
    by (simp add: add_u64_def unat_word_ariths)
  have e: "\<forall>e \<in> set as. log_time e < T" "\<forall>e \<in> set bs. log_time e < T"
    using early unfolding word_less_nat_alt T(3) t1(2) by (auto intro: less_trans)
  define v where "v = \<lparr>br_state = take 8 (map fst as), br_extended = drop 8 (map fst as), br_control = x12,
    br_x10_timestamp = reg_ts (st_regs st ! 10), br_x11_timestamp = reg_ts (st_regs st ! 11),
    br_x12_timestamp = reg_ts (st_regs st ! 12), br_previous = 0, br_current = t0\<rparr>"
  have "round_ready c 0 v" using len c by (simp add: round_ready_def v_def)
  from blake_rounds_sound [OF this _ c(3), of "map fst bs" "map log_time as" "map log_time bs" x10 x11 rs U]
  obtain v' ws where ws: "replay_blake_rounds collect_tracer c (rounds_of c) x10 x11 (map fst bs) (map log_time as)
      (map log_time bs) [0..<rounds_of c] v rs =
      Inr (v', rs @ map (DelegationOf (ucast BLAKE2S_DELEGATION_CSR_REGISTER)) ws)"
    "length ws = rounds_of c" "unat (br_current v') = unat t0 + 4 * rounds_of c"
    "\<forall>w \<in> set ws. traced_sound U (DelegationOf (ucast BLAKE2S_DELEGATION_CSR_REGISTER) w)"
    using len time(1) by (auto simp: v_def)
  have v': "br_current v' = st_ts st + TIMESTAMP_STEP"
    using ws(3) time rounds_of_bounds(1) [of c]
    by (simp add: word_unat_eq_iff TIMESTAMP_STEP_def unat_word_ariths)
  have "\<exists>rram'. replay_blake_witnesses collect_tracer (replayer_ram_ops bits) c (rounds_of c) x10 x11 x12 t0 st rram rs =
        Inr (rram', rs @ map (DelegationOf (ucast BLAKE2S_DELEGATION_CSR_REGISTER)) ws) \<and>
      replays rram' zs \<and> (one_slice rram \<longrightarrow> one_slice rram')" if "replays rram ((as @ bs) @ zs)" for rram zs
  proof -
    have s1: "replays rram (as @ (bs @ zs))" using that by simp
    obtain r1 where 1: "replay_read_words (replayer_ram_ops bits) 24 x10 T rram =
        Inr (map fst as, map log_time as, r1)" "replays r1 (bs @ zs)" "one_slice rram \<longrightarrow> one_slice r1"
      using replay_read_words_ok [OF s1 al(1) _ e(1), of bits] al(3) len by auto
    obtain r2 where 2: "replay_read_words (replayer_ram_ops bits) 16 x11 T r1 =
        Inr (map fst bs, map log_time bs, r2)" "replays r2 zs" "one_slice r1 \<longrightarrow> one_slice r2"
      using replay_read_words_ok [OF 1(2) al(2) _ e(2), of bits] al(4) len by auto
    have "replay_blake_witnesses collect_tracer (replayer_ram_ops bits) c (rounds_of c) x10 x11 x12 t0 st rram rs =
        Inr (r2, rs @ map (DelegationOf (ucast BLAKE2S_DELEGATION_CSR_REGISTER)) ws)"
      unfolding replay_blake_witnesses_def X_def [symmetric] t1(1)
      using T(1) 1(1) 2(1) ws(1) v' T(2) regs by (simp add: index_ok v_def)
    then show ?thesis using 1(3) 2(2,3) by blast
  qed
  then show ?thesis using ws(2,4) by blast
qed

lemma power_of_two_trailing:
  assumes "is_power_of_two w" "trailing_zeros w = 0"
  shows "w = 1"
proof -
  have "takeWhile (\<lambda>i. \<not> bit w i) [0..<32] = []" using assms(2) by (simp only: trailing_zeros_def length_0_conv)
  then have odd: "odd w" by (simp add: upt_conv_Cons bit_0 split: if_splits)
  have "w - 1 = w AND NOT 1"
  proof -
    have "(w AND NOT 1) + (w AND 1) = (w AND NOT 1) OR (w AND 1)"
      by (rule disjunctive_add) (auto simp: bit_simps)
    also have "\<dots> = w" by (simp only: bit.conj_disj_distrib [symmetric] bit.disj_cancel_left bit.conj_one_right)
    finally have "(w AND NOT 1) + (w AND 1) = w" .
    moreover have "w AND 1 = 1" using odd by (simp add: and_one_eq mod_2_eq_odd)
    ultimately show ?thesis by (metis add_diff_cancel_right')
  qed
  moreover have "w AND (w - 1) = 0" using assms(1) by (simp add: is_power_of_two_def)
  ultimately have "w AND NOT 1 = 0" by (simp add: and.assoc [symmetric])
  then show ?thesis using \<open>w - 1 = w AND NOT 1\<close> by simp
qed

section \<open>The call of the machine\<close>

text \<open>The state at the end of a call, up to its counters.\<close>

definition blake_end :: "nat \<Rightarrow> u32 \<Rightarrow> 'c State \<Rightarrow> 'c State" where
  "blake_end n final_x12 st =
     (let st = after_cycles n st; t = st_ts st OR 3
      in st\<lparr>st_regs := (st_regs st)
           [10 := (st_regs st ! 10)\<lparr>reg_ts := t\<rparr>, 11 := (st_regs st ! 11)\<lparr>reg_ts := t\<rparr>,
            12 := \<lparr>reg_ts = t, reg_val = final_x12\<rparr>]\<rparr>)"

definition blake_checks :: "u32 \<Rightarrow> u32 \<Rightarrow> u32 \<Rightarrow> bool" where
  "blake_checks x10 x11 x12 \<longleftrightarrow>
     ROM_BYTE_SIZE \<le> x10 \<and> ROM_BYTE_SIZE \<le> x11 \<and> x10 \<noteq> x11 \<and> x10 mod 128 = 0 \<and> x11 mod 64 = 0 \<and>
     is_power_of_two (blake_permutation_bitmask x12) \<and> trailing_zeros (blake_permutation_bitmask x12) = 0"

lemma aligned_or:
  "unat (t :: u64) mod 4 = 0 \<Longrightarrow> unat t + 3 < 2 ^ 64 \<Longrightarrow> t + 3 = t OR 3"
  using unat_or_low(3) [of t] by (simp add: word_unat_eq_iff unat_word_ariths)

context logged_memory
begin

lemma blake_logged:
  assumes call: "blake2_round_function_call C S R st r s = Inr (st', r', s')"
    and c: "cycle_at 0 st" and log: "logged s xs"
  defines "x10 \<equiv> reg_vals st ! 10" and "x11 \<equiv> reg_vals st ! 11" and "x12 \<equiv> reg_vals st ! 12"
  defines "ctl \<equiv> blake_control_bitmask x12"
  defines "n \<equiv> rounds_of ctl"
  shows "\<exists>as bs c1 c2. blake_checks x10 x11 x12 \<and>
    logged s' (xs @ as @ bs) \<and> length as = 24 \<and> length bs = 16 \<and>
    unat x10 + 96 < 2 ^ 32 \<and> unat x11 + 64 < 2 ^ 32 \<and>
    (\<forall>e \<in> set (as @ bs). unat (log_time e) < unat (st_ts st) + 4 * (n - 1) + 3) \<and>
    c_bump_blake C (word_of_nat n) (st_counters st) = Inr c1 \<and>
    c_log_multiple C SHIFT_BINARY_CSR (word_of_nat n) c1 = Inr c2 \<and>
    unat (st_ts st') = unat (st_ts st) + 4 * (n - 1) \<and>
    st' = with_counters (blake_end n (x12_of ctl n) st) c2"
proof -
  have len: "length (st_regs st) = 32" and ts: "unat (st_ts st) mod 4 = 0"
    using cycle_atD(1,2) [OF c] by auto
  have regs: "reg_val (st_regs st ! 10) = x10" "reg_val (st_regs st ! 11) = x11" "reg_val (st_regs st ! 12) = x12"
    by (simp_all add: x10_def x11_def x12_def len reg_vals_def)
  let ?mode = "has_mask ctl TEST_IF_COMPRESSION_MODE_MASK"
  obtain last t e input h' e' r1 s1 input' c1 c2 where checks: "blake_checks x10 x11 x12" and
    last: "add_u64 (st_ts st) (word_of_nat (n - 1) * TIMESTAMP_STEP) = Inr last" "add_u64 last 3 = Inr t" and
    peek: "peek_read_words R 24 x10 r = Inr e" and
    rounds: "blake_rounds ?mode (has_mask ctl TEST_IF_INPUT_IS_RIGHT_NODE_MASK) n input [0..<n]
      (take 8 e, blake_prepare ?mode (take 8 e) (drop 8 e)) = Inr (h', e')" and
    wr: "write_back_words R S (h' @ e') x10 (last OR 3) r s = Inr (r1, s1)" and
    rd: "read_words R S 16 x11 (last OR 3) r1 s1 = Inr (input', r', s')" and
    cs: "c_bump_blake C (word_of_nat n) (st_counters st) = Inr c1"
    "c_log_multiple C SHIFT_BINARY_CSR (word_of_nat n) c1 = Inr c2" and
    st': "st' = st\<lparr>st_regs := (st_regs st)[10 := (st_regs st ! 10)\<lparr>reg_ts := t\<rparr>, 11 := (st_regs st ! 11)\<lparr>reg_ts := t\<rparr>,
       12 := \<lparr>reg_ts = t, reg_val = x12_of ctl n\<rparr>, 0 := (st_regs st ! 0)\<lparr>reg_ts := last OR 2\<rparr>],
       st_ts := last, st_pc := st_pc st + 4 * word_of_nat n, st_counters := c2\<rparr>"
    using call len regs unfolding blake2_round_function_call_def Let_def
    by (auto simp: index_ok blake_checks_def rounds_of_def [symmetric] x12_of_final n_def ctl_def)
  have pl: "unat (word_of_nat (n - 1) * TIMESTAMP_STEP) = 4 * (n - 1)"
    using shift_of_rounds [of n] rounds_of_bounds by (simp add: n_def)
  have ul: "unat last = unat (st_ts st) + 4 * (n - 1)" using unat_add_u64 [OF last(1)] pl by simp
  have m4: "unat last mod 4 = 0" using ul ts by (simp add: mod_add_eq [symmetric])
  have ut: "t = last OR 3" "unat (last OR 3) = unat last + 3"
    using aligned_or [OF m4] unat_or_low(3) [OF m4] last(2) by (auto simp: add_u64_eq_Inr)
  have "blake_steps ctl [0..<n] input (take 8 e, blake_prepare ?mode (take 8 e) (drop 8 e)) = (h', e')"
    using rounds_are_steps [of "[0..<n]" n ctl input "take 8 e"] rounds
    by (simp add: n_def rounds_of_def lessThan_atLeast0)
  moreover have al: "x10 mod 4 = 0" "x11 mod 4 = 0"
    using checks aligned_word(2,3) by (auto simp: blake_checks_def)
  note pk = peek_logged [OF peek al(1)]
  ultimately have lens: "length h' = 8" "length e' = 16"
    unfolding n_def steps_all by (auto simp: Let_def)
  obtain as where as: "logged s1 (xs @ as)" "block_logged r x10 24 (unat ((last OR 3) OR 2)) as"
    using write_words_logged [OF wr log al(1)] lens by auto
  obtain bs where bs: "logged s' ((xs @ as) @ bs)" "block_logged r1 x11 16 (unat ((last OR 3) OR 1)) bs"
    using read_words_logged [OF rd as(1) al(2)] by blast
  have "last = st_ts st + word_of_nat (n - 1) * TIMESTAMP_STEP" using last(1) by (simp add: add_u64_eq_Inr)
  moreover have tst: "unat (st_ts st') = unat (st_ts st) + 4 * (n - 1)" using ul by (simp add: st')
  ultimately have "st' = with_counters (blake_end n (x12_of ctl n) st) c2"
    unfolding st' ut(1) blake_end_def after_cycles_def Let_def
    using len by (simp add: list_update_swap [of 0])
  then show ?thesis
    using checks as bs cs tst block_logged_length [OF as(2)] block_logged_length [OF bs(2)] ul ut(2)
    by (intro exI [of _ as] exI [of _ bs] exI [of _ c1] exI [of _ c2]) (auto simp: block_logged_def)
qed

lemma blake_replayed:
  assumes call: "blake2_round_function_call C S R st r s = Inr (st', r', s')"
    and c: "cycle_at 0 st" and log: "logged s xs" and end_time: "unat (st_ts st') + 4 < 2 ^ 64"
  shows "call_replayed U C (st_counters st) d rs xs st' s'
    (\<lambda>rram. replay_blake2_round_function_call collect_tracer (replayer_ram_ops bits) (with_counters st d) rram rs)"
proof -
  define x10 where "x10 = reg_vals st ! 10"
  define x11 where "x11 = reg_vals st ! 11"
  define x12 where "x12 = reg_vals st ! 12"
  define ctl where "ctl = blake_control_bitmask x12"
  define n where "n = rounds_of ctl"
  define csr :: u16 where "csr = ucast BLAKE2S_DELEGATION_CSR_REGISTER"
  have len: "length (st_regs st) = 32" using cycle_atD(1) [OF c] .
  have regs: "reg_val (st_regs st ! 10) = x10" "reg_val (st_regs st ! 11) = x11" "reg_val (st_regs st ! 12) = x12"
    by (simp_all add: x10_def x11_def x12_def len reg_vals_def)
  obtain as bs c1 c2 where v: "blake_checks x10 x11 x12" "logged s' (xs @ as @ bs)" "length as = 24" "length bs = 16"
    "unat x10 + 96 < 2 ^ 32" "unat x11 + 64 < 2 ^ 32"
    "\<forall>e \<in> set (as @ bs). unat (log_time e) < unat (st_ts st) + 4 * (n - 1) + 3"
    "c_bump_blake C (word_of_nat n) (st_counters st) = Inr c1"
    "c_log_multiple C SHIFT_BINARY_CSR (word_of_nat n) c1 = Inr c2" "unat (st_ts st') = unat (st_ts st) + 4 * (n - 1)"
    and st': "st' = with_counters (blake_end n (x12_of ctl n) st) c2"
    using blake_logged [OF call c log] unfolding x10_def x11_def x12_def ctl_def n_def by blast
  note n = rounds_of_bounds [of ctl, folded n_def]
  have ts: "st_ts st' = st_ts st + word_of_nat (n - 1) * TIMESTAMP_STEP"
    by (simp add: st' blake_end_def after_cycles_def Let_def)
  have time: "unat (st_ts st) + 4 * n < 2 ^ 64" "unat (st_ts st') = unat (st_ts st) + 4 * (n - 1)"
    using v(10) end_time n(1) by simp_all
  define st1 where "st1 = after_cycles n (with_counters st d)"
  have "0 < n" "st_regs (with_counters st d) \<noteq> []" "unat (st_ts (with_counters st d)) + 4 * (n - 1 - 0) < 2 ^ 64"
    using n time len by auto
  from delegation_cycles_run [OF this, of csr rs] obtain recs where
    recs: "delegation_cycles collect_tracer csr n [0..<n] (with_counters st d) rs = Inr (st1, rs @ recs)"
    "length recs = n" "cycle_records recs" by (auto simp: st1_def)
  have st1: "unat (st_ts st1) = unat (st_ts st) + 4 * (n - 1)" "length (st_regs st1) = 32"
    using time(2) ts len by (simp_all add: st1_def after_cycles_def Let_def)
  have ctl: "blake_permutation_bitmask x12 = 1" "ctl < 8"
    using v(1) control_less power_of_two_trailing [of "blake_permutation_bitmask x12"] by (auto simp: blake_checks_def ctl_def)
  have al: "x10 mod 4 = 0" "x11 mod 4 = 0"
    using v(1) aligned_word(2,3) by (auto simp: blake_checks_def)
  have regs1: "replay_blake_registers (x12_of ctl n) st1 = Inr (with_counters st' d)"
    using st1(2) by (simp add: replay_blake_registers_def index_ok st' blake_end_def st1_def Let_def after_cycles_def)
  have tags: "records_tagged t (recs @ map (DelegationOf csr) ws) =
      (if t = CycleOf SHIFT_BINARY_CSR then n else 0) + (if t = CallOf csr then n else 0)"
    if "length ws = n" for t ws
    using records_tagged_cycles [OF recs(3)] recs(2) that
    by (auto simp: records_tagged_def filter_map comp_def)
  have "\<forall>e \<in> set (as @ bs). unat (log_time e) < unat (st_ts st) + 4 * (rounds_of ctl - 1) + 3"
    "unat (st_ts st) + 4 * rounds_of ctl < 2 ^ 64" "unat (st_ts st1) = unat (st_ts st) + 4 * (rounds_of ctl - 1)"
    using v(7) time(1) st1(1) unfolding n_def by blast+
  from blake_witnesses_ok [OF v(3,4) al v(5,6) this ctl_def [symmetric] ctl st1(2), of U bits "rs @ recs"]
  obtain ws where ws: "length ws = n" "\<forall>w \<in> set ws. traced_sound U (DelegationOf csr w)" "\<forall>rram zs.
      replays rram ((as @ bs) @ zs) \<longrightarrow> (\<exists>rram'. replay_blake_witnesses collect_tracer (replayer_ram_ops bits) ctl n
        x10 x11 x12 (st_ts st) st1 rram (rs @ recs) = Inr (rram', (rs @ recs) @ map (DelegationOf csr) ws) \<and>
      replays rram' zs \<and> (one_slice rram \<longrightarrow> one_slice rram'))"
    unfolding n_def csr_def by blast
  show ?thesis
  proof (rule call_replayedI [where es = "as @ bs"
        and evs = "[BumpBlake (word_of_nat n), LogMultiple SHIFT_BINARY_CSR (word_of_nat n)]"
        and new = "recs @ map (DelegationOf csr) ws"], goal_cases)
    case (4)
    have "traced_sound U r" if "r \<in> set recs" for r using that recs(3) by (auto simp: cycle_records_def)
    then show ?case using ws(2) by auto
  next
    case (5 rram zs)
    then obtain rram' where "replay_blake_witnesses collect_tracer (replayer_ram_ops bits) ctl n
        x10 x11 x12 (st_ts st) st1 rram (rs @ recs) = Inr (rram', (rs @ recs) @ map (DelegationOf csr) ws)"
      "replays rram' zs" "one_slice rram \<longrightarrow> one_slice rram'" using ws(3) by blast
    moreover have "replay_blake2_round_function_call collect_tracer (replayer_ram_ops bits) (with_counters st d) rram rs =
      bindE (delegation_cycles collect_tracer csr n [0..<n] (with_counters st d) rs) (\<lambda>(st1, rs).
      bindE (replay_blake_witnesses collect_tracer (replayer_ram_ops bits) ctl n x10 x11 x12 (st_ts st) st1 rram rs)
        (\<lambda>(rram, rs). bindE (replay_blake_registers (x12_of ctl n) st1) (\<lambda>st. Inr (st, rram, rs))))"
      using v(1) regs len
      by (simp add: replay_blake2_round_function_call_def Let_def index_ok blake_checks_def csr_def [symmetric]
          ctl_def [symmetric] rounds_of_def [symmetric] n_def [symmetric] x12_of_final)
    ultimately show ?case using recs(1) regs1 by auto
  qed (use v st' ws tags n in \<open>auto simp: tallies_def csr_def unat_of_nat\<close>)
qed

end

end
