(* ===== verification/Replay_Keccak.thy ===== *)
theory Replay_Keccak
  imports Replay_Blake
begin

text \<open>
  The Keccak delegation: its replay follows the machine's call, with one record per cycle and one witness per small
  operation of the permutation.
\<close>

section \<open>The operations of a replay\<close>

lemma decode_control_fields:
  assumes "keccak_special5_impl_decode_control ctl = Inr (p, it, r)"
  shows "p < 7" "it < 5" "r < 24 \<or> r = 24 \<and> p = 0"
  using assms by (auto simp: keccak_special5_impl_decode_control_def Let_def)

lemma logical_indices_bound:
  assumes "it < 5" "k \<in> set (logical_indices p it)"
  shows "k < 31"
proof -
  have "it \<in> {0, 1, 2, 3, 4}" using assms(1) by auto
  then show ?thesis
    using assms(2) by (auto simp: logical_indices_def row_one [simplified] split: if_splits)
qed

lemma extract_indices_bound:
  assumes "keccak_special5_impl_decode_control ctl = Inr (p, it, r)"
    "keccak_special5_impl_extract_indices p it r = Inr idx"
  shows "length idx = 6 \<and> (\<forall>i \<in> set idx. i < 31)"
proof -
  note d = decode_control_fields [OF assms(1)]
  have "idx = map (perm r) (logical_indices p it)"
    using extract_is_logical [OF d(3,1,2)] assms(2) by simp
  then show ?thesis using d(3) logical_indices_bound [OF d(2), of _ p] by (auto intro!: perm_less)
qed

lemma outputs_length: "keccak_special5_impl_compute_outputs p it r xs = Inr out \<Longrightarrow> length out = 6"
  by (auto simp: keccak_special5_impl_compute_outputs_def Let_def split: if_splits)

lemma list_6:
  assumes "length xs = 6"
  obtains a b c d e f where "xs = [a, b, c, d, e, f]"
  using assms by (auto simp: length_Suc_conv numeral_eq_Suc)

lemma lane_accesses_values:
  assumes "length idx = 6" "length out = 6"
  shows "limbs_of_words (map rw_read_value (lane_accesses idx state ts out)) = map ((!) state) idx"
    "limbs_of_words (map rw_write_value (lane_accesses idx state ts out)) = out"
    "length (lane_accesses idx state ts out) = 12"
proof -
  obtain i0 i1 i2 i3 i4 i5 where i: "idx = [i0, i1, i2, i3, i4, i5]" using list_6 [OF assms(1)] by blast
  obtain o0 o1 o2 o3 o4 o5 where o: "out = [o0, o1, o2, o3, o4, o5]" using list_6 [OF assms(2)] by blast
  note s = limbs_of_words_of_limbs [of "[_]", simplified]
  show "limbs_of_words (map rw_read_value (lane_accesses idx state ts out)) = map ((!) state) idx"
    "limbs_of_words (map rw_write_value (lane_accesses idx state ts out)) = out"
    "length (lane_accesses idx state ts out) = 12"
    by (simp_all add: lane_accesses_def Let_def i o upt_6 s)
qed

lemma length_fold_updates:
  "length (fold (\<lambda>j xs. xs[f j := g j]) js xs) = length xs"
  "length (fold (\<lambda>j xs. xs[f j := u, h j := u]) js xs) = length xs"
  by (induction js arbitrary: xs) simp_all

lemma keccak_round_sound:
  assumes "keccak_small_step (kr_control v, kr_state v) = Inr (ctl, state)" "length (kr_state v) = 31"
    and "unat (kr_current v) + 4 < 2 ^ 64"
  shows "\<exists>w v'. replay_keccak_round x11 v = Inr (w, v') \<and>
    traced_sound U (DelegationOf (ucast KECCAK_SPECIAL5_CSR_REGISTER) w) \<and>
    kr_control v' = ctl \<and> kr_state v' = state \<and> length state = 31 \<and>
    kr_current v' = kr_current v + TIMESTAMP_STEP"
proof -
  obtain p it r idx out where st: "keccak_special5_impl_decode_control (kr_control v) = Inr (p, it, r)"
    "keccak_special5_impl_bump_control p it r = Inr ctl"
    "keccak_special5_impl_extract_indices p it r = Inr idx"
    "keccak_special5_impl_compute_outputs p it r (map ((!) (kr_state v)) idx) = Inr out"
    "state = fold (\<lambda>j state. state[idx ! j := out ! j]) [0..<6] (kr_state v)"
    using assms(1) by (auto simp: keccak_small_step_def)
  note idx = extract_indices_bound [OF st(1,3)]
  note out = outputs_length [OF st(4)]
  note acc = lane_accesses_values [of idx out "kr_state v" "kr_timestamps v", OF conjunct1 [OF idx] out]
  define w where "w = \<lparr>dw_write_timestamp = kr_current v OR 3,
    dw_reg_accesses =
      [\<lparr>rw_read_value = kr_control v, rw_write_value = ctl, rw_timestamp = from_scalar (kr_x10_timestamp v)\<rparr>,
       \<lparr>rw_read_value = x11, rw_write_value = x11, rw_timestamp = from_scalar (kr_x11_timestamp v)\<rparr>],
    dw_indirect_reads = [],
    dw_indirect_writes = lane_accesses idx (kr_state v) (kr_timestamps v) out,
    dw_variables_offsets = map word_of_nat idx\<rparr>"
  have "add_u64 (kr_current v) TIMESTAMP_STEP = Inr (kr_current v + TIMESTAMP_STEP)"
    using assms(3) by (simp add: add_u64_def TIMESTAMP_STEP_def)
  moreover have "keccak_sound w" using st acc by (simp add: keccak_sound_def w_def)
  then have "traced_sound U (DelegationOf (ucast KECCAK_SPECIAL5_CSR_REGISTER) w)"
    using acc idx by (simp add: witness_fits_def csr_values w_def)
  ultimately show ?thesis
    using st idx assms(2) by (simp add: replay_keccak_round_def Let_def w_def length_fold_updates)
qed

lemma keccak_rounds_sound:
  assumes "keccak_small_steps n (kr_control v, kr_state v) = Inr (ctl, state)" "length (kr_state v) = 31"
    and "unat (kr_current v) + 4 * n < 2 ^ 64"
  shows "\<exists>v' ws. replay_keccak_rounds collect_tracer x11 n v rs =
      Inr (v', rs @ map (DelegationOf (ucast KECCAK_SPECIAL5_CSR_REGISTER)) ws) \<and> length ws = n \<and>
    (\<forall>w \<in> set ws. traced_sound U (DelegationOf (ucast KECCAK_SPECIAL5_CSR_REGISTER) w)) \<and>
    kr_control v' = ctl \<and> kr_state v' = state \<and> unat (kr_current v') = unat (kr_current v) + 4 * n"
  using assms
proof (induction n arbitrary: v rs)
  case (Suc n)
  have "keccak_small_steps (1 + n) (kr_control v, kr_state v) = Inr (ctl, state)"
    using Suc.prems(1) by (simp only: plus_1_eq_Suc)
  then obtain c1 s1 where 1: "keccak_small_step (kr_control v, kr_state v) = Inr (c1, s1)"
    "keccak_small_steps n (c1, s1) = Inr (ctl, state)"
    unfolding keccak_small_steps_add by auto
  have t: "unat (kr_current v) + 4 < 2 ^ 64" using Suc.prems(3) by simp
  obtain w v1 where w: "replay_keccak_round x11 v = Inr (w, v1)"
    "traced_sound U (DelegationOf (ucast KECCAK_SPECIAL5_CSR_REGISTER) w)"
    "kr_control v1 = c1" "kr_state v1 = s1" "length s1 = 31" "kr_current v1 = kr_current v + TIMESTAMP_STEP"
    using keccak_round_sound [OF 1(1) Suc.prems(2) t] by blast
  have u: "unat (kr_current v1) = unat (kr_current v) + 4"
    using w(6) t by (simp add: TIMESTAMP_STEP_def unat_word_ariths)
  have "keccak_small_steps n (kr_control v1, kr_state v1) = Inr (ctl, state)" "length (kr_state v1) = 31"
    "unat (kr_current v1) + 4 * n < 2 ^ 64"
    using 1(2) w u Suc.prems(3) by simp_all
  from Suc.IH [OF this, of "rs @ [DelegationOf (ucast KECCAK_SPECIAL5_CSR_REGISTER) w]"]
  obtain v' ws where "replay_keccak_rounds collect_tracer x11 n v1
      (rs @ [DelegationOf (ucast KECCAK_SPECIAL5_CSR_REGISTER) w]) =
      Inr (v', (rs @ [DelegationOf (ucast KECCAK_SPECIAL5_CSR_REGISTER) w]) @
        map (DelegationOf (ucast KECCAK_SPECIAL5_CSR_REGISTER)) ws)" "length ws = n"
    "\<forall>w \<in> set ws. traced_sound U (DelegationOf (ucast KECCAK_SPECIAL5_CSR_REGISTER) w)"
    "kr_control v' = ctl" "kr_state v' = state" "unat (kr_current v') = unat (kr_current v1) + 4 * n" by blast
  then show ?case
    using w(1,2) u
    by (intro exI [of _ v'] exI [of _ "w # ws"]) (simp del: traced_sound.simps)
qed simp

section \<open>The call\<close>

text \<open>The state at the end of a call, up to its counters.\<close>

definition keccak_end :: "'c State \<Rightarrow> 'c State" where
  "keccak_end st =
     (let st = after_cycles NUM_DELEGATION_CALLS_FOR_KECCAK_F1600 st; t = st_ts st OR 3
      in st\<lparr>st_regs := (st_regs st)
           [10 := \<lparr>reg_ts = t, reg_val = FINAL_KECCAK_F1600_CONTROL_VALUE\<rparr>,
            11 := (st_regs st ! 11)\<lparr>reg_ts := t\<rparr>]\<rparr>)"

definition keccak_checks :: "u32 \<Rightarrow> u32 \<Rightarrow> bool" where
  "keccak_checks x10 x11 \<longleftrightarrow>
     x10 = INITIAL_KECCAK_F1600_CONTROL_VALUE \<and> ROM_BYTE_SIZE \<le> x11 \<and> x11 mod 256 = 0"

context logged_memory
begin

lemma keccak_logged:
  assumes call: "keccak_special5_call C S R st r s = Inr (st', r', s')"
    and c: "cycle_at 0 st" and log: "logged s xs"
  defines "x10 \<equiv> reg_vals st ! 10" and "x11 \<equiv> reg_vals st ! 11" and "n \<equiv> NUM_DELEGATION_CALLS_FOR_KECCAK_F1600"
  shows "\<exists>as c1 c2. keccak_checks x10 x11 \<and> logged s' (xs @ as) \<and> length as = 62 \<and> unat x11 + 248 < 2 ^ 32 \<and>
    (\<forall>e \<in> set as. unat (log_time e) < unat (st_ts st) + 4 * (n - 1) + 4) \<and>
    c_bump_keccak C (word_of_nat n) (st_counters st) = Inr c1 \<and>
    c_log_multiple C SHIFT_BINARY_CSR (word_of_nat n) c1 = Inr c2 \<and>
    unat (st_ts st') = unat (st_ts st) + 4 * (n - 1) \<and>
    st' = with_counters (keccak_end st) c2"
proof -
  have len: "length (st_regs st) = 32" and ts: "unat (st_ts st) mod 4 = 0"
    using cycle_atD(1,2) [OF c] by auto
  have regs: "reg_val (st_regs st ! 10) = x10" "reg_val (st_regs st ! 11) = x11"
    by (simp_all add: x10_def x11_def len reg_vals_def)
  have n: "n = 649" by (simp add: n_def NUM_DELEGATION_CALLS_FOR_KECCAK_F1600_def)
  obtain last t local offs c1 c2 where checks: "keccak_checks x10 x11" and
    last: "add_u64 (st_ts st) (word_of_nat (n - 1) * TIMESTAMP_STEP) = Inr last" "add_u64 last 3 = Inr t" and
    peek: "peek_limbs R 31 x11 r = Inr local" and
    offs: "keccak_final_timestamp_offsets = Inr offs" and
    wr: "keccak_write_back S R (st_ts st OR 3) (zip (keccak_f1600_impl_ext local) offs) x11 r s = Inr (r', s')" and
    cs: "c_bump_keccak C (word_of_nat n) (st_counters st) = Inr c1"
    "c_log_multiple C SHIFT_BINARY_CSR (word_of_nat n) c1 = Inr c2" and
    st': "st' = st\<lparr>st_regs := (st_regs st)[10 := \<lparr>reg_ts = t, reg_val = FINAL_KECCAK_F1600_CONTROL_VALUE\<rparr>,
       11 := (st_regs st ! 11)\<lparr>reg_ts := t\<rparr>, 0 := (st_regs st ! 0)\<lparr>reg_ts := last OR 2\<rparr>],
       st_ts := last, st_pc := st_pc st + 4 * word_of_nat n, st_counters := c2\<rparr>"
    using call len regs unfolding keccak_special5_call_def Let_def n_def
    by (auto simp: index_ok keccak_checks_def)
  have pl: "unat (word_of_nat (n - 1) * TIMESTAMP_STEP :: u64) = 4 * (n - 1)"
    by (simp add: n TIMESTAMP_STEP_def)
  have ul: "unat last = unat (st_ts st) + 4 * (n - 1)" using unat_add_u64 [OF last(1)] pl by simp
  have m4: "unat last mod 4 = 0" using ul ts by (simp add: mod_add_eq [symmetric])
  have ut: "t = last OR 3" using aligned_or [OF m4] last(2) by (auto simp: add_u64_eq_Inr)
  have al: "x11 mod 4 = 0" using checks aligned_word(4) by (auto simp: keccak_checks_def)
  have "length offs = 31" using offsets_exist unfolding offs by auto
  moreover have loc: "length local = 31"
    using peek peek_logged [of 62 x11 r] al by (auto simp: peek_limbs_words length_limbs_of_words)
  moreover have "length (keccak_f1600_impl_ext local) = 31"
    using steps_length [OF small_steps_permute [OF loc]] loc by simp
  ultimately have two: "2 * length (zip (keccak_f1600_impl_ext local) offs) = 62" by simp
  have "\<forall>(l, off) \<in> set (zip (keccak_f1600_impl_ext local) offs). unat (st_ts st OR 3) + unat off < unat last + 4"
    using bound_final_offsets [OF offs] unat_or_low(3) [OF ts] ul
    by (fastforce dest: set_zip_rightD simp: n)
  from keccak_write_logged [OF wr log al this] obtain as where
    as: "logged s' (xs @ as)" "block_logged r x11 62 (unat last + 4) as"
    unfolding two by blast
  have "last = st_ts st + word_of_nat (n - 1) * TIMESTAMP_STEP" using last(1) by (simp add: add_u64_eq_Inr)
  moreover have tst: "unat (st_ts st') = unat (st_ts st) + 4 * (n - 1)" using ul by (simp add: st')
  ultimately have "st' = with_counters (keccak_end st) c2"
    unfolding st' ut keccak_end_def after_cycles_def Let_def n_def [symmetric]
    using len by (simp add: list_update_swap [of 0])
  then show ?thesis
    using checks as cs tst block_logged_length [OF as(2)] ul
    by (intro exI [of _ as] exI [of _ c1] exI [of _ c2]) (auto simp: block_logged_def)
qed

text \<open>The replay computes the witnesses from the entries of the state.\<close>

lemma keccak_witnesses_ok:
  fixes st :: "'c State"
  assumes len: "length as = 62" and al: "x11 mod 4 = 0" "unat x11 + 248 < 2 ^ 32"
    and n: "n = NUM_DELEGATION_CALLS_FOR_KECCAK_F1600"
    and early: "\<forall>e \<in> set as. unat (log_time e) < unat t0 + 4 * (n - 1) + 4"
    and time: "unat t0 + 4 * n < 2 ^ 64" "unat (st_ts st) = unat t0 + 4 * (n - 1)"
    and regs: "length (st_regs st) = 32" and x10: "x10 = INITIAL_KECCAK_F1600_CONTROL_VALUE"
  shows "\<exists>ws. length ws = n \<and>
    (\<forall>w \<in> set ws. traced_sound U (DelegationOf (ucast KECCAK_SPECIAL5_CSR_REGISTER) w)) \<and>
    (\<forall>rram zs. replays rram (as @ zs) \<longrightarrow> (\<exists>rram'.
      replay_keccak_witnesses collect_tracer (replayer_ram_ops bits) x10 x11 t0 st rram rs =
        Inr (rram', rs @ map (DelegationOf (ucast KECCAK_SPECIAL5_CSR_REGISTER)) ws) \<and>
      replays rram' zs \<and> (one_slice rram \<longrightarrow> one_slice rram')))"
proof -
  have n649: "n = 649" by (simp add: n NUM_DELEGATION_CALLS_FOR_KECCAK_F1600_def)
  define X where "X = word_of_nat (n - 1) * TIMESTAMP_STEP"
  have X: "unat X = 4 * (n - 1)" by (simp add: X_def n649 TIMESTAMP_STEP_def)
  define t1 where "t1 = t0 + X"
  have t1: "add_u64 t0 X = Inr t1" "unat t1 = unat t0 + 4 * (n - 1)"
    using time(1) X n649 by (simp_all add: t1_def add_u64_def unat_word_ariths)
  have "unat t1 + 4 < 2 ^ 64" using time(1) t1(2) n649 by simp
  then obtain T3 T where T: "add_u64 t1 3 = Inr T3" "add_u64 T3 1 = Inr T" "unat T = unat t1 + 4"
    by (simp add: add_u64_def unat_word_ariths)
  have e: "\<forall>e \<in> set as. log_time e < T"
    using early unfolding word_less_nat_alt T(3) t1(2) by (auto intro: less_trans)
  define v where "v = \<lparr>kr_state = limbs_of_words (map fst as), kr_timestamps = map log_time as, kr_control = x10,
    kr_x10_timestamp = reg_ts (st_regs st ! 10), kr_x11_timestamp = reg_ts (st_regs st ! 11), kr_current = t0\<rparr>"
  have l31: "length (limbs_of_words (map fst as)) = 31" using len by (simp add: length_limbs_of_words)
  note steps = small_steps_permute [OF l31, folded n x10]
  have "keccak_small_steps n (kr_control v, kr_state v) =
      Inr (FINAL_KECCAK_F1600_CONTROL_VALUE, keccak_f1600_impl_ext (limbs_of_words (map fst as)))"
    "length (kr_state v) = 31" "unat (kr_current v) + 4 * n < 2 ^ 64"
    using steps l31 time(1) by (simp_all add: v_def)
  from keccak_rounds_sound [OF this, of x11 rs U]
  obtain v' ws where ws: "replay_keccak_rounds collect_tracer x11 n v rs =
      Inr (v', rs @ map (DelegationOf (ucast KECCAK_SPECIAL5_CSR_REGISTER)) ws)"
    "length ws = n" "\<forall>w \<in> set ws. traced_sound U (DelegationOf (ucast KECCAK_SPECIAL5_CSR_REGISTER) w)"
    "unat (kr_current v') = unat t0 + 4 * n"
    by (auto simp: v_def simp del: traced_sound.simps)
  have v': "kr_current v' = st_ts st + TIMESTAMP_STEP"
    using ws(4) time n649
    by (simp add: word_unat_eq_iff TIMESTAMP_STEP_def unat_word_ariths)
  have "\<exists>rram'. replay_keccak_witnesses collect_tracer (replayer_ram_ops bits) x10 x11 t0 st rram rs =
        Inr (rram', rs @ map (DelegationOf (ucast KECCAK_SPECIAL5_CSR_REGISTER)) ws) \<and>
      replays rram' zs \<and> (one_slice rram \<longrightarrow> one_slice rram')" if start: "replays rram (as @ zs)" for rram zs
  proof -
    obtain r1 where 1: "replay_read_words (replayer_ram_ops bits) 62 x11 T rram =
        Inr (map fst as, map log_time as, r1)" "replays r1 zs" "one_slice rram \<longrightarrow> one_slice r1"
      using replay_read_words_ok [OF start al(1) _ e, of bits] al(2) len by auto
    have "replay_keccak_witnesses collect_tracer (replayer_ram_ops bits) x10 x11 t0 st rram rs =
        Inr (r1, rs @ map (DelegationOf (ucast KECCAK_SPECIAL5_CSR_REGISTER)) ws)"
      unfolding replay_keccak_witnesses_def n [symmetric] X_def [symmetric] t1(1) replay_read_lanes_words
      using T(1,2) 1(1) ws(1) v' regs by (simp add: index_ok v_def)
    then show ?thesis using 1(2,3) by blast
  qed
  then show ?thesis using ws(2,3) by blast
qed

lemma keccak_replayed:
  assumes call: "keccak_special5_call C S R st r s = Inr (st', r', s')"
    and c: "cycle_at 0 st" and log: "logged s xs" and end_time: "unat (st_ts st') + 4 < 2 ^ 64"
  shows "call_replayed U C (st_counters st) d rs xs st' s'
    (\<lambda>rram. replay_keccak_special5_call collect_tracer (replayer_ram_ops bits) (with_counters st d) rram rs)"
proof -
  define x10 where "x10 = reg_vals st ! 10"
  define x11 where "x11 = reg_vals st ! 11"
  define n where "n = NUM_DELEGATION_CALLS_FOR_KECCAK_F1600"
  define csr :: u16 where "csr = ucast KECCAK_SPECIAL5_CSR_REGISTER"
  have n: "n = 649" "0 < n" by (simp_all add: n_def NUM_DELEGATION_CALLS_FOR_KECCAK_F1600_def)
  have len: "length (st_regs st) = 32" and ts: "st_ts st mod 4 = 0"
    using cycle_atD(1,2) [OF c] by (auto simp: word_unat_eq_iff unat_mod)
  have regs: "reg_val (st_regs st ! 10) = x10" "reg_val (st_regs st ! 11) = x11"
    by (simp_all add: x10_def x11_def len reg_vals_def)
  obtain as c1 c2 where v: "keccak_checks x10 x11" "logged s' (xs @ as)" "length as = 62"
    "unat x11 + 248 < 2 ^ 32" "\<forall>e \<in> set as. unat (log_time e) < unat (st_ts st) + 4 * (n - 1) + 4"
    "c_bump_keccak C (word_of_nat n) (st_counters st) = Inr c1"
    "c_log_multiple C SHIFT_BINARY_CSR (word_of_nat n) c1 = Inr c2" "unat (st_ts st') = unat (st_ts st) + 4 * (n - 1)"
    and st': "st' = with_counters (keccak_end st) c2"
    using keccak_logged [OF call c log] unfolding x10_def x11_def n_def by blast
  have tst: "st_ts st' = st_ts st + word_of_nat (n - 1) * TIMESTAMP_STEP"
    by (simp add: st' keccak_end_def after_cycles_def Let_def n_def)
  have time: "unat (st_ts st) + 4 * n < 2 ^ 64" using v(8) end_time n(2) by simp
  define st1 where "st1 = after_cycles n (with_counters st d)"
  have "0 < n" "st_regs (with_counters st d) \<noteq> []" "unat (st_ts (with_counters st d)) + 4 * (n - 1 - 0) < 2 ^ 64"
    using n time len by auto
  from delegation_cycles_run [OF this, of csr rs] obtain recs where
    recs: "delegation_cycles collect_tracer csr n [0..<n] (with_counters st d) rs = Inr (st1, rs @ recs)"
    "length recs = n" "cycle_records recs" by (auto simp: st1_def)
  have st1: "unat (st_ts st1) = unat (st_ts st) + 4 * (n - 1)" "length (st_regs st1) = 32" "st_ts st1 = st_ts st'"
    using v(8) tst len by (simp_all add: st1_def after_cycles_def Let_def)
  have t1: "add_u64 (st_ts st) (word_of_nat (n - 1) * TIMESTAMP_STEP) = Inr (st_ts st1)"
    unfolding st1(3) tst using time by (simp add: add_u64_def n(1) TIMESTAMP_STEP_def)
  have al: "x11 mod 4 = 0" using v(1) aligned_word(4) by (auto simp: keccak_checks_def)
  have x10: "x10 = INITIAL_KECCAK_F1600_CONTROL_VALUE" using v(1) by (simp add: keccak_checks_def)
  have regs1: "replay_keccak_registers st1 = Inr (with_counters st' d)"
    using st1(2)
    by (simp add: replay_keccak_registers_def index_ok st' keccak_end_def st1_def Let_def after_cycles_def
        n_def [symmetric])
  have tags: "records_tagged t (recs @ map (DelegationOf csr) ws) =
      (if t = CycleOf SHIFT_BINARY_CSR then n else 0) + (if t = CallOf csr then n else 0)"
    if "length ws = n" for t ws
    using records_tagged_cycles [OF recs(3)] recs(2) that
    by (auto simp: records_tagged_def filter_map comp_def)
  from keccak_witnesses_ok [OF v(3) al v(4) n_def v(5) time st1(1,2) x10, of U bits "rs @ recs"]
  obtain ws where ws: "length ws = n" "\<forall>w \<in> set ws. traced_sound U (DelegationOf csr w)" "\<forall>rram zs.
      replays rram (as @ zs) \<longrightarrow> (\<exists>rram'. replay_keccak_witnesses collect_tracer (replayer_ram_ops bits)
        x10 x11 (st_ts st) st1 rram (rs @ recs) = Inr (rram', (rs @ recs) @ map (DelegationOf csr) ws) \<and>
      replays rram' zs \<and> (one_slice rram \<longrightarrow> one_slice rram'))"
    unfolding csr_def by blast
  show ?thesis
  proof (rule call_replayedI [where es = as
        and evs = "[BumpKeccak (word_of_nat n), LogMultiple SHIFT_BINARY_CSR (word_of_nat n)]"
        and new = "recs @ map (DelegationOf csr) ws"], goal_cases)
    case (4)
    have "traced_sound U r" if "r \<in> set recs" for r using that recs(3) by (auto simp: cycle_records_def)
    then show ?case using ws(2) by auto
  next
    case (5 rram zs)
    then obtain rram' where "replay_keccak_witnesses collect_tracer (replayer_ram_ops bits)
        x10 x11 (st_ts st) st1 rram (rs @ recs) = Inr (rram', (rs @ recs) @ map (DelegationOf csr) ws)"
      "replays rram' zs" "one_slice rram \<longrightarrow> one_slice rram'" using ws(3) by blast
    moreover have "replay_keccak_special5_call collect_tracer (replayer_ram_ops bits) (with_counters st d) rram rs =
      bindE (delegation_cycles collect_tracer csr n [0..<n] (with_counters st d) rs) (\<lambda>(st1, rs).
      bindE (add_u64 (st_ts st) (word_of_nat (n - 1) * TIMESTAMP_STEP)) (\<lambda>t.
      bindE (guardE (st_ts st1 = t) AssertFailed) (\<lambda>_.
      bindE (replay_keccak_witnesses collect_tracer (replayer_ram_ops bits) x10 x11 (st_ts st) st1 rram rs)
        (\<lambda>(rram, rs). bindE (replay_keccak_registers st1) (\<lambda>st. Inr (st, rram, rs))))))"
      using v(1) regs len ts
      by (simp add: replay_keccak_special5_call_def Let_def index_ok keccak_checks_def csr_def [symmetric]
          n_def [symmetric] INITIAL_KECCAK_F1600_CONTROL_VALUE_def)
    ultimately show ?case using recs(1) regs1 t1 by auto
  qed (use v st' ws tags n in \<open>auto simp: tallies_def csr_def\<close>)
qed

end

end
