(* ===== verification/Replay_Machine.thy ===== *)
theory Replay_Machine
  imports Replay_Keccak
begin

text \<open>
  The replay of a run: cycle by cycle it takes the entries the machine appended and ends in the registers, program
  counter and time of the machine.
\<close>

section \<open>A cycle\<close>

text \<open>The instructions a program gives the machine are those of the decoder.\<close>

definition replay_tape :: "(u32 \<Rightarrow> instruction res) \<Rightarrow> bool" where
  "replay_tape tape \<longleftrightarrow> (\<forall>pc i. tape pc = Inr i \<longrightarrow> replay_instr i)"

lemma u64_bound: "unat (t :: u64) < 2 ^ 64"
  using unsigned_less [of t] by simp

text \<open>A step, the time of the next cycle, and the end of the program or the snapshotter.\<close>

lemma run_body_parts:
  assumes "run_body C S R ND U tape st r s nd = Inr (ret, st', r', s', nd')"
  shows "\<exists>st1 s1 t. run_step C S R ND U tape st r s nd = Inr (st1, r', s1, nd') \<and>
    add_u64 (st_ts st1) TIMESTAMP_STEP = Inr t \<and> st' = st1\<lparr>st_ts := t\<rparr> \<and>
    (if st_pc st' = st_pc st then s_take_final_snapshot S st' s1 = Inr s' \<and> ret = Some True
     else \<exists>stop. s_take_snapshot_if_needed S st' s1 = Inr (stop, s') \<and> ret = (if stop then Some False else None))"
proof -
  obtain st1 r1 s1 nd1 where step: "run_step C S R ND U tape st r s nd = Inr (st1, r1, s1, nd1)"
    using assms by (cases "run_step C S R ND U tape st r s nd") (auto simp: run_body_def Let_def simp del: bindE_eq_Inr)
  obtain t where t: "add_u64 (st_ts st1) TIMESTAMP_STEP = Inr t"
    using assms step by (cases "add_u64 (st_ts st1) TIMESTAMP_STEP") (auto simp: run_body_def Let_def simp del: bindE_eq_Inr)
  have core: "(if st_pc st1 = st_pc st
       then bindE (s_take_final_snapshot S (st1\<lparr>st_ts := t\<rparr>) s1) (\<lambda>snap.
            Inr (Some True, st1\<lparr>st_ts := t\<rparr>, r1, snap, nd1))
       else bindE (s_take_snapshot_if_needed S (st1\<lparr>st_ts := t\<rparr>) s1) (\<lambda>(stop, snap).
            Inr (if stop then Some False else None, st1\<lparr>st_ts := t\<rparr>, r1, snap, nd1))) =
     Inr (ret, st', r', s', nd')"
    using assms unfolding run_body_def Let_def step bindE_Inr split_conv t by simp
  show ?thesis
  proof (cases "st_pc st1 = st_pc st")
    case True
    obtain snap where snap: "s_take_final_snapshot S (st1\<lparr>st_ts := t\<rparr>) s1 = Inr snap"
      using core True by (cases "s_take_final_snapshot S (st1\<lparr>st_ts := t\<rparr>) s1") (simp_all del: bindE_eq_Inr)
    have eqs: "ret = Some True" "st' = st1\<lparr>st_ts := t\<rparr>" "r1 = r'" "snap = s'" "nd1 = nd'"
      using core True snap by simp_all
    then have "st_pc st' = st_pc st" using True by simp
    then show ?thesis unfolding if_P [OF \<open>st_pc st' = st_pc st\<close>] using step t snap eqs by blast
  next
    case False
    obtain x where x: "s_take_snapshot_if_needed S (st1\<lparr>st_ts := t\<rparr>) s1 = Inr x"
      using core False
      by (cases "s_take_snapshot_if_needed S (st1\<lparr>st_ts := t\<rparr>) s1") (simp_all del: bindE_eq_Inr)
    have eqs: "ret = (if fst x then Some False else None)" "st' = st1\<lparr>st_ts := t\<rparr>" "r1 = r'" "snd x = s'" "nd1 = nd'"
      using core False x by (simp_all add: split_def)
    then have "s_take_snapshot_if_needed S st' s1 = Inr (fst x, s')" "st_pc st' \<noteq> st_pc st"
      using x False by auto
    then show ?thesis unfolding if_not_P [OF \<open>st_pc st' \<noteq> st_pc st\<close>] using step t eqs by blast
  qed
qed

context logged_memory
begin

lemma call_delegation_replayed:
  assumes "call_delegation C S R U st r s i = Inr (st', r', s')" "cycle_at 0 st" "logged s xs"
    "ruint_documented U" "unat (st_ts st') + 4 < 2 ^ 64"
  shows "call_replayed U C (st_counters st) d rs xs st' s'
    (\<lambda>rram. replay_call_delegation collect_tracer (replayer_ram_ops bits) U (with_counters st d) rram i rs)"
  using assms bigint_replayed [of C U st r s st' r' s' xs d rs bits]
    blake_replayed [of C st r s st' r' s' xs U d rs bits] keccak_replayed [of C st r s st' r' s' xs U d rs bits]
  by (auto simp: call_delegation_def replay_call_delegation_def split: if_splits)

lemma memory_step_replayed:
  fixes d and rs :: "traced list" and bits
  assumes "memory_step C S R U st r s i (i_name i) = Some (Inr (st', r', s'))" "cycle_at 0 st" "logged s xs"
    "replay_instr i" "ruint_documented U" "unat (st_ts st') + 4 < 2 ^ 64"
  defines "m \<equiv> \<lambda>rram. replay_memory_step collect_tracer (replayer_ram_ops bits) U (with_counters st d) rram i rs (i_name i)"
  shows "(\<forall>rram. m rram = Some (the (m rram))) \<and> call_replayed U C (st_counters st) d rs xs st' s' (\<lambda>rram. the (m rram))"
proof -
  have w: "i_rs1 i < 32" "i_rs2 i < 32" "i_rd i < 32"
    using assms(4) by (auto simp: replay_instr_def wf_instr_def)
  note ok = lw_replayed [OF assms(2) w(1,3) assms(3)] lh_replayed [OF assms(2) w(1,3) assms(3)]
    lb_replayed [OF assms(2) w(1,3) assms(3)] sw_replayed [OF assms(2) w(1,2) assms(3)]
    sh_replayed [OF assms(2) w(1,2) assms(3)] sb_replayed [OF assms(2) w(1,2) assms(3)]
  show ?thesis
    using assms(1) unfolding m_def
    by (cases "i_name i") (auto intro: call_of_memory ok call_delegation_replayed [OF _ assms(2,3,5,6)])
qed

lemma step_replayed:
  assumes step: "run_step C S R ND U tape st r s nd = Inr (st', r', s', nd')" and c: "cycle_at 0 st"
    and log: "logged s xs" and tape: "replay_tape tape" and U: "ruint_documented U"
    and end_time: "unat (st_ts st') + 4 < 2 ^ 64"
  shows "\<exists>mr. (\<forall>rram. replay_step collect_tracer (replayer_ram_ops bits) ND' True U tape (with_counters st d) rram nd2 rs =
      bindE (mr rram) (\<lambda>(st, rram, t). Inr (st, rram, nd2, t))) \<and>
    call_replayed U C (st_counters st) d rs xs st' s' mr"
proof -
  obtain i where i: "tape (st_pc st) = Inr i"
    and core: "(case register_step C st i (i_name i) of
        Some m \<Rightarrow> bindE m (\<lambda>st. Inr (st, r, s, nd))
      | None \<Rightarrow>
        (case memory_step C S R U st r s i (i_name i) of
           Some m \<Rightarrow> bindE m (\<lambda>(st, ram, snap). Inr (st, ram, snap, nd))
         | None \<Rightarrow>
           if i_name i = ZicsrNonDeterminismRead
           then bindE (nd_read C S ND st s i nd) (\<lambda>(st, snap, nd). Inr (st, r, snap, nd))
           else if i_name i = ZicsrNonDeterminismWrite
           then bindE (nd_write C R ND st r i nd) (\<lambda>(st, nd). Inr (st, r, s, nd))
           else Inl Panic)) = Inr (st', r', s', nd')"
    using step unfolding run_step_def Let_def by (auto simp only: bindE_eq_Inr guardE_eq_Inr)
  have ri: "replay_instr i" using tape i by (auto simp: replay_tape_def)
  then have w: "i_rs1 i < 32" "i_rd i < 32" "i_name i = ZicsrNonDeterminismWrite \<longrightarrow> i_rd i = 0"
    by (auto simp: replay_instr_def wf_instr_def)
  let ?step = "\<lambda>rram. replay_step collect_tracer (replayer_ram_ops bits) ND' True U tape (with_counters st d) rram nd2 rs"
  show ?thesis
  proof (cases "register_step C st i (i_name i)")
    case (Some m)
    then have m: "m = Inr st'" "s' = s" using core by auto
    obtain mr where mr: "replay_register_step collect_tracer (with_counters st d) i rs (i_name i) = Some mr"
      "replayed C st d rs m mr" using replayed_register_step [OF c ri Some] by blast
    from call_of_register [OF mr(2) [unfolded m(1)] log, of U] show ?thesis
      unfolding m(2) using i mr(1)
      by (intro exI [of _ "\<lambda>rram. bindE mr (\<lambda>(st, t). Inr (st, rram, t))"])
        (simp add: replay_step_def bindE_assoc split_def)
  next
    case no_reg: None
    show ?thesis
    proof (cases "memory_step C S R U st r s i (i_name i)")
      case (Some m)
      then have m: "m = Inr (st', r', s')" using core no_reg by auto
      define mr where "mr = (\<lambda>rram. the (replay_memory_step collect_tracer (replayer_ram_ops bits) U (with_counters st d)
        rram i rs (i_name i)))"
      have mr: "\<forall>rram. replay_memory_step collect_tracer (replayer_ram_ops bits) U (with_counters st d) rram i rs
          (i_name i) = Some (mr rram)" "call_replayed U C (st_counters st) d rs xs st' s' mr"
        using memory_step_replayed [OF Some [unfolded m] c log ri U end_time] unfolding mr_def by blast+
      have "replay_register_step collect_tracer (with_counters st d) i rs (i_name i) = None"
        using Some by (cases "i_name i") auto
      then show ?thesis
        using i mr by (intro exI [of _ mr]) (simp add: replay_step_def)
    next
      case None
      then consider "i_name i = ZicsrNonDeterminismRead" "nd_read C S ND st s i nd = Inr (st', s', nd')"
        | "i_name i = ZicsrNonDeterminismWrite" "nd_write C R ND st r i nd = Inr (st', nd')" "s' = s"
        using core no_reg by (auto split: if_splits)
      then show ?thesis
      proof cases
        case 1
        let ?mr = "\<lambda>rram. bindE (replay_nd_read collect_tracer (replayer_ram_ops bits) ND' True (with_counters st d) rram i
          rs nd2) (\<lambda>(st, rram, t, nd). Inr (st, rram, t))"
        have "?step rram = bindE (?mr rram) (\<lambda>(st, rram, t). Inr (st, rram, nd2, t))" for rram
          using i 1(1) by (simp add: replay_step_def replay_nd_read_def bindE_assoc split_def)
        then show ?thesis using nd_read_replayed [OF 1(2) c w(2) log] by (intro exI [of _ ?mr]) simp
      next
        case 2
        have "i_rd i = 0" using w(3) 2(1) by simp
        note mr = nd_write_replayed [OF 2(2) c w(1) this, of d rs]
        from call_of_register [OF mr log, of U] show ?thesis
          unfolding 2(3) using i 2(1)
          by (intro exI [of _ "\<lambda>rram. bindE (replay_nd_write collect_tracer (with_counters st d) i rs)
              (\<lambda>(st, t). Inr (st, rram, t))"]) (simp add: replay_step_def bindE_assoc split_def)
      qed
    qed
  qed
qed

end

section \<open>A run\<close>

locale logged_run = logged_memory R words word last writable S logged + recorder S logged
  for R :: "'r ram_ops" and words word last writable and S :: "('c, 's) snapshotter_ops" and logged
begin

text \<open>A cycle, with the time of the next one.\<close>

lemma body_replayed:
  assumes body: "run_body C S R ND U tape st r s nd = Inr (ret, st', r', s', nd')" and c: "cycle_at 0 st"
    and log: "logged s xs" and tape: "replay_tape tape" and U: "ruint_documented U"
  shows "\<exists>mr. (\<forall>rram. replay_body collect_tracer (replayer_ram_ops bits) ND' True U tape (with_counters st d) rram nd2 rs =
      bindE (mr rram) (\<lambda>(st1, rram, t). Inr (st_pc st1 = st_pc st, st1, rram, nd2, t))) \<and>
    call_replayed U C (st_counters st) d rs xs st' s' mr \<and> (ret = Some True \<longleftrightarrow> st_pc st' = st_pc st)"
proof -
  obtain st1 s1 t where 1: "run_step C S R ND U tape st r s nd = Inr (st1, r', s1, nd')"
    "add_u64 (st_ts st1) TIMESTAMP_STEP = Inr t" "st' = st1\<lparr>st_ts := t\<rparr>"
    and rest: "if st_pc st' = st_pc st then s_take_final_snapshot S st' s1 = Inr s' \<and> ret = Some True
      else \<exists>stop. s_take_snapshot_if_needed S st' s1 = Inr (stop, s') \<and> ret = (if stop then Some False else None)"
    using run_body_parts [OF body] by blast
  have keep: "\<forall>ys. logged s1 ys \<longrightarrow> logged s' ys"
    using rest snapshot_keeps final_keeps by (metis (full_types))
  have ret: "ret = Some True \<longleftrightarrow> st_pc st' = st_pc st"
    using rest by (cases "st_pc st' = st_pc st") (auto split: if_splits)
  have "unat (st_ts st1) + 4 < 2 ^ 64"
    using unat_add_u64 [OF 1(2)] u64_bound [of t] by (simp add: TIMESTAMP_STEP_def)
  from step_replayed [OF 1(1) c log tape U this, of bits ND' d nd2 rs]
  obtain mr where mr: "\<forall>rram. replay_step collect_tracer (replayer_ram_ops bits) ND' True U tape (with_counters st d) rram
      nd2 rs = bindE (mr rram) (\<lambda>(st, rram, t). Inr (st, rram, nd2, t))"
    "call_replayed U C (st_counters st) d rs xs st1 s1 mr" by blast
  let ?mr = "\<lambda>rram. bindE (mr rram) (\<lambda>(st, rram, t). bindE (add_u64 (st_ts st) TIMESTAMP_STEP) (\<lambda>ts.
    Inr (st\<lparr>st_ts := ts\<rparr>, rram, t)))"
  obtain es evs new where x: "logged s1 (xs @ es)" "log_events C evs (st_counters st) = Inr (st_counters st1)"
    "tallies evs new" "\<forall>r \<in> set new. traced_sound U r" "\<forall>rram zs. replays rram (es @ zs) \<longrightarrow>
          (\<exists>rram'. mr rram = Inr (with_counters st1 d, rram', rs @ new) \<and> replays rram' zs \<and>
             (one_slice rram \<longrightarrow> one_slice rram'))"
    using mr(2) unfolding call_replayed_def by blast
  have "call_replayed U C (st_counters st) d rs xs st' s' ?mr"
  proof (rule call_replayedI [where es = es and evs = evs and new = new], goal_cases)
    case (5 rram zs)
    then obtain rram' where "mr rram = Inr (with_counters st1 d, rram', rs @ new)" "replays rram' zs"
      "one_slice rram \<longrightarrow> one_slice rram'" using x(5) by blast
    then show ?case using 1(2,3) by simp
  qed (use x keep 1(3) in simp_all)
  moreover have "replay_body collect_tracer (replayer_ram_ops bits) ND' True U tape (with_counters st d) rram nd2 rs =
    bindE (?mr rram) (\<lambda>(st1, rram, t). Inr (st_pc st1 = st_pc st, st1, rram, nd2, t))" for rram
    using mr(1) by (simp add: replay_body_def Let_def bindE_assoc split_def)
  ultimately show ?thesis using ret by (intro exI [of _ ?mr]) simp
qed

definition run_replayed ::
  "ruint_ops \<Rightarrow> 'c counter_ops \<Rightarrow> 'c \<Rightarrow> 'c \<Rightarrow> traced list \<Rightarrow> log_entry list \<Rightarrow> 'c State \<Rightarrow> 's \<Rightarrow> 'n \<Rightarrow>
    (ReplayerRam \<Rightarrow> ('c State \<times> ReplayerRam \<times> 'n \<times> traced list) res) \<Rightarrow> bool" where
  "run_replayed U C c d rs xs st' s' nd2 mr \<longleftrightarrow>
     (\<exists>es evs new. logged s' (xs @ es) \<and> log_events C evs c = Inr (st_counters st') \<and>
        tallies evs new \<and> (\<forall>r \<in> set new. traced_sound U r) \<and>
        (\<forall>rram zs. replays rram (es @ zs) \<longrightarrow>
          (\<exists>rram'. mr rram = Inr (with_counters st' d, rram', nd2, rs @ new) \<and> replays rram' zs \<and>
             (one_slice rram \<longrightarrow> one_slice rram'))))"

lemma ts_run_basic_unrolled:
  "run_basic_unrolled C S R ND U tape n st r s nd = Inr (b, st', r', s', nd') \<Longrightarrow>
    unat (st_ts st) \<le> unat (st_ts st')"
proof (induction n arbitrary: st r s nd)
  case (Suc n)
  then show ?case by (fastforce dest!: ts_run_body split: option.splits)
qed simp

lemma run_replayed:
  assumes "run_basic_unrolled C S R ND U tape n st r s nd = Inr (ended, st', r', s', nd')" "machine_inv st r"
    "logged s xs" "replay_tape tape" "ruint_documented U"
  shows "run_replayed U C (st_counters st) d rs xs st' s' nd2
    (\<lambda>rram. replay_by_timestamp_bound collect_tracer (replayer_ram_ops bits) ND' True U tape (st_ts st')
      (with_counters st d) rram nd2 rs)"
  using assms(1-3)
proof (induction n arbitrary: st r s nd xs rs)
  case 0
  then show ?case
    unfolding run_replayed_def
    by (intro exI [of _ "[]"]) (auto simp: replay_by_timestamp_bound.simps)
next
  case (Suc n)
  obtain ret st1 r1 s1 nd1 where body: "run_body C S R ND U tape st r s nd = Inr (ret, st1, r1, s1, nd1)"
    and rest: "(case ret of Some b \<Rightarrow> Inr (b, st1, r1, s1, nd1)
      | None \<Rightarrow> run_basic_unrolled C S R ND U tape n st1 r1 s1 nd1) = Inr (ended, st', r', s', nd')"
    using Suc.prems(1) by auto
  have inv: "machine_inv st1 r1" using body Suc.prems(2) by (rule inv_run_body)
  have "unat (st_ts st) < unat (st_ts st1)" "unat (st_ts st1) \<le> unat (st_ts st')"
    using ts_run_body [OF body] rest by (auto split: option.splits dest: ts_run_basic_unrolled)
  then have lt: "st_ts st < st_ts st'" by (simp add: word_less_nat_alt)
  have c: "cycle_at 0 st" using Suc.prems(2) by (simp add: machine_inv_def)
  from body_replayed [OF body c Suc.prems(3) assms(4,5), of bits ND' d nd2 rs]
  obtain mr where mr: "\<forall>rram. replay_body collect_tracer (replayer_ram_ops bits) ND' True U tape (with_counters st d) rram
      nd2 rs = bindE (mr rram) (\<lambda>(st1, rram, t). Inr (st_pc st1 = st_pc st, st1, rram, nd2, t))"
    "call_replayed U C (st_counters st) d rs xs st1 s1 mr" "ret = Some True \<longleftrightarrow> st_pc st1 = st_pc st" by blast
  obtain es evs new where x: "logged s1 (xs @ es)" "log_events C evs (st_counters st) = Inr (st_counters st1)"
    "tallies evs new" "\<forall>r \<in> set new. traced_sound U r" "\<forall>rram zs. replays rram (es @ zs) \<longrightarrow>
          (\<exists>rram'. mr rram = Inr (with_counters st1 d, rram', rs @ new) \<and> replays rram' zs \<and>
             (one_slice rram \<longrightarrow> one_slice rram'))"
    using mr(2) unfolding call_replayed_def by blast
  let ?loop = "\<lambda>st rram rs. replay_by_timestamp_bound collect_tracer (replayer_ram_ops bits) ND' True U tape (st_ts st')
      (with_counters st d) rram nd2 rs"
  have first: "\<exists>rram'. ?loop st rram rs = (if st_pc st1 = st_pc st then Inr (with_counters st1 d, rram', nd2, rs @ new)
      else ?loop st1 rram' (rs @ new)) \<and> replays rram' zs \<and> (one_slice rram \<longrightarrow> one_slice rram')"
    if start: "replays rram (es @ zs)" for rram zs
  proof -
    obtain rram' where "mr rram = Inr (with_counters st1 d, rram', rs @ new)" "replays rram' zs"
      "one_slice rram \<longrightarrow> one_slice rram'" using x(5) start by blast
    then show ?thesis
      using lt mr(1) by (subst replay_by_timestamp_bound.simps) auto
  qed
  show ?case
  proof (cases ret)
    case None
    then have r: "run_basic_unrolled C S R ND U tape n st1 r1 s1 nd1 = Inr (ended, st', r', s', nd')"
      and ne: "st_pc st1 \<noteq> st_pc st"
      using rest mr(3) by simp_all
    obtain es2 evs2 new2 where y: "logged s' ((xs @ es) @ es2)" "log_events C evs2 (st_counters st1) = Inr (st_counters st')"
      "tallies evs2 new2" "\<forall>r \<in> set new2. traced_sound U r" "\<forall>rram zs. replays rram (es2 @ zs) \<longrightarrow>
            (\<exists>rram'. ?loop st1 rram (rs @ new) = Inr (with_counters st' d, rram', nd2, (rs @ new) @ new2) \<and> replays rram' zs \<and>
               (one_slice rram \<longrightarrow> one_slice rram'))"
      using Suc.IH [OF r inv x(1), of "rs @ new"] unfolding run_replayed_def by blast
    have "\<exists>rram'. ?loop st rram rs = Inr (with_counters st' d, rram', nd2, rs @ new @ new2) \<and> replays rram' zs \<and>
        (one_slice rram \<longrightarrow> one_slice rram')" if start: "replays rram ((es @ es2) @ zs)" for rram zs
    proof -
      obtain r1 where 1: "?loop st rram rs = ?loop st1 r1 (rs @ new)" "replays r1 (es2 @ zs)" "one_slice rram \<longrightarrow> one_slice r1"
        using first [of rram "es2 @ zs"] start ne by auto
      then show ?thesis using y(5) by fastforce
    qed
    then show ?thesis
      unfolding run_replayed_def
      using x y by (intro exI [of _ "es @ es2"] exI [of _ "evs @ evs2"] exI [of _ "new @ new2"])
        (auto simp: log_events_append tallies_append)
  next
    case (Some b)
    then have same: "st' = st1" "s' = s1" using rest by simp_all
    have stop: "?loop st1 rram' (rs @ new) = Inr (with_counters st1 d, rram', nd2, rs @ new)" for rram'
      unfolding same by (subst replay_by_timestamp_bound.simps) simp
    have "\<exists>rram'. ?loop st rram rs = Inr (with_counters st1 d, rram', nd2, rs @ new) \<and> replays rram' zs \<and>
        (one_slice rram \<longrightarrow> one_slice rram')" if "replays rram (es @ zs)" for rram zs
      using first [OF that] stop by (auto split: if_splits)
    then show ?thesis
      unfolding run_replayed_def same
      using x(1-4) by (intro exI [of _ es] exI [of _ evs] exI [of _ new]) simp
  qed
qed

end

end
