(* ===== verification/Replay_Projection.thy ===== *)
theory Replay_Projection
  imports Replay_Machine
begin

text \<open>
  The replay with any tracer of the contract is a projection of the collecting replay: on a log of one slice it ends
  in the same state, skips what nobody traces, and its tracer holds the collected records it takes.
\<close>

section \<open>A log of one slice\<close>

definition single_log :: "log_entry list \<Rightarrow> ReplayerRam" where
  "single_log xs = \<lparr>ram_log = (if xs = [] then [] else [xs])\<rparr>"

lemma single_logI:
  assumes "replays ram xs" "one_slice ram"
  shows "ram = single_log xs"
  using assms
  by (cases "ram_log ram"; cases ram) (auto simp: replays_def one_slice_def single_log_def)

lemma single_replays: "replays (single_log xs) xs" "one_slice (single_log xs)"
  by (simp_all add: replays_def one_slice_def single_log_def)

lemma single_advance: "xs = ys @ zs \<Longrightarrow> ys \<noteq> [] \<Longrightarrow> advance_log (length ys) (single_log xs) = single_log zs"
  by (auto simp: advance_log_def single_log_def Let_def)

lemma single_read:
  "replay_read_word a t (single_log xs) = Inr (y, ram) \<Longrightarrow> \<exists>x zs. xs = x # zs \<and> ram = single_log zs"
  "replay_write_word a w t (single_log xs) = Inr (y, ram) \<Longrightarrow> \<exists>x zs. xs = x # zs \<and> ram = single_log zs"
proof -
  assume *: "replay_read_word a t (single_log xs) = Inr (y, ram)"
  then obtain x zs where xs: "xs = x # zs" by (cases xs) (auto simp: replay_read_word_def single_log_def)
  have "ram = advance_log 1 (single_log xs)" using * by (auto simp: replay_read_word_def Let_def)
  then have "ram = single_log zs" using single_advance [of xs "[x]" zs] xs by simp
  then show "\<exists>x zs. xs = x # zs \<and> ram = single_log zs" using xs by blast
next
  assume *: "replay_write_word a w t (single_log xs) = Inr (y, ram)"
  then obtain x zs where xs: "xs = x # zs" by (cases xs) (auto simp: replay_write_word_def single_log_def)
  have "ram = advance_log 1 (single_log xs)" using * by (auto simp: replay_write_word_def Let_def)
  then have "ram = single_log zs" using single_advance [of xs "[x]" zs] xs by simp
  then show "\<exists>x zs. xs = x # zs \<and> ram = single_log zs" using xs by blast
qed

lemma single_skip:
  "length ys = n \<Longrightarrow> 0 < n \<Longrightarrow> replay_skip n (single_log (ys @ zs)) = Inr (single_log zs)"
  using replay_skip_ok [OF single_replays [of "ys @ zs"], of n] single_advance [of "ys @ zs" ys zs] by fastforce

lemma single_read_words:
  "replay_read_words (replayer_ram_ops bits) n a t (single_log xs) = Inr (ws, ts, ram) \<Longrightarrow>
    \<exists>ys zs. xs = ys @ zs \<and> length ys = n \<and> ram = single_log zs"
proof (induction n arbitrary: a xs ws ts)
  case (Suc n)
  then obtain y r1 b ws' ts' where *: "replay_read_word a t (single_log xs) = Inr (y, r1)"
    "replay_read_words (replayer_ram_ops bits) n b t r1 = Inr (ws', ts', ram)"
    by (fastforce simp: replayer_ram_ops_def)
  obtain x zs where "xs = x # zs" "r1 = single_log zs" using single_read(1) [OF *(1)] by blast
  then show ?case using Suc.IH [of b zs ws' ts'] *(2) by (metis append_Cons length_Cons)
qed auto

lemma single_memory_ops:
  "replay_sw T (replayer_ram_ops bits) st (single_log xs) i t = Inr (st', ram', t') \<Longrightarrow> \<exists>zs. ram' = single_log zs"
  "replay_lw T (replayer_ram_ops bits) st (single_log xs) i t = Inr (st', ram', t') \<Longrightarrow> \<exists>zs. ram' = single_log zs"
  "replay_sh T (replayer_ram_ops bits) st (single_log xs) i t = Inr (st', ram', t') \<Longrightarrow> \<exists>zs. ram' = single_log zs"
  "replay_sb T (replayer_ram_ops bits) st (single_log xs) i t = Inr (st', ram', t') \<Longrightarrow> \<exists>zs. ram' = single_log zs"
  "replay_lh T (replayer_ram_ops bits) b st (single_log xs) i t = Inr (st', ram', t') \<Longrightarrow> \<exists>zs. ram' = single_log zs"
  "replay_lb T (replayer_ram_ops bits) b st (single_log xs) i t = Inr (st', ram', t') \<Longrightarrow> \<exists>zs. ram' = single_log zs"
  unfolding replay_sw_def replay_lw_def replay_sh_def replay_sb_def replay_lh_def replay_lb_def Let_def
  by (auto simp: replayer_ram_ops_def dest!: single_read split: prod.splits if_splits)

section \<open>The cycles of a delegation\<close>

lemma delegation_cycles_possible:
  assumes "delegation_cycles collect_tracer csr n [k..<n] st rs = Inr (st', rs')" "k < n"
  shows "st_regs st \<noteq> [] \<and> unat (st_ts st) + 4 * (n - 1 - k) < 2 ^ 64"
  using assms
proof (induction "n - k" arbitrary: k st rs)
  case (Suc m)
  have u: "[k..<n] = k # [Suc k..<n]" using Suc.prems(2) by (simp add: upt_conv_Cons)
  obtain st1 rs1 where 1: "delegation_cycle collect_tracer csr st rs = Inr (st1, rs1)"
    and rest: "bindE (if k = n - 1 then Inr st1 else bindE (add_u64 (st_ts st1) TIMESTAMP_STEP) (\<lambda>t. Inr (st1\<lparr>st_ts := t\<rparr>)))
      (\<lambda>st. delegation_cycles collect_tracer csr n [Suc k..<n] st rs1) = Inr (st', rs')"
    using Suc.prems(1) unfolding u by (auto simp: Let_def)
  have r: "st_regs st \<noteq> []" "st_ts st1 = st_ts st" using 1 by (auto simp: delegation_cycle_def Let_def index_eq_Inr)
  show ?case
  proof (cases "k = n - 1")
    case True
    then show ?thesis using r u64_bound [of "st_ts st"] by simp
  next
    case False
    then obtain t where t: "add_u64 (st_ts st) TIMESTAMP_STEP = Inr t"
      "delegation_cycles collect_tracer csr n [Suc k..<n] (st1\<lparr>st_ts := t\<rparr>) rs1 = Inr (st', rs')"
      using rest r(2) by auto
    have n: "n - 1 - k = Suc (n - 1 - Suc k)" using Suc.prems(2) False by simp
    have "m = n - Suc k" "Suc k < n" using Suc.hyps(2) Suc.prems(2) False by simp_all
    from Suc.hyps(1) [OF this(1) t(2) this(2)] show ?thesis
      using unat_add_u64 [OF t(1)] r(1) n by (simp add: TIMESTAMP_STEP_def)
  qed
qed simp

lemma delegation_cycles_jump:
  assumes "delegation_cycles collect_tracer csr n [0..<n] st rs = Inr (st', rs')" "0 < n"
  shows "jump_cycles n st = Inr st' \<and> (\<exists>recs. rs' = rs @ recs \<and> cycle_records recs)"
proof -
  have p: "st_regs st \<noteq> []" "unat (st_ts st) + 4 * (n - 1) < 2 ^ 64"
    using delegation_cycles_possible [OF assms] by simp_all
  from delegation_cycles_run [OF assms(2) p(1), of csr rs] p(2) assms(1) jump_cycles_run [OF p]
  show ?thesis by auto
qed

section \<open>Records are only added\<close>

lemma blake_rounds_extend:
  "replay_blake_rounds collect_tracer c n x10 x11 input sts its ks v rs = Inr (v', rs') \<Longrightarrow>
    \<exists>ws. rs' = rs @ map (DelegationOf (ucast BLAKE2S_DELEGATION_CSR_REGISTER)) ws"
proof (induction ks arbitrary: v rs)
  case (Cons k ks)
  then obtain w v1 where "replay_blake_rounds collect_tracer c n x10 x11 input sts its ks v1
      (rs @ [DelegationOf (ucast BLAKE2S_DELEGATION_CSR_REGISTER) w]) = Inr (v', rs')" by auto
  from Cons.IH [OF this] show ?case by (metis append.assoc append_Cons append_Nil list.simps(9))
qed auto

lemma keccak_rounds_extend:
  "replay_keccak_rounds collect_tracer x11 n v rs = Inr (v', rs') \<Longrightarrow>
    \<exists>ws. rs' = rs @ map (DelegationOf (ucast KECCAK_SPECIAL5_CSR_REGISTER)) ws"
proof (induction n arbitrary: v rs)
  case (Suc n)
  then obtain w v1 where "replay_keccak_rounds collect_tracer x11 n v1
      (rs @ [DelegationOf (ucast KECCAK_SPECIAL5_CSR_REGISTER) w]) = Inr (v', rs')" by auto
  from Suc.IH [OF this] show ?case by (metis append.assoc append_Cons append_Nil list.simps(9))
qed auto

lemma cycles_extend:
  "delegation_cycles collect_tracer csr n ks st rs = Inr (st', rs') \<Longrightarrow> \<exists>new. rs' = rs @ new"
proof (induction ks arbitrary: st rs)
  case (Cons k ks)
  then show ?case by (fastforce simp: Let_def delegation_cycle_def)
qed simp

lemma calls_extend:
  "replay_bigint_call collect_tracer R U st ram rs = Inr (st', ram', rs') \<Longrightarrow> \<exists>new. rs' = rs @ new"
  "replay_blake2_round_function_call collect_tracer R st ram rs = Inr (st', ram', rs') \<Longrightarrow> \<exists>new. rs' = rs @ new"
  "replay_keccak_special5_call collect_tracer R st ram rs = Inr (st', ram', rs') \<Longrightarrow> \<exists>new. rs' = rs @ new"
  unfolding replay_bigint_call_def replay_blake2_round_function_call_def replay_keccak_special5_call_def
    replay_blake_witnesses_def replay_keccak_witnesses_def Let_def
  by (auto simp: delegation_cycle_def Let_def dest!: cycles_extend blake_rounds_extend keccak_rounds_extend)

lemma projects3_extends: "projects3 T rs t mc mt \<Longrightarrow> mc = Inr (s, r, rs') \<Longrightarrow> \<exists>new. rs' = rs @ new"
  by (auto simp: projects3_def)

lemma memory_step_extends:
  assumes "replay_memory_step collect_tracer R U st ram i rs n = Some (Inr (st', ram', rs'))"
  shows "\<exists>new. rs' = rs @ new"
  using assms
  by (cases n) (auto simp: replay_call_delegation_def split: if_splits dest: calls_extend
      projects3_extends [OF projects_memory_ops(1)] projects3_extends [OF projects_memory_ops(2)]
      projects3_extends [OF projects_memory_ops(3)] projects3_extends [OF projects_memory_ops(4)]
      projects3_extends [OF projects_memory_ops(5)] projects3_extends [OF projects_memory_ops(6)])

lemma body_extends:
  assumes "replay_body collect_tracer R ND stub U tape st ram nd rs = Inr (stop, st', ram', nd', rs')"
  shows "\<exists>new. rs' = rs @ new"
proof -
  obtain i st1 where i: "tape (st_pc st) = Inr i"
    and step: "replay_step collect_tracer R ND stub U tape st ram nd rs = Inr (st1, ram', nd', rs')"
    using assms by (auto simp: replay_body_def replay_step_def Let_def)
  show ?thesis
  proof (cases "replay_register_step collect_tracer st i rs (i_name i)")
    case (Some m)
    then show ?thesis
      using projects_register_step [OF Some, of collect_tracer] step i by (auto simp: replay_step_def projects_def)
  next
    case None
    then show ?thesis
      using step i memory_step_extends [of R U st ram i rs "i_name i"]
      by (auto simp: replay_step_def replay_nd_read_def split: option.splits if_splits)
  qed
qed

lemma loop_extends:
  "replay_by_timestamp_bound collect_tracer R ND stub U tape bound st ram nd rs = Inr (st', ram', nd', rs') \<Longrightarrow>
    \<exists>new. rs' = rs @ new"
proof (induction "unat bound - unat (st_ts st)" arbitrary: st ram nd rs rule: less_induct)
  case less
  show ?case
  proof (cases "st_ts st < bound")
    case True
    then obtain stop st1 ram1 nd1 rs1 where
      body: "replay_body collect_tracer R ND stub U tape st ram nd rs = Inr (stop, st1, ram1, nd1, rs1)"
      and rest: "(if stop then Inr (st1, ram1, nd1, rs1) else
        replay_by_timestamp_bound collect_tracer R ND stub U tape bound st1 ram1 nd1 rs1) = Inr (st', ram', nd', rs')"
      using less.prems by (subst (asm) replay_by_timestamp_bound.simps) auto
    have "unat bound - unat (st_ts st1) < unat bound - unat (st_ts st)"
      using ts_replay_body [OF body] True by (simp add: word_less_nat_alt)
    then have "\<exists>new. rs' = rs1 @ new" using rest less.hyps by (cases stop) auto
    then show ?thesis using body_extends [OF body] by auto
  next
    case False
    then show ?thesis using less.prems by (subst (asm) replay_by_timestamp_bound.simps) simp
  qed
qed

context witness_tracer
begin

lemma kept_cycles:
  "cycle_records recs \<Longrightarrow> filter kept recs = (if takes_family SHIFT_BINARY_CSR then recs else [])"
  by (induction recs) (auto simp: cycle_records_def)

lemma cycles_project:
  assumes "takes_family SHIFT_BINARY_CSR"
  shows "delegation_cycles collect_tracer csr n ks st rs = Inr (st', rs') \<Longrightarrow> holds t xs \<Longrightarrow>
    \<exists>new t'. rs' = rs @ new \<and> delegation_cycles T csr n ks st t = Inr (st', t') \<and> holds t' (xs @ new)"
proof (induction ks arbitrary: st rs t xs)
  case (Cons k ks)
  obtain st1 r where 1: "delegation_cycle collect_tracer csr st rs = Inr (st1, rs @ [NonMemOf SHIFT_BINARY_CSR r])"
    and rest: "bindE (if k = n - 1 then Inr st1 else bindE (add_u64 (st_ts st1) TIMESTAMP_STEP) (\<lambda>t. Inr (st1\<lparr>st_ts := t\<rparr>)))
      (\<lambda>st. delegation_cycles collect_tracer csr n ks st (rs @ [NonMemOf SHIFT_BINARY_CSR r])) = Inr (st', rs')"
    and T1: "\<And>t. delegation_cycle T csr st t = bindE (t_write_non_memory T SHIFT_BINARY_CSR r t) (\<lambda>t. Inr (st1, t))"
    using Cons.prems(1) by (auto simp: Let_def delegation_cycle_def)
  obtain t1 where t1: "t_write_non_memory T SHIFT_BINARY_CSR r t = Inr t1" "holds t1 (xs @ [NonMemOf SHIFT_BINARY_CSR r])"
    using non_memory [OF Cons.prems(2) assms] by blast
  obtain st2 where st2: "(if k = n - 1 then Inr st1 else bindE (add_u64 (st_ts st1) TIMESTAMP_STEP)
      (\<lambda>t. Inr (st1\<lparr>st_ts := t\<rparr>))) = Inr st2"
    "delegation_cycles collect_tracer csr n ks st2 (rs @ [NonMemOf SHIFT_BINARY_CSR r]) = Inr (st', rs')"
    using rest unfolding bindE_eq_Inr by blast
  from Cons.IH [OF st2(2) t1(2)] T1 t1(1) st2(1) show ?case by (auto simp: Let_def)
qed auto

lemma cycles_projected:
  assumes "delegation_cycles collect_tracer csr n [0..<n] st rs = Inr (st', rs')" "holds t xs" "0 < n"
  shows "\<exists>new t'. rs' = rs @ new \<and> holds t' (xs @ filter kept new) \<and>
    (if takes_family SHIFT_BINARY_CSR then delegation_cycles T csr n [0..<n] st t
     else bindE (jump_cycles n st) (\<lambda>st. Inr (st, t))) = Inr (st', t')"
proof -
  obtain recs where recs: "rs' = rs @ recs" "cycle_records recs" and j: "jump_cycles n st = Inr st'"
    using delegation_cycles_jump [OF assms(1,3)] by blast
  show ?thesis
  proof (cases "takes_family SHIFT_BINARY_CSR")
    case True
    from cycles_project [OF True assms(1,2)] recs show ?thesis
      using True kept_cycles [OF recs(2)] by auto
  next
    case False
    then show ?thesis using recs j assms(2) kept_cycles [OF recs(2)] by auto
  qed
qed

section \<open>The delegations\<close>

lemma blake_rounds_projected:
  assumes "takes_delegation (ucast BLAKE2S_DELEGATION_CSR_REGISTER)"
  shows "replay_blake_rounds collect_tracer c n x10 x11 input sts its ks v rs = Inr (v', rs') \<Longrightarrow> holds t xs \<Longrightarrow>
    \<forall>r \<in> set rs'. traced_fits r \<Longrightarrow>
    \<exists>t' new. rs' = rs @ new \<and> replay_blake_rounds T c n x10 x11 input sts its ks v t = Inr (v', t') \<and>
      holds t' (xs @ filter kept new)"
proof (induction ks arbitrary: v rs t xs)
  case (Cons k ks)
  let ?d = "DelegationOf (ucast BLAKE2S_DELEGATION_CSR_REGISTER)"
  obtain w v1 where 1: "replay_blake_round c n x10 x11 input sts its k v = Inr (w, v1)"
    "replay_blake_rounds collect_tracer c n x10 x11 input sts its ks v1 (rs @ [?d w]) = Inr (v', rs')"
    using Cons.prems(1) by auto
  have "?d w \<in> set rs'" using blake_rounds_extend [OF 1(2)] by auto
  then have "witness_fits (ucast BLAKE2S_DELEGATION_CSR_REGISTER) w" using Cons.prems(3) by fastforce
  from delegation [OF Cons.prems(2) assms this] obtain t1 where
    t1: "t_write_delegation T (ucast BLAKE2S_DELEGATION_CSR_REGISTER) w t = Inr t1" "holds t1 (xs @ [?d w])" by blast
  from Cons.IH [OF 1(2) t1(2) Cons.prems(3)] show ?case using 1(1) t1(1) assms by auto
qed auto

lemma keccak_rounds_projected:
  assumes "takes_delegation (ucast KECCAK_SPECIAL5_CSR_REGISTER)"
  shows "replay_keccak_rounds collect_tracer x11 n v rs = Inr (v', rs') \<Longrightarrow> holds t xs \<Longrightarrow>
    \<forall>r \<in> set rs'. traced_fits r \<Longrightarrow>
    \<exists>t' new. rs' = rs @ new \<and> replay_keccak_rounds T x11 n v t = Inr (v', t') \<and>
      holds t' (xs @ filter kept new)"
proof (induction n arbitrary: v rs t xs)
  case (Suc n)
  let ?d = "DelegationOf (ucast KECCAK_SPECIAL5_CSR_REGISTER)"
  obtain w v1 where 1: "replay_keccak_round x11 v = Inr (w, v1)"
    "replay_keccak_rounds collect_tracer x11 n v1 (rs @ [?d w]) = Inr (v', rs')"
    using Suc.prems(1) by auto
  have "?d w \<in> set rs'" using keccak_rounds_extend [OF 1(2)] by auto
  then have "witness_fits (ucast KECCAK_SPECIAL5_CSR_REGISTER) w" using Suc.prems(3) by fastforce
  from delegation [OF Suc.prems(2) assms this] obtain t1 where
    t1: "t_write_delegation T (ucast KECCAK_SPECIAL5_CSR_REGISTER) w t = Inr t1" "holds t1 (xs @ [?d w])" by blast
  from Suc.IH [OF 1(2) t1(2) Suc.prems(3)] show ?case using 1(1) t1(1) assms by auto
qed auto

text \<open>The witnesses, or the entries skipped.\<close>

lemma blake_witnesses_projected:
  assumes "replay_blake_witnesses collect_tracer (replayer_ram_ops bits) c n x10 x11 x12 t0 st (single_log es) rs =
      Inr (ram, rs')" "holds t xs" "\<forall>r \<in> set rs'. traced_fits r"
  shows "\<exists>t' new zs. rs' = rs @ new \<and> ram = single_log zs \<and> holds t' (xs @ filter kept new) \<and>
    (if takes_delegation (ucast BLAKE2S_DELEGATION_CSR_REGISTER)
     then replay_blake_witnesses T (replayer_ram_ops bits) c n x10 x11 x12 t0 st (single_log es) t
     else bindE (replay_skip (24 + 16) (single_log es)) (\<lambda>ram. Inr (ram, t))) = Inr (ram, t')"
proof -
  obtain T1 T3 T4 ws1 ts1 r1 ws2 ts2 r10 r11 r12 v v' where 1:
    "add_u64 t0 (word_of_nat (n - 1) * TIMESTAMP_STEP) = Inr T1" "add_u64 T1 3 = Inr T3" "add_u64 T3 1 = Inr T4"
    "replay_read_words (replayer_ram_ops bits) 24 x10 T4 (single_log es) = Inr (ws1, ts1, r1)"
    "replay_read_words (replayer_ram_ops bits) 16 x11 T4 r1 = Inr (ws2, ts2, ram)"
    "index (st_regs st) 10 = Inr r10" "index (st_regs st) 11 = Inr r11" "index (st_regs st) 12 = Inr r12"
    "v = \<lparr>br_state = take 8 ws1, br_extended = drop 8 ws1, br_control = x12,
          br_x10_timestamp = reg_ts r10, br_x11_timestamp = reg_ts r11, br_x12_timestamp = reg_ts r12,
          br_previous = 0, br_current = t0\<rparr>"
    "replay_blake_rounds collect_tracer c n x10 x11 ws2 ts1 ts2 [0..<n] v rs = Inr (v', rs')"
    "br_current v' - TIMESTAMP_STEP = st_ts st"
    using assms(1) unfolding replay_blake_witnesses_def by auto
  obtain ys1 zs1 where z1: "es = ys1 @ zs1" "length ys1 = 24" "r1 = single_log zs1"
    using single_read_words [OF 1(4)] by blast
  obtain ys2 zs2 where z2: "zs1 = ys2 @ zs2" "length ys2 = 16" "ram = single_log zs2"
    using single_read_words [OF 1(5) [unfolded z1(3)]] by blast
  have skip: "replay_skip (24 + 16) (single_log es) = Inr ram"
    using single_skip [of "ys1 @ ys2" "24 + 16" zs2] z1 z2 by simp
  show ?thesis
  proof (cases "takes_delegation (ucast BLAKE2S_DELEGATION_CSR_REGISTER)")
    case True
    from blake_rounds_projected [OF True 1(10) assms(2,3)] obtain t' new where
      "rs' = rs @ new" "replay_blake_rounds T c n x10 x11 ws2 ts1 ts2 [0..<n] v t = Inr (v', t')"
      "holds t' (xs @ filter kept new)" by blast
    moreover from this(2) have "replay_blake_witnesses T (replayer_ram_ops bits) c n x10 x11 x12 t0 st (single_log es) t =
        Inr (ram, t')"
      unfolding replay_blake_witnesses_def 1(1) bindE_Inr 1(2) 1(3) 1(4) split_conv 1(5) 1(6) 1(7) 1(8) 1(9) [symmetric]
      using 1(11) by simp
    ultimately show ?thesis using True z2(3) by auto
  next
    case False
    obtain ws where "rs' = rs @ map (DelegationOf (ucast BLAKE2S_DELEGATION_CSR_REGISTER)) ws"
      using blake_rounds_extend [OF 1(10)] by blast
    moreover from this have "filter kept (map (DelegationOf (ucast BLAKE2S_DELEGATION_CSR_REGISTER)) ws) = []"
      using False by (simp add: filter_empty_conv)
    ultimately show ?thesis using False z2(3) skip assms(2) by auto
  qed
qed

lemma keccak_witnesses_projected:
  assumes "replay_keccak_witnesses collect_tracer (replayer_ram_ops bits) x10 x11 t0 st (single_log es) rs =
      Inr (ram, rs')" "holds t xs" "\<forall>r \<in> set rs'. traced_fits r"
  shows "\<exists>t' new zs. rs' = rs @ new \<and> ram = single_log zs \<and> holds t' (xs @ filter kept new) \<and>
    (if takes_delegation (ucast KECCAK_SPECIAL5_CSR_REGISTER)
     then replay_keccak_witnesses T (replayer_ram_ops bits) x10 x11 t0 st (single_log es) t
     else bindE (replay_skip (31 * 2) (single_log es)) (\<lambda>ram. Inr (ram, t))) = Inr (ram, t')"
proof -
  define n where "n = NUM_DELEGATION_CALLS_FOR_KECCAK_F1600"
  obtain T1 T3 T4 ws1 ts1 r10 r11 v v' where 1:
    "add_u64 t0 (word_of_nat (n - 1) * TIMESTAMP_STEP) = Inr T1" "add_u64 T1 3 = Inr T3" "add_u64 T3 1 = Inr T4"
    "replay_read_lanes (replayer_ram_ops bits) 31 x11 T4 (single_log es) = Inr (ws1, ts1, ram)"
    "index (st_regs st) 10 = Inr r10" "index (st_regs st) 11 = Inr r11"
    "v = \<lparr>kr_state = ws1, kr_timestamps = ts1, kr_control = x10,
          kr_x10_timestamp = reg_ts r10, kr_x11_timestamp = reg_ts r11, kr_current = t0\<rparr>"
    "replay_keccak_rounds collect_tracer x11 n v rs = Inr (v', rs')"
    "kr_current v' - TIMESTAMP_STEP = st_ts st"
    using assms(1) unfolding replay_keccak_witnesses_def n_def [symmetric] by auto
  obtain ws ts r where w: "replay_read_words (replayer_ram_ops bits) (2 * 31) x11 T4 (single_log es) = Inr (ws, ts, r)"
    and r: "r = ram"
    using 1(4) unfolding replay_read_lanes_words bindE_eq_Inr by fastforce
  obtain ys zs where z: "es = ys @ zs" "length ys = 2 * 31" "ram = single_log zs"
    using single_read_words [OF w [unfolded r]] by blast
  have skip: "replay_skip (31 * 2) (single_log es) = Inr ram" using single_skip [of ys "31 * 2" zs] z by simp
  show ?thesis
  proof (cases "takes_delegation (ucast KECCAK_SPECIAL5_CSR_REGISTER)")
    case True
    from keccak_rounds_projected [OF True 1(8) assms(2,3)] obtain t' new where
      "rs' = rs @ new" "replay_keccak_rounds T x11 n v t = Inr (v', t')" "holds t' (xs @ filter kept new)" by blast
    moreover from this(2) have "replay_keccak_witnesses T (replayer_ram_ops bits) x10 x11 t0 st (single_log es) t =
        Inr (ram, t')"
      unfolding replay_keccak_witnesses_def n_def [symmetric] 1(1) bindE_Inr 1(2) 1(3) 1(4) split_conv 1(5) 1(6)
        1(7) [symmetric]
      using 1(9) by simp
    ultimately show ?thesis using True z(3) by auto
  next
    case False
    obtain ws where "rs' = rs @ map (DelegationOf (ucast KECCAK_SPECIAL5_CSR_REGISTER)) ws"
      using keccak_rounds_extend [OF 1(8)] by blast
    moreover from this have "filter kept (map (DelegationOf (ucast KECCAK_SPECIAL5_CSR_REGISTER)) ws) = []"
      using False by (simp add: filter_empty_conv)
    ultimately show ?thesis using False z(3) skip assms(2) by auto
  qed
qed

section \<open>The calls\<close>

text \<open>On a log of one slice, when the collecting replay succeeds and its records fit.\<close>

definition projected ::
  "traced list \<Rightarrow> 't \<Rightarrow> traced list \<Rightarrow> ('c State \<times> ReplayerRam \<times> traced list) res \<Rightarrow>
    ('c State \<times> ReplayerRam \<times> 't) res \<Rightarrow> bool" where
  "projected xs t rs mc mt \<longleftrightarrow>
     (\<forall>st ram rs'. mc = Inr (st, ram, rs') \<longrightarrow> (\<forall>r \<in> set rs'. traced_fits r) \<longrightarrow>
       (\<exists>t' new zs. rs' = rs @ new \<and> ram = single_log zs \<and> holds t' (xs @ filter kept new) \<and>
         mt = Inr (st, ram, t')))"

lemma bigint_witness_skip:
  assumes "replay_bigint_witness (replayer_ram_ops bits) U st (single_log es) = Inr (w, st', ram')"
  shows "\<exists>ov zs. replay_bigint_skip (replayer_ram_ops bits) (single_log es) (st_ts st) = Inr (ov, ram') \<and>
    ram' = single_log zs \<and> replay_bigint_registers ov st = Inr st'"
proof -
  obtain x10 t10 st1 x11 t11 st2 ws1 ts1 r1 ws2 ts2 r2 ov x12 where 1:
    "read_register_with_ts 3 10 st = Inr ((x10, t10), st1)" "read_register_with_ts 3 11 st1 = Inr ((x11, t11), st2)"
    "replay_read_words (replayer_ram_ops bits) (2 * 4) x11 (st_ts st OR 3) (single_log es) = Inr (ws1, ts1, r1)"
    "replay_read_words (replayer_ram_ops bits) (2 * 4) x10 (st_ts st OR 3) r1 = Inr (ws2, ts2, r2)"
    "replay_read_word 0 (st_ts st OR 3) r2 = Inr ((0, ov), ram')"
    "write_register_with_ts 3 12 ov st2 = Inr (x12, st')"
    using assms unfolding replay_bigint_witness_def Let_def replay_read_u256_words replay_read_u256_for_update_words
    by auto
  obtain ys1 zs1 where z1: "es = ys1 @ zs1" "length ys1 = 2 * 4" "r1 = single_log zs1"
    using single_read_words [OF 1(3)] by blast
  obtain ys2 zs2 where z2: "zs1 = ys2 @ zs2" "length ys2 = 2 * 4" "r2 = single_log zs2"
    using single_read_words [OF 1(4) [unfolded z1(3)]] by blast
  obtain x zs where z: "zs2 = x # zs" "ram' = single_log zs"
    using single_read(1) [OF 1(5) [unfolded z2(3)]] by blast
  have "replay_skip 16 (single_log es) = Inr r2"
    using single_skip [of "ys1 @ ys2" 16 zs2] z1 z2 by simp
  then have "replay_bigint_skip (replayer_ram_ops bits) (single_log es) (st_ts st) = Inr (ov, ram')"
    using 1(5) by (simp add: replay_bigint_skip_def)
  moreover have "replay_bigint_registers ov st = Inr st'"
    using 1(1,2,6) by (simp add: replay_bigint_registers_def split_def)
  ultimately show ?thesis using z(2) by blast
qed

lemma bigint_projected:
  assumes "holds t xs"
  shows "projected xs t rs (replay_bigint_call collect_tracer (replayer_ram_ops bits) U st (single_log es) rs)
    (replay_bigint_call T (replayer_ram_ops bits) U st (single_log es) t)"
  unfolding projected_def
proof (intro allI impI, goal_cases)
  case (1 st' ram' rs')
  define csr :: u16 where "csr = ucast BIGINT_OPS_WITH_CONTROL_CSR_REGISTER"
  obtain st1 r w where cyc: "delegation_cycle collect_tracer csr st rs = Inr (st1, rs @ [NonMemOf SHIFT_BINARY_CSR r])"
    and wit: "replay_bigint_witness (replayer_ram_ops bits) U st1 (single_log es) = Inr (w, st', ram')"
    and rs': "rs' = rs @ [NonMemOf SHIFT_BINARY_CSR r, DelegationOf csr w]"
    and T1: "\<And>t. delegation_cycle T csr st t = bindE (t_write_non_memory T SHIFT_BINARY_CSR r t) (\<lambda>t. Inr (st1, t))"
    and touch: "bindE (index (st_regs st) 0) (\<lambda>reg0. Inr (st\<lparr>st_pc := st_pc st + 4,
      st_regs := (st_regs st)[0 := reg0\<lparr>reg_ts := st_ts st OR 2\<rparr>]\<rparr>)) = Inr st1" and ts: "st_ts st1 = st_ts st"
    using 1(1) by (auto simp: replay_bigint_call_def Let_def csr_def [symmetric] delegation_cycle_def)
  obtain ov zs where skip: "replay_bigint_skip (replayer_ram_ops bits) (single_log es) (st_ts st) = Inr (ov, ram')"
    "ram' = single_log zs" "replay_bigint_registers ov st1 = Inr st'"
    using bigint_witness_skip [OF wit] unfolding ts by blast
  let ?call = "replay_bigint_call T (replayer_ram_ops bits) U st (single_log es) t"
  have fits: "witness_fits csr w" using 1(2) rs' by simp
  obtain t1 where t1: "holds t1 (xs @ filter kept [NonMemOf SHIFT_BINARY_CSR r])"
    "(if takes_family SHIFT_BINARY_CSR then delegation_cycle T csr st t else Inr (st1, t)) = Inr (st1, t1)"
    using non_memory [OF assms, of SHIFT_BINARY_CSR r] assms T1 by (cases "takes_family SHIFT_BINARY_CSR") auto
  obtain t2 where t2: "holds t2 ((xs @ filter kept [NonMemOf SHIFT_BINARY_CSR r]) @ filter kept [DelegationOf csr w])"
    "takes_delegation csr \<Longrightarrow> t_write_delegation T csr w t1 = Inr t2" "\<not> takes_delegation csr \<Longrightarrow> t2 = t1"
    using delegation [OF t1(1) _ fits] t1(1) by (cases "takes_delegation csr") auto
  have "?call = Inr (st', ram', t2)"
    unfolding replay_bigint_call_def Let_def csr_def [symmetric] needs_family [OF assms] needs_delegation [OF assms] touch
    using t1(2) t2(2,3) skip(1,3) wit ts
    by (cases "takes_family SHIFT_BINARY_CSR"; cases "takes_delegation csr") simp_all
  then show ?case
    using t2(1) skip(2) rs'
    by (intro exI [of _ t2] exI [of _ "[NonMemOf SHIFT_BINARY_CSR r, DelegationOf csr w]"] exI [of _ zs])
      (simp cong: if_cong split: if_splits)
qed

lemma blake_projected:
  assumes "holds t xs"
  shows "projected xs t rs (replay_blake2_round_function_call collect_tracer (replayer_ram_ops bits) st (single_log es) rs)
    (replay_blake2_round_function_call T (replayer_ram_ops bits) st (single_log es) t)"
  unfolding projected_def
proof (intro allI impI, goal_cases)
  case (1 st' ram' rs')
  let ?D = "ucast BLAKE2S_DELEGATION_CSR_REGISTER :: u16"
  define x10 where "x10 = reg_val (st_regs st ! 10)"
  define x11 where "x11 = reg_val (st_regs st ! 11)"
  define x12 where "x12 = reg_val (st_regs st ! 12)"
  define ctl where "ctl = blake_control_bitmask x12"
  define n where "n = rounds_of ctl"
  have n: "0 < n" unfolding n_def by (rule rounds_of_bounds)
  obtain st1 rs1 where checks: "blake_checks x10 x11 x12" "12 < length (st_regs st)"
    and cyc: "delegation_cycles collect_tracer ?D n [0..<n] st rs = Inr (st1, rs1)"
    and wit: "replay_blake_witnesses collect_tracer (replayer_ram_ops bits) ctl n x10 x11 x12 (st_ts st) st1 (single_log es) rs1 =
      Inr (ram', rs')"
    and regs: "replay_blake_registers (x12_of ctl n) st1 = Inr st'"
    using 1(1) unfolding replay_blake2_round_function_call_def Let_def
    by (auto simp: index_eq_Inr x10_def x11_def x12_def ctl_def n_def rounds_of_def [symmetric] x12_of_final
        blake_checks_def)
  obtain new1 t1 where t1: "rs1 = rs @ new1" "holds t1 (xs @ filter kept new1)"
    "(if takes_family SHIFT_BINARY_CSR then delegation_cycles T ?D n [0..<n] st t
     else bindE (jump_cycles n st) (\<lambda>st. Inr (st, t))) = Inr (st1, t1)"
    using cycles_projected [OF cyc assms n] by blast
  obtain t2 new2 zs where t2: "rs' = rs1 @ new2" "ram' = single_log zs"
    "holds t2 ((xs @ filter kept new1) @ filter kept new2)"
    "(if takes_delegation ?D
     then replay_blake_witnesses T (replayer_ram_ops bits) ctl n x10 x11 x12 (st_ts st) st1 (single_log es) t1
     else bindE (replay_skip (24 + 16) (single_log es)) (\<lambda>ram. Inr (ram, t1))) = Inr (ram', t2)"
    using blake_witnesses_projected [OF wit t1(2) 1(2)] by blast
  have "replay_blake2_round_function_call T (replayer_ram_ops bits) st (single_log es) t =
    (if \<not> takes_family SHIFT_BINARY_CSR \<and> \<not> takes_delegation ?D
     then bindE (replay_skip (24 + 16) (single_log es)) (\<lambda>ram.
          bindE (jump_cycles n st) (\<lambda>st. bindE (replay_blake_registers (x12_of ctl n) st) (\<lambda>st. Inr (st, ram, t))))
     else bindE (if takes_family SHIFT_BINARY_CSR then delegation_cycles T ?D n [0..<n] st t
       else bindE (jump_cycles n st) (\<lambda>st. Inr (st, t))) (\<lambda>(st1, t1).
     bindE (if takes_delegation ?D
       then replay_blake_witnesses T (replayer_ram_ops bits) ctl n x10 x11 x12 (st_ts st) st1 (single_log es) t1
       else bindE (replay_skip (24 + 16) (single_log es)) (\<lambda>ram. Inr (ram, t1))) (\<lambda>(ram, t2).
     bindE (replay_blake_registers (x12_of ctl n) st1) (\<lambda>st. Inr (st, ram, t2)))))"
    unfolding replay_blake2_round_function_call_def Let_def needs_family [OF assms] needs_delegation [OF assms]
    using checks by (simp add: index_ok blake_checks_def x10_def [symmetric] x11_def [symmetric] x12_def [symmetric]
        ctl_def [symmetric] rounds_of_def [symmetric] n_def [symmetric] x12_of_final cong: if_cong)
  also have "\<dots> = Inr (st', ram', t2)"
  proof (cases "\<not> takes_family SHIFT_BINARY_CSR \<and> \<not> takes_delegation ?D")
    case True
    then have "replay_skip (24 + 16) (single_log es) = Inr ram'" "jump_cycles n st = Inr st1" "t1 = t" "t2 = t1"
      using t1(3) t2(4) by auto
    then show ?thesis using True regs by simp
  next
    case False
    show ?thesis unfolding if_not_P [OF False] t1(3) using t2(4) regs by simp
  qed
  finally show ?case
    using t1(1) t2(1-3) by (intro exI [of _ t2] exI [of _ "new1 @ new2"] exI [of _ zs]) simp
qed

lemma keccak_projected:
  assumes "holds t xs"
  shows "projected xs t rs (replay_keccak_special5_call collect_tracer (replayer_ram_ops bits) st (single_log es) rs)
    (replay_keccak_special5_call T (replayer_ram_ops bits) st (single_log es) t)"
  unfolding projected_def
proof (intro allI impI, goal_cases)
  case (1 st' ram' rs')
  let ?D = "ucast KECCAK_SPECIAL5_CSR_REGISTER :: u16"
  define x10 where "x10 = reg_val (st_regs st ! 10)"
  define x11 where "x11 = reg_val (st_regs st ! 11)"
  define n where "n = NUM_DELEGATION_CALLS_FOR_KECCAK_F1600"
  have n: "0 < n" by (simp add: n_def NUM_DELEGATION_CALLS_FOR_KECCAK_F1600_def)
  obtain st1 rs1 where checks: "keccak_checks x10 x11" "11 < length (st_regs st)" "st_ts st mod 4 = 0"
    and cyc: "delegation_cycles collect_tracer ?D n [0..<n] st rs = Inr (st1, rs1)"
    and time: "add_u64 (st_ts st) (word_of_nat (n - 1) * TIMESTAMP_STEP) = Inr (st_ts st1)"
    and wit: "replay_keccak_witnesses collect_tracer (replayer_ram_ops bits) x10 x11 (st_ts st) st1 (single_log es) rs1 =
      Inr (ram', rs')"
    and regs: "replay_keccak_registers st1 = Inr st'"
    using 1(1) unfolding replay_keccak_special5_call_def Let_def n_def [symmetric]
    by (auto simp: index_eq_Inr x10_def x11_def keccak_checks_def)
  obtain new1 t1 where t1: "rs1 = rs @ new1" "holds t1 (xs @ filter kept new1)"
    "(if takes_family SHIFT_BINARY_CSR then delegation_cycles T ?D n [0..<n] st t
     else bindE (jump_cycles n st) (\<lambda>st. Inr (st, t))) = Inr (st1, t1)"
    using cycles_projected [OF cyc assms n] by blast
  obtain t2 new2 zs where t2: "rs' = rs1 @ new2" "ram' = single_log zs"
    "holds t2 ((xs @ filter kept new1) @ filter kept new2)"
    "(if takes_delegation ?D
     then replay_keccak_witnesses T (replayer_ram_ops bits) x10 x11 (st_ts st) st1 (single_log es) t1
     else bindE (replay_skip (31 * 2) (single_log es)) (\<lambda>ram. Inr (ram, t1))) = Inr (ram', t2)"
    using keccak_witnesses_projected [OF wit t1(2) 1(2)] by blast
  have "replay_keccak_special5_call T (replayer_ram_ops bits) st (single_log es) t =
    (if \<not> takes_family SHIFT_BINARY_CSR \<and> \<not> takes_delegation ?D
     then bindE (replay_skip (31 * 2) (single_log es)) (\<lambda>ram.
          bindE (jump_cycles n st) (\<lambda>st. bindE (replay_keccak_registers st) (\<lambda>st. Inr (st, ram, t))))
     else bindE (if takes_family SHIFT_BINARY_CSR then delegation_cycles T ?D n [0..<n] st t
       else bindE (jump_cycles n st) (\<lambda>st. Inr (st, t))) (\<lambda>(st1, t1).
     bindE (add_u64 (st_ts st) (word_of_nat (n - 1) * TIMESTAMP_STEP)) (\<lambda>t0.
     bindE (guardE (st_ts st1 = t0) AssertFailed) (\<lambda>_.
     bindE (if takes_delegation ?D
       then replay_keccak_witnesses T (replayer_ram_ops bits) x10 x11 (st_ts st) st1 (single_log es) t1
       else bindE (replay_skip (31 * 2) (single_log es)) (\<lambda>ram. Inr (ram, t1))) (\<lambda>(ram, t2).
     bindE (replay_keccak_registers st1) (\<lambda>st. Inr (st, ram, t2)))))))"
    unfolding replay_keccak_special5_call_def Let_def needs_family [OF assms] needs_delegation [OF assms]
      n_def [symmetric]
    using checks by (simp add: index_ok keccak_checks_def x10_def [symmetric] x11_def [symmetric]
        INITIAL_KECCAK_F1600_CONTROL_VALUE_def cong: if_cong)
  also have "\<dots> = Inr (st', ram', t2)"
  proof (cases "\<not> takes_family SHIFT_BINARY_CSR \<and> \<not> takes_delegation ?D")
    case True
    then have "replay_skip (31 * 2) (single_log es) = Inr ram'" "jump_cycles n st = Inr st1" "t1 = t" "t2 = t1"
      using t1(3) t2(4) by auto
    then show ?thesis using True regs by simp
  next
    case False
    show ?thesis unfolding if_not_P [OF False] t1(3) using t2(4) regs time by simp
  qed
  finally show ?case
    using t1(1) t2(1-3) by (intro exI [of _ t2] exI [of _ "new1 @ new2"] exI [of _ zs]) simp
qed

section \<open>A run\<close>

lemma fed:
  assumes "holds t xs" "rs' = rs @ new" "\<forall>r \<in> set rs'. traced_fits r"
  obtains t' where "feed T new t = Inr t'" "holds t' (xs @ filter kept new)"
  using feed_holds [OF assms(1), of new] assms(2,3) by auto

lemma projected_fails: "projected xs t rs (Inl e) mt"
  by (simp add: projected_def)

lemma call_delegation_projected:
  assumes "holds t xs"
  shows "projected xs t rs (replay_call_delegation collect_tracer (replayer_ram_ops bits) U st (single_log es) i rs)
    (replay_call_delegation T (replayer_ram_ops bits) U st (single_log es) i t)"
  by (simp add: replay_call_delegation_def guardE_def bigint_projected [OF assms] blake_projected [OF assms]
      keccak_projected [OF assms] projected_fails)

lemma memory_op_projected:
  assumes "projects3 T rs t mc mt" "holds t xs" "\<And>st ram rs'. mc = Inr (st, ram, rs') \<Longrightarrow> \<exists>zs. ram = single_log zs"
  shows "projected xs t rs mc mt"
  unfolding projected_def
proof (intro allI impI, goal_cases)
  case (1 st ram rs')
  then obtain new where new: "rs' = rs @ new" "mt = bindE (feed T new t) (\<lambda>t. Inr (st, ram, t))"
    using assms(1) by (auto simp: projects3_def)
  obtain t' where "feed T new t = Inr t'" "holds t' (xs @ filter kept new)"
    using fed [OF assms(2) new(1) 1(2)] .
  then show ?case using new assms(3) [OF 1(1)] by auto
qed

lemma memory_step_projected:
  assumes "replay_memory_step collect_tracer (replayer_ram_ops bits) U st (single_log es) i rs n = Some mc" "holds t xs"
  shows "\<exists>mt. replay_memory_step T (replayer_ram_ops bits) U st (single_log es) i t n = Some mt \<and>
    projected xs t rs mc mt"
  using assms(1)
  by (cases n)
    (auto intro: memory_op_projected [OF projects_memory_ops(1) assms(2)] memory_op_projected [OF projects_memory_ops(2) assms(2)]
      memory_op_projected [OF projects_memory_ops(3) assms(2)] memory_op_projected [OF projects_memory_ops(4) assms(2)]
      memory_op_projected [OF projects_memory_ops(5) assms(2)] memory_op_projected [OF projects_memory_ops(6) assms(2)]
      call_delegation_projected [OF assms(2)] dest: single_memory_ops)

lemma nd_read_projected:
  assumes "replay_nd_read collect_tracer (replayer_ram_ops bits) ND stub st (single_log es) i rs nd = Inr (st', ram', rs', nd')"
    "holds t xs"
  shows "\<exists>t' new zs. rs' = rs @ new \<and> ram' = single_log zs \<and> holds t' (xs @ filter kept new) \<and>
    replay_nd_read T (replayer_ram_ops bits) ND stub st (single_log es) i t nd = Inr (st', ram', t', nd')"
proof -
  obtain zs where zs: "ram' = single_log zs"
    using assms(1) by (cases stub) (auto simp: replay_nd_read_def split_def dest!: single_read(1))
  obtain r where r: "rs' = rs @ [NonMemOf SHIFT_BINARY_CSR r]"
    "\<And>t. replay_nd_read T (replayer_ram_ops bits) ND stub st (single_log es) i t nd =
      bindE (trace_non_mem T SHIFT_BINARY_CSR r t) (\<lambda>t. Inr (st', ram', t, nd'))"
    using assms(1) by (cases stub) (auto simp: replay_nd_read_def split_def)
  have "\<exists>t'. trace_non_mem T SHIFT_BINARY_CSR r t = Inr t' \<and> holds t' (xs @ filter kept [NonMemOf SHIFT_BINARY_CSR r])"
    using non_memory [OF assms(2), of SHIFT_BINARY_CSR r] needs_family [OF assms(2)] assms(2)
    by (auto simp: trace_non_mem_def)
  then show ?thesis using r zs by auto
qed

lemma step_projected:
  assumes "replay_step collect_tracer (replayer_ram_ops bits) ND stub U tape st (single_log es) nd rs = Inr (st', ram', nd', rs')"
    "holds t xs" "\<forall>r \<in> set rs'. traced_fits r"
  shows "\<exists>t' new zs. rs' = rs @ new \<and> ram' = single_log zs \<and> holds t' (xs @ filter kept new) \<and>
    replay_step T (replayer_ram_ops bits) ND stub U tape st (single_log es) nd t = Inr (st', ram', nd', t')"
proof -
  obtain i where i: "tape (st_pc st) = Inr i" using assms(1) by (auto simp: replay_step_def)
  show ?thesis
  proof (cases "replay_register_step collect_tracer st i rs (i_name i)")
    case (Some m)
    then have m: "m = Inr (st', rs')" "ram' = single_log es" "nd' = nd" using assms(1) i by (auto simp: replay_step_def)
    obtain m' new where m': "replay_register_step T st i t (i_name i) = Some m'" "rs' = rs @ new"
      "m' = bindE (feed T new t) (\<lambda>t. Inr (st', t))"
      using projects_register_step [OF Some, of T t] m(1) by (auto simp: projects_def)
    obtain t' where "feed T new t = Inr t'" "holds t' (xs @ filter kept new)"
      using fed [OF assms(2) m'(2) assms(3)] .
    then show ?thesis using i m m' by (auto simp: replay_step_def)
  next
    case no_reg: None
    then have no_regT: "replay_register_step T st i t (i_name i) = None" by (cases "i_name i") auto
    show ?thesis
    proof (cases "replay_memory_step collect_tracer (replayer_ram_ops bits) U st (single_log es) i rs (i_name i)")
      case (Some m)
      then have m: "m = Inr (st', ram', rs')" "nd' = nd" using assms(1) i no_reg by (auto simp: replay_step_def)
      obtain mt where mt: "replay_memory_step T (replayer_ram_ops bits) U st (single_log es) i t (i_name i) = Some mt"
        "projected xs t rs m mt" using memory_step_projected [OF Some assms(2)] by blast
      obtain t' new zs where "rs' = rs @ new" "ram' = single_log zs" "holds t' (xs @ filter kept new)"
        "mt = Inr (st', ram', t')" using mt(2) m(1) assms(3) unfolding projected_def by blast
      then show ?thesis using i mt(1) m(2) no_regT by (auto simp: replay_step_def)
    next
      case None
      then have noT: "replay_memory_step T (replayer_ram_ops bits) U st (single_log es) i t (i_name i) = None"
        by (cases "i_name i") auto
      have n: "i_name i = ZicsrNonDeterminismRead"
        "replay_nd_read collect_tracer (replayer_ram_ops bits) ND stub st (single_log es) i rs nd = Inr (st', ram', rs', nd')"
        using assms(1) i no_reg None by (auto simp: replay_step_def split: if_splits)
      from nd_read_projected [OF n(2) assms(2)] show ?thesis using i n(1) noT no_regT by (auto simp: replay_step_def)
    qed
  qed
qed

lemma body_projected:
  assumes "replay_body collect_tracer (replayer_ram_ops bits) ND stub U tape st (single_log es) nd rs =
      Inr (stop, st', ram', nd', rs')" "holds t xs" "\<forall>r \<in> set rs'. traced_fits r"
  shows "\<exists>t' new zs. rs' = rs @ new \<and> ram' = single_log zs \<and> holds t' (xs @ filter kept new) \<and>
    replay_body T (replayer_ram_ops bits) ND stub U tape st (single_log es) nd t = Inr (stop, st', ram', nd', t')"
proof -
  obtain st1 ts where 1: "replay_step collect_tracer (replayer_ram_ops bits) ND stub U tape st (single_log es) nd rs =
      Inr (st1, ram', nd', rs')" "add_u64 (st_ts st1) TIMESTAMP_STEP = Inr ts" "st' = st1\<lparr>st_ts := ts\<rparr>"
    "stop = (st_pc st' = st_pc st)"
    using assms(1) unfolding replay_body_def Let_def by auto
  from step_projected [OF 1(1) assms(2,3)] obtain t' new zs where
    "rs' = rs @ new" "ram' = single_log zs" "holds t' (xs @ filter kept new)"
    "replay_step T (replayer_ram_ops bits) ND stub U tape st (single_log es) nd t = Inr (st1, ram', nd', t')" by blast
  then show ?thesis using 1(2-4) by (auto simp: replay_body_def Let_def)
qed

lemma loop_projected:
  assumes "replay_by_timestamp_bound collect_tracer (replayer_ram_ops bits) ND stub U tape bound st (single_log es) nd rs =
      Inr (st', ram', nd', rs')" "holds t xs" "\<forall>r \<in> set rs'. traced_fits r"
  shows "\<exists>t' new zs. rs' = rs @ new \<and> ram' = single_log zs \<and> holds t' (xs @ filter kept new) \<and>
    replay_by_timestamp_bound T (replayer_ram_ops bits) ND stub U tape bound st (single_log es) nd t =
      Inr (st', ram', nd', t')"
  using assms(1,2)
proof (induction "unat bound - unat (st_ts st)" arbitrary: st es nd rs t xs rule: less_induct)
  case less
  show ?case
  proof (cases "st_ts st < bound")
    case True
    then obtain stop st1 ram1 nd1 rs1 where
      body: "replay_body collect_tracer (replayer_ram_ops bits) ND stub U tape st (single_log es) nd rs =
        Inr (stop, st1, ram1, nd1, rs1)"
      and rest: "(if stop then Inr (st1, ram1, nd1, rs1) else
        replay_by_timestamp_bound collect_tracer (replayer_ram_ops bits) ND stub U tape bound st1 ram1 nd1 rs1) =
        Inr (st', ram', nd', rs')"
      using less.prems(1) by (subst (asm) replay_by_timestamp_bound.simps) auto
    have "\<exists>new. rs' = rs1 @ new" using rest loop_extends by (cases stop) auto
    then have "\<forall>r \<in> set rs1. traced_fits r" using assms(3) by auto
    from body_projected [OF body less.prems(2) this] obtain t1 new zs where
      1: "rs1 = rs @ new" "ram1 = single_log zs" "holds t1 (xs @ filter kept new)"
      "replay_body T (replayer_ram_ops bits) ND stub U tape st (single_log es) nd t = Inr (stop, st1, ram1, nd1, t1)" by blast
    show ?thesis
    proof (cases stop)
      case stopped: True
      then show ?thesis using rest 1 True by (subst replay_by_timestamp_bound.simps) auto
    next
      case False
      have "unat bound - unat (st_ts st1) < unat bound - unat (st_ts st)"
        using ts_replay_body [OF body] True by (simp add: word_less_nat_alt)
      from less.hyps [OF this _ 1(3), of zs nd1 rs1] rest False 1(2) obtain t' new' zs' where
        "rs' = rs1 @ new'" "ram' = single_log zs'" "holds t' ((xs @ filter kept new) @ filter kept new')"
        "replay_by_timestamp_bound T (replayer_ram_ops bits) ND stub U tape bound st1 (single_log zs) nd1 t1 =
          Inr (st', ram', nd', t')" by auto
      then show ?thesis
        using 1 True False
        by (intro exI [of _ t'] exI [of _ "new @ new'"] exI [of _ zs'], subst replay_by_timestamp_bound.simps) simp
    qed
  next
    case False
    then show ?thesis
      using less.prems by (subst (asm) replay_by_timestamp_bound.simps, subst replay_by_timestamp_bound.simps) auto
  qed
qed

end

end
