(* ===== verification/Replay_Runs.thy ===== *)
theory Replay_Runs
  imports Replay_Projection VM_Properties
begin

text \<open>
  Whole runs and their replays, on the memory, the snapshotter and the counters of the program: the log a run leaves
  behind is enough to replay it, the machine's counters tell how many records the replay collects, and a tracer
  receives those it asks for.
\<close>

section \<open>The log of a run\<close>

text \<open>What a replay of the whole run is given: \<open>make_range(0..reads_buffer.len())\<close>.\<close>

definition recorded_log ::
  "(log_entry, 'b) replay_buffer_ops \<Rightarrow> ('c, 'b) SimpleSnapshotter \<Rightarrow> log_entry list list res" where
  "recorded_log B s = rb_make_range B 0 (rb_len B (ss_reads_buffer s)) (ss_reads_buffer s)"

lemma make_range_loop_nonempty:
  "make_range_loop bs e_o e_i is 0 = Inr ls \<Longrightarrow> \<forall>i \<in> set is. i \<noteq> e_o \<longrightarrow> bs ! i \<noteq> [] \<Longrightarrow> [] \<notin> set ls"
  by (induction bs e_o e_i "is" "0 :: nat" arbitrary: ls rule: make_range_loop.induct)
    (auto simp: slice_def index_eq_Inr split: if_splits)

lemma bivec_full:
  assumes "bivec_holds inner outer b xs" "Suc i * inner \<le> length xs"
  shows "length (sb_buffers b ! i) = inner"
proof -
  have inv: "0 < inner" "sb_current b < length (sb_buffers b)" "length (sb_buffers b ! sb_current b) \<le> inner"
    "\<forall>j < sb_current b. length (sb_buffers b ! j) = inner" "concat (sb_buffers b) = xs"
    using assms(1) by (auto simp: bivec_holds_def)
  have len: "length xs = sb_current b * inner + length (sb_buffers b ! sb_current b)"
    using inv concat_split_at [of "sb_current b" "sb_buffers b"] concat_empty [of "Suc (sb_current b)" "sb_buffers b"]
      assms(1) length_concat_full [of "sb_current b" "sb_buffers b" inner]
    by (auto simp: bivec_holds_def)
  show ?thesis
  proof (cases "i < sb_current b")
    case True
    then show ?thesis using inv(4) by blast
  next
    case False
    then have "Suc (sb_current b) * inner \<le> Suc i * inner" by (intro mult_le_mono1) simp
    then have "i = sb_current b \<and> length (sb_buffers b ! sb_current b) = inner"
      using assms(2) len inv(1,3) False by (metis Suc_le_eq add.commute add_le_cancel_left le_antisym mult_Suc
          mult_le_cancel2 nat_less_le not_less_eq_eq order_trans)
    then show ?thesis by simp
  qed
qed

text \<open>A range that is not empty, or starts at the first entry, has no empty slice.\<close>

lemma bivec_range_nonempty:
  assumes "bivec_holds inner outer b xs" "m < n \<or> m = 0" "n \<le> length xs" "make_range_impl inner m n b = Inr ls"
  shows "[] \<notin> set ls"
proof -
  have inner: "0 < inner" using assms(1) by (simp add: bivec_holds_def)
  let ?o = "n div inner"
  have full: "length (sb_buffers b ! i) = inner" if "i < ?o" for i
  proof (rule bivec_full [OF assms(1)])
    have "Suc i * inner \<le> n" using that less_eq_div_iff_mult_less_eq [OF inner] by (metis Suc_leI)
    then show "Suc i * inner \<le> length xs" using assms(3) by simp
  qed
  have rest: "[] \<notin> set ls'" if "make_range_loop (sb_buffers b) ?o (n mod inner) js 0 = Inr ls'"
    "\<forall>j \<in> set js. j \<le> ?o" for js ls'
  proof (rule make_range_loop_nonempty [OF that(1)], intro ballI impI)
    fix j assume "j \<in> set js" "j \<noteq> ?o"
    then have "j < ?o" using that(2) le_neq_implies_less by blast
    then show "sb_buffers b ! j \<noteq> []" using full [of j] inner by auto
  qed
  have loop: "make_range_loop (sb_buffers b) ?o (n mod inner) [m div inner..<?o + 1] (m mod inner) = Inr ls"
    using assms(4) by (simp add: make_range_impl_def Let_def)
  have le: "m div inner \<le> ?o" using assms(2) by (auto intro: div_le_mono)
  then have split: "[m div inner..<?o + 1] = m div inner # [Suc (m div inner)..<?o + 1]"
    by (intro upt_conv_Cons) simp
  show ?thesis
  proof (cases "m div inner < ?o")
    case True
    define js where "js = [Suc (m div inner)..<?o + 1]"
    have js: "\<forall>j \<in> set js. j \<le> ?o" by (auto simp: js_def simp del: upt_Suc)
    obtain xs ls' where xs: "slice (m mod inner) (length (sb_buffers b ! (m div inner))) (sb_buffers b ! (m div inner)) = Inr xs"
      and ls: "ls = xs # ls'" and ls': "make_range_loop (sb_buffers b) ?o (n mod inner) js 0 = Inr ls'"
      using loop True unfolding split js_def [symmetric] by (auto simp: index_eq_Inr)
    have "m mod inner < inner" using inner by simp
    then have "xs \<noteq> []" using xs full [OF True] by (auto simp: slice_def)
    then show ?thesis using rest [OF ls' js] unfolding ls by simp
  next
    case False
    then have same: "m div inner = ?o" using le by simp
    then have loop: "make_range_loop (sb_buffers b) ?o (n mod inner) [?o] (m mod inner) = Inr ls"
      using loop unfolding split by simp
    have "m mod inner < n mod inner" if "m < n"
      using that same mod_div_mult_eq [of m inner] mod_div_mult_eq [of n inner]
      by (metis add_less_cancel_right)
    then have "m mod inner < n mod inner \<or> m mod inner = 0" using assms(2) by auto
    then show ?thesis using loop by (auto simp: slice_def index_eq_Inr split: if_splits)
  qed
qed

text \<open>The slices of a range are as many as the buffers it touches.\<close>

lemma make_range_loop_length:
  "make_range_loop bs e_o e_i is off = Inr ls \<Longrightarrow> length ls = length (filter (\<lambda>i. i \<noteq> e_o \<or> e_i \<noteq> 0) is)"
  by (induction bs e_o e_i "is" off arbitrary: ls rule: make_range_loop.induct) (auto split: if_splits)

lemma small_log_one_slice:
  assumes "bivec_holds inner outer b xs" "length xs \<le> inner" "make_range_impl inner 0 (length xs) b = Inr ls"
  shows "length ls \<le> 1"
proof -
  have "make_range_loop (sb_buffers b) (length xs div inner) (length xs mod inner)
      [0..<length xs div inner + 1] 0 = Inr ls"
    using assms(3) by (simp add: make_range_impl_def Let_def)
  note l = make_range_loop_length [OF this]
  have "length xs div inner = 0 \<or> length xs div inner = 1 \<and> length xs mod inner = 0"
    using assms(1,2) by (cases "length xs = inner") (auto simp: bivec_holds_def)
  then show ?thesis unfolding l by auto
qed

lemma recorded_log_replays:
  assumes "snapshots_of (bivec_holds inner outer) s xs"
  shows "\<exists>log. recorded_log (bivec_ops inner outer) s = Inr log \<and> replays \<lparr>ram_log = log\<rparr> xs"
proof -
  have h: "bivec_holds inner outer (ss_reads_buffer s) xs" using assms by (simp add: snapshots_of_def)
  from bivec.range_holds [OF h, of 0 "length xs"] bivec.len_holds [OF h] obtain log where
    log: "recorded_log (bivec_ops inner outer) s = Inr log" "concat log = xs"
    by (auto simp: recorded_log_def)
  have "make_range_impl inner 0 (length xs) (ss_reads_buffer s) = Inr log"
    using log(1) bivec.len_holds [OF h] by (simp add: recorded_log_def bivec_ops_def)
  then show ?thesis using log bivec_range_nonempty [OF h] by (auto simp: replays_def)
qed

section \<open>The counters of the families\<close>

fun counter_of :: "record_tag \<Rightarrow> DelegationsAndFamiliesCounters \<Rightarrow> nat" where
  "counter_of (CycleOf ADD_SUB_LUI_AUIPC_MOP) c = unat (fc_add_sub_family c)"
| "counter_of (CycleOf JUMP_BRANCH_SLT) c = unat (fc_slt_branch_family c)"
| "counter_of (CycleOf SHIFT_BINARY_CSR) c = unat (fc_binary_shift_csr_family c)"
| "counter_of (CycleOf MUL_DIV) c = unat (fc_mul_div_family c)"
| "counter_of (CycleOf LOAD_STORE_WORD_ONLY) c = unat (fc_word_size_mem_family c)"
| "counter_of (CycleOf LOAD_STORE_SUBWORD_ONLY) c = unat (fc_subword_size_mem_family c)"
| "counter_of (CycleOf REDUCED_MACHINE) c = 0"
| "counter_of (CallOf dt) c =
     (if dt = ucast BIGINT_OPS_WITH_CONTROL_CSR_REGISTER then unat (fc_bigint_calls c)
      else if dt = ucast BLAKE2S_DELEGATION_CSR_REGISTER then unat (fc_blake_calls c)
      else if dt = ucast KECCAK_SPECIAL5_CSR_REGISTER then unat (fc_keccak_calls c) else 0)"

lemma families_counts:
  assumes "families_log_multiple fam n c = Inr c'"
  shows "counter_of t c' = counter_of t c + (if t = CycleOf fam then unat n else 0)"
proof (cases t)
  case (CycleOf f)
  then show ?thesis using assms by (cases fam; cases f) (auto dest!: unat_add_u64)
next
  case (CallOf dt)
  then show ?thesis using assms by (cases fam) auto
qed

lemma event_counts:
  assumes "log_event families_counters e c = Inr c'"
  shows "counter_of t c' = counter_of t c + event_amount t e"
proof (cases e)
  case (LogFamily fam)
  then have "families_log_multiple fam 1 c = Inr c'" using assms by (simp add: families_counters_def)
  from families_counts [OF this, of t] LogFamily show ?thesis by (simp split: if_splits)
next
  case (LogMultiple fam n)
  then have "families_log_multiple fam n c = Inr c'" using assms by (simp add: families_counters_def)
  from families_counts [OF this, of t] LogMultiple show ?thesis by simp
qed (use assms in \<open>cases t; (rename_tac fam, case_tac fam)?;
    auto simp: families_counters_def csr_values dest!: unat_add_u64\<close>)+

lemma events_count:
  "log_events families_counters evs c = Inr c' \<Longrightarrow>
    counter_of t c' = counter_of t c + sum_list (map (event_amount t) evs)"
proof (induction evs arbitrary: c)
  case (Cons e evs)
  then obtain c1 where "log_event families_counters e c = Inr c1" "log_events families_counters evs c1 = Inr c'" by auto
  then show ?case using Cons.IH [of c1] event_counts [of e c c1 t] by simp
qed simp

lemma counter_of_zero [simp]: "counter_of t zero_counters = 0"
proof (cases t)
  case (CycleOf f)
  then show ?thesis by (cases f) (simp_all add: zero_counters_def)
qed (simp add: zero_counters_def)

lemma tallies_counters:
  assumes "log_events families_counters evs zero_counters = Inr c" "tallies evs rs"
  shows "records_tagged t rs = counter_of t c"
  using events_count [OF assms(1), of t] assms(2) by (simp add: tallies_def)

lemma cycles_counted:
  assumes "records_tagged (CycleOf REDUCED_MACHINE) rs = 0"
  shows "length (cycles_of rs) =
    records_tagged (CycleOf ADD_SUB_LUI_AUIPC_MOP) rs + records_tagged (CycleOf SHIFT_BINARY_CSR) rs +
    records_tagged (CycleOf JUMP_BRANCH_SLT) rs + records_tagged (CycleOf MUL_DIV) rs +
    records_tagged (CycleOf LOAD_STORE_WORD_ONLY) rs + records_tagged (CycleOf LOAD_STORE_SUBWORD_ONLY) rs"
  using assms
proof (induction rs)
  case (Cons r rs)
  have *: "tag_of r \<noteq> CycleOf REDUCED_MACHINE" "records_tagged (CycleOf REDUCED_MACHINE) rs = 0"
    using Cons.prems by (auto simp: records_tagged_def split: if_splits)
  show ?case
  proof (cases r)
    case (NonMemOf fam x)
    then show ?thesis using Cons.IH *
      by (cases fam) (simp_all add: records_tagged_def cycles_of_def)
  next
    case (MemOf fam x)
    then show ?thesis using Cons.IH *
      by (cases fam) (simp_all add: records_tagged_def cycles_of_def)
  qed (use Cons.IH * in \<open>simp add: records_tagged_def cycles_of_def\<close>)
qed (simp add: records_tagged_def cycles_of_def)

lemma delegations_counted: "length (delegations_of dt rs) = records_tagged (CallOf dt) rs"
proof (induction rs)
  case (Cons r rs)
  then show ?case by (cases r) (simp_all add: records_tagged_def delegations_of_def)
qed (simp add: records_tagged_def delegations_of_def)

section \<open>The run and its replay\<close>

interpretation rom_bivec_log: logged_run "rom_ram_ops bits" "\<lambda>r. length (backing r)" rom_word
  rom_last "\<lambda>i. rom_words bits \<le> i" "simple_snapshotter_ops (bivec_ops inner outer)"
  "snapshots_of (bivec_holds inner outer)" for bits inner outer
  by unfold_locales

interpretation rom_vec_log: logged_run "rom_ram_ops bits" "\<lambda>r. length (backing r)" rom_word
  rom_last "\<lambda>i. rom_words bits \<le> i" "simple_snapshotter_ops vec_buffer_ops"
  "snapshots_of (\<lambda>b xs. vb_data b = xs)" for bits
  by unfold_locales

text \<open>A run from a loaded memory, logged from the start, with a tape of the decoder: the state \<open>st\<close> it ends in and
  the snapshotter \<open>snap'\<close> it leaves behind.\<close>

definition recorded_run ::
  "nat \<Rightarrow> nat \<Rightarrow> nat \<Rightarrow> 'c counter_ops \<Rightarrow> 'n nd_ops \<Rightarrow> ruint_ops \<Rightarrow> (u32 \<Rightarrow> instruction res) \<Rightarrow> 'n \<Rightarrow> 'c \<Rightarrow>
    'c State \<Rightarrow> ('c, log_entry SpecBiVec) SimpleSnapshotter \<Rightarrow> bool" where
  "recorded_run bits inner outer C ND U tape nd c st snap' \<longleftrightarrow>
     replay_tape tape \<and> ruint_documented U \<and>
     (\<exists>content total_size ram limit snap N ended ram' nd'.
        from_rom_content bits content total_size = Inr ram \<and>
        new_with_cycle_limit (bivec_ops inner outer) limit (initial_with_counters c) = Inr snap \<and>
        run_basic_unrolled C (simple_snapshotter_ops (bivec_ops inner outer)) (rom_ram_ops bits) ND U tape N
          (initial_with_counters c) ram snap nd = Inr (ended, st, ram', snap', nd'))"

text \<open>The replay of such a run: \<open>replay_basic_unrolled\<close> from the initial state on the slices \<open>log\<close>, for as many cycles
  as the run took.\<close>

definition replay_recorded ::
  "'t tracer_ops \<Rightarrow> nat \<Rightarrow> 'n nd_ops \<Rightarrow> ruint_ops \<Rightarrow> (u32 \<Rightarrow> instruction res) \<Rightarrow> 'c State \<Rightarrow> log_entry list list \<Rightarrow>
    'c \<Rightarrow> 'n \<Rightarrow> 't \<Rightarrow> ('c State \<times> ReplayerRam \<times> 'n \<times> 't) res" where
  "replay_recorded T bits ND U tape expected log d nd t =
     replay_basic_unrolled T (replayer_ram_ops bits) ND True U tape
       ((st_ts expected - INITIAL_TIMESTAMP) div TIMESTAMP_STEP) (initial_with_counters d) \<lparr>ram_log = log\<rparr> nd t"

text \<open>A replay for the cycles between two times is a replay up to the second.\<close>

lemma replay_cycles_bound:
  assumes "unat t' mod 4 = 0" "unat (st_ts st) mod 4 = 0" "unat (st_ts st) \<le> unat t'"
  shows "replay_basic_unrolled T R ND stub U tape ((t' - st_ts st) div TIMESTAMP_STEP) st ram nd t =
    replay_by_timestamp_bound T R ND stub U tape t' st ram nd t"
proof -
  let ?d = "t' - st_ts st"
  have d: "unat ?d = unat t' - unat (st_ts st)"
    using assms(3) by (intro unat_sub) (simp add: word_le_nat_alt)
  then have "unat ?d mod 4 = 0" using assms by (metis dvd_diff_nat mod_eq_0_iff_dvd)
  then have n: "unat TIMESTAMP_STEP * unat (?d div TIMESTAMP_STEP) = unat ?d"
    by (simp add: TIMESTAMP_STEP_def unat_div dvd_mult_div_cancel mod_eq_0_iff_dvd)
  then have p: "TIMESTAMP_STEP * (?d div TIMESTAMP_STEP) = ?d"
    using u64_bound [of ?d] by (simp add: word_unat_eq_iff unat_word_ariths)
  have "unat (st_ts st) + unat ?d < 2 ^ 64" "unat ?d < 2 ^ 64"
    using d assms(3) u64_bound [of t'] u64_bound [of ?d] by simp_all
  then show ?thesis by (simp add: replay_basic_unrolled_def mul_u64_def add_u64_def n p)
qed

lemma replay_recorded_bound:
  assumes "unat (st_ts st) mod 4 = 0" "4 \<le> unat (st_ts st)"
  shows "replay_recorded T bits ND U tape st log d nd t =
    replay_by_timestamp_bound T (replayer_ram_ops bits) ND True U tape (st_ts st) (initial_with_counters d)
      \<lparr>ram_log = log\<rparr> nd t"
  using replay_cycles_bound [of "st_ts st" "initial_with_counters d" T "replayer_ram_ops bits" ND True U tape] assms
  by (simp add: replay_recorded_def initial_with_counters_def INITIAL_TIMESTAMP_def)

lemma recorded_run_time:
  assumes "recorded_run bits inner outer C ND U tape nd c st snap'"
  shows "unat (st_ts st) mod 4 = 0" "4 \<le> unat (st_ts st)"
proof -
  obtain content total_size ram limit snap N ended ram' nd' where
    "from_rom_content bits content total_size = Inr ram"
    "run_basic_unrolled C (simple_snapshotter_ops (bivec_ops inner outer)) (rom_ram_ops bits) ND U tape N
      (initial_with_counters c) ram snap nd = Inr (ended, st, ram', snap', nd')"
    using assms unfolding recorded_run_def by blast
  then show "unat (st_ts st) mod 4 = 0" "4 \<le> unat (st_ts st)"
    using rom.inv_run_basic_unrolled [OF _ loaded_inv] rom_bivec_log.ts_run_basic_unrolled
    by (fastforce simp: rom.machine_inv_def cycle_at_def initial_with_counters_def INITIAL_TIMESTAMP_def)+
qed

lemma recorded_run_logged:
  assumes "recorded_run bits inner outer C ND U tape nd c st snap'"
  shows "\<exists>xs. snapshots_of (bivec_holds inner outer) snap' xs"
proof -
  obtain content total_size ram limit snap N ended ram' nd' where
    ram: "from_rom_content bits content total_size = Inr ram" and
    snap: "new_with_cycle_limit (bivec_ops inner outer) limit (initial_with_counters c) = Inr snap" and
    run: "run_basic_unrolled C (simple_snapshotter_ops (bivec_ops inner outer)) (rom_ram_ops bits) ND U tape N
      (initial_with_counters c) ram snap nd = Inr (ended, st, ram', snap', nd')" and
    tape: "replay_tape tape" and U: "ruint_documented U"
    using assms unfolding recorded_run_def by blast
  from rom_bivec_log.run_replayed [where ND' = ND and ?nd2.0 = nd, OF run loaded_inv [OF ram]
      bivec_log.snapshots_of_new [OF snap] tape U]
  show ?thesis unfolding rom_bivec_log.run_replayed_def append_Nil by blast
qed

lemma recorded_run_one_slice:
  assumes "recorded_run bits inner (Suc 0) C ND U tape nd c st snap'"
    "recorded_log (bivec_ops inner (Suc 0)) snap' = Inr log"
  shows "length log \<le> 1"
proof -
  obtain xs where "snapshots_of (bivec_holds inner (Suc 0)) snap' xs"
    using recorded_run_logged [OF assms(1)] by blast
  then have h: "bivec_holds inner (Suc 0) (ss_reads_buffer snap') xs" by (simp add: snapshots_of_def)
  then obtain buf where "sb_buffers (ss_reads_buffer snap') = [buf]" "xs = buf" "length buf \<le> inner"
    by (auto simp: bivec_holds_def length_Suc_conv)
  moreover have "make_range_impl inner 0 (length xs) (ss_reads_buffer snap') = Inr log"
    using assms(2) bivec.len_holds [OF h] by (simp add: recorded_log_def bivec_ops_def)
  ultimately show ?thesis using small_log_one_slice [OF h] by simp
qed

lemma recorded_run_replayed:
  assumes "recorded_run bits inner outer C ND U tape nd c st snap'"
  shows "\<exists>evs recs log. log_events C evs c = Inr (st_counters st) \<and> tallies evs recs \<and>
    (\<forall>r \<in> set recs. traced_sound U r) \<and> recorded_log (bivec_ops inner outer) snap' = Inr log \<and>
    replay_recorded collect_tracer bits ND' U tape st log d nd2 [] =
      Inr (with_counters st d, \<lparr>ram_log = []\<rparr>, nd2, recs) \<and> [] \<notin> set log"
proof -
  obtain content total_size ram limit snap N ended ram' nd' where
    ram: "from_rom_content bits content total_size = Inr ram" and
    snap: "new_with_cycle_limit (bivec_ops inner outer) limit (initial_with_counters c) = Inr snap" and
    run: "run_basic_unrolled C (simple_snapshotter_ops (bivec_ops inner outer)) (rom_ram_ops bits) ND U tape N
      (initial_with_counters c) ram snap nd = Inr (ended, st, ram', snap', nd')" and
    tape: "replay_tape tape" and U: "ruint_documented U"
    using assms unfolding recorded_run_def by blast
  have c: "st_counters (initial_with_counters c) = c" "with_counters (initial_with_counters c) d = initial_with_counters d"
    by (simp_all add: initial_with_counters_def)
  obtain es evs new where es: "snapshots_of (bivec_holds inner outer) snap' es"
    and evs: "log_events C evs c = Inr (st_counters st)" "tallies evs new" "\<forall>r \<in> set new. traced_sound U r"
    and mr: "\<forall>rram zs. replays rram (es @ zs) \<longrightarrow> (\<exists>rram'. replay_by_timestamp_bound collect_tracer
      (replayer_ram_ops bits) ND' True U tape (st_ts st) (initial_with_counters d) rram nd2 [] =
      Inr (with_counters st d, rram', nd2, new) \<and> replays rram' zs \<and> (one_slice rram \<longrightarrow> one_slice rram'))"
    using rom_bivec_log.run_replayed [where ?nd2.0 = nd2 and bits = bits and ND' = ND' and d = d and rs = "[]",
        OF run loaded_inv [OF ram] bivec_log.snapshots_of_new [OF snap] tape U]
    unfolding rom_bivec_log.run_replayed_def c append_Nil by blast
  obtain log where log: "recorded_log (bivec_ops inner outer) snap' = Inr log" "replays \<lparr>ram_log = log\<rparr> es"
    using recorded_log_replays [OF es] by blast
  then have "replays \<lparr>ram_log = log\<rparr> (es @ [])" by simp
  from mr [rule_format, OF this] obtain rram' where *: "replay_by_timestamp_bound collect_tracer
      (replayer_ram_ops bits) ND' True U tape (st_ts st) (initial_with_counters d) \<lparr>ram_log = log\<rparr> nd2 [] =
      Inr (with_counters st d, rram', nd2, new)" "replays rram' []" by blast
  then have "rram' = \<lparr>ram_log = []\<rparr>" by (cases rram'; cases "ram_log rram'") (auto simp: replays_def)
  then have "replay_recorded collect_tracer bits ND' U tape st log d nd2 [] =
      Inr (with_counters st d, \<lparr>ram_log = []\<rparr>, nd2, new)"
    using * by (simp add: replay_recorded_bound [OF recorded_run_time [OF assms]])
  moreover have "[] \<notin> set log" using log(2) by (simp add: replays_def)
  ultimately show ?thesis using evs log(1) by blast
qed

text \<open>With the counters of the families: a record per counted cycle and call, and a cycle per 4 ticks.\<close>

lemma recorded_cycles:
  assumes "recorded_run bits inner outer families_counters ND U tape nd zero_counters st snap'"
  shows "4 * families_cycles (st_counters st) + 4 = unat (st_ts st)"
proof -
  obtain ram snap N ended ram' nd' where "run_basic_unrolled families_counters
      (simple_snapshotter_ops (bivec_ops inner outer)) (rom_ram_ops bits) ND U tape N
      (initial_with_counters zero_counters) ram snap nd = Inr (ended, st, ram', snap', nd')"
    using assms unfolding recorded_run_def by blast
  from families.count_run [OF this] show ?thesis
    by (simp add: counts_def initial_with_counters_def INITIAL_TIMESTAMP_def zero_counters_def families_cycles_def)
qed

section \<open>The tracers of a replay\<close>

context witness_tracer
begin

text \<open>On a log of one slice a tracer of the contract ends with the records it takes.\<close>

lemma recorded_run_traced:
  assumes run: "recorded_run bits inner outer C ND0 U tape nd0 c st snap'" and start: "holds t []"
    and log: "recorded_log (bivec_ops inner outer) snap' = Inr log" "length log \<le> 1"
  shows "\<exists>evs recs t'. log_events C evs c = Inr (st_counters st) \<and> tallies evs recs \<and>
    (\<forall>r \<in> set recs. traced_sound U r) \<and>
    replay_recorded collect_tracer bits ND U tape st log d nd [] =
      Inr (with_counters st d, \<lparr>ram_log = []\<rparr>, nd, recs) \<and>
    replay_recorded T bits ND U tape st log d nd t = Inr (with_counters st d, \<lparr>ram_log = []\<rparr>, nd, t') \<and>
    holds t' (filter kept recs)"
proof -
  obtain evs recs where evs: "log_events C evs c = Inr (st_counters st)" "tallies evs recs"
    "\<forall>r \<in> set recs. traced_sound U r" and
    replay: "replay_recorded collect_tracer bits ND U tape st log d nd [] =
      Inr (with_counters st d, \<lparr>ram_log = []\<rparr>, nd, recs)" and ne: "[] \<notin> set log"
    using recorded_run_replayed [OF run, where ND' = ND and d = d and ?nd2.0 = nd] log(1) by auto
  have single: "\<lparr>ram_log = log\<rparr> = single_log (concat log)"
    using log(2) ne by (intro single_logI) (simp_all add: replays_def one_slice_def)
  note bound = replay_recorded_bound [OF recorded_run_time [OF run]]
  have "\<forall>r \<in> set recs. traced_fits r" using evs(3) sound_fits by blast
  from loop_projected [OF replay [unfolded bound single] start this] obtain t' where
    "holds t' (filter kept recs)" "replay_recorded T bits ND U tape st log d nd t =
      Inr (with_counters st d, \<lparr>ram_log = []\<rparr>, nd, t')"
    unfolding bound single by auto
  then show ?thesis using evs replay by blast
qed

lemma counted_run_traced:
  assumes "recorded_run bits inner outer families_counters ND0 U tape nd0 zero_counters st snap'" "holds t []"
    "recorded_log (bivec_ops inner outer) snap' = Inr log" "length log \<le> 1"
  shows "\<exists>recs t'. (\<forall>k. records_tagged k recs = counter_of k (st_counters st)) \<and>
    (\<forall>r \<in> set recs. traced_sound U r) \<and> holds t' (filter kept recs) \<and>
    replay_recorded T bits ND U tape st log d nd t = Inr (with_counters st d, \<lparr>ram_log = []\<rparr>, nd, t')"
proof -
  obtain evs recs t' where "log_events families_counters evs zero_counters = Inr (st_counters st)" "tallies evs recs"
    "\<forall>r \<in> set recs. traced_sound U r" "holds t' (filter kept recs)"
    "replay_recorded T bits ND U tape st log d nd t = Inr (with_counters st d, \<lparr>ram_log = []\<rparr>, nd, t')"
    using recorded_run_traced [where ND = ND and d = d and nd = nd, OF assms] by blast
  then show ?thesis using tallies_counters by blast
qed

lemma kept_of:
  "takes_delegation dt \<Longrightarrow> delegations_of dt (filter kept xs) = delegations_of dt xs"
  "takes_family fam \<Longrightarrow> non_mems_of fam (filter kept xs) = non_mems_of fam xs"
  "takes_family fam \<Longrightarrow> mems_of fam (filter kept xs) = mems_of fam xs"
  "\<forall>fam. takes_family fam \<Longrightarrow> cycles_of (filter kept xs) = cycles_of xs"
  by (induction xs; simp add: records_of split: traced.splits)+

end

lemma delegation_member: "w \<in> set (delegations_of dt rs) \<Longrightarrow> DelegationOf dt w \<in> set rs"
  by (auto simp: delegations_of_def split: traced.splits if_splits)

text \<open>The holders of the three delegations, from their contract.\<close>

lemma delegation_holder_complete:
  assumes H: "witness_tracer H (\<lambda>h xs. holder_keeps (length (concat buffers)) (delegations_of dt xs) h) (\<lambda>fam. False)
      (\<lambda>d. d = dt)"
    and run: "recorded_run bits inner outer families_counters ND0 U tape nd0 zero_counters st snap'"
    and log: "recorded_log (bivec_ops inner outer) snap' = Inr log" "length log \<le> 1" and bufs: "[] \<notin> set buffers"
  shows "\<exists>h ws. replay_recorded H bits ND U tape st log d nd (make_holder buffers) =
      Inr (with_counters st d, \<lparr>ram_log = []\<rparr>, nd, h) \<and>
    length ws = counter_of (CallOf dt) (st_counters st) \<and> (\<forall>w \<in> set ws. traced_sound U (DelegationOf dt w)) \<and>
    dh_filled h = take (length (concat buffers)) ws"
proof -
  have start: "holder_keeps (length (concat buffers)) (delegations_of dt []) (make_holder buffers)"
    using make_holder_keeps [OF bufs] by (simp add: delegations_of_def)
  obtain recs h where r: "\<forall>k. records_tagged k recs = counter_of k (st_counters st)" "\<forall>r \<in> set recs. traced_sound U r"
    "holder_keeps (length (concat buffers))
      (delegations_of dt (filter (witness_tracer.kept (\<lambda>fam. False) (\<lambda>d. d = dt)) recs)) h"
    "replay_recorded H bits ND U tape st log d nd (make_holder buffers) =
      Inr (with_counters st d, \<lparr>ram_log = []\<rparr>, nd, h)"
    using witness_tracer.counted_run_traced [where ND = ND and d = d and nd = nd, OF H run start log] by blast
  have "dh_filled h = take (length (concat buffers)) (delegations_of dt recs)"
    using r(3) by (simp add: holder_keeps_def witness_tracer.kept_of(1) [OF H])
  moreover have "\<forall>w \<in> set (delegations_of dt recs). traced_sound U (DelegationOf dt w)"
    using r(2) delegation_member by blast
  moreover have "length (delegations_of dt recs) = counter_of (CallOf dt) (st_counters st)"
    using r(1) delegations_counted [of dt recs] by (simp only:)
  ultimately show ?thesis using r(4) by blast
qed

end
