(* ===== verification/Replay_Properties.thy ===== *)
theory Replay_Properties
  imports Replay_Runs VM_Delegation_Properties IR_Properties
begin

text \<open>
  What the replayer guarantees: the log of a run is enough to repeat it, the records of the repetition are as many as
  the machine counted, the witnesses of the delegations are right, and every destination receives the records it is
  for.
\<close>

section \<open>An instance\<close>

text \<open>A program that stores 5 in the memory, loads it, squares it into register 4, and jumps to itself.\<close>

definition memory_program :: "instruction list" where
  "memory_program =
     [from_imm Lui 0 0 1 0x10000, from_imm Addi 0 0 2 5, from_imm Sw 1 2 0 4, from_imm Lw 1 0 3 4,
      from_imm Mul 3 2 4 0, from_imm Jal 0 0 0 0]"

lemma csr_free_memory: "csr_free (read_instruction memory_program)"
proof -
  have "\<forall>i \<in> set memory_program. wf_instr i \<and>
      i_name i \<notin> {ZicsrDelegation, ZicsrNonDeterminismRead, ZicsrNonDeterminismWrite}"
    by (simp add: memory_program_def from_imm_def wf_instr_def)
  then show ?thesis
    by (auto simp: csr_free_def read_instruction_def Let_def get_unchecked_eq_Inr)
qed

lemma csr_free_replays: "csr_free tape \<Longrightarrow> replay_tape tape"
  by (auto simp: csr_free_def replay_tape_def replay_instr_def)



lemma isa_word_access:
  "isa_load 4 m a = unat (m a) + 256 * (unat (m (a + 1)) + 256 * (unat (m (a + 2)) + 256 * unat (m (a + 3))))"
  "isa_store 4 v m a = m(a := word_of_nat v, a + 1 := word_of_nat (v div 256),
     a + 2 := word_of_nat (v div 65536), a + 3 := word_of_nat (v div 16777216))"
proof -
  have four: "(4 :: nat) = Suc (Suc (Suc (Suc 0)))" by simp
  show "isa_load 4 m a = unat (m a) + 256 * (unat (m (a + 1)) + 256 * (unat (m (a + 2)) + 256 * unat (m (a + 3))))"
    "isa_store 4 v m a = m(a := word_of_nat v, a + 1 := word_of_nat (v div 256),
       a + 2 := word_of_nat (v div 65536), a + 3 := word_of_nat (v div 16777216))"
    unfolding four by (simp_all add: div_mult2_eq [symmetric] numeral_2_eq_2 numeral_3_eq_3)
qed

lemma memory_run:
  "\<exists>s. isa_run 131072 65536 (program_of (read_instruction memory_program)) 6 (isa_of m start) = Some (True, s) \<and>
     isa_regs s ! 4 = 25"
proof -
  have six: "(6 :: nat) = Suc (Suc (Suc (Suc (Suc (Suc 0)))))" by simp
  show ?thesis
    unfolding six
    by (simp add: program_of_def read_instruction_def memory_program_def from_imm_def
      isa_step_def Let_def get_unchecked_def isa_alu_words isa_jump_def isa_write_def isa_of_def
      initial_with_counters_def reg_vals_def isa_extend_def isa_word_access)
qed

lemma memory_log: "\<exists>snap. new_with_cycle_limit (bivec_ops 128 1) 128 st = Inr snap"
  by (simp add: new_with_cycle_limit_def bivec_ops_def bivec_new_def)

lemma memory_recorded:
  assumes "ruint_documented U"
  shows "\<exists>st snap'. recorded_run 0 128 1 families_counters unit_nd U (read_instruction memory_program) ()
    zero_counters st snap' \<and> reg_vals st ! 4 = 25"
proof -
  obtain ram where ram: "from_rom_content 0 [] 131072 = Inr ram" using empty_rom_loads by blast
  obtain snap where snap: "new_with_cycle_limit (bivec_ops 128 1) 128 start = Inr snap"
    using memory_log by blast
  have "families_machine.loop_state 128 1 6 start ram snap"
    using loaded_loop_state [OF ram snap] by simp
  from families_machine.run_refines [where bits = 0 and ND = unit_nd and U = U and nd = "()",
      OF this csr_free_memory refl]
  obtain st ram' snap' where
    "run_basic_unrolled families_counters (simple_snapshotter_ops (bivec_ops 128 1)) (rom_ram_ops 0)
       unit_nd U (read_instruction memory_program) 6 start ram snap () = Inr (True, st, ram', snap', ())"
    "reg_vals st ! 4 = 25"
    using from_rom_content_rom(1,2) [OF ram] memory_run [of "rom_word ram"] by (auto simp: isa_of_def)
  then show ?thesis
    unfolding recorded_run_def using ram snap csr_free_replays [OF csr_free_memory] assms by blast
qed


lemma memory_logged:
  "\<exists>st snap' log. recorded_run 0 128 1 families_counters unit_nd nat_ruint (read_instruction memory_program) ()
    zero_counters st snap' \<and> recorded_log (bivec_ops 128 1) snap' = Inr log \<and> length log \<le> 1 \<and> reg_vals st ! 4 = 25"
proof -
  obtain st snap' where r: "recorded_run 0 128 1 families_counters unit_nd nat_ruint (read_instruction memory_program) ()
    zero_counters st snap'" "reg_vals st ! 4 = 25" using memory_recorded [OF nat_ruint_documented] by blast
  then obtain log where "recorded_log (bivec_ops 128 1) snap' = Inr log"
    using recorded_run_replayed [OF r(1), where ND' = unit_nd and d = zero_counters and ?nd2.0 = "()"] by blast
  then show ?thesis using r recorded_run_one_slice [of 0 128 families_counters] by fastforce
qed

section \<open>The replay of a run\<close>

text \<open>
  C23: the log is enough to replay a run.  Whatever program of the decoder ran from a loaded memory, delegations and
  non-determinism included, the replay of the recorded log for as many cycles ends with the machine's registers
  (values and times), program counter and time, takes every entry of the log and nothing else, and never meets a
  debug assertion, an overflow or the end of the log; it needs neither the memory nor the machine's source.
\<close>

theorem replay_reproduces_run:
  assumes "recorded_run bits inner outer C ND U tape nd c st snap'"
  shows "\<exists>log recs. recorded_log (bivec_ops inner outer) snap' = Inr log \<and>
    replay_recorded collect_tracer bits ND' U tape st log d nd' [] =
      Inr (with_counters st d, \<lparr>ram_log = []\<rparr>, nd', recs)"
  using recorded_run_replayed [OF assms, where ND' = ND' and d = d and ?nd2.0 = nd'] by blast

theorem replay_reproduces_run_witness:
  "\<exists>st log recs. replay_recorded collect_tracer 0 unit_nd nat_ruint (read_instruction memory_program) st log
     zero_counters () [] = Inr (with_counters st zero_counters, \<lparr>ram_log = []\<rparr>, (), recs) \<and> reg_vals st ! 4 = 25"
proof -
  obtain st snap' where r: "recorded_run 0 128 1 families_counters unit_nd nat_ruint (read_instruction memory_program) ()
    zero_counters st snap'" "reg_vals st ! 4 = 25" using memory_logged by blast
  show ?thesis
    using replay_reproduces_run [OF r(1), where ND' = unit_nd and d = zero_counters and nd' = "()"] r(2) by blast
qed

text \<open>
  C24: the counters of the machine are the numbers of records.  The replay collects one record for every cycle of the
  machine, in the family the machine counted it in, and one witness for every invocation of the circuit of a
  delegation, so buffers sized by the counters are sized exactly.
\<close>

theorem replay_records_counted:
  assumes "recorded_run bits inner outer families_counters ND U tape nd zero_counters st snap'"
  shows "\<exists>log recs. recorded_log (bivec_ops inner outer) snap' = Inr log \<and>
    replay_recorded collect_tracer bits ND' U tape st log d nd' [] =
      Inr (with_counters st d, \<lparr>ram_log = []\<rparr>, nd', recs) \<and>
    (\<forall>t. records_tagged t recs = counter_of t (st_counters st))"
  using recorded_run_replayed [OF assms, where ND' = ND' and d = d and ?nd2.0 = nd'] tallies_counters by blast

theorem replay_records_counted_witness:
  "\<exists>st log recs. replay_recorded collect_tracer 0 unit_nd nat_ruint (read_instruction memory_program) st log
     zero_counters () [] = Inr (with_counters st zero_counters, \<lparr>ram_log = []\<rparr>, (), recs) \<and>
     records_tagged (CycleOf MUL_DIV) recs = unat (fc_mul_div_family (st_counters st))"
proof -
  obtain st snap' where r: "recorded_run 0 128 1 families_counters unit_nd nat_ruint (read_instruction memory_program) ()
    zero_counters st snap'" using memory_logged by blast
  from replay_records_counted [OF r, where ND' = unit_nd and d = zero_counters and nd' = "()"]
  obtain log recs where "replay_recorded collect_tracer 0 unit_nd nat_ruint (read_instruction memory_program) st log
     zero_counters () [] = Inr (with_counters st zero_counters, \<lparr>ram_log = []\<rparr>, (), recs)"
    "\<forall>t. records_tagged t recs = counter_of t (st_counters st)" by blast
  then show ?thesis by (metis counter_of.simps(4))
qed

text \<open>
  C25: every tracer sees the same run.  A replay of a log of one slice with any tracer that satisfies the contract of
  \<open>WitnessTracer\<close>, that skips what it does not need, ends in the state of the replay that collects everything,
  and its tracer holds exactly the collected records of the kinds it takes, in order.
\<close>

theorem replay_tracers_agree:
  assumes "witness_tracer T holds takes_family takes_delegation" "holds t []"
    and "recorded_run bits inner outer C ND0 U tape nd0 c st snap'"
    and "recorded_log (bivec_ops inner outer) snap' = Inr log" "length log \<le> 1"
  shows "\<exists>recs t'. replay_recorded collect_tracer bits ND U tape st log d nd [] =
      Inr (with_counters st d, \<lparr>ram_log = []\<rparr>, nd, recs) \<and>
    replay_recorded T bits ND U tape st log d nd t = Inr (with_counters st d, \<lparr>ram_log = []\<rparr>, nd, t') \<and>
    holds t' (filter (witness_tracer.kept takes_family takes_delegation) recs)"
  using witness_tracer.recorded_run_traced [where ND = ND and d = d and nd = nd, OF assms(1,3,2,4,5)] by blast

theorem replay_tracers_agree_witness:
  "\<exists>st log. replay_recorded unit_tracer 0 unit_nd nat_ruint (read_instruction memory_program) st log
     zero_counters () () = Inr (with_counters st zero_counters, \<lparr>ram_log = []\<rparr>, (), ()) \<and> reg_vals st ! 4 = 25"
proof -
  obtain st snap' log where r: "recorded_run 0 128 1 families_counters unit_nd nat_ruint (read_instruction memory_program)
    () zero_counters st snap'" "recorded_log (bivec_ops 128 1) snap' = Inr log" "length log \<le> 1" "reg_vals st ! 4 = 25"
    using memory_logged by blast
  from replay_tracers_agree [OF unit_trace.witness_tracer_axioms, OF _ r(1-3), where t = "()" and ND = unit_nd
      and d = zero_counters and nd = "()"] r(4)
  show ?thesis by auto
qed

section \<open>Destinations\<close>









section \<open>Programs\<close>

text \<open>
  C30: the decoder feeds the replayer.  Every instruction of a preprocessed program has the operands the replay assumes,
  under every configuration: in particular a write to the source names register 0 as its destination, which the
  machine writes where the replay only touches register 0.
\<close>

theorem decoder_feeds_replayer:
  assumes "preprocess_bytecode opt code = Inr instrs"
  shows "replay_tape (read_instruction instrs)"
proof -
  have "replay_instr i" if "canonical i \<or> i = illegal_instr" for i
    using that by (cases "i_name i") (auto simp: replay_instr_def wf_instr_def canonical_def illegal_instr_def Let_def)
  moreover have "replay_instr (from_imm ZicsrDelegation 0 0 0 imm)" for imm
    by (simp add: replay_instr_def wf_instr_def from_imm_def)
  ultimately have "\<forall>j < length instrs. replay_instr (instrs ! j)"
    using preprocess_slots [OF assms] by (fastforce simp: decodes_as_def split: if_splits dest!: decode_at_kinds)
  then show ?thesis
    by (auto simp: replay_tape_def read_instruction_def Let_def get_unchecked_eq_Inr in_set_conv_nth)
qed

theorem decoder_feeds_replayer_witness: "replay_tape (read_instruction [from_imm Remu 31 2 3 0])"
proof -
  have "preprocess_bytecode FullUnsignedMachineDecoderConfig [0x022ff1b3] = Inr [from_imm Remu 31 2 3 0]"
    by code_simp
  then show ?thesis by (rule decoder_feeds_replayer)
qed



text \<open>
  C32: a program of the reference machine that ends is run and replayed to its end.  When the reference machine reaches
  its end within the bound, the machine, with a log of that capacity, does too, its log fits in one slice, and
  the replay that traces nothing ends with the reference machine's registers and program counter.
\<close>

theorem ended_program_replays:
  assumes "from_rom_content bits content total_size = Inr ram"
    and "csr_free tape" "ruint_documented U" "N + 61 \<le> limit" "limit \<le> 2 ^ 36" "N < 2 ^ 62 - 1"
    and "isa_run (unat total_size) (2 ^ (16 + bits)) (program_of tape) N
      (isa_of (rom_word ram) (initial_with_counters zero_counters)) = Some (True, s)"
  shows "\<exists>snap st ram' snap' log.
    new_with_cycle_limit (bivec_ops limit 1) limit (initial_with_counters zero_counters) = Inr snap \<and>
    run_basic_unrolled families_counters (simple_snapshotter_ops (bivec_ops limit 1)) (rom_ram_ops bits) ND U tape N
      (initial_with_counters zero_counters) ram snap nd = Inr (True, st, ram', snap', nd) \<and>
    recorded_log (bivec_ops limit 1) snap' = Inr log \<and>
    replay_recorded unit_tracer bits ND U tape st log zero_counters nd () =
      Inr (with_counters st zero_counters, \<lparr>ram_log = []\<rparr>, nd, ()) \<and>
    isa_of (rom_word ram') st = s"
proof -
  obtain snap where snap: "new_with_cycle_limit (bivec_ops limit 1) limit start = Inr snap"
    using assms(4,5) by (auto simp: new_with_cycle_limit_def bivec_ops_def bivec_new_def guardE_def)
  from families_machine.run_refines [where bits = bits and ND = ND and U = U and nd = nd,
      OF loaded_loop_state [OF assms(1) snap assms(4,6)] assms(2) refl] assms(7)
  obtain st ram' snap' where
    run: "run_basic_unrolled families_counters (simple_snapshotter_ops (bivec_ops limit 1)) (rom_ram_ops bits) ND U tape N
       start ram snap nd = Inr (True, st, ram', snap', nd)" and s: "isa_of (rom_word ram') st = s"
    using from_rom_content_rom(1,2) [OF assms(1)] by auto
  have r: "recorded_run bits limit 1 families_counters ND U tape nd zero_counters st snap'"
    unfolding recorded_run_def using csr_free_replays [OF assms(2)] assms(1,3) snap run by blast
  from recorded_run_replayed [where ND' = ND and d = zero_counters and ?nd2.0 = nd, OF this]
  obtain log where log: "recorded_log (bivec_ops limit 1) snap' = Inr log" by blast
  have one: "length log \<le> 1" using recorded_run_one_slice [of bits limit families_counters] r log by fastforce
  from unit_trace.recorded_run_traced [where ND = ND and d = zero_counters and nd = nd and t = "()",
      OF r TrueI log one]
  show ?thesis using snap run log s by auto
qed

theorem ended_program_replays_witness:
  "\<exists>st log ram'. replay_recorded unit_tracer 0 unit_nd nat_ruint (read_instruction memory_program) st log zero_counters
     () () = Inr (with_counters st zero_counters, \<lparr>ram_log = []\<rparr>, (), ()) \<and>
     isa_regs (isa_of (rom_word ram') st) ! 4 = 25"
proof -
  obtain ram where ram: "from_rom_content 0 [] 131072 = Inr ram" using empty_rom_loads by blast
  obtain s where s: "isa_run 131072 65536 (program_of (read_instruction memory_program)) 6
      (isa_of (rom_word ram) start) = Some (True, s)" "isa_regs s ! 4 = 25"
    using memory_run by blast
  show ?thesis
    using ended_program_replays [where N = 6 and limit = 67 and ND = unit_nd and nd = "()" and s = s,
        OF ram csr_free_memory nat_ruint_documented] s by auto
qed

end
