(* ===== verification/Prover_Jobs.thy ===== *)
theory Prover_Jobs
  imports Replay_Runs
begin

text \<open>
  The parallel replay of the prover (\<open>prover/src/witness_evaluator/unrolled/mod.rs\<close>): for one kind of record, the
  snapshots of a run are split over the cores so that each gets about as many records, every core replays its
  snapshots into its part of the circuits' buffers, and the buffers become the witnesses.  The jobs write disjoint
  parts of the buffers and share nothing else that changes, so the order in which the cores finish does not matter:
  the model runs them in the order they are spawned.
\<close>

section \<open>Jobs\<close>

text \<open>A part of a buffer: its circuit and the range in it.\<close>

type_synonym chunk = "nat \<times> nat \<times> nat"

record 'c job =
  jb_start :: "'c State"
  jb_expected :: "'c State"
  jb_ram_range :: "nat \<times> nat"
  jb_cycles :: u64
  jb_chunks :: "chunk list"

text \<open>The loop \<open>'inner\<close>: snapshots are taken until the job has its share of the calls or none is left.\<close>

fun take_snapshots ::
  "('c \<Rightarrow> nat res) \<Rightarrow> nat \<Rightarrow> 'c SimpleSnapshot \<Rightarrow> 'c SimpleSnapshot \<Rightarrow> 'c SimpleSnapshot list \<Rightarrow>
    ('c SimpleSnapshot \<times> 'c SimpleSnapshot list) res" where
  "take_snapshots calls average starting current snapshots =
     bindE (calls (st_counters (sn_state current))) (\<lambda>c.
     bindE (calls (st_counters (sn_state starting))) (\<lambda>s.
     bindE (guardE (s \<le> c) ArithOverflow) (\<lambda>_.
     if c - s < average
     then (case snapshots of
             [] \<Rightarrow> Inr (current, [])
           | next_snapshot # rest \<Rightarrow> take_snapshots calls average starting next_snapshot rest)
     else Inr (current, snapshots))))"

declare take_snapshots.simps [simp del]

text \<open>The loop over \<open>start_chunk_idx..=end_chunk_idx\<close>, with \<open>n\<close> buffers of \<open>per\<close> elements.\<close>

fun chunk_ranges :: "nat \<Rightarrow> nat \<Rightarrow> nat \<Rightarrow> nat \<Rightarrow> nat list \<Rightarrow> nat \<Rightarrow> chunk list res" where
  "chunk_ranges per n end_idx end_offset [] offset = Inr []"
| "chunk_ranges per n end_idx end_offset (src_chunk # rest) offset =
     (if src_chunk = end_idx
      then if offset < end_offset
           then bindE (guardE (src_chunk < n \<and> end_offset \<le> per) IndexOutOfBounds) (\<lambda>_.
                bindE (chunk_ranges per n end_idx end_offset rest end_offset) (\<lambda>chunks.
                Inr ((src_chunk, offset, end_offset) # chunks)))
           else chunk_ranges per n end_idx end_offset rest offset
      else bindE (guardE (src_chunk < n \<and> offset \<le> per) IndexOutOfBounds) (\<lambda>_.
           bindE (chunk_ranges per n end_idx end_offset rest 0) (\<lambda>chunks.
           Inr ((src_chunk, offset, per) # chunks))))"

definition plan_job ::
  "('c \<Rightarrow> nat res) \<Rightarrow> nat \<Rightarrow> nat \<Rightarrow> 'c SimpleSnapshot \<Rightarrow> 'c SimpleSnapshot \<Rightarrow> nat \<Rightarrow> 'c job res" where
  "plan_job calls per n starting current ram_range_start =
     bindE (calls (st_counters (sn_state starting))) (\<lambda>initial_calls.
     bindE (calls (st_counters (sn_state current))) (\<lambda>ending_calls.
     let start_chunk_idx = initial_calls div per; start_chunk_offset = initial_calls mod per;
         end_chunk_idx = ending_calls div per; end_chunk_offset = ending_calls mod per
     in bindE (chunk_ranges per n end_chunk_idx end_chunk_offset [start_chunk_idx..<end_chunk_idx + 1]
          start_chunk_offset) (\<lambda>chunks.
        let ram_range = (ram_range_start, sn_reads_end current);
            t0 = st_ts (sn_state starting); t1 = st_ts (sn_state current)
        in bindE (guardE (t0 \<le> t1) ArithOverflow) (\<lambda>_.
           bindE (guardE ((t1 - t0) mod TIMESTAMP_STEP = 0) AssertFailed) (\<lambda>_.
           Inr \<lparr>jb_start = sn_state starting, jb_expected = sn_state current, jb_ram_range = ram_range,
                jb_cycles = (t1 - t0) div TIMESTAMP_STEP, jb_chunks = chunks\<rparr>)))))"

text \<open>The loop over the cores.  At its head the starting and the current snapshot are the same.\<close>

fun plan_jobs ::
  "('c \<Rightarrow> nat res) \<Rightarrow> nat \<Rightarrow> nat \<Rightarrow> nat \<Rightarrow> 'c SimpleSnapshot \<Rightarrow> nat \<Rightarrow> 'c SimpleSnapshot \<Rightarrow> 'c SimpleSnapshot list \<Rightarrow> nat \<Rightarrow>
    ('c job list \<times> 'c SimpleSnapshot list \<times> nat) res" where
  "plan_jobs calls per n average last_snapshot 0 current snapshots ram_range_start =
     Inr ([], snapshots, ram_range_start)"
| "plan_jobs calls per n average last_snapshot (Suc cores) current snapshots ram_range_start =
     (if current = last_snapshot then Inr ([], snapshots, ram_range_start)
      else bindE (take_snapshots calls average current current snapshots) (\<lambda>(next_snapshot, snapshots).
           bindE (plan_job calls per n current next_snapshot ram_range_start) (\<lambda>job.
           bindE (plan_jobs calls per n average last_snapshot cores next_snapshot snapshots (sn_reads_end next_snapshot))
             (\<lambda>(jobs, snapshots, ram_range_start).
           Inr (job # jobs, snapshots, ram_range_start)))))"

section \<open>Buffers\<close>

text \<open>The slice a chunk stands for, and what the buffers hold after the slices were written.\<close>

fun chunk_slice :: "'e list list \<Rightarrow> chunk \<Rightarrow> 'e list" where
  "chunk_slice buffers (i, from, to) = take (to - from) (drop from (buffers ! i))"

fun write_chunks :: "chunk list \<Rightarrow> 'e list \<Rightarrow> 'e list list \<Rightarrow> 'e list list" where
  "write_chunks [] content buffers = buffers"
| "write_chunks ((i, from, to) # chunks) content buffers =
     write_chunks chunks (drop (to - from) content)
       (buffers[i := take from (buffers ! i) @ take (to - from) content @ drop to (buffers ! i)])"

text \<open>The replay of a job, from the snapshot it starts at, checked against the snapshot it ends at.\<close>

definition run_job ::
  "'e option DestinationHolder tracer_ops \<Rightarrow> (log_entry, 'b) replay_buffer_ops \<Rightarrow> nat \<Rightarrow> ruint_ops \<Rightarrow>
    (u32 \<Rightarrow> instruction res) \<Rightarrow> ('c, 'b) SimpleSnapshotter \<Rightarrow> 'c job \<Rightarrow> 'e option list list \<Rightarrow>
    'e option list list res" where
  "run_job T B bits U tape snapshotter job witness_buffers =
     bindE (rb_make_range B (fst (jb_ram_range job)) (snd (jb_ram_range job)) (ss_reads_buffer snapshotter))
       (\<lambda>ram_log_buffers.
     let tracer = make_holder (map (chunk_slice witness_buffers) (jb_chunks job)); expected = jb_expected job
     in bindE (replay_basic_unrolled T (replayer_ram_ops bits) unit_nd True U tape (jb_cycles job) (jb_start job)
          \<lparr>ram_log = ram_log_buffers\<rparr> () tracer) (\<lambda>(state, ram, nd, tracer).
        bindE (guardE (st_pc expected = st_pc state) AssertFailed) (\<lambda>_.
        bindE (guardE (st_ts expected = st_ts state) AssertFailed) (\<lambda>_.
        bindE (guardE (st_regs expected = st_regs state) AssertFailed) (\<lambda>_.
        Inr (write_chunks (jb_chunks job) (dh_filled tracer @ concat (dh_buffers tracer)) witness_buffers))))))"

fun run_jobs ::
  "'e option DestinationHolder tracer_ops \<Rightarrow> (log_entry, 'b) replay_buffer_ops \<Rightarrow> nat \<Rightarrow> ruint_ops \<Rightarrow>
    (u32 \<Rightarrow> instruction res) \<Rightarrow> ('c, 'b) SimpleSnapshotter \<Rightarrow> 'c job list \<Rightarrow> 'e option list list \<Rightarrow>
    'e option list list res" where
  "run_jobs T B bits U tape snapshotter [] witness_buffers = Inr witness_buffers"
| "run_jobs T B bits U tape snapshotter (job # jobs) witness_buffers =
     bindE (run_job T B bits U tape snapshotter job witness_buffers) (run_jobs T B bits U tape snapshotter jobs)"

text \<open>\<open>set_len\<close>: the elements must have been written.\<close>

definition set_len :: "nat \<Rightarrow> 'e option list \<Rightarrow> 'e list res" where
  "set_len len el =
     bindE (guardE (len \<le> length el \<and> None \<notin> set (take len el)) UndefinedBehaviour) (\<lambda>_.
     Inr (map the (take len el)))"

text \<open>The loop over the circuits, \<open>i\<close> the next one.\<close>

fun init_circuits :: "nat \<Rightarrow> nat \<Rightarrow> nat \<Rightarrow> nat \<Rightarrow> 'e option list list \<Rightarrow> 'e list list res" where
  "init_circuits num_circuits per last_size i [] = Inr []"
| "init_circuits num_circuits per last_size i (el # rest) =
     bindE (set_len (if i = num_circuits - 1 then last_size else per) el) (\<lambda>el.
     bindE (init_circuits num_circuits per last_size (Suc i) rest) (\<lambda>result. Inr (el # result)))"

definition div_ceil :: "nat \<Rightarrow> nat \<Rightarrow> nat res" where
  "div_ceil a b = (if b = 0 then Inl Panic else Inr ((a + (b - 1)) div b))"

section \<open>The replay of one kind of record\<close>

text \<open>What the three functions below share; \<open>finished\<close> is their check of the plan.\<close>

definition replay_work ::
  "'e option DestinationHolder tracer_ops \<Rightarrow> (log_entry, 'b) replay_buffer_ops \<Rightarrow> nat \<Rightarrow> ruint_ops \<Rightarrow>
    (u32 \<Rightarrow> instruction res) \<Rightarrow> ('c \<Rightarrow> nat res) \<Rightarrow> ('c SimpleSnapshot list \<Rightarrow> nat \<Rightarrow> bool) \<Rightarrow>
    ('c, 'b) SimpleSnapshotter \<Rightarrow> nat \<Rightarrow> nat \<Rightarrow> 'e list list res" where
  "replay_work T B bits U tape calls finished snapshotter cycles_per_circuit num_cores =
     bindE (guardE (ss_snapshots snapshotter \<noteq> []) Panic) (\<lambda>_.
     let last_snapshot = last (ss_snapshots snapshotter); initial_snapshot = ss_initial_snapshot snapshotter
     in bindE (calls (st_counters (sn_state last_snapshot))) (\<lambda>num_calls.
        if num_calls = 0 then Inr []
        else
          bindE (div_ceil num_calls cycles_per_circuit) (\<lambda>num_circuits.
          let t0 = st_ts (sn_state initial_snapshot); t1 = st_ts (sn_state last_snapshot)
          in bindE (guardE (t0 \<le> t1) ArithOverflow) (\<lambda>_.
             bindE (guardE ((t1 - t0) mod TIMESTAMP_STEP = 0) AssertFailed) (\<lambda>_.
             bindE (div_ceil num_calls num_cores) (\<lambda>average_calls_per_worker.
             bindE (plan_jobs calls cycles_per_circuit num_circuits average_calls_per_worker last_snapshot num_cores
                 initial_snapshot (ss_snapshots snapshotter) 0) (\<lambda>(jobs, snapshots, ram_range_start).
             bindE (run_jobs T B bits U tape snapshotter jobs
                 (replicate num_circuits (replicate cycles_per_circuit None))) (\<lambda>total_witness.
             bindE (guardE (finished snapshots ram_range_start) AssertFailed) (\<lambda>_.
             let last_chunk_init_size = num_calls mod cycles_per_circuit
             in bindE (init_circuits num_circuits cycles_per_circuit last_chunk_init_size 0 total_witness) (\<lambda>result.
                bindE (guardE (sum_list (map length result) = num_calls) AssertFailed) (\<lambda>_.
                Inr result)))))))))))"

record 'e tracing_family_chunk =
  tc_num_cycles :: nat
  tc_data :: "'e list"

definition family_calls :: "circuit_family \<Rightarrow> DelegationsAndFamiliesCounters \<Rightarrow> nat res" where
  "family_calls family c = bindE (c_get_calls families_counters family c) (\<lambda>n. Inr (unat n))"

definition replay_non_mem ::
  "circuit_family \<Rightarrow> nat \<Rightarrow> (log_entry, 'b) replay_buffer_ops \<Rightarrow> ruint_ops \<Rightarrow> (u32 \<Rightarrow> instruction res) \<Rightarrow>
    (DelegationsAndFamiliesCounters, 'b) SimpleSnapshotter \<Rightarrow> nat \<Rightarrow> nat \<Rightarrow>
    NonMemoryOpcodeTracingDataWithTimestamp tracing_family_chunk list res" where
  "replay_non_mem family bits B U tape snapshotter cycles_per_circuit num_cores =
     bindE (replay_work (uninit_non_mem_holder family) B bits U tape (family_calls family)
         (\<lambda>snapshots ram_range_start. ram_range_start = rb_len B (ss_reads_buffer snapshotter))
         snapshotter cycles_per_circuit num_cores) (\<lambda>result.
     Inr (map (\<lambda>el. \<lparr>tc_num_cycles = cycles_per_circuit, tc_data = el\<rparr>) result))"

definition replay_mem ::
  "circuit_family \<Rightarrow> nat \<Rightarrow> (log_entry, 'b) replay_buffer_ops \<Rightarrow> ruint_ops \<Rightarrow> (u32 \<Rightarrow> instruction res) \<Rightarrow>
    (DelegationsAndFamiliesCounters, 'b) SimpleSnapshotter \<Rightarrow> nat \<Rightarrow> nat \<Rightarrow>
    MemoryOpcodeTracingDataWithTimestamp tracing_family_chunk list res" where
  "replay_mem family bits B U tape snapshotter cycles_per_circuit num_cores =
     bindE (replay_work (uninit_mem_holder family) B bits U tape (family_calls family)
         (\<lambda>snapshots ram_range_start. ram_range_start = rb_len B (ss_reads_buffer snapshotter))
         snapshotter cycles_per_circuit num_cores) (\<lambda>result.
     Inr (map (\<lambda>el. \<lparr>tc_num_cycles = cycles_per_circuit, tc_data = el\<rparr>) result))"

definition replay_generic_work ::
  "'e option DestinationHolder tracer_ops \<Rightarrow> nat \<Rightarrow> (log_entry, 'b) replay_buffer_ops \<Rightarrow> ruint_ops \<Rightarrow>
    (u32 \<Rightarrow> instruction res) \<Rightarrow> ('c, 'b) SimpleSnapshotter \<Rightarrow> nat \<Rightarrow> ('c \<Rightarrow> usize) \<Rightarrow> nat \<Rightarrow> 'e list list res" where
  "replay_generic_work D bits B U tape snapshotter cycles_per_circuit cycles_fn num_cores =
     replay_work D B bits U tape (\<lambda>c. Inr (unat (cycles_fn c)))
       (\<lambda>snapshots ram_range_start. snapshots = []) snapshotter cycles_per_circuit num_cores"

end
