(* ===== verification/Prover_Buffers.thy ===== *)
theory Prover_Buffers
  imports Prover_Jobs
begin

text \<open>
  The parts of the circuits' buffers that a job of the parallel replay gets: in the sequence of all elements they are
  the elements from the number of calls before the job to the number after it, so what the jobs write one after the
  other is one sequence.
\<close>

section \<open>Chunks as a range of elements\<close>

text \<open>The chunks are non-empty and make up the elements from \<open>a\<close> to \<open>b\<close> of \<open>n\<close> buffers of \<open>per\<close> elements.\<close>

fun tiles :: "nat \<Rightarrow> nat \<Rightarrow> nat \<Rightarrow> chunk list \<Rightarrow> nat \<Rightarrow> bool" where
  "tiles per n a [] b \<longleftrightarrow> a = b"
| "tiles per n a ((i, from, to) # chunks) b \<longleftrightarrow>
     i < n \<and> from < to \<and> to \<le> per \<and> a = i * per + from \<and> tiles per n (i * per + to) chunks b"

lemma tiles_le: "tiles per n a chunks b \<Longrightarrow> a \<le> b"
  by (induction per n a chunks b rule: tiles.induct) auto

lemma chunk_ranges_tiles:
  assumes "0 < per" "end_offset < per" "e * per + end_offset \<le> n * per"
  shows "s \<le> e \<Longrightarrow> offset < per \<Longrightarrow> s * per + offset \<le> e * per + end_offset \<Longrightarrow>
    \<exists>chunks. chunk_ranges per n e end_offset [s..<e + 1] offset = Inr chunks \<and>
      tiles per n (s * per + offset) chunks (e * per + end_offset)"
proof (induction "e - s" arbitrary: s offset)
  case 0
  then have s: "s = e" by simp
  show ?case
  proof (cases "offset < end_offset")
    case True
    have "e < n"
    proof (rule ccontr)
      assume "\<not> e < n"
      then have "n * per \<le> e * per" by (intro mult_le_mono1) simp
      then have "end_offset = 0" using assms(3) by arith
      then show False using True by simp
    qed
    then show ?thesis using True s assms(2) by simp
  next
    case False
    then show ?thesis using 0 s by simp
  qed
next
  case (Suc k)
  then have lt: "s < e" by simp
  have "e * per \<le> n * per" using assms(3) by (rule add_leD1)
  then have "s < n" using lt assms(1) by simp
  have "Suc s * per \<le> e * per" using lt by (intro mult_le_mono1) simp
  moreover have k: "k = e - Suc s" using Suc.hyps(2) by arith
  ultimately obtain chunks where *: "chunk_ranges per n e end_offset [Suc s..<e + 1] 0 = Inr chunks"
    "tiles per n (s * per + per) chunks (e * per + end_offset)"
    using Suc.hyps(1) [OF k, of 0] lt assms(1) by (auto simp: add.commute simp del: upt_Suc)
  have "[s..<e + 1] = s # [Suc s..<e + 1]" using lt by (intro upt_conv_Cons) simp
  then show ?case using * \<open>s < n\<close> lt Suc.prems(2) by (simp del: upt_Suc)
qed

lemma plan_chunks:
  assumes "0 < per" "a \<le> b" "b \<le> n * per"
  shows "\<exists>chunks. chunk_ranges per n (b div per) (b mod per) [a div per..<b div per + 1] (a mod per) = Inr chunks \<and>
    tiles per n a chunks b"
  using chunk_ranges_tiles [of per "b mod per" "b div per" n "a div per" "a mod per"] assms by (simp add: div_le_mono)

section \<open>Slices\<close>

text \<open>\<open>n\<close> buffers of \<open>per\<close> elements.\<close>

definition buffers_of :: "nat \<Rightarrow> nat \<Rightarrow> 'e list list \<Rightarrow> bool" where
  "buffers_of per n bs \<longleftrightarrow> length bs = n \<and> (\<forall>b \<in> set bs. length b = per)"

lemma buffers_of_parts:
  assumes "buffers_of per n bs" "i < n"
  shows "length (bs ! i) = per" "length (concat (take i bs)) = i * per"
    "concat bs = concat (take i bs) @ bs ! i @ concat (drop (Suc i) bs)"
proof -
  show "length (bs ! i) = per" using assms by (simp add: buffers_of_def)
  have "length (concat xs) = length xs * per" if "\<forall>b \<in> set xs. length b = per" for xs :: "'a list list"
    using that by (induction xs) simp_all
  from this [of "take i bs"] show "length (concat (take i bs)) = i * per"
    using assms by (auto simp: buffers_of_def dest: in_set_takeD)
  have "bs = take i bs @ bs ! i # drop (Suc i) bs" using assms by (simp add: buffers_of_def id_take_nth_drop)
  then show "concat bs = concat (take i bs) @ bs ! i @ concat (drop (Suc i) bs)"
    by (metis concat.simps(2) concat_append)
qed

lemma chunk_slice_elements:
  assumes "buffers_of per n bs" "i < n" "from \<le> to" "to \<le> per"
  shows "chunk_slice bs (i, from, to) = take (to - from) (drop (i * per + from) (concat bs))"
  using assms buffers_of_parts [OF assms(1,2)] by simp

lemma slices_elements:
  "tiles per n a chunks b \<Longrightarrow> buffers_of per n bs \<Longrightarrow>
    concat (map (chunk_slice bs) chunks) = take (b - a) (drop a (concat bs)) \<and>
    [] \<notin> set (map (chunk_slice bs) chunks)"
proof (induction per n a chunks b rule: tiles.induct)
  case (2 per n a i "from" to chunks b)
  then have c: "i < n" "from < to" "to \<le> per" "a = i * per + from" "tiles per n (i * per + to) chunks b" by simp_all
  have le: "i * per + to \<le> b" using tiles_le [OF c(5)] .
  have "take (b - a) (drop a (concat bs)) =
      take (to - from) (drop a (concat bs)) @ take (b - (i * per + to)) (drop (i * per + to) (concat bs))"
    using le c(2,4) take_add [of "to - from" "b - (i * per + to)" "drop a (concat bs)"] by (simp add: add.commute)
  moreover have "chunk_slice bs (i, from, to) = take (to - from) (drop a (concat bs))"
    unfolding c(4) using 2(3) c(1-3) by (intro chunk_slice_elements) simp_all
  moreover have "chunk_slice bs (i, from, to) \<noteq> []"
    using buffers_of_parts(1) [OF 2(3) c(1)] c(2,3) by simp
  ultimately show ?case using 2(1) [OF c(5) 2(3)] by simp
qed simp

lemma write_chunk_elements:
  assumes "buffers_of per n bs" "i < n" "from \<le> to" "to \<le> per" "length w = to - from"
  defines "bs' \<equiv> bs[i := take from (bs ! i) @ w @ drop to (bs ! i)]"
  shows "buffers_of per n bs'"
    "concat bs' = take (i * per + from) (concat bs) @ w @ drop (i * per + to) (concat bs)"
proof -
  have l: "length (take from (bs ! i) @ w @ drop to (bs ! i)) = per"
    using buffers_of_parts(1) [OF assms(1,2)] assms(3-5) by simp
  have "set bs' \<subseteq> insert (take from (bs ! i) @ w @ drop to (bs ! i)) (set bs)"
    unfolding bs'_def by (rule set_update_subset_insert)
  then have "\<forall>b \<in> set bs'. length b = per" using assms(1) l unfolding buffers_of_def by blast
  moreover have "length bs' = n" using assms(1) by (simp add: bs'_def buffers_of_def)
  ultimately show b: "buffers_of per n bs'" by (simp add: buffers_of_def)
  have "concat bs' = concat (take i bs) @ (take from (bs ! i) @ w @ drop to (bs ! i)) @ concat (drop (Suc i) bs)"
    using buffers_of_parts(3) [OF b assms(2)] assms(1,2) by (simp add: bs'_def buffers_of_def)
  moreover have "take (i * per + from) (concat bs) = concat (take i bs) @ take from (bs ! i)"
    unfolding buffers_of_parts(3) [OF assms(1,2)]
    using buffers_of_parts(1,2) [OF assms(1,2)] assms(3,4) by simp
  moreover have "drop (i * per + to) (concat bs) = drop to (bs ! i) @ concat (drop (Suc i) bs)"
    unfolding buffers_of_parts(3) [OF assms(1,2)]
    using buffers_of_parts(1,2) [OF assms(1,2)] assms(3,4) by simp
  ultimately show "concat bs' = take (i * per + from) (concat bs) @ w @ drop (i * per + to) (concat bs)"
    by simp
qed

lemma write_chunks_elements:
  "tiles per n a chunks b \<Longrightarrow> buffers_of per n bs \<Longrightarrow> length w = b - a \<Longrightarrow>
    buffers_of per n (write_chunks chunks w bs) \<and>
    concat (write_chunks chunks w bs) = take a (concat bs) @ w @ drop b (concat bs)"
proof (induction per n a chunks b arbitrary: w bs rule: tiles.induct)
  case (2 per n a i "from" to chunks b)
  then have c: "i < n" "from < to" "to \<le> per" "a = i * per + from" "tiles per n (i * per + to) chunks b" by simp_all
  have le: "i * per + to \<le> b" using tiles_le [OF c(5)] .
  let ?w = "take (to - from) w"
  let ?bs = "bs[i := take from (bs ! i) @ ?w @ drop to (bs ! i)]"
  have w: "length ?w = to - from" "length (drop (to - from) w) = b - (i * per + to)"
    using 2(4) le c(2,4) by simp_all
  have one: "buffers_of per n ?bs" "concat ?bs = take a (concat bs) @ ?w @ drop (i * per + to) (concat bs)"
    using write_chunk_elements [OF 2(3) c(1) _ c(3) w(1)] c(2) unfolding c(4) by simp_all
  have len: "i * per + to \<le> length (concat bs)"
  proof -
    have "Suc i * per \<le> n * per" using c(1) by (intro mult_le_mono1) simp
    moreover have "length (concat bs) = n * per"
      using 2(3) length_concat_full [of n bs per] by (auto simp: buffers_of_def)
    ultimately show ?thesis using c(3) by simp
  qed
  have "take (i * per + to) (concat ?bs) = take a (concat bs) @ ?w"
    unfolding one(2) using len c(2,4) w(1) by simp
  moreover have "drop b (concat ?bs) = drop b (concat bs)"
    unfolding one(2) using len le c(2,4) w(1) by simp
  moreover have "(take a (concat bs) @ ?w) @ drop (to - from) w = take a (concat bs) @ w" by simp
  ultimately show ?case
    using 2(1) [OF c(5) one(1) w(2)] by simp
qed simp

end
