(* ===== verification/Replay_Chunks.thy ===== *)
theory Replay_Chunks
  imports Replay_Runs
begin

text \<open>
  The chunks of a run.  The snapshotter cuts the log at the end of a cycle and keeps the machine's state there, so every
  chunk is a run of its own from the state of the snapshot before, and is replayed from there on its range of the
  log: this is how the prover replays a run in parallel.
\<close>

section \<open>What a cycle does to the snapshots\<close>

text \<open>Between two snapshots only the log grows.\<close>

definition recording ::
  "('b \<Rightarrow> log_entry list \<Rightarrow> bool) \<Rightarrow> 'c SimpleSnapshot list \<Rightarrow> PartialSnapshot \<Rightarrow> 'c SimpleSnapshot \<Rightarrow>
    ('c, 'b) SimpleSnapshotter \<Rightarrow> log_entry list \<Rightarrow> bool" where
  "recording holds sns p s0 s xs \<longleftrightarrow>
     snapshots_of holds s xs \<and> ss_snapshots s = sns \<and> ss_current_partial_snapshot s = p \<and>
     ss_initial_snapshot s = s0"

sublocale log_buffer \<subseteq> cut: append_log "simple_snapshotter_ops B" "recording holds sns p s0" for sns p s0
  by unfold_locales
    (auto simp: simple_snapshotter_ops_def recording_def intro: snapshots_of_append, auto simp: simple_append_def)

locale chunked_run = word_memory R words word last writable + log_buffer B holds capacity
  for R :: "'r ram_ops" and words word last writable and B :: "(log_entry, 'b) replay_buffer_ops" and holds capacity

sublocale chunked_run \<subseteq> whole: logged_run R words word last writable "simple_snapshotter_ops B" "snapshots_of holds"
  by unfold_locales

sublocale chunked_run \<subseteq> step: logged_memory R words word last writable "simple_snapshotter_ops B"
  "recording holds sns p s0" for sns p s0
  by unfold_locales

interpretation rom_bivec_chunks: chunked_run "rom_ram_ops bits" "\<lambda>r. length (backing r)" rom_word rom_last
  "\<lambda>i. rom_words bits \<le> i" "bivec_ops inner outer" "bivec_holds inner outer" "\<lambda>b. inner * outer" for bits inner outer
  by unfold_locales

abbreviation offset :: "('c, 'b) SimpleSnapshotter \<Rightarrow> nat" where
  "offset s \<equiv> ps_reads_offset (ss_current_partial_snapshot s)"

text \<open>A cycle from \<open>s\<close> to \<open>s'\<close> may end with a snapshot of \<open>st\<close>, which covers the log since the last.\<close>

definition cut_at :: "('c, 'b) SimpleSnapshotter \<Rightarrow> 'c State \<Rightarrow> nat \<Rightarrow> ('c, 'b) SimpleSnapshotter \<Rightarrow> bool" where
  "cut_at s st n s' \<longleftrightarrow>
     ss_snapshots s' = ss_snapshots s @ [\<lparr>sn_state = st, sn_reads_start = offset s, sn_reads_end = n\<rparr>] \<and> offset s' = n"

text \<open>
  The part of a run from the state \<open>prev\<close>, when the log was \<open>a\<close> entries long, to the snapshot \<open>sn\<close> is
  replayed from its entries of the log.
\<close>

definition chunk_replayed ::
  "'c counter_ops \<Rightarrow> 'n nd_ops \<Rightarrow> 'n \<Rightarrow> ruint_ops \<Rightarrow> (u32 \<Rightarrow> instruction res) \<Rightarrow> nat \<Rightarrow> log_entry list \<Rightarrow> 'c State \<Rightarrow>
    nat \<Rightarrow> 'c SimpleSnapshot \<Rightarrow> bool" where
  "chunk_replayed C ND nd U tape bits xs prev a sn \<longleftrightarrow>
     a \<le> sn_reads_end sn \<and> sn_reads_end sn \<le> length xs \<and>
     unat (st_ts prev) mod 4 = 0 \<and> unat (st_ts (sn_state sn)) mod 4 = 0 \<and>
     unat (st_ts prev) < unat (st_ts (sn_state sn)) \<and>
     (\<exists>evs recs. log_events C evs (st_counters prev) = Inr (st_counters (sn_state sn)) \<and> tallies evs recs \<and>
        (\<forall>r \<in> set recs. traced_sound U r) \<and>
        (\<forall>rram zs. replays rram (take (sn_reads_end sn - a) (drop a xs) @ zs) \<longrightarrow>
          (\<exists>rram'. replay_by_timestamp_bound collect_tracer (replayer_ram_ops bits) ND True U tape
             (st_ts (sn_state sn)) prev rram nd [] =
             Inr (with_counters (sn_state sn) (st_counters prev), rram', nd, recs) \<and>
           replays rram' zs \<and> (one_slice rram \<longrightarrow> one_slice rram'))))"

text \<open>The state, and the length of the log, after \<open>k\<close> snapshots of a run.\<close>

definition state_after :: "'c State \<Rightarrow> 'c SimpleSnapshot list \<Rightarrow> nat \<Rightarrow> 'c State" where
  "state_after initial sns k = (if k = 0 then initial else sn_state (sns ! (k - 1)))"

definition reads_after :: "nat \<Rightarrow> 'c SimpleSnapshot list \<Rightarrow> nat \<Rightarrow> nat" where
  "reads_after n sns k = (if k = 0 then n else sn_reads_end (sns ! (k - 1)))"

context chunked_run
begin

lemma snapshot_cuts:
  assumes "recording holds (ss_snapshots s) (ss_current_partial_snapshot s) (ss_initial_snapshot s) s1 xs"
  shows "cut_at s st (length xs) (snapshot_impl B st s1) \<and> snapshots_of holds (snapshot_impl B st s1) xs \<and>
    ss_initial_snapshot (snapshot_impl B st s1) = ss_initial_snapshot s"
  using assms len_holds [of "ss_reads_buffer s1" xs]
  by (auto simp: recording_def cut_at_def snapshot_impl_def Let_def snapshots_of_def adjacent_snoc)

lemma body_snapshots:
  assumes body: "run_body C (simple_snapshotter_ops B) R ND U tape st r s nd = Inr (ret, st', r', s', nd')"
    and c: "cycle_at 0 st" and log: "snapshots_of holds s xs" and tape: "replay_tape tape" and U: "ruint_documented U"
  shows "\<exists>es. snapshots_of holds s' (xs @ es) \<and> ss_initial_snapshot s' = ss_initial_snapshot s \<and>
    (cut_at s st' (length (xs @ es)) s' \<and> ret \<in> {None, Some True} \<or>
     ret = None \<and> ss_snapshots s' = ss_snapshots s \<and> offset s' = offset s)"
proof -
  obtain st1 s1 t where 1: "run_step C (simple_snapshotter_ops B) R ND U tape st r s nd = Inr (st1, r', s1, nd')"
    "add_u64 (st_ts st1) TIMESTAMP_STEP = Inr t" "st' = st1\<lparr>st_ts := t\<rparr>"
    and rest: "if st_pc st' = st_pc st then s_take_final_snapshot (simple_snapshotter_ops B) st' s1 = Inr s' \<and> ret = Some True
      else \<exists>stop. s_take_snapshot_if_needed (simple_snapshotter_ops B) st' s1 = Inr (stop, s') \<and>
        ret = (if stop then Some False else None)"
    using run_body_parts [OF body] by blast
  have "unat (st_ts st1) + 4 < 2 ^ 64"
    using unat_add_u64 [OF 1(2)] u64_bound [of t] by (simp add: TIMESTAMP_STEP_def)
  moreover have "recording holds (ss_snapshots s) (ss_current_partial_snapshot s) (ss_initial_snapshot s) s xs"
    using log by (simp add: recording_def)
  ultimately obtain es where es: "recording holds (ss_snapshots s) (ss_current_partial_snapshot s)
    (ss_initial_snapshot s) s1 (xs @ es)"
    using step.step_replayed [where ND' = ND and ?nd2.0 = nd, OF 1(1) c _ tape U] unfolding step.call_replayed_def by blast
  have "s' = snapshot_impl B st' s1 \<and> ret \<in> {None, Some True} \<or> s' = s1 \<and> ret = None"
  proof (cases "st_pc st' = st_pc st")
    case True
    then show ?thesis using rest by (simp add: simple_snapshotter_ops_def)
  next
    case False
    then obtain stop where "simple_take_snapshot_if_needed B st' s1 = Inr (stop, s')"
      "ret = (if stop then Some False else None)" using rest by (auto simp: simple_snapshotter_ops_def)
    then show ?thesis by (auto simp: simple_take_snapshot_if_needed_def Let_def split: if_splits)
  qed
  then show ?thesis
    using snapshot_cuts [OF es, of st'] es by (auto simp: recording_def)
qed

lemma holds_unique:
  assumes "holds b xs" "holds b ys"
  shows "xs = ys"
proof -
  have len: "length xs = length ys" using assms len_holds by metis
  obtain ls where "rb_make_range B 0 (length xs) b = Inr ls" "concat ls = xs"
    using range_holds [OF assms(1), of 0 "length xs"] by auto
  moreover obtain ls' where "rb_make_range B 0 (length xs) b = Inr ls'" "concat ls' = ys"
    using range_holds [OF assms(2), of 0 "length xs"] len by auto
  ultimately show ?thesis by simp
qed

lemma snapshots_unique: "snapshots_of holds s xs \<Longrightarrow> snapshots_of holds s ys \<Longrightarrow> xs = ys"
  by (auto simp: snapshots_of_def dest: holds_unique)

section \<open>The chunks of a run\<close>

text \<open>A run only adds to the log and to the snapshots.\<close>

lemma run_adds:
  assumes "replay_tape tape" "ruint_documented U"
  shows "run_basic_unrolled C (simple_snapshotter_ops B) R ND U tape N st r s nd = Inr (ended, st', r', s', nd') \<Longrightarrow>
    machine_inv st r \<Longrightarrow> snapshots_of holds s xs \<Longrightarrow>
    \<exists>es sns. snapshots_of holds s' (xs @ es) \<and> ss_snapshots s' = ss_snapshots s @ sns \<and>
      ss_initial_snapshot s' = ss_initial_snapshot s"
proof (induction N arbitrary: st r s nd xs)
  case (Suc N)
  obtain ret st1 r1 s1 nd1 where body: "run_body C (simple_snapshotter_ops B) R ND U tape st r s nd = Inr (ret, st1, r1, s1, nd1)"
    and rest: "(case ret of Some b \<Rightarrow> Inr (b, st1, r1, s1, nd1)
      | None \<Rightarrow> run_basic_unrolled C (simple_snapshotter_ops B) R ND U tape N st1 r1 s1 nd1) = Inr (ended, st', r', s', nd')"
    using Suc.prems(1) by auto
  have "cycle_at 0 st" using Suc.prems(2) by (simp add: machine_inv_def)
  from body_snapshots [OF body this Suc.prems(3) assms] obtain es sns where
    1: "snapshots_of holds s1 (xs @ es)" "ss_snapshots s1 = ss_snapshots s @ sns"
    "ss_initial_snapshot s1 = ss_initial_snapshot s"
    by (auto simp: cut_at_def)
  show ?case
  proof (cases ret)
    case None
    then have "run_basic_unrolled C (simple_snapshotter_ops B) R ND U tape N st1 r1 s1 nd1 = Inr (ended, st', r', s', nd')"
      using rest by simp
    from Suc.IH [OF this inv_run_body [OF body Suc.prems(2)] 1(1)] obtain es' sns' where
      "snapshots_of holds s' ((xs @ es) @ es')" "ss_snapshots s' = ss_snapshots s1 @ sns'"
      "ss_initial_snapshot s' = ss_initial_snapshot s1" by blast
    then show ?thesis using 1(2,3) by (intro exI [of _ "es @ es'"] exI [of _ "sns @ sns'"]) simp
  next
    case (Some b)
    then show ?thesis using rest 1 by auto
  qed
next
  case 0
  then show ?case by (intro exI [of _ "[]"]) simp
qed

text \<open>A run that ends takes its last snapshot there.\<close>

lemma ended_run_cut:
  assumes "replay_tape tape" "ruint_documented U"
  shows "run_basic_unrolled C (simple_snapshotter_ops B) R ND U tape N st r s nd = Inr (True, st', r', s', nd') \<Longrightarrow>
    machine_inv st r \<Longrightarrow> snapshots_of holds s xs \<Longrightarrow>
    \<exists>sns a n. ss_snapshots s' = sns @ [\<lparr>sn_state = st', sn_reads_start = a, sn_reads_end = n\<rparr>] \<and>
      (\<exists>zs. snapshots_of holds s' zs \<and> n = length zs)"
proof (induction N arbitrary: st r s nd xs)
  case (Suc N)
  obtain ret st1 r1 s1 nd1 where body: "run_body C (simple_snapshotter_ops B) R ND U tape st r s nd = Inr (ret, st1, r1, s1, nd1)"
    and run: "(case ret of Some b \<Rightarrow> Inr (b, st1, r1, s1, nd1)
      | None \<Rightarrow> run_basic_unrolled C (simple_snapshotter_ops B) R ND U tape N st1 r1 s1 nd1) = Inr (True, st', r', s', nd')"
    using Suc.prems(1) by auto
  have c: "cycle_at 0 st" using Suc.prems(2) by (simp add: machine_inv_def)
  obtain es where es: "snapshots_of holds s1 (xs @ es)" and cut:
    "cut_at s st1 (length (xs @ es)) s1 \<and> ret \<in> {None, Some True} \<or>
     ret = None \<and> ss_snapshots s1 = ss_snapshots s \<and> offset s1 = offset s"
    using body_snapshots [OF body c Suc.prems(3) assms] by blast
  show ?case
  proof (cases ret)
    case None
    then show ?thesis using Suc.IH [OF _ inv_run_body [OF body Suc.prems(2)] es] run by simp
  next
    case (Some b)
    then show ?thesis using cut run es by (auto simp: cut_at_def)
  qed
qed simp

text \<open>A run that takes \<open>k\<close> snapshots is a run to the state after them, and one from there.\<close>

lemma run_after:
  assumes "replay_tape tape" "ruint_documented U"
  shows "run_basic_unrolled C (simple_snapshotter_ops B) R ND U tape N st r s nd = Inr (ended, st', r', s', nd') \<Longrightarrow>
    machine_inv st r \<Longrightarrow> snapshots_of holds s xs \<Longrightarrow> 
    ss_snapshots s' = ss_snapshots s @ sns \<Longrightarrow> 0 < k \<Longrightarrow> k \<le> length sns \<Longrightarrow>
    \<exists>M e1 r1 s1 nd1 es K e2. run_basic_unrolled C (simple_snapshotter_ops B) R ND U tape M st r s nd =
        Inr (e1, state_after st sns k, r1, s1, nd1) \<and>
      run_basic_unrolled C (simple_snapshotter_ops B) R ND U tape K (state_after st sns k) r1 s1 nd1 =
        Inr (e2, st', r', s', nd') \<and>
      snapshots_of holds s1 (xs @ es) \<and> ss_snapshots s1 = ss_snapshots s @ take k sns \<and>
      reads_after n sns k = length (xs @ es) \<and> machine_inv (state_after st sns k) r1 \<and>
      unat (st_ts st) < unat (st_ts (state_after st sns k))"
proof (induction N arbitrary: st r s nd xs sns k)
  case (Suc N)
  obtain ret st1 r1 s1 nd1 where body: "run_body C (simple_snapshotter_ops B) R ND U tape st r s nd = Inr (ret, st1, r1, s1, nd1)"
    and run: "(case ret of Some b \<Rightarrow> Inr (b, st1, r1, s1, nd1)
      | None \<Rightarrow> run_basic_unrolled C (simple_snapshotter_ops B) R ND U tape N st1 r1 s1 nd1) = Inr (ended, st', r', s', nd')"
    using Suc.prems(1) by auto
  have c: "cycle_at 0 st" using Suc.prems(2) by (simp add: machine_inv_def)
  have inv: "machine_inv st1 r1" using body Suc.prems(2) by (rule inv_run_body)
  have ts: "unat (st_ts st) < unat (st_ts st1)" using ts_run_body [OF body] .
  obtain es where es: "snapshots_of holds s1 (xs @ es)" and cut:
    "cut_at s st1 (length (xs @ es)) s1 \<and> ret \<in> {None, Some True} \<or>
     ret = None \<and> ss_snapshots s1 = ss_snapshots s \<and> offset s1 = offset s"
    using body_snapshots [OF body c Suc.prems(3) assms] by blast
  have go: "ret = None \<Longrightarrow> run_basic_unrolled C (simple_snapshotter_ops B) R ND U tape N st1 r1 s1 nd1 =
      Inr (ended, st', r', s', nd')"
    using run by simp
  show ?case
  proof (cases "cut_at s st1 (length (xs @ es)) s1 \<and> ret \<in> {None, Some True}")
    case True
    have "\<exists>K e2. run_basic_unrolled C (simple_snapshotter_ops B) R ND U tape K st1 r1 s1 nd1 = Inr (e2, st', r', s', nd')"
    proof (cases ret)
      case (Some b)
      then show ?thesis using run by (intro exI [of _ 0] exI [of _ False]) simp
    qed (use go in auto)
    then obtain K e2 where K: "run_basic_unrolled C (simple_snapshotter_ops B) R ND U tape K st1 r1 s1 nd1 =
      Inr (e2, st', r', s', nd')" by blast
    from run_adds [OF assms this inv es] obtain rest where rest: "ss_snapshots s' = ss_snapshots s1 @ rest" by blast
    define sn where "sn = \<lparr>sn_state = st1, sn_reads_start = offset s, sn_reads_end = length (xs @ es)\<rparr>"
    have s1: "ss_snapshots s1 = ss_snapshots s @ [sn]" using True by (simp add: cut_at_def sn_def)
    then have sns: "sns = sn # rest" using rest Suc.prems(4) by simp
    show ?thesis
    proof (cases "k = 1")
      case True
      obtain e1 where "run_basic_unrolled C (simple_snapshotter_ops B) R ND U tape (Suc 0) st r s nd = Inr (e1, st1, r1, s1, nd1)"
        using body by (cases ret) auto
      then show ?thesis
        using True K es inv s1 ts unfolding sns
        by (intro exI [of _ "Suc 0"] exI [of _ e1] exI [of _ r1] exI [of _ s1] exI [of _ nd1] exI [of _ es] exI [of _ K]
            exI [of _ e2]) (simp add: state_after_def reads_after_def sn_def del: run_basic_unrolled.simps)
    next
      case False
      then have k: "0 < k - 1" "k - 1 \<le> length rest" "rest \<noteq> []" using Suc.prems(5,6) sns by auto
      then have none: "ret = None" using run rest by (cases ret) auto
      have after: "state_after st sns k = state_after st1 rest (k - 1)" "reads_after n sns k = reads_after n rest (k - 1)"
        using k(1) unfolding sns by (simp_all add: state_after_def reads_after_def nth_Cons')
      from Suc.IH [OF go [OF none] inv es rest k(1,2)] obtain M e1 r2 s2 nd2 es' K e2 where
        M: "run_basic_unrolled C (simple_snapshotter_ops B) R ND U tape M st1 r1 s1 nd1 =
          Inr (e1, state_after st sns k, r2, s2, nd2)"
        and s2: "run_basic_unrolled C (simple_snapshotter_ops B) R ND U tape K (state_after st sns k) r2 s2 nd2 =
          Inr (e2, st', r', s', nd')"
          "snapshots_of holds s2 ((xs @ es) @ es')" "ss_snapshots s2 = ss_snapshots s1 @ take (k - 1) rest"
          "reads_after n sns k = length ((xs @ es) @ es')" "machine_inv (state_after st sns k) r2"
          "unat (st_ts st) < unat (st_ts (state_after st sns k))"
        unfolding after using ts less_trans by blast
      have "run_basic_unrolled C (simple_snapshotter_ops B) R ND U tape (Suc M) st r s nd =
          Inr (e1, state_after st sns k, r2, s2, nd2)"
        using body M none by simp
      moreover have "ss_snapshots s2 = ss_snapshots s @ take k sns"
        using s1 s2(3) k(1) unfolding sns by (simp add: take_Cons')
      ultimately show ?thesis
        using s2 by (intro exI [of _ "Suc M"] exI [of _ e1] exI [of _ r2] exI [of _ s2] exI [of _ nd2]
            exI [of _ "es @ es'"] exI [of _ K] exI [of _ e2]) (simp del: run_basic_unrolled.simps)
    qed
  next
    case False
    then have same: "ret = None" "ss_snapshots s1 = ss_snapshots s" using cut by auto
    have after: "state_after st sns k = state_after st1 sns k" using Suc.prems(5) by (simp add: state_after_def)
    have "ss_snapshots s' = ss_snapshots s1 @ sns" using Suc.prems(4) same(2) by simp
    from Suc.IH [OF go [OF same(1)] inv es this Suc.prems(5,6)] obtain M e1 r2 s2 nd2 es' K e2 where
      M: "run_basic_unrolled C (simple_snapshotter_ops B) R ND U tape M st1 r1 s1 nd1 =
        Inr (e1, state_after st sns k, r2, s2, nd2)"
      and s2: "run_basic_unrolled C (simple_snapshotter_ops B) R ND U tape K (state_after st sns k) r2 s2 nd2 =
        Inr (e2, st', r', s', nd')"
        "snapshots_of holds s2 ((xs @ es) @ es')" "ss_snapshots s2 = ss_snapshots s1 @ take k sns"
        "reads_after n sns k = length ((xs @ es) @ es')" "machine_inv (state_after st sns k) r2"
        "unat (st_ts st) < unat (st_ts (state_after st sns k))"
      unfolding after using ts less_trans by blast
    have "run_basic_unrolled C (simple_snapshotter_ops B) R ND U tape (Suc M) st r s nd =
        Inr (e1, state_after st sns k, r2, s2, nd2)"
      using body M same(1) by simp
    then show ?thesis
      using s2 same by (intro exI [of _ "Suc M"] exI [of _ e1] exI [of _ r2] exI [of _ s2] exI [of _ nd2]
          exI [of _ "es @ es'"] exI [of _ K] exI [of _ e2]) (simp del: run_basic_unrolled.simps)
  qed
qed simp

lemma span_replayed:
  assumes run: "run_basic_unrolled C (simple_snapshotter_ops B) R ND0 U tape M st r s nd0 = Inr (e1, sn_state sn, r1, s1, nd1)"
    and inv: "machine_inv st r" "machine_inv (sn_state sn) r1" and log: "snapshots_of holds s xs"
    and time: "unat (st_ts st) < unat (st_ts (sn_state sn))"
    and tape: "replay_tape tape" and U: "ruint_documented U"
    and s1: "snapshots_of holds s1 (xs @ es)" "sn_reads_end sn = length (xs @ es)"
  shows "chunk_replayed C ND nd U tape bits (xs @ es @ later) st (length xs) sn"
proof -
  obtain es' evs new where es': "snapshots_of holds s1 (xs @ es')"
    and evs: "log_events C evs (st_counters st) = Inr (st_counters (sn_state sn))" "tallies evs new"
      "\<forall>r \<in> set new. traced_sound U r"
    and mr: "\<forall>rram zs. replays rram (es' @ zs) \<longrightarrow> (\<exists>rram'. replay_by_timestamp_bound collect_tracer
      (replayer_ram_ops bits) ND True U tape (st_ts (sn_state sn)) (with_counters st (st_counters st)) rram nd [] =
      Inr (with_counters (sn_state sn) (st_counters st), rram', nd, [] @ new) \<and> replays rram' zs \<and>
      (one_slice rram \<longrightarrow> one_slice rram'))"
    using whole.run_replayed [where ND' = ND and ?nd2.0 = nd and d = "st_counters st" and rs = "[]" and bits = bits,
        OF run inv(1) log tape U]
    unfolding whole.run_replayed_def by blast
  have "es' = es" using snapshots_unique [OF es' s1(1)] by simp
  have st: "with_counters st (st_counters st) = st" by simp
  have "unat (st_ts st) mod 4 = 0" "unat (st_ts (sn_state sn)) mod 4 = 0"
    using inv by (simp_all add: machine_inv_def cycle_at_def)
  then show ?thesis
    unfolding chunk_replayed_def using s1(2) evs mr time \<open>es' = es\<close> unfolding st by auto
qed

text \<open>The part of a run between two of its snapshots is replayed from its part of the log.\<close>

lemma spans_replayed:
  assumes "replay_tape tape" "ruint_documented U"
    and run: "run_basic_unrolled C (simple_snapshotter_ops B) R ND0 U tape N st r s nd0 = Inr (ended, st', r', s', nd0')"
      "machine_inv st r" "snapshots_of holds s xs"
    and sns: "ss_snapshots s' = ss_snapshots s @ sns" "snapshots_of holds s' zs" "i \<le> k" "k < length sns"
  shows "chunk_replayed C ND nd U tape bits zs (state_after st sns i) (reads_after (length xs) sns i) (sns ! k)"
proof -
  have reach: "\<exists>N e r1 s1 nd1 es. run_basic_unrolled C (simple_snapshotter_ops B) R ND0 U tape N (state_after st sns i)
      r1 s1 nd1 = Inr (e, st', r', s', nd0') \<and> machine_inv (state_after st sns i) r1 \<and>
    snapshots_of holds s1 (xs @ es) \<and> ss_snapshots s1 = ss_snapshots s @ take i sns \<and>
    reads_after (length xs) sns i = length (xs @ es)"
  proof (cases "i = 0")
    case True
    then show ?thesis
      using run by (intro exI [of _ N] exI [of _ ended] exI [of _ r] exI [of _ s] exI [of _ nd0] exI [of _ "[]"])
        (simp add: state_after_def reads_after_def)
  next
    case False
    then have i: "0 < i" "i \<le> length sns" using sns(3,4) by simp_all
    from run_after [OF assms(1,2) run sns(1) i, where n = "length xs"] show ?thesis by blast
  qed
  obtain N1 e r1 s1 nd1 es where 1: "run_basic_unrolled C (simple_snapshotter_ops B) R ND0 U tape N1 (state_after st sns i)
      r1 s1 nd1 = Inr (e, st', r', s', nd0')" "machine_inv (state_after st sns i) r1"
    "snapshots_of holds s1 (xs @ es)" "ss_snapshots s1 = ss_snapshots s @ take i sns"
    "reads_after (length xs) sns i = length (xs @ es)"
    using reach by blast
  have rest: "ss_snapshots s' = ss_snapshots s1 @ drop i sns" "0 < Suc k - i" "Suc k - i \<le> length (drop i sns)"
    using sns 1(4) by simp_all
  have to: "state_after (state_after st sns i) (drop i sns) (Suc k - i) = sn_state (sns ! k)"
    "reads_after (length xs) (drop i sns) (Suc k - i) = sn_reads_end (sns ! k)"
    using sns(3,4) by (simp_all add: state_after_def [of _ "drop i sns"] reads_after_def)
  from run_after [OF assms(1,2) 1(1-3) rest, where n = "length xs"] obtain M e1 r2 s2 nd2 es' K e2 where
    M: "run_basic_unrolled C (simple_snapshotter_ops B) R ND0 U tape M (state_after st sns i) r1 s1 nd1 =
      Inr (e1, sn_state (sns ! k), r2, s2, nd2)"
    and K: "run_basic_unrolled C (simple_snapshotter_ops B) R ND0 U tape K (sn_state (sns ! k)) r2 s2 nd2 =
      Inr (e2, st', r', s', nd0')"
    and s2: "snapshots_of holds s2 ((xs @ es) @ es')" "sn_reads_end (sns ! k) = length ((xs @ es) @ es')"
      "machine_inv (sn_state (sns ! k)) r2" "unat (st_ts (state_after st sns i)) < unat (st_ts (sn_state (sns ! k)))"
    unfolding to by blast
  obtain later where "snapshots_of holds s' (((xs @ es) @ es') @ later)"
    using run_adds [OF assms(1,2) K s2(3) s2(1)] by blast
  then have "zs = (xs @ es) @ es' @ later" using snapshots_unique [OF sns(2)] by simp
  then show ?thesis
    using span_replayed [where bits = bits and later = later and ND = ND and nd = nd, OF M 1(2) s2(3) 1(3) s2(4) assms(1,2) s2(1,2)]
      1(5) by simp
qed

end

section \<open>A finished run\<close>

text \<open>A recorded run to the end of the program: what the prover goes on with.\<close>

definition finished_run ::
  "nat \<Rightarrow> nat \<Rightarrow> nat \<Rightarrow> 'c counter_ops \<Rightarrow> 'n nd_ops \<Rightarrow> ruint_ops \<Rightarrow> (u32 \<Rightarrow> instruction res) \<Rightarrow> 'n \<Rightarrow> 'c \<Rightarrow>
    'c State \<Rightarrow> ('c, log_entry SpecBiVec) SimpleSnapshotter \<Rightarrow> bool" where
  "finished_run bits inner outer C ND U tape nd c st snap' \<longleftrightarrow>
     replay_tape tape \<and> ruint_documented U \<and>
     (\<exists>content total_size ram limit snap N ram' nd'.
        from_rom_content bits content total_size = Inr ram \<and>
        new_with_cycle_limit (bivec_ops inner outer) limit (initial_with_counters c) = Inr snap \<and>
        run_basic_unrolled C (simple_snapshotter_ops (bivec_ops inner outer)) (rom_ram_ops bits) ND U tape N
          (initial_with_counters c) ram snap nd = Inr (True, st, ram', snap', nd'))"

lemma finished_run_recorded:
  "finished_run bits inner outer C ND U tape nd c st snap' \<Longrightarrow> recorded_run bits inner outer C ND U tape nd c st snap'"
  unfolding finished_run_def recorded_run_def by blast

lemma finished_run_spans:
  assumes "finished_run bits inner outer C ND0 U tape nd0 c st snap'"
  defines "sns \<equiv> ss_snapshots snap'" and "init \<equiv> initial_with_counters c"
  shows "\<exists>xs. snapshots_of (bivec_holds inner outer) snap' xs \<and> sns \<noteq> [] \<and> sn_state (last sns) = st \<and>
    sn_reads_end (last sns) = length xs \<and>
    ss_initial_snapshot snap' = \<lparr>sn_state = init, sn_reads_start = 0, sn_reads_end = 0\<rparr> \<and>
    unat (st_ts init) mod 4 = 0 \<and>
    (\<forall>i k. i \<le> k \<longrightarrow> k < length sns \<longrightarrow>
      chunk_replayed C ND nd U tape bits xs (state_after init sns i) (reads_after 0 sns i) (sns ! k))"
proof -
  obtain content total_size ram limit snap N ram' nd' where
    ram: "from_rom_content bits content total_size = Inr ram" and
    snap: "new_with_cycle_limit (bivec_ops inner outer) limit (initial_with_counters c) = Inr snap" and
    run: "run_basic_unrolled C (simple_snapshotter_ops (bivec_ops inner outer)) (rom_ram_ops bits) ND0 U tape N
      (initial_with_counters c) ram snap nd0 = Inr (True, st, ram', snap', nd')" and
    tape: "replay_tape tape" and U: "ruint_documented U"
    using assms(1) unfolding finished_run_def by blast
  note new = bivec_log.snapshots_of_new [OF snap] and inv = loaded_inv [OF ram]
  have s: "ss_snapshots snap = []" "ss_initial_snapshot snap = \<lparr>sn_state = init, sn_reads_start = 0, sn_reads_end = 0\<rparr>"
    using snap by (auto simp: new_with_cycle_limit_def init_def)
  obtain xs where xs: "snapshots_of (bivec_holds inner outer) snap' xs" "ss_initial_snapshot snap' = ss_initial_snapshot snap"
    using rom_bivec_chunks.run_adds [OF tape U run inv new] by blast
  obtain pre a n zs where last: "sns = pre @ [\<lparr>sn_state = st, sn_reads_start = a, sn_reads_end = n\<rparr>]"
    "snapshots_of (bivec_holds inner outer) snap' zs" "n = length zs"
    using rom_bivec_chunks.ended_run_cut [OF tape U run inv new] unfolding sns_def by blast
  have "zs = xs" using rom_bivec_chunks.snapshots_unique [OF last(2) xs(1)] .
  have "sns = ss_snapshots snap @ sns" using s(1) by simp
  then have "ss_snapshots snap' = ss_snapshots snap @ sns" by (simp add: sns_def)
  from rom_bivec_chunks.spans_replayed [where ND = ND and nd = nd and bits = bits, OF tape U run inv new this xs(1)]
  have "chunk_replayed C ND nd U tape bits xs (state_after init sns i) (reads_after 0 sns i) (sns ! k)"
    if "i \<le> k" "k < length sns" for i k using that by (simp add: init_def)
  then show ?thesis
    using xs last \<open>zs = xs\<close> s(2)
    by (intro exI [of _ xs]) (simp add: init_def initial_with_counters_def INITIAL_TIMESTAMP_def)
qed

section \<open>Ranges of the log\<close>

lemma small_range_one_slice:
  assumes "0 < inner" "m \<le> n" "n \<le> inner" "make_range_impl inner m n b = Inr ls"
  shows "length ls \<le> 1"
proof -
  have loop: "make_range_loop (sb_buffers b) (n div inner) (n mod inner) [m div inner..<n div inner + 1] (m mod inner) = Inr ls"
    using assms(4) by (simp add: make_range_impl_def Let_def)
  have "length (filter (\<lambda>i. i \<noteq> n div inner \<or> n mod inner \<noteq> 0) [m div inner..<n div inner + 1]) \<le> 1"
  proof (cases "n = inner")
    case True
    then show ?thesis using assms(1) by simp
  next
    case False
    then have "n div inner = 0" using assms(3) by simp
    then show ?thesis by simp
  qed
  then show ?thesis using make_range_loop_length [OF loop] by simp
qed

end
