(* ===== verification/Replay_Counters.thy ===== *)
theory Replay_Counters
  imports Replay_Projection
begin

text \<open>
  A replay neither reads nor changes the counters of its state: started with other counters it does the same and
  ends with those.  A job of the parallel replay starts from a snapshot, with its counters, and still collects what
  the replay of the whole run collects there.A replay up to a time
  continues up to a later one, and one that succeeds on an empty log does not look at the log.
\<close>

section \<open>Instructions\<close>

definition relabel :: "'c \<Rightarrow> ('c State \<times> 'a) res \<Rightarrow> ('c State \<times> 'a) res" where
  "relabel d m = bindE m (\<lambda>(st, x). Inr (with_counters st d, x))"

lemma labelled_update:
  "with_counters st d\<lparr>st_regs := rs\<rparr> = with_counters (st\<lparr>st_regs := rs\<rparr>) d"
  "with_counters st d\<lparr>st_pc := p\<rparr> = with_counters (st\<lparr>st_pc := p\<rparr>) d"
  "with_counters st d\<lparr>st_ts := t\<rparr> = with_counters (st\<lparr>st_ts := t\<rparr>) d"
  by simp_all

declare with_pc [simp del]
lemmas labels = labelled_update relabel_def Let_def bindE_assoc split_def

lemma labelled_read [simp]:
  "read_register_with_ts off i (with_counters st d) =
     bindE (read_register_with_ts off i st) (\<lambda>(v, st). Inr (v, with_counters st d))"
  "touch_x0_with_ts off (with_counters st d) =
     bindE (touch_x0_with_ts off st) (\<lambda>(v, st). Inr (v, with_counters st d))"
  "write_register_with_ts off i w (with_counters st d) =
     bindE (write_register_with_ts off i w st) (\<lambda>(v, st). Inr (v, with_counters st d))"
  by (simp_all add: read_register_with_ts_def touch_x0_with_ts_def write_register_with_ts_def labels)

lemma labelled_second [simp]:
  "second_operand_with_ts b (with_counters st d) i =
     bindE (second_operand_with_ts b st i) (\<lambda>(v, st). Inr (v, with_counters st d))"
  by (simp add: second_operand_with_ts_def labels cong: if_cong)

lemma labelled_records [simp]:
  "non_mem_record (with_counters st d) = non_mem_record st"
  "store_record (with_counters st d) = store_record st"
  "load_record (with_counters st d) = load_record st"
  "trace_load T R fam (with_counters st d) = trace_load T R fam st"
  by (intro ext; simp add: non_mem_record_def store_record_def load_record_def trace_load_def split_def)+

lemma labelled_register_ops:
  "replay_add_op T b (with_counters st d) i t = relabel d (replay_add_op T b st i t)"
  "replay_sub_op T (with_counters st d) i t = relabel d (replay_sub_op T st i t)"
  "replay_and T b (with_counters st d) i t = relabel d (replay_and T b st i t)"
  "replay_or T b (with_counters st d) i t = relabel d (replay_or T b st i t)"
  "replay_xor T b (with_counters st d) i t = relabel d (replay_xor T b st i t)"
  "replay_sll T b (with_counters st d) i t = relabel d (replay_sll T b st i t)"
  "replay_srl T b (with_counters st d) i t = relabel d (replay_srl T b st i t)"
  "replay_sra T b (with_counters st d) i t = relabel d (replay_sra T b st i t)"
  "replay_slt T b (with_counters st d) i t = relabel d (replay_slt T b st i t)"
  "replay_sltu T b (with_counters st d) i t = relabel d (replay_sltu T b st i t)"
  "replay_mul T (with_counters st d) i t = relabel d (replay_mul T st i t)"
  "replay_mulhu T (with_counters st d) i t = relabel d (replay_mulhu T st i t)"
  "replay_divu T (with_counters st d) i t = relabel d (replay_divu T st i t)"
  "replay_remu T (with_counters st d) i t = relabel d (replay_remu T st i t)"
  "replay_mop_addmod T (with_counters st d) i t = relabel d (replay_mop_addmod T st i t)"
  "replay_mop_submod T (with_counters st d) i t = relabel d (replay_mop_submod T st i t)"
  "replay_mop_mulmod T (with_counters st d) i t = relabel d (replay_mop_mulmod T st i t)"
  "replay_lui T (with_counters st d) i t = relabel d (replay_lui T st i t)"
  "replay_auipc T (with_counters st d) i t = relabel d (replay_auipc T st i t)"
  "replay_jal T (with_counters st d) i t = relabel d (replay_jal T st i t)"
  "replay_jalr T (with_counters st d) i t = relabel d (replay_jalr T st i t)"
  "replay_branch T (with_counters st d) i t = relabel d (replay_branch T st i t)"
  "replay_nd_write T (with_counters st d) i t = relabel d (replay_nd_write T st i t)"
  by (simp_all add: replay_register_defs labels cong: if_cong)

lemma labelled_memory_ops:
  "replay_sw T R (with_counters st d) ram i t = relabel d (replay_sw T R st ram i t)"
  "replay_lw T R (with_counters st d) ram i t = relabel d (replay_lw T R st ram i t)"
  "replay_sh T R (with_counters st d) ram i t = relabel d (replay_sh T R st ram i t)"
  "replay_sb T R (with_counters st d) ram i t = relabel d (replay_sb T R st ram i t)"
  "replay_lh T R b (with_counters st d) ram i t = relabel d (replay_lh T R b st ram i t)"
  "replay_lb T R b (with_counters st d) ram i t = relabel d (replay_lb T R b st ram i t)"
  "replay_nd_read T R ND stub (with_counters st d) ram i t nd = relabel d (replay_nd_read T R ND stub st ram i t nd)"
  by (simp_all add: replay_sw_def replay_lw_def replay_sh_def replay_sb_def replay_lh_def replay_lb_def
      replay_nd_read_def labels cong: if_cong)

section \<open>Delegations\<close>

lemma labelled_cycle:
  "delegation_cycle T csr (with_counters st d) t = relabel d (delegation_cycle T csr st t)"
  by (simp add: delegation_cycle_def labels)

lemma bindE_if: "bindE (if b then m else m') f = (if b then bindE m f else bindE m' f)"
  by simp

lemma labelled_cycles:
  "delegation_cycles T csr n ks (with_counters st d) t = relabel d (delegation_cycles T csr n ks st t)"
proof (induction ks arbitrary: st t)
  case (Cons k ks)
  then show ?case
    by (simp add: labelled_cycle labels bindE_if cong: if_cong)
qed (simp add: relabel_def)

lemma labelled_parts [simp]:
  "jump_cycles n (with_counters st d) = bindE (jump_cycles n st) (\<lambda>st. Inr (with_counters st d))"
  "replay_bigint_registers x (with_counters st d) =
     bindE (replay_bigint_registers x st) (\<lambda>st. Inr (with_counters st d))"
  "replay_blake_registers x (with_counters st d) =
     bindE (replay_blake_registers x st) (\<lambda>st. Inr (with_counters st d))"
  "replay_keccak_registers (with_counters st d) =
     bindE (replay_keccak_registers st) (\<lambda>st. Inr (with_counters st d))"
  "replay_bigint_witness R U (with_counters st d) ram =
     bindE (replay_bigint_witness R U st ram) (\<lambda>(w, st, ram). Inr (w, with_counters st d, ram))"
  "replay_blake_witnesses T R a b c e f g (with_counters st d) ram t = replay_blake_witnesses T R a b c e f g st ram t"
  "replay_keccak_witnesses T R x y z (with_counters st d) ram t = replay_keccak_witnesses T R x y z st ram t"
  by (simp_all add: jump_cycles_def replay_bigint_registers_def replay_blake_registers_def replay_keccak_registers_def
      replay_bigint_witness_def replay_blake_witnesses_def replay_keccak_witnesses_def labels cong: if_cong)

lemma labelled_calls:
  "replay_bigint_call T R U (with_counters st d) ram t = relabel d (replay_bigint_call T R U st ram t)"
  "replay_blake2_round_function_call T R (with_counters st d) ram t =
     relabel d (replay_blake2_round_function_call T R st ram t)"
  "replay_keccak_special5_call T R (with_counters st d) ram t = relabel d (replay_keccak_special5_call T R st ram t)"
  by (simp_all add: replay_bigint_call_def replay_blake2_round_function_call_def replay_keccak_special5_call_def
      labelled_cycle labelled_cycles labels bindE_if cong: if_cong)

section \<open>The loop\<close>

lemma labelled_register_step:
  "replay_register_step T (with_counters st d) i t n = map_option (relabel d) (replay_register_step T st i t n)"
  by (cases n) (simp_all add: labelled_register_ops, simp add: relabel_def)

lemma labelled_memory_step:
  "replay_memory_step T R U (with_counters st d) ram i t n =
     map_option (relabel d) (replay_memory_step T R U st ram i t n)"
proof -
  have "replay_call_delegation T R U (with_counters st d) ram i t = relabel d (replay_call_delegation T R U st ram i t)"
    by (simp add: replay_call_delegation_def labelled_calls) (simp add: labels bindE_if cong: if_cong)
  then show ?thesis by (cases n) (simp_all add: labelled_memory_ops)
qed

lemma labelled_step:
  "replay_step T R ND stub U tape (with_counters st d) ram nd t = relabel d (replay_step T R ND stub U tape st ram nd t)"
proof (cases "tape (st_pc st)")
  case (Inr i)
  show ?thesis
    using Inr by (cases "replay_register_step T st i t (i_name i)"; cases "replay_memory_step T R U st ram i t (i_name i)")
      (simp_all add: replay_step_def labelled_register_step labelled_memory_step labelled_memory_ops labels bindE_if
        cong: if_cong)
qed (simp add: replay_step_def relabel_def)

lemma labelled_body:
  "replay_body T R ND stub U tape (with_counters st d) ram nd t =
     bindE (replay_body T R ND stub U tape st ram nd t) (\<lambda>(stop, st, x). Inr (stop, with_counters st d, x))"
  by (simp add: replay_body_def labelled_step labels)

lemma labelled_loop:
  "replay_by_timestamp_bound T R ND stub U tape bound (with_counters st d) ram nd t =
     relabel d (replay_by_timestamp_bound T R ND stub U tape bound st ram nd t)"
proof (induction T R ND stub U tape bound st ram nd t rule: replay_by_timestamp_bound.induct)
  case (1 T R ND stub U tape bound st ram nd t)
  show ?case
  proof (cases "st_ts st < bound")
    case True
    show ?thesis
    proof (cases "replay_body T R ND stub U tape st ram nd t")
      case (Inr x)
      obtain stop st1 ram1 nd1 t1 where x: "x = (stop, st1, ram1, nd1, t1)" by (cases x)
      show ?thesis
        using 1 [OF True] Inr True unfolding x
        by (subst (1 2) replay_by_timestamp_bound.simps) (simp add: labelled_body relabel_def)
    qed (use True in \<open>subst (1 2) replay_by_timestamp_bound.simps, simp add: labelled_body relabel_def\<close>)
  qed (subst (1 2) replay_by_timestamp_bound.simps, simp add: relabel_def)
qed

lemma labelled_replay:
  "replay_basic_unrolled T R ND stub U tape n (with_counters st d) ram nd t =
     relabel d (replay_basic_unrolled T R ND stub U tape n st ram nd t)"
  by (simp add: replay_basic_unrolled_def labelled_loop labels)

text \<open>Unless the program ended, a replay up to a time is the start of the replay up to a later one.\<close>

lemma replay_later:
  "replay_by_timestamp_bound T R ND stub U tape t1 st ram nd t = Inr (st1, ram1, nd1, tr1) \<Longrightarrow> t1 \<le> t2 \<Longrightarrow>
    replay_by_timestamp_bound T R ND stub U tape t2 st ram nd t \<in>
      {replay_by_timestamp_bound T R ND stub U tape t2 st1 ram1 nd1 tr1, Inr (st1, ram1, nd1, tr1)}"
proof (induction T R ND stub U tape t1 st ram nd t rule: replay_by_timestamp_bound.induct)
  case (1 T R ND stub U tape t1 st ram nd t)
  show ?case
  proof (cases "st_ts st < t1")
    case True
    then obtain stop st' ram' nd' t' where body: "replay_body T R ND stub U tape st ram nd t = Inr (stop, st', ram', nd', t')"
      and rest: "(if stop then Inr (st', ram', nd', t')
        else replay_by_timestamp_bound T R ND stub U tape t1 st' ram' nd' t') = Inr (st1, ram1, nd1, tr1)"
      using 1(2) by (subst (asm) replay_by_timestamp_bound.simps) auto
    have lt: "st_ts st < t2" using True 1(3) by simp
    have later: "replay_by_timestamp_bound T R ND stub U tape t2 st ram nd t = (if stop then Inr (st', ram', nd', t')
        else replay_by_timestamp_bound T R ND stub U tape t2 st' ram' nd' t')"
      using lt body by (subst replay_by_timestamp_bound.simps) simp
    show ?thesis
    proof (cases stop)
      case True
      then show ?thesis using later rest by simp
    next
      case False
      then show ?thesis
        using 1(1) [OF \<open>st_ts st < t1\<close> body] rest later 1(3) by auto
    qed
  next
    case False
    then show ?thesis using 1(2) by (subst (asm) replay_by_timestamp_bound.simps) simp
  qed
qed

section \<open>Replays without an access\<close>

text \<open>On an empty log every access fails, so a replay that succeeds there does not look at its memory.\<close>

lemma no_log_access [simp]:
  "replay_read_word a t \<lparr>ram_log = []\<rparr> = Inr x \<longleftrightarrow> False"
  "replay_write_word a w t \<lparr>ram_log = []\<rparr> = Inr y \<longleftrightarrow> False"
  "replay_peek_word a \<lparr>ram_log = []\<rparr> = Inr v \<longleftrightarrow> False"
  "replay_skip n \<lparr>ram_log = []\<rparr> = Inr r \<longleftrightarrow> False"
  by (simp_all add: replay_read_word_def replay_write_word_def replay_peek_word_def replay_skip_def guardE_def
      get_unchecked_def)

lemma no_log_blocks:
  "replay_read_u256 (replayer_ram_ops bits) (Suc n) a t \<lparr>ram_log = []\<rparr> \<noteq> Inr x"
  "replay_read_words (replayer_ram_ops bits) (Suc n) a t \<lparr>ram_log = []\<rparr> \<noteq> Inr y"
  "replay_read_lanes (replayer_ram_ops bits) (Suc n) a t \<lparr>ram_log = []\<rparr> \<noteq> Inr z"
  by (auto simp: split_def)

lemma no_log_sizes:
  "replay_read_u256 (replayer_ram_ops bits) 4 a t \<lparr>ram_log = []\<rparr> \<noteq> Inr x"
  "replay_read_words (replayer_ram_ops bits) 24 a t \<lparr>ram_log = []\<rparr> \<noteq> Inr y"
  "replay_read_lanes (replayer_ram_ops bits) 31 a t \<lparr>ram_log = []\<rparr> \<noteq> Inr z"
  using no_log_blocks(1) [of bits 3] no_log_blocks(2) [of bits 23] no_log_blocks(3) [of bits 30]
  by (simp_all del: replay_read_u256.simps replay_read_words.simps replay_read_lanes.simps)

lemma no_log_parts:
  "replay_bigint_skip (replayer_ram_ops bits) \<lparr>ram_log = []\<rparr> t \<noteq> Inr x"
  "replay_bigint_witness (replayer_ram_ops bits) U st \<lparr>ram_log = []\<rparr> \<noteq> Inr y"
  "replay_blake_witnesses T (replayer_ram_ops bits) a n b c d e st \<lparr>ram_log = []\<rparr> tr \<noteq> Inr v"
  "replay_keccak_witnesses T (replayer_ram_ops bits) b c e st \<lparr>ram_log = []\<rparr> tr \<noteq> Inr w"
  by (auto simp: replay_bigint_skip_def replay_bigint_witness_def replay_blake_witnesses_def
      replay_keccak_witnesses_def Let_def split_def no_log_sizes)

lemma no_log_calls:
  "replay_bigint_call T (replayer_ram_ops bits) U st \<lparr>ram_log = []\<rparr> t \<noteq> Inr x"
  "replay_blake2_round_function_call T (replayer_ram_ops bits) st \<lparr>ram_log = []\<rparr> t \<noteq> Inr x"
  "replay_keccak_special5_call T (replayer_ram_ops bits) st \<lparr>ram_log = []\<rparr> t \<noteq> Inr x"
  by (auto simp: replay_bigint_call_def replay_blake2_round_function_call_def replay_keccak_special5_call_def
      no_log_parts Let_def split_def split: if_splits)

lemma no_log_ops:
  "replay_sw T (replayer_ram_ops bits) st \<lparr>ram_log = []\<rparr> i t \<noteq> Inr x"
  "replay_lw T (replayer_ram_ops bits) st \<lparr>ram_log = []\<rparr> i t \<noteq> Inr x"
  "replay_sh T (replayer_ram_ops bits) st \<lparr>ram_log = []\<rparr> i t \<noteq> Inr x"
  "replay_sb T (replayer_ram_ops bits) st \<lparr>ram_log = []\<rparr> i t \<noteq> Inr x"
  "replay_lh T (replayer_ram_ops bits) b st \<lparr>ram_log = []\<rparr> i t \<noteq> Inr x"
  "replay_lb T (replayer_ram_ops bits) b st \<lparr>ram_log = []\<rparr> i t \<noteq> Inr x"
  "replay_call_delegation T (replayer_ram_ops bits) U st \<lparr>ram_log = []\<rparr> i t \<noteq> Inr x"
  "replay_nd_read T (replayer_ram_ops bits) ND True st \<lparr>ram_log = []\<rparr> i t nd \<noteq> Inr y"
  by (auto simp: replay_sw_def replay_lw_def replay_sh_def replay_sb_def replay_lh_def replay_lb_def
      replay_call_delegation_def replay_nd_read_def no_log_calls Let_def split_def split: if_splits)

lemma no_log_memory_step:
  "replay_memory_step T (replayer_ram_ops bits) U st \<lparr>ram_log = []\<rparr> i t n = Some m \<Longrightarrow> m \<noteq> Inr x"
  by (cases n) (auto simp: no_log_ops)

lemma no_log_step:
  assumes "replay_step T (replayer_ram_ops bits) ND True U tape st \<lparr>ram_log = []\<rparr> nd t = Inr (st', ram', nd', t')"
  shows "ram' = \<lparr>ram_log = []\<rparr> \<and>
    replay_step T (replayer_ram_ops bits) ND True U tape st ram nd t = Inr (st', ram, nd', t')"
proof -
  obtain i where i: "tape (st_pc st) = Inr i" using assms by (auto simp: replay_step_def)
  show ?thesis
  proof (cases "replay_register_step T st i t (i_name i)")
    case (Some m)
    then show ?thesis using assms i by (auto simp: replay_step_def)
  next
    case None
    then show ?thesis
      using assms i no_log_memory_step [of T bits U st i t "i_name i"] no_log_ops(8) [of T bits ND st i t nd]
      by (auto simp: replay_step_def split: option.splits if_splits)
  qed
qed

lemma no_log_body:
  assumes "replay_body T (replayer_ram_ops bits) ND True U tape st \<lparr>ram_log = []\<rparr> nd t = Inr (stop, st', ram', nd', t')"
  shows "ram' = \<lparr>ram_log = []\<rparr> \<and>
    replay_body T (replayer_ram_ops bits) ND True U tape st ram nd t = Inr (stop, st', ram, nd', t')"
  using assms by (auto simp: replay_body_def Let_def dest!: no_log_step [where ram = ram])

lemma no_log_loop:
  "replay_by_timestamp_bound T (replayer_ram_ops bits) ND True U tape bound st \<lparr>ram_log = []\<rparr> nd t =
    Inr (st', ram', nd', t') \<Longrightarrow>
    replay_by_timestamp_bound T (replayer_ram_ops bits) ND True U tape bound st ram nd t = Inr (st', ram, nd', t')"
proof (induction "unat bound - unat (st_ts st)" arbitrary: st nd t rule: less_induct)
  case less
  show ?case
  proof (cases "st_ts st < bound")
    case True
    then obtain stop st1 ram1 nd1 t1 where body: "replay_body T (replayer_ram_ops bits) ND True U tape st
        \<lparr>ram_log = []\<rparr> nd t = Inr (stop, st1, ram1, nd1, t1)"
      and rest: "(if stop then Inr (st1, ram1, nd1, t1)
        else replay_by_timestamp_bound T (replayer_ram_ops bits) ND True U tape bound st1 ram1 nd1 t1) =
        Inr (st', ram', nd', t')"
      using less.prems by (subst (asm) replay_by_timestamp_bound.simps) auto
    have "unat bound - unat (st_ts st1) < unat bound - unat (st_ts st)"
      using ts_replay_body [OF body] True by (intro diff_less_mono2) (simp_all add: word_less_nat_alt)
    then show ?thesis
      using less.hyps [of st1 nd1 t1] no_log_body [OF body, of ram] rest True
      by (subst replay_by_timestamp_bound.simps) (auto split: if_splits)
  next
    case False
    then show ?thesis
      using less.prems by (subst (asm) replay_by_timestamp_bound.simps, subst replay_by_timestamp_bound.simps) simp
  qed
qed

end
