(* ===== verification/Prover_Plan.thy ===== *)
theory Prover_Plan
  imports Prover_Buffers Replay_Chunks Replay_Counters
begin

text \<open>
  The plan of the parallel replay: the jobs follow one another from the first snapshot on, each with its part of the
  log and of the buffers, and together they cover all snapshots when there are enough cores or when the last
  snapshot has calls of its own.
\<close>

section \<open>Snapshots in order\<close>

text \<open>The snapshot the \<open>k\<close>th job may start at: the initial one, or one of the list.\<close>

definition snapshot_at :: "'c SimpleSnapshot \<Rightarrow> 'c SimpleSnapshot list \<Rightarrow> nat \<Rightarrow> 'c SimpleSnapshot" where
  "snapshot_at s0 sns k = (if k = 0 then s0 else sns ! (k - 1))"

lemma snapshot_at_state: "state_after (sn_state s0) sns k = sn_state (snapshot_at s0 sns k)"
  by (simp add: state_after_def snapshot_at_def)

text \<open>\<open>count k\<close> calls were made up to the \<open>k\<close>th; calls and time only grow.\<close>

definition counted_snapshots ::
  "('c \<Rightarrow> nat res) \<Rightarrow> 'c SimpleSnapshot \<Rightarrow> 'c SimpleSnapshot list \<Rightarrow> (nat \<Rightarrow> nat) \<Rightarrow> bool" where
  "counted_snapshots calls s0 sns count \<longleftrightarrow>
     (\<forall>k \<le> length sns. calls (st_counters (sn_state (snapshot_at s0 sns k))) = Inr (count k) \<and>
        unat (st_ts (sn_state (snapshot_at s0 sns k))) mod 4 = 0) \<and>
     (\<forall>i k. i < k \<longrightarrow> k \<le> length sns \<longrightarrow> count i \<le> count k \<and>
        unat (st_ts (sn_state (snapshot_at s0 sns i))) < unat (st_ts (sn_state (snapshot_at s0 sns k))))"

lemma counted_snapshotsD:
  assumes "counted_snapshots calls s0 sns count"
  shows "k \<le> length sns \<Longrightarrow> calls (st_counters (sn_state (snapshot_at s0 sns k))) = Inr (count k)"
    "k \<le> length sns \<Longrightarrow> unat (st_ts (sn_state (snapshot_at s0 sns k))) mod 4 = 0"
    "i \<le> k \<Longrightarrow> k \<le> length sns \<Longrightarrow> count i \<le> count k"
    "i < k \<Longrightarrow> k \<le> length sns \<Longrightarrow>
      unat (st_ts (sn_state (snapshot_at s0 sns i))) < unat (st_ts (sn_state (snapshot_at s0 sns k)))"
  using assms by (auto simp: counted_snapshots_def le_less)

lemma snapshot_at_last:
  assumes "counted_snapshots calls s0 sns count" "i \<le> length sns" "sns \<noteq> []"
  shows "snapshot_at s0 sns i = last sns \<longleftrightarrow> i = length sns"
proof -
  have "last sns = snapshot_at s0 sns (length sns)" using assms(3) by (simp add: snapshot_at_def last_conv_nth)
  then show ?thesis using counted_snapshotsD(4) [OF assms(1), of i "length sns"] assms(2) by fastforce
qed

section \<open>Taking snapshots\<close>

lemma take_snapshots_ends:
  assumes "counted_snapshots calls s0 sns count"
  shows "i \<le> j \<Longrightarrow> j \<le> length sns \<Longrightarrow>
    \<exists>k. take_snapshots calls average (snapshot_at s0 sns i) (snapshot_at s0 sns j) (drop j sns) =
        Inr (snapshot_at s0 sns k, drop k sns) \<and> j \<le> k \<and> k \<le> length sns \<and>
      (k = length sns \<or> average \<le> count k - count i)"
proof (induction "length sns - j" arbitrary: j)
  case 0
  then show ?case
    using counted_snapshotsD(1,3) [OF assms]
    by (intro exI [of _ j]) (simp add: take_snapshots.simps [where snapshots = "[]"])
next
  case (Suc n)
  have ok: "calls (st_counters (sn_state (snapshot_at s0 sns j))) = Inr (count j)"
    "calls (st_counters (sn_state (snapshot_at s0 sns i))) = Inr (count i)" "count i \<le> count j"
    using counted_snapshotsD(1,3) [OF assms] Suc.prems by simp_all
  have j: "j < length sns" "n = length sns - Suc j" using Suc.hyps(2) by arith+
  then have d: "drop j sns = sns ! j # drop (Suc j) sns" by (simp add: Cons_nth_drop_Suc)
  have next_at: "sns ! j = snapshot_at s0 sns (Suc j)" by (simp add: snapshot_at_def)
  show ?case
  proof (cases "count j - count i < average")
    case True
    then have "take_snapshots calls average (snapshot_at s0 sns i) (snapshot_at s0 sns j) (drop j sns) =
      take_snapshots calls average (snapshot_at s0 sns i) (snapshot_at s0 sns (Suc j)) (drop (Suc j) sns)"
      unfolding d using ok by (subst take_snapshots.simps) (simp add: next_at)
    moreover obtain k where "take_snapshots calls average (snapshot_at s0 sns i) (snapshot_at s0 sns (Suc j)) (drop (Suc j) sns) =
        Inr (snapshot_at s0 sns k, drop k sns)" "Suc j \<le> k" "k \<le> length sns"
        "k = length sns \<or> average \<le> count k - count i"
      using Suc.hyps(1) [OF j(2)] Suc.prems(1) j(1) by auto
    ultimately show ?thesis by (intro exI [of _ k]) simp
  next
    case False
    then show ?thesis using ok Suc.prems by (intro exI [of _ j]) (simp add: take_snapshots.simps)
  qed
qed

text \<open>A job takes at least one snapshot.\<close>

lemma take_snapshots_moves:
  assumes "counted_snapshots calls s0 sns count" "i < length sns" "0 < average"
  shows "\<exists>k. take_snapshots calls average (snapshot_at s0 sns i) (snapshot_at s0 sns i) (drop i sns) =
        Inr (snapshot_at s0 sns k, drop k sns) \<and> i < k \<and> k \<le> length sns \<and>
      (k = length sns \<or> average \<le> count k - count i)"
proof -
  have "drop i sns = snapshot_at s0 sns (Suc i) # drop (Suc i) sns"
    using assms(2) by (simp add: snapshot_at_def Cons_nth_drop_Suc)
  then have "take_snapshots calls average (snapshot_at s0 sns i) (snapshot_at s0 sns i) (drop i sns) =
    take_snapshots calls average (snapshot_at s0 sns i) (snapshot_at s0 sns (Suc i)) (drop (Suc i) sns)"
    using counted_snapshotsD(1) [OF assms(1), of i] assms(2,3) by (subst take_snapshots.simps) simp
  then show ?thesis using take_snapshots_ends [OF assms(1), of i "Suc i" average] assms(2) by auto
qed

section \<open>The jobs of a plan\<close>

definition job_of ::
  "'c SimpleSnapshot \<Rightarrow> 'c SimpleSnapshot list \<Rightarrow> (nat \<Rightarrow> nat) \<Rightarrow> nat \<Rightarrow> nat \<Rightarrow> nat \<Rightarrow> nat \<Rightarrow> 'c job \<Rightarrow> bool" where
  "job_of s0 sns count per n i k job \<longleftrightarrow>
     jb_start job = sn_state (snapshot_at s0 sns i) \<and> jb_expected job = sn_state (snapshot_at s0 sns k) \<and>
     jb_ram_range job = (reads_after 0 sns i, reads_after 0 sns k) \<and>
     jb_cycles job = (st_ts (jb_expected job) - st_ts (jb_start job)) div TIMESTAMP_STEP \<and>
     tiles per n (count i) (jb_chunks job) (count k)"

fun jobs_of ::
  "'c SimpleSnapshot \<Rightarrow> 'c SimpleSnapshot list \<Rightarrow> (nat \<Rightarrow> nat) \<Rightarrow> nat \<Rightarrow> nat \<Rightarrow> nat \<Rightarrow> 'c job list \<Rightarrow> nat \<Rightarrow> bool" where
  "jobs_of s0 sns count per n i [] k \<longleftrightarrow> i = k"
| "jobs_of s0 sns count per n i (job # jobs) k \<longleftrightarrow>
     (\<exists>j. i < j \<and> j \<le> length sns \<and> job_of s0 sns count per n i j job \<and> jobs_of s0 sns count per n j jobs k)"

lemma unat_multiple_diff:
  fixes t t' :: u64
  assumes "unat t < unat t'" "unat t mod 4 = 0" "unat t' mod 4 = 0"
  shows "t \<le> t' \<and> (t' - t) mod TIMESTAMP_STEP = 0"
proof -
  have le: "t \<le> t'" using assms(1) by (simp add: word_le_nat_alt)
  then have "unat (t' - t) = unat t' - unat t" by (rule unat_sub)
  then have "unat (t' - t) mod 4 = 0" using assms(2,3) by (metis dvd_diff_nat mod_eq_0_iff_dvd)
  then show ?thesis using le by (simp add: TIMESTAMP_STEP_def word_unat_eq_iff unat_mod)
qed

lemma plan_job_of:
  assumes "counted_snapshots calls s0 sns count" "0 < per" "i < k" "k \<le> length sns" "count (length sns) \<le> n * per"
  shows "\<exists>job. plan_job calls per n (snapshot_at s0 sns i) (snapshot_at s0 sns k) (reads_after 0 sns i) = Inr job \<and>
    job_of s0 sns count per n i k job"
proof -
  note c = counted_snapshotsD [OF assms(1)]
  have le: "count i \<le> count k" "count k \<le> n * per"
    using c(3) [of i k] c(3) [of k "length sns"] assms(3-5) by simp_all
  obtain chunks where chunks: "chunk_ranges per n (count k div per) (count k mod per) [count i div per..<count k div per + 1]
      (count i mod per) = Inr chunks" "tiles per n (count i) chunks (count k)"
    using plan_chunks [OF assms(2) le] by blast
  have t: "unat (st_ts (sn_state (snapshot_at s0 sns i))) < unat (st_ts (sn_state (snapshot_at s0 sns k)))"
    using c(4) assms(3,4) by blast
  have "sn_reads_end (snapshot_at s0 sns k) = reads_after 0 sns k"
    using assms(3) by (simp add: snapshot_at_def reads_after_def)
  then show ?thesis
    using chunks c(1) [of i] c(1) [of k] unat_multiple_diff [OF t c(2) c(2)] assms(3,4)
    by (simp add: plan_job_def Let_def job_of_def del: upt_Suc)
qed

lemma plan_jobs_of:
  assumes c: "counted_snapshots calls s0 sns count" and "0 < per" "0 < average" "sns \<noteq> []"
    and n: "count (length sns) \<le> n * per"
  shows "i \<le> length sns \<Longrightarrow>
    \<exists>jobs k. plan_jobs calls per n average (last sns) cores (snapshot_at s0 sns i) (drop i sns) (reads_after 0 sns i) =
        Inr (jobs, drop k sns, reads_after 0 sns k) \<and>
      jobs_of s0 sns count per n i jobs k \<and> k \<le> length sns \<and>
      (k = length sns \<or> i + cores \<le> k \<and> count i + cores * average \<le> count k)"
proof (induction cores arbitrary: i)
  case (Suc cores)
  show ?case
  proof (cases "i = length sns")
    case True
    then show ?thesis
      using snapshot_at_last [OF c Suc.prems assms(4)] by (intro exI [of _ "[]"] exI [of _ i]) simp
  next
    case False
    then have i: "i < length sns" using Suc.prems by simp
    obtain j where j: "take_snapshots calls average (snapshot_at s0 sns i) (snapshot_at s0 sns i) (drop i sns) =
        Inr (snapshot_at s0 sns j, drop j sns)" "i < j" "j \<le> length sns"
        "j = length sns \<or> average \<le> count j - count i"
      using take_snapshots_moves [OF c i assms(3)] by blast
    obtain job where job: "plan_job calls per n (snapshot_at s0 sns i) (snapshot_at s0 sns j) (reads_after 0 sns i) = Inr job"
      "job_of s0 sns count per n i j job"
      using plan_job_of [OF c assms(2) j(2,3) n] by blast
    obtain jobs k where k: "plan_jobs calls per n average (last sns) cores (snapshot_at s0 sns j) (drop j sns)
        (reads_after 0 sns j) = Inr (jobs, drop k sns, reads_after 0 sns k)"
        "jobs_of s0 sns count per n j jobs k" "k \<le> length sns"
        "k = length sns \<or> j + cores \<le> k \<and> count j + cores * average \<le> count k"
      using Suc.IH [OF j(3)] by blast
    have "sn_reads_end (snapshot_at s0 sns j) = reads_after 0 sns j"
      using j(2) by (simp add: snapshot_at_def reads_after_def)
    then have "plan_jobs calls per n average (last sns) (Suc cores) (snapshot_at s0 sns i) (drop i sns) (reads_after 0 sns i) =
        Inr (job # jobs, drop k sns, reads_after 0 sns k)"
      using snapshot_at_last [OF c Suc.prems assms(4)] False j(1) job(1) k(1) by simp
    moreover have "k = length sns \<or> i + Suc cores \<le> k \<and> count i + Suc cores * average \<le> count k"
    proof (cases "k = length sns")
      case False
      then have le: "j + cores \<le> k" "count j + cores * average \<le> count k" using k(4) by simp_all
      then have "j \<noteq> length sns" using False k(3) by auto
      then have "average \<le> count j - count i" using j(4) by simp
      then have "count i + average \<le> count j" using assms(3) by arith
      then show ?thesis using le j(2) by (simp add: add.assoc [symmetric])
    qed simp
    ultimately show ?thesis using j(2,3) job(2) k(2,3) by (intro exI [of _ "job # jobs"] exI [of _ k]) auto
  qed
next
  case 0
  then show ?case by (intro exI [of _ "[]"] exI [of _ i]) simp
qed

text \<open>The whole plan: it covers all snapshots if there are as many cores, or calls after the last but one.\<close>

lemma div_ceil_bounds:
  assumes "div_ceil a b = Inr q"
  shows "0 < b" "a \<le> q * b" "0 < a \<Longrightarrow> 0 < q" "0 < a \<Longrightarrow> (q - 1) * b < a"
proof -
  have q: "0 < b" "q = (a + (b - 1)) div b" using assms by (auto simp: div_ceil_def split: if_splits)
  have split: "q * b + (a + (b - 1)) mod b = a + (b - 1)" unfolding q(2) by (rule div_mult_mod_eq)
  have "(a + (b - 1)) mod b < b" using q(1) by simp
  then show a: "a \<le> q * b" using split q(1) by arith
  show "0 < b" by (fact q(1))
  show "0 < a \<Longrightarrow> 0 < q" using a by (cases q) simp_all
  have "q * b \<le> a + (b - 1)" using split by arith
  then show "0 < a \<Longrightarrow> (q - 1) * b < a" using q(1) by (cases q) simp_all
qed

lemma plan_covers:
  assumes c: "counted_snapshots calls s0 sns count" and "0 < per" "sns \<noteq> []"
    and n: "count (length sns) \<le> n * per" and "0 < count (length sns)" "count 0 = 0"
    and average: "div_ceil (count (length sns)) cores = Inr average"
    and cover: "length sns \<le> cores \<or> count (length sns - 1) < count (length sns)"
  shows "\<exists>jobs. plan_jobs calls per n average (last sns) cores s0 sns 0 = Inr (jobs, [], reads_after 0 sns (length sns)) \<and>
    jobs_of s0 sns count per n 0 jobs (length sns)"
proof -
  have "0 < average" "count (length sns) \<le> average * cores"
    using div_ceil_bounds [OF average] assms(5) by simp_all
  from plan_jobs_of [OF c assms(2) this(1) assms(3) n, of 0 cores] obtain jobs k where
    k: "plan_jobs calls per n average (last sns) cores s0 sns 0 = Inr (jobs, drop k sns, reads_after 0 sns k)"
      "jobs_of s0 sns count per n 0 jobs k" "k \<le> length sns"
      "k = length sns \<or> cores \<le> k \<and> cores * average \<le> count k"
    using assms(6) by (auto simp: snapshot_at_def reads_after_def)
  have "k = length sns"
  proof (rule ccontr)
    assume ne: "k \<noteq> length sns"
    then have "k < length sns" "cores \<le> k" "count (length sns) \<le> count k"
      using k(3,4) \<open>count (length sns) \<le> average * cores\<close> by (simp_all add: mult.commute)
    moreover have "count k \<le> count (length sns - 1)"
      using counted_snapshotsD(3) [OF c, of k "length sns - 1"] \<open>k < length sns\<close> by simp
    ultimately show False using cover by simp
  qed
  then show ?thesis using k(1,2) by auto
qed

end
