(* ===== verification/Prover_Replay.thy ===== *)
theory Prover_Replay
  imports Prover_Plan
begin

text \<open>
  The parallel replay is the replay: the jobs together write into the buffers what the replay of the whole run
  collects of that kind, in order.  The locale \<open>record_kind\<close> is what the functions ask of a kind of record; the
  theorem is proved once and used for the circuits of the families and of the delegations.
\<close>

section \<open>The records of a span\<close>

interpretation collect_trace: witness_tracer collect_tracer "\<lambda>t xs. t = start @ xs" "\<lambda>fam. True" "\<lambda>dt. True" for start
  by unfold_locales simp_all

lemma collect_kept [simp]: "collect_trace.kept r"
  by (cases r) simp_all

text \<open>The entries of the log from \<open>a\<close> to \<open>b\<close>.\<close>

definition span_log :: "log_entry list \<Rightarrow> nat \<Rightarrow> nat \<Rightarrow> log_entry list" where
  "span_log xs a b = take (b - a) (drop a xs)"

lemma span_log_append: "a \<le> b \<Longrightarrow> b \<le> c \<Longrightarrow> span_log xs a c = span_log xs a b @ span_log xs b c"
  using take_add [of "b - a" "c - b" "drop a xs"] by (simp add: span_log_def)

text \<open>The replay from the state \<open>A\<close> to the state \<open>B\<close>, on the entries between, collects \<open>recs\<close>.\<close>

definition collected ::
  "nat \<Rightarrow> ruint_ops \<Rightarrow> (u32 \<Rightarrow> instruction res) \<Rightarrow> log_entry list \<Rightarrow> 'c State \<Rightarrow> 'c State \<Rightarrow> traced list \<Rightarrow> bool" where
  "collected bits U tape es A B recs \<longleftrightarrow>
     replay_by_timestamp_bound collect_tracer (replayer_ram_ops bits) unit_nd True U tape (st_ts B) A (single_log es) () [] =
       Inr (with_counters B (st_counters A), single_log [], (), recs)"

lemma collected_unique: "collected bits U tape es A B recs \<Longrightarrow> collected bits U tape es A B recs' \<Longrightarrow> recs = recs'"
  by (simp add: collected_def)

lemma collected_Nil: "collected bits U tape [] A A []"
  unfolding collected_def by (subst replay_by_timestamp_bound.simps) simp

lemma chunk_collected:
  assumes "chunk_replayed C unit_nd () U tape bits xs A a sn"
  shows "\<exists>evs recs. log_events C evs (st_counters A) = Inr (st_counters (sn_state sn)) \<and> tallies evs recs \<and>
    (\<forall>r \<in> set recs. traced_sound U r) \<and>
    (\<forall>zs. replay_by_timestamp_bound collect_tracer (replayer_ram_ops bits) unit_nd True U tape (st_ts (sn_state sn)) A
       (single_log (span_log xs a (sn_reads_end sn) @ zs)) () [] =
       Inr (with_counters (sn_state sn) (st_counters A), single_log zs, (), recs))"
proof -
  obtain evs recs where *: "log_events C evs (st_counters A) = Inr (st_counters (sn_state sn))" "tallies evs recs"
    "\<forall>r \<in> set recs. traced_sound U r" and
    replay: "\<forall>rram zs. replays rram (span_log xs a (sn_reads_end sn) @ zs) \<longrightarrow>
      (\<exists>rram'. replay_by_timestamp_bound collect_tracer (replayer_ram_ops bits) unit_nd True U tape
         (st_ts (sn_state sn)) A rram () [] = Inr (with_counters (sn_state sn) (st_counters A), rram', (), recs) \<and>
       replays rram' zs \<and> (one_slice rram \<longrightarrow> one_slice rram'))"
    using assms unfolding chunk_replayed_def span_log_def by blast
  have "replay_by_timestamp_bound collect_tracer (replayer_ram_ops bits) unit_nd True U tape (st_ts (sn_state sn)) A
       (single_log (span_log xs a (sn_reads_end sn) @ zs)) () [] =
       Inr (with_counters (sn_state sn) (st_counters A), single_log zs, (), recs)" for zs
  proof -
    obtain rram' where "replay_by_timestamp_bound collect_tracer (replayer_ram_ops bits) unit_nd True U tape
         (st_ts (sn_state sn)) A (single_log (span_log xs a (sn_reads_end sn) @ zs)) () [] =
         Inr (with_counters (sn_state sn) (st_counters A), rram', (), recs)" "replays rram' zs" "one_slice rram'"
      using replay single_replays by blast
    moreover from this(2,3) have "rram' = single_log zs" by (rule single_logI)
    ultimately show ?thesis by simp
  qed
  then show ?thesis using * by blast
qed

text \<open>What is collected up to a snapshot and from there is what is collected at once.\<close>

lemma collected_append:
  assumes AB: "chunk_replayed C unit_nd () U tape bits xs A a snB" "collected bits U tape (span_log xs a (sn_reads_end snB)) A (sn_state snB) recs"
    and BC: "collected bits U tape (span_log xs (sn_reads_end snB) c) (sn_state snB) D recs'" "\<forall>r \<in> set recs'. traced_sound U r"
    and AC: "collected bits U tape (span_log xs a c) A D recs''"
    and le: "a \<le> sn_reads_end snB" "sn_reads_end snB \<le> c" "unat (st_ts (sn_state snB)) < unat (st_ts D)"
  shows "recs'' = recs @ recs'"
proof -
  let ?B = "sn_state snB" and ?es = "span_log xs (sn_reads_end snB) c"
  let ?replay = "\<lambda>bound st rram rs. replay_by_timestamp_bound collect_tracer (replayer_ram_ops bits) unit_nd True U tape bound
    st rram () rs"
  obtain recs1 where ext: "\<forall>zs. ?replay (st_ts ?B) A (single_log (span_log xs a (sn_reads_end snB) @ zs)) [] =
       Inr (with_counters ?B (st_counters A), single_log zs, (), recs1)"
    using chunk_collected [OF AB(1)] by blast
  have "recs1 = recs" using ext [rule_format, of "[]"] AB(2) by (simp add: collected_def)
  then have 1: "?replay (st_ts ?B) A (single_log (span_log xs a c)) [] =
      Inr (with_counters ?B (st_counters A), single_log ?es, (), recs)"
    using ext span_log_append [OF le(1,2)] by simp
  have "st_ts ?B \<le> st_ts D" using le(3) by (simp add: word_le_nat_alt)
  note later = replay_later [OF 1 this]
  have whole: "?replay (st_ts D) A (single_log (span_log xs a c)) [] =
      Inr (with_counters D (st_counters A), single_log [], (), recs'')"
    using AC by (simp add: collected_def)
  have "with_counters D (st_counters A) \<noteq> with_counters ?B (st_counters A)"
  proof
    assume "with_counters D (st_counters A) = with_counters ?B (st_counters A)"
    then have "st_ts (with_counters D (st_counters A)) = st_ts (with_counters ?B (st_counters A))" by (rule arg_cong)
    then show False using le(3) by simp
  qed
  then have rest: "?replay (st_ts D) (with_counters ?B (st_counters A)) (single_log ?es) recs =
      Inr (with_counters D (st_counters A), single_log [], (), recs'')"
    using later unfolding whole by auto
  have "\<forall>r \<in> set recs'. traced_fits r" using BC(2) sound_fits by blast
  from collect_trace.loop_projected [OF BC(1) [unfolded collected_def], of recs recs "[]", OF _ this]
  have "?replay (st_ts D) ?B (single_log ?es) recs =
      Inr (with_counters D (st_counters ?B), single_log [], (), recs @ recs')"
    by auto
  then show ?thesis using rest by (simp add: labelled_loop relabel_def)
qed

text \<open>The jobs of a plan one after the other: \<open>pre k\<close> are the records up to the \<open>k\<close>th snapshot.\<close>

definition spans_collected ::
  "nat \<Rightarrow> ruint_ops \<Rightarrow> (u32 \<Rightarrow> instruction res) \<Rightarrow> log_entry list \<Rightarrow> 'c SimpleSnapshot \<Rightarrow> 'c SimpleSnapshot list \<Rightarrow>
    (nat \<Rightarrow> traced list) \<Rightarrow> bool" where
  "spans_collected bits U tape xs s0 sns pre \<longleftrightarrow>
     (\<forall>i k. i < k \<longrightarrow> k \<le> length sns \<longrightarrow> reads_after 0 sns i \<le> reads_after 0 sns k \<and> reads_after 0 sns k \<le> length xs \<and>
       (\<exists>recs. collected bits U tape (span_log xs (reads_after 0 sns i) (reads_after 0 sns k))
          (sn_state (snapshot_at s0 sns i)) (sn_state (snapshot_at s0 sns k)) recs \<and>
        (\<forall>r \<in> set recs. traced_sound U r) \<and> pre k = pre i @ recs))"

section \<open>A kind of record\<close>

text \<open>The records \<open>sel\<close> selects are those the destination \<open>T\<close> takes.\<close>

locale record_kind =
  fixes T :: "'e option DestinationHolder tracer_ops" and sel :: "traced list \<Rightarrow> 'e list"
    and takes_family :: "circuit_family \<Rightarrow> bool" and takes_delegation :: "u16 \<Rightarrow> bool"
  assumes tracer: "witness_tracer T (\<lambda>h xs. holder_keeps n (map Some (sel xs)) h) takes_family takes_delegation"
    and sel_append: "sel (xs @ ys) = sel xs @ sel ys"
    and sel_kept: "sel (filter (witness_tracer.kept takes_family takes_delegation) xs) = sel xs"
begin

lemma sel_Nil [simp]: "sel [] = []"
  using sel_append [of "[]" "[]"] by simp

text \<open>The replay of a span into slices of the size of its records fills them.\<close>

lemma span_filled:
  assumes collected: "collected bits U tape es A B recs" "\<forall>r \<in> set recs. traced_sound U r"
    and slices: "[] \<notin> set slices" "length (concat slices) = length (sel recs)"
    and log: "concat log = es" "length log \<le> 1"
  shows "\<exists>ram h. replay_by_timestamp_bound T (replayer_ram_ops bits) unit_nd True U tape (st_ts B) A \<lparr>ram_log = log\<rparr> ()
      (make_holder slices) = Inr (with_counters B (st_counters A), ram, (), h) \<and>
    dh_filled h @ concat (dh_buffers h) = map Some (sel recs)"
proof -
  let ?n = "length (sel recs)"
  have start: "holder_keeps ?n (map Some (sel [])) (make_holder slices)"
    using make_holder_keeps [OF slices(1)] slices(2) by simp
  have "\<forall>r \<in> set recs. traced_fits r" using collected(2) sound_fits by blast
  from witness_tracer.loop_projected [OF tracer collected(1) [unfolded collected_def] start this]
  obtain h where h: "holder_keeps ?n (map Some (sel recs)) h" and
    replay: "replay_by_timestamp_bound T (replayer_ram_ops bits) unit_nd True U tape (st_ts B) A (single_log es) ()
      (make_holder slices) = Inr (with_counters B (st_counters A), single_log [], (), h)"
    by (auto simp: sel_kept)
  have "dh_filled h = map Some (sel recs)" "length (dh_filled h) + length (concat (dh_buffers h)) = ?n"
    using h unfolding holder_keeps_def by auto
  then have "length (concat (dh_buffers h)) = 0" by simp
  then have filled: "dh_filled h @ concat (dh_buffers h) = map Some (sel recs)"
    using \<open>dh_filled h = map Some (sel recs)\<close> by (simp only: length_0_conv append_Nil2)
  show ?thesis
  proof (cases "es = []")
    case True
    then have "single_log es = \<lparr>ram_log = []\<rparr>" by (simp add: single_log_def)
    from no_log_loop [OF replay [unfolded this], of "\<lparr>ram_log = log\<rparr>"] show ?thesis using filled by blast
  next
    case False
    then have "log = [es]" using log by (cases log) auto
    then have "\<lparr>ram_log = log\<rparr> = single_log es" using False by (simp add: single_log_def)
    then show ?thesis using replay filled by auto
  qed
qed

lemma job_done:
  assumes job: "job_of s0 sns count per n i k job" and bs: "buffers_of per n bs" "count k \<le> n * per"
    and log: "bivec_holds inner outer (ss_reads_buffer snapshotter) xs" "length xs \<le> inner"
    and reads: "reads_after 0 sns i \<le> reads_after 0 sns k" "reads_after 0 sns k \<le> length xs"
    and recs: "collected bits U tape (span_log xs (reads_after 0 sns i) (reads_after 0 sns k))
      (sn_state (snapshot_at s0 sns i)) (sn_state (snapshot_at s0 sns k)) recs"
      "\<forall>r \<in> set recs. traced_sound U r" "count k = count i + length (sel recs)"
    and times: "unat (st_ts (sn_state (snapshot_at s0 sns i))) mod 4 = 0"
      "unat (st_ts (sn_state (snapshot_at s0 sns k))) mod 4 = 0"
      "unat (st_ts (sn_state (snapshot_at s0 sns i))) \<le> unat (st_ts (sn_state (snapshot_at s0 sns k)))"
  shows "\<exists>bs'. run_job T (bivec_ops inner outer) bits U tape snapshotter job bs = Inr bs' \<and> buffers_of per n bs' \<and>
    concat bs' = take (count i) (concat bs) @ map Some (sel recs) @ drop (count k) (concat bs)"
proof -
  have job_parts: "jb_start job = sn_state (snapshot_at s0 sns i)" "jb_expected job = sn_state (snapshot_at s0 sns k)"
    "jb_ram_range job = (reads_after 0 sns i, reads_after 0 sns k)"
    "jb_cycles job = (st_ts (sn_state (snapshot_at s0 sns k)) - st_ts (sn_state (snapshot_at s0 sns i))) div TIMESTAMP_STEP"
    and tiles: "tiles per n (count i) (jb_chunks job) (count k)"
    using job by (simp_all add: job_of_def)
  obtain ls where ls: "rb_make_range (bivec_ops inner outer) (reads_after 0 sns i) (reads_after 0 sns k)
      (ss_reads_buffer snapshotter) = Inr ls"
    "concat ls = span_log xs (reads_after 0 sns i) (reads_after 0 sns k)"
    using bivec.range_holds [OF log(1) reads] by (auto simp: span_log_def)
  have one: "length ls \<le> 1"
    using small_range_one_slice [OF _ reads(1) _ ls(1) [unfolded bivec_ops_def, simplified]] log reads(2)
    by (simp add: bivec_holds_def)
  let ?slices = "map (chunk_slice bs) (jb_chunks job)"
  have total: "length (concat bs) = n * per"
    using bs(1) length_concat_full [of n bs per] by (auto simp: buffers_of_def)
  have slices: "[] \<notin> set ?slices" "length (concat ?slices) = length (sel recs)"
    using slices_elements [OF tiles bs(1)] total bs(2) recs(3) by simp_all
  from span_filled [OF recs(1,2) slices ls(2) one] obtain ram h where
    replay: "replay_by_timestamp_bound T (replayer_ram_ops bits) unit_nd True U tape (st_ts (jb_expected job)) (jb_start job)
      \<lparr>ram_log = ls\<rparr> () (make_holder ?slices) =
      Inr (with_counters (jb_expected job) (st_counters (jb_start job)), ram, (), h)"
    and h: "dh_filled h @ concat (dh_buffers h) = map Some (sel recs)"
    unfolding job_parts by blast
  have "replay_basic_unrolled T (replayer_ram_ops bits) unit_nd True U tape (jb_cycles job) (jb_start job)
      \<lparr>ram_log = ls\<rparr> () (make_holder ?slices) =
      Inr (with_counters (jb_expected job) (st_counters (jb_start job)), ram, (), h)"
    using replay unfolding job_parts replay_cycles_bound [OF times(2,1,3)] .
  then have "run_job T (bivec_ops inner outer) bits U tape snapshotter job bs =
      Inr (write_chunks (jb_chunks job) (map Some (sel recs)) bs)"
    using ls(1) h by (simp add: run_job_def job_parts(3) Let_def)
  then show ?thesis
    using write_chunks_elements [OF tiles bs(1), of "map Some (sel recs)"] recs(3) by auto
qed

lemma jobs_done:
  assumes c: "counted_snapshots calls s0 sns count" and spans: "spans_collected bits U tape xs s0 sns pre"
    and count: "\<forall>k \<le> length sns. count k = length (sel (pre k))" and n: "count (length sns) \<le> n * per"
    and log: "bivec_holds inner outer (ss_reads_buffer snapshotter) xs" "length xs \<le> inner"
  shows "jobs_of s0 sns count per n i jobs k \<Longrightarrow> i \<le> length sns \<Longrightarrow> k \<le> length sns \<Longrightarrow> buffers_of per n bs \<Longrightarrow>
    take (count i) (concat bs) = map Some (sel (pre i)) \<Longrightarrow>
    \<exists>bs'. run_jobs T (bivec_ops inner outer) bits U tape snapshotter jobs bs = Inr bs' \<and> buffers_of per n bs' \<and>
      take (count k) (concat bs') = map Some (sel (pre k))"
proof (induction jobs arbitrary: i bs)
  case (Cons job jobs)
  then obtain j where j: "i < j" "j \<le> length sns" "job_of s0 sns count per n i j job"
    "jobs_of s0 sns count per n j jobs k" by auto
  obtain recs where reads: "reads_after 0 sns i \<le> reads_after 0 sns j" "reads_after 0 sns j \<le> length xs"
    and recs: "collected bits U tape (span_log xs (reads_after 0 sns i) (reads_after 0 sns j))
      (sn_state (snapshot_at s0 sns i)) (sn_state (snapshot_at s0 sns j)) recs" "\<forall>r \<in> set recs. traced_sound U r"
      "pre j = pre i @ recs"
    using spans j(1,2) unfolding spans_collected_def by blast
  have counts: "count i = length (sel (pre i))" "count j = count i + length (sel recs)"
    using count Cons.prems(2) j(2) recs(3) by (simp_all add: sel_append)
  have "count j \<le> n * per" using counted_snapshotsD(3) [OF c, of j "length sns"] j(2) n by simp
  from job_done [OF j(3) Cons.prems(4) this log reads recs(1,2) counts(2)]
  obtain bs1 where bs1: "run_job T (bivec_ops inner outer) bits U tape snapshotter job bs = Inr bs1" "buffers_of per n bs1"
    "concat bs1 = take (count i) (concat bs) @ map Some (sel recs) @ drop (count j) (concat bs)"
    using counted_snapshotsD(2,4) [OF c] j(1,2) by (auto simp: less_imp_le)
  have "take (count j) (concat bs1) = map Some (sel (pre j))"
    unfolding bs1(3) Cons.prems(5) recs(3) using counts by (simp add: sel_append)
  from Cons.IH [OF j(4,2) Cons.prems(3) bs1(2) this] bs1(1) show ?case by simp
qed auto

end

section \<open>The circuits\<close>

text \<open>Buffers filled up to an incomplete last circuit become the records.\<close>

lemma circuits_initialised:
  assumes "last_size \<le> per"
  shows "\<forall>b \<in> set bs. length b = per \<Longrightarrow> bs \<noteq> [] \<Longrightarrow> i + length bs = num_circuits \<Longrightarrow>
    length ys = (length bs - 1) * per + last_size \<Longrightarrow> take (length ys) (concat bs) = map Some ys \<Longrightarrow>
    \<exists>result. init_circuits num_circuits per last_size i bs = Inr result \<and> concat result = ys \<and>
      map length result = replicate (length bs - 1) per @ [last_size]"
proof (induction bs arbitrary: i ys)
  case (Cons b bs)
  show ?case
  proof (cases "bs = []")
    case True
    then have "take last_size b = map Some ys" "length ys = last_size" "i = num_circuits - 1" "length b = per"
      using Cons.prems by simp_all
    then show ?thesis using True assms by (simp add: set_len_def comp_def)
  next
    case False
    define rest where "rest = drop per ys"
    have b: "length b = per" using Cons.prems(1) by simp
    have "length bs = Suc (length bs - 1)" using False by (cases bs) simp_all
    then have l: "length ys = per + ((length bs - 1) * per + last_size)"
      using Cons.prems(4) by (metis (no_types) add.assoc diff_Suc_1 length_Cons mult_Suc)
    have split: "b @ take (length ys - per) (concat bs) = map Some (take per ys) @ map Some rest"
      using Cons.prems(5) b l unfolding rest_def by (simp flip: map_append)
    have ys: "b = map Some (take per ys)" "take (length rest) (concat bs) = map Some rest"
      using split b l by (simp_all add: rest_def append_eq_append_conv)
    have "i \<noteq> num_circuits - 1" using Cons.prems(3) False by (cases bs) auto
    then have "set_len (if i = num_circuits - 1 then last_size else per) b = Inr (take per ys)"
      using ys(1) b by (auto simp: set_len_def comp_def)
    moreover obtain result where "init_circuits num_circuits per last_size (Suc i) bs = Inr result" "concat result = rest"
      "map length result = replicate (length bs - 1) per @ [last_size]"
      using Cons.IH [of "Suc i" rest] Cons.prems(1,3) False ys(2) l by (auto simp: rest_def)
    moreover obtain m where "length bs = Suc m" using False by (cases bs) simp_all
    ultimately show ?thesis using l by (auto simp: rest_def)
  qed
qed simp

section \<open>The whole work\<close>

text \<open>What the chunks of a finished run say about its snapshots.\<close>

lemma finished_run_snapshots:
  assumes run: "finished_run bits inner outer families_counters ND U tape nd zero_counters st snap'"
  defines "sns \<equiv> ss_snapshots snap'" and "s0 \<equiv> ss_initial_snapshot snap'"
  shows "\<exists>xs. bivec_holds inner outer (ss_reads_buffer snap') xs \<and> sns \<noteq> [] \<and> sn_state (last sns) = st \<and>
    reads_after 0 sns (length sns) = length xs \<and> sn_state s0 = initial_with_counters zero_counters \<and>
    (\<forall>i k. i < k \<longrightarrow> k \<le> length sns \<longrightarrow>
      reads_after 0 sns k = sn_reads_end (snapshot_at s0 sns k) \<and>
      chunk_replayed families_counters unit_nd () U tape bits xs (sn_state (snapshot_at s0 sns i))
        (reads_after 0 sns i) (snapshot_at s0 sns k))"
proof -
  obtain xs where xs: "snapshots_of (bivec_holds inner outer) snap' xs" "sns \<noteq> []" "sn_state (last sns) = st"
    "sn_reads_end (last sns) = length xs"
    "s0 = \<lparr>sn_state = initial_with_counters zero_counters, sn_reads_start = 0, sn_reads_end = 0\<rparr>" and
    chunks: "\<forall>i k. i \<le> k \<longrightarrow> k < length sns \<longrightarrow> chunk_replayed families_counters unit_nd () U tape bits xs
      (state_after (initial_with_counters zero_counters) sns i) (reads_after 0 sns i) (sns ! k)"
    using finished_run_spans [where ND = unit_nd and nd = "()", OF run] unfolding sns_def s0_def by blast
  have s0: "sn_state s0 = initial_with_counters zero_counters" using xs(5) by simp
  have "chunk_replayed families_counters unit_nd () U tape bits xs (sn_state (snapshot_at s0 sns i))
      (reads_after 0 sns i) (snapshot_at s0 sns k)" if "i < k" "k \<le> length sns" for i k
    using chunks [rule_format, of i "k - 1"] that snapshot_at_state [of s0 sns i] s0
    by (simp add: snapshot_at_def [of s0 sns k])
  moreover have "reads_after 0 sns k = sn_reads_end (snapshot_at s0 sns k)" if "i < k" for i k :: nat
    using that by (simp add: snapshot_at_def reads_after_def)
  moreover have "reads_after 0 sns (length sns) = length xs"
    using xs(2,4) by (simp add: reads_after_def last_conv_nth)
  moreover have "bivec_holds inner outer (ss_reads_buffer snap') xs" using xs(1) by (simp add: snapshots_of_def)
  ultimately show ?thesis using xs(2,3) s0 by (intro exI [of _ xs]) simp
qed

lemma finished_run_log:
  assumes run: "finished_run bits inner outer families_counters ND U tape nd zero_counters st snap'"
    and xs: "bivec_holds inner outer (ss_reads_buffer snap') xs" "length xs \<le> inner"
  shows "\<exists>log recs. recorded_log (bivec_ops inner outer) snap' = Inr log \<and>
    replay_recorded collect_tracer bits unit_nd U tape st log zero_counters () [] =
      Inr (with_counters st zero_counters, \<lparr>ram_log = []\<rparr>, (), recs) \<and>
    collected bits U tape xs (initial_with_counters zero_counters) st recs"
proof -
  note rec = finished_run_recorded [OF run]
  obtain recs log where log: "recorded_log (bivec_ops inner outer) snap' = Inr log" "[] \<notin> set log"
    and replay: "replay_recorded collect_tracer bits unit_nd U tape st log zero_counters () [] =
      Inr (with_counters st zero_counters, \<lparr>ram_log = []\<rparr>, (), recs)"
    using recorded_run_replayed [where ND' = unit_nd and d = zero_counters and ?nd2.0 = "()", OF rec] by blast
  have range: "make_range_impl inner 0 (length xs) (ss_reads_buffer snap') = Inr log"
    using log(1) bivec.len_holds [OF xs(1)] by (simp add: recorded_log_def bivec_ops_def)
  have "concat log = xs"
    using bivec.range_holds [OF xs(1), of 0 "length xs"] range by (auto simp: bivec_ops_def)
  moreover have "length log \<le> 1" using small_log_one_slice [OF xs range] .
  ultimately have "\<lparr>ram_log = log\<rparr> = single_log xs"
    using log(2) by (intro single_logI) (simp_all add: replays_def one_slice_def)
  then have "collected bits U tape xs (initial_with_counters zero_counters) st recs"
    using replay unfolding collected_def replay_recorded_bound [OF recorded_run_time [OF rec]]
    by (simp add: single_log_def initial_with_counters_def)
  then show ?thesis using log(1) replay by blast
qed

definition snapshots_collected ::
  "nat \<Rightarrow> ruint_ops \<Rightarrow> (u32 \<Rightarrow> instruction res) \<Rightarrow> log_entry list \<Rightarrow> DelegationsAndFamiliesCounters SimpleSnapshot \<Rightarrow>
    DelegationsAndFamiliesCounters SimpleSnapshot list \<Rightarrow> nat \<Rightarrow> traced list \<Rightarrow> bool" where
  "snapshots_collected bits U tape xs s0 sns k recs \<longleftrightarrow>
     collected bits U tape (span_log xs 0 (reads_after 0 sns k)) (sn_state s0) (sn_state (snapshot_at s0 sns k)) recs \<and>
     (\<forall>r \<in> set recs. traced_sound U r) \<and>
     (\<forall>t. counter_of t (st_counters (sn_state (snapshot_at s0 sns k))) = records_tagged t recs)"

text \<open>The snapshots \<open>sns\<close> after \<open>s0\<close> cut a log \<open>xs\<close> into chunks that can be replayed.\<close>

definition chunks_replayable ::
  "nat \<Rightarrow> ruint_ops \<Rightarrow> (u32 \<Rightarrow> instruction res) \<Rightarrow> log_entry list \<Rightarrow> DelegationsAndFamiliesCounters SimpleSnapshot \<Rightarrow>
    DelegationsAndFamiliesCounters SimpleSnapshot list \<Rightarrow> bool" where
  "chunks_replayable bits U tape xs s0 sns \<longleftrightarrow>
     (\<forall>i k. i < k \<longrightarrow> k \<le> length sns \<longrightarrow>
       reads_after 0 sns k = sn_reads_end (snapshot_at s0 sns k) \<and>
       chunk_replayed families_counters unit_nd () U tape bits xs (sn_state (snapshot_at s0 sns i))
         (reads_after 0 sns i) (snapshot_at s0 sns k))"

lemma chunks_replayableD:
  assumes "chunks_replayable bits U tape xs s0 sns" "i < k" "k \<le> length sns"
  shows "reads_after 0 sns k = sn_reads_end (snapshot_at s0 sns k)"
    "chunk_replayed families_counters unit_nd () U tape bits xs (sn_state (snapshot_at s0 sns i))
       (reads_after 0 sns i) (snapshot_at s0 sns k)"
    "reads_after 0 sns i \<le> reads_after 0 sns k" "reads_after 0 sns k \<le> length xs"
    "unat (st_ts (sn_state (snapshot_at s0 sns k))) mod 4 = 0"
    "unat (st_ts (sn_state (snapshot_at s0 sns i))) < unat (st_ts (sn_state (snapshot_at s0 sns k)))"
proof -
  show 1: "reads_after 0 sns k = sn_reads_end (snapshot_at s0 sns k)"
    "chunk_replayed families_counters unit_nd () U tape bits xs (sn_state (snapshot_at s0 sns i))
       (reads_after 0 sns i) (snapshot_at s0 sns k)"
    using assms unfolding chunks_replayable_def by blast+
  then show "reads_after 0 sns i \<le> reads_after 0 sns k" "reads_after 0 sns k \<le> length xs"
    "unat (st_ts (sn_state (snapshot_at s0 sns k))) mod 4 = 0"
    "unat (st_ts (sn_state (snapshot_at s0 sns i))) < unat (st_ts (sn_state (snapshot_at s0 sns k)))"
    by (simp_all add: chunk_replayed_def)
qed

lemma span_collected:
  assumes "chunks_replayable bits U tape xs s0 sns" "i < k" "k \<le> length sns"
  shows "\<exists>evs recs. log_events families_counters evs (st_counters (sn_state (snapshot_at s0 sns i))) =
      Inr (st_counters (sn_state (snapshot_at s0 sns k))) \<and> tallies evs recs \<and> (\<forall>r \<in> set recs. traced_sound U r) \<and>
    collected bits U tape (span_log xs (reads_after 0 sns i) (reads_after 0 sns k))
      (sn_state (snapshot_at s0 sns i)) (sn_state (snapshot_at s0 sns k)) recs"
proof -
  obtain evs recs where *: "log_events families_counters evs (st_counters (sn_state (snapshot_at s0 sns i))) =
      Inr (st_counters (sn_state (snapshot_at s0 sns k)))" "tallies evs recs" "\<forall>r \<in> set recs. traced_sound U r"
    and replay: "\<forall>zs. replay_by_timestamp_bound collect_tracer (replayer_ram_ops bits) unit_nd True U tape
       (st_ts (sn_state (snapshot_at s0 sns k))) (sn_state (snapshot_at s0 sns i))
       (single_log (span_log xs (reads_after 0 sns i) (sn_reads_end (snapshot_at s0 sns k)) @ zs)) () [] =
       Inr (with_counters (sn_state (snapshot_at s0 sns k)) (st_counters (sn_state (snapshot_at s0 sns i))),
         single_log zs, (), recs)"
    using chunk_collected [OF chunks_replayableD(2) [OF assms]] by blast
  have "collected bits U tape (span_log xs (reads_after 0 sns i) (reads_after 0 sns k))
      (sn_state (snapshot_at s0 sns i)) (sn_state (snapshot_at s0 sns k)) recs"
    using replay [rule_format, of "[]"] unfolding collected_def chunks_replayableD(1) [OF assms] append_Nil2 .
  then show ?thesis using * by blast
qed

lemma snapshot_at_0 [simp]: "snapshot_at s0 sns 0 = s0" "reads_after n sns 0 = n"
  by (simp_all add: snapshot_at_def reads_after_def)

text \<open>The records up to the \<open>k\<close>th snapshot exist, and are a prefix of those up to a later one.\<close>

lemma snapshots_collected_ex:
  assumes "chunks_replayable bits U tape xs s0 sns" "sn_state s0 = initial_with_counters zero_counters" "k \<le> length sns"
  shows "\<exists>recs. (k = 0 \<longrightarrow> recs = []) \<and> snapshots_collected bits U tape xs s0 sns k recs"
proof (cases "k = 0")
  case True
  then show ?thesis
    using collected_Nil [of bits U tape "sn_state s0"] assms(2)
    by (intro exI [of _ "[]"])
      (simp add: snapshots_collected_def span_log_def initial_with_counters_def records_tagged_def)
next
  case False
  have "st_counters (sn_state s0) = zero_counters" using assms(2) by (simp add: initial_with_counters_def)
  then obtain evs recs where *: "log_events families_counters evs zero_counters =
      Inr (st_counters (sn_state (snapshot_at s0 sns k)))" "tallies evs recs" and
    recs: "\<forall>r \<in> set recs. traced_sound U r"
      "collected bits U tape (span_log xs 0 (reads_after 0 sns k)) (sn_state s0) (sn_state (snapshot_at s0 sns k)) recs"
    using span_collected [OF assms(1), of 0 k] assms(3) False by auto
  have "\<forall>t. counter_of t (st_counters (sn_state (snapshot_at s0 sns k))) = records_tagged t recs"
    using tallies_counters [OF *] by simp
  then have "snapshots_collected bits U tape xs s0 sns k recs"
    using recs unfolding snapshots_collected_def by blast
  then show ?thesis using False by blast
qed

lemma snapshots_collected_append:
  assumes chunks: "chunks_replayable bits U tape xs s0 sns" and k: "i < k" "k \<le> length sns"
    and pre: "snapshots_collected bits U tape xs s0 sns i ri" "snapshots_collected bits U tape xs s0 sns k rk"
      "i = 0 \<longrightarrow> ri = []"
    and recs: "collected bits U tape (span_log xs (reads_after 0 sns i) (reads_after 0 sns k))
      (sn_state (snapshot_at s0 sns i)) (sn_state (snapshot_at s0 sns k)) recs" "\<forall>r \<in> set recs. traced_sound U r"
  shows "rk = ri @ recs"
proof (cases "i = 0")
  case True
  have "collected bits U tape (span_log xs 0 (reads_after 0 sns k)) (sn_state s0) (sn_state (snapshot_at s0 sns k)) rk"
    using pre(2) by (simp add: snapshots_collected_def)
  then show ?thesis using recs(1) True pre(3) collected_unique by auto
next
  case False
  then have i: "0 < i" "i \<le> length sns" using k by simp_all
  note end_i = chunks_replayableD(1) [OF chunks i]
  have AB: "chunk_replayed families_counters unit_nd () U tape bits xs (sn_state s0) 0 (snapshot_at s0 sns i)"
    using chunks_replayableD(2) [OF chunks i] by simp
  have ri: "collected bits U tape (span_log xs 0 (sn_reads_end (snapshot_at s0 sns i))) (sn_state s0)
      (sn_state (snapshot_at s0 sns i)) ri"
    using pre(1) unfolding snapshots_collected_def end_i by blast
  have rk: "collected bits U tape (span_log xs 0 (reads_after 0 sns k)) (sn_state s0) (sn_state (snapshot_at s0 sns k)) rk"
    using pre(2) unfolding snapshots_collected_def by blast
  from collected_append [OF AB ri recs(1) [unfolded end_i] recs(2) rk le0] show ?thesis
    using chunks_replayableD(3,6) [OF chunks k] unfolding end_i by blast
qed

lemma spans_collected_ex:
  assumes chunks: "chunks_replayable bits U tape xs s0 sns" and s0: "sn_state s0 = initial_with_counters zero_counters"
  shows "\<exists>pre. spans_collected bits U tape xs s0 sns pre \<and> pre 0 = [] \<and>
    (\<forall>k \<le> length sns. snapshots_collected bits U tape xs s0 sns k (pre k))"
proof -
  define pre where "pre k = (SOME recs. (k = 0 \<longrightarrow> recs = []) \<and> snapshots_collected bits U tape xs s0 sns k recs)" for k
  have pre: "(k = 0 \<longrightarrow> pre k = []) \<and> snapshots_collected bits U tape xs s0 sns k (pre k)" if "k \<le> length sns" for k
    using someI_ex [OF snapshots_collected_ex [OF chunks s0 that]] unfolding pre_def .
  have "spans_collected bits U tape xs s0 sns pre"
    unfolding spans_collected_def
  proof (intro allI impI)
    fix i k assume k: "i < k" "k \<le> length sns"
    obtain recs where recs: "collected bits U tape (span_log xs (reads_after 0 sns i) (reads_after 0 sns k))
        (sn_state (snapshot_at s0 sns i)) (sn_state (snapshot_at s0 sns k)) recs" "\<forall>r \<in> set recs. traced_sound U r"
      using span_collected [OF chunks k] by blast
    have "pre k = pre i @ recs"
      using snapshots_collected_append [OF chunks k _ _ _ recs] pre [of i] pre [of k] k by simp
    then show "reads_after 0 sns i \<le> reads_after 0 sns k \<and> reads_after 0 sns k \<le> length xs \<and>
       (\<exists>recs. collected bits U tape (span_log xs (reads_after 0 sns i) (reads_after 0 sns k))
          (sn_state (snapshot_at s0 sns i)) (sn_state (snapshot_at s0 sns k)) recs \<and>
        (\<forall>r \<in> set recs. traced_sound U r) \<and> pre k = pre i @ recs)"
      using recs chunks_replayableD(3,4) [OF chunks k] by blast
  qed
  then show ?thesis using pre [of 0] pre by blast
qed

text \<open>So a finished run has records up to each of its snapshots, and those up to the last are those of its replay.\<close>

lemma finished_run_collected:
  assumes run: "finished_run bits inner outer families_counters ND U tape nd zero_counters st snap'"
    and small: "sb_total_len (ss_reads_buffer snap') \<le> inner"
  defines "sns \<equiv> ss_snapshots snap'" and "s0 \<equiv> ss_initial_snapshot snap'"
  shows "\<exists>xs pre log. bivec_holds inner outer (ss_reads_buffer snap') xs \<and> length xs \<le> inner \<and> sns \<noteq> [] \<and>
    sn_state (last sns) = st \<and> reads_after 0 sns (length sns) = length xs \<and>
    chunks_replayable bits U tape xs s0 sns \<and> sn_state s0 = initial_with_counters zero_counters \<and>
    spans_collected bits U tape xs s0 sns pre \<and> pre 0 = [] \<and>
    (\<forall>k \<le> length sns. snapshots_collected bits U tape xs s0 sns k (pre k)) \<and>
    recorded_log (bivec_ops inner outer) snap' = Inr log \<and>
    replay_recorded collect_tracer bits unit_nd U tape st log zero_counters () [] =
      Inr (with_counters st zero_counters, \<lparr>ram_log = []\<rparr>, (), pre (length sns))"
proof -
  obtain xs where xs: "bivec_holds inner outer (ss_reads_buffer snap') xs" "sns \<noteq> []" "sn_state (last sns) = st"
    "reads_after 0 sns (length sns) = length xs" "sn_state s0 = initial_with_counters zero_counters" and
    chunks: "chunks_replayable bits U tape xs s0 sns"
    using finished_run_snapshots [OF run] unfolding sns_def s0_def chunks_replayable_def by blast
  have len: "length xs \<le> inner" using small xs(1) by (simp add: bivec_holds_def)
  obtain log recs where log: "recorded_log (bivec_ops inner outer) snap' = Inr log"
    "replay_recorded collect_tracer bits unit_nd U tape st log zero_counters () [] =
      Inr (with_counters st zero_counters, \<lparr>ram_log = []\<rparr>, (), recs)"
    "collected bits U tape xs (initial_with_counters zero_counters) st recs"
    using finished_run_log [OF run xs(1) len] by blast
  obtain pre where pre: "spans_collected bits U tape xs s0 sns pre" "pre 0 = []"
    "\<forall>k \<le> length sns. snapshots_collected bits U tape xs s0 sns k (pre k)"
    using spans_collected_ex [OF chunks xs(5)] by blast
  have "snapshot_at s0 sns (length sns) = last sns" using xs(2) by (simp add: snapshot_at_def last_conv_nth)
  then have "collected bits U tape xs (sn_state s0) st (pre (length sns))"
    using pre(3) [rule_format, OF order_refl] xs(3,4) by (simp add: snapshots_collected_def span_log_def)
  then have "recs = pre (length sns)" using log(3) collected_unique unfolding xs(5) by blast
  then show ?thesis using xs chunks len pre log(1,2) by blast
qed

lemma finished_run_counted:
  assumes chunks: "chunks_replayable bits U tape xs s0 sns" and s0: "sn_state s0 = initial_with_counters zero_counters"
    and calls: "\<And>c. calls c = Inr (counter_of tag c)"
    and pre: "spans_collected bits U tape xs s0 sns pre" "\<forall>k \<le> length sns. snapshots_collected bits U tape xs s0 sns k (pre k)"
  defines "count \<equiv> \<lambda>k. counter_of tag (st_counters (sn_state (snapshot_at s0 sns k)))"
  shows "counted_snapshots calls s0 sns count"
proof -
  have tagged: "count k = records_tagged tag (pre k)" if "k \<le> length sns" for k
  proof -
    have "snapshots_collected bits U tape xs s0 sns k (pre k)" using pre(2) that by blast
    then show ?thesis unfolding count_def snapshots_collected_def by (elim conjE) (erule allE)
  qed
  have times: "unat (st_ts (sn_state (snapshot_at s0 sns k))) mod 4 = 0" if "k \<le> length sns" for k
  proof (cases "k = 0")
    case True
    then show ?thesis using s0 by (simp add: initial_with_counters_def INITIAL_TIMESTAMP_def)
  next
    case False
    then have "0 < k" by simp
    then show ?thesis using that by (rule chunks_replayableD(5) [OF chunks])
  qed
  have mono: "count i \<le> count k" if le: "i < k" "k \<le> length sns" for i k
  proof -
    obtain recs where "pre k = pre i @ recs"
      using pre(1) [unfolded spans_collected_def, rule_format, OF le] by blast
    then have "records_tagged tag (pre i) \<le> records_tagged tag (pre k)" by (simp add: records_tagged_def)
    moreover have "i \<le> length sns" using le by simp
    ultimately show ?thesis using le(2) by (simp only: tagged)
  qed
  have "calls (st_counters (sn_state (snapshot_at s0 sns k))) = Inr (count k)" for k
    unfolding count_def by (rule calls)
  then show ?thesis
    unfolding counted_snapshots_def
    by (intro conjI allI impI) (use times mono chunks_replayableD(6) [OF chunks] in simp_all)
qed

lemma ceil_last:
  assumes "div_ceil N per = Inr q" "0 < N" "N mod per \<noteq> 0"
  shows "N = (q - 1) * per + N mod per"
proof -
  note b = div_ceil_bounds [OF assms(1)]
  have "N \<noteq> q * per" using assms(3) by auto
  then have lt: "N < q * per" using b(2) by simp
  have "N div per = q - 1"
  proof (rule div_nat_eqI)
    show "per * (q - 1) \<le> N" using b(4) [OF assms(2)] by (simp add: mult.commute)
    show "N < per * Suc (q - 1)" using lt b(3) [OF assms(2)] by (simp add: mult.commute)
  qed
  then show ?thesis by (metis div_mult_mod_eq)
qed

context record_kind
begin

lemma work_complete:
  assumes run: "finished_run bits inner outer families_counters ND U tape nd zero_counters st snap'"
    and small: "sb_total_len (ss_reads_buffer snap') \<le> inner"
    and calls: "\<And>c. calls c = Inr (counter_of tag c)"
    and sel: "\<And>recs. \<forall>r \<in> set recs. traced_sound U r \<Longrightarrow> length (sel recs) = records_tagged tag recs"
    and per: "0 < per" "0 < cores"
    and N: "counter_of tag (st_counters st) mod per \<noteq> 0 \<or> counter_of tag (st_counters st) = 0"
    and cover: "length (ss_snapshots snap') \<le> cores \<or>
      counter_of tag (st_counters (sn_state (snapshot_at (ss_initial_snapshot snap') (ss_snapshots snap')
        (length (ss_snapshots snap') - 1)))) < counter_of tag (st_counters st)"
    and finished: "finished [] (sb_total_len (ss_reads_buffer snap'))"
  shows "\<exists>log recs result. recorded_log (bivec_ops inner outer) snap' = Inr log \<and>
    replay_recorded collect_tracer bits unit_nd U tape st log zero_counters () [] =
      Inr (with_counters st zero_counters, \<lparr>ram_log = []\<rparr>, (), recs) \<and>
    replay_work T (bivec_ops inner outer) bits U tape calls finished snap' per cores = Inr result \<and>
    concat result = sel recs \<and> (\<forall>el \<in> set (butlast result). length el = per)"
proof -
  define sns where "sns = ss_snapshots snap'"
  define s0 where "s0 = ss_initial_snapshot snap'"
  define count where "count k = counter_of tag (st_counters (sn_state (snapshot_at s0 sns k)))" for k
  have count_eq: "count = (\<lambda>k. counter_of tag (st_counters (sn_state (snapshot_at s0 sns k))))"
    by (rule ext) (rule count_def)
  obtain xs pre log where xs: "bivec_holds inner outer (ss_reads_buffer snap') xs" "length xs \<le> inner" "sns \<noteq> []"
    "sn_state (last sns) = st" "reads_after 0 sns (length sns) = length xs"
    and chunks: "chunks_replayable bits U tape xs s0 sns" and s0: "sn_state s0 = initial_with_counters zero_counters"
    and pre: "spans_collected bits U tape xs s0 sns pre" "pre 0 = []"
      "\<forall>k \<le> length sns. snapshots_collected bits U tape xs s0 sns k (pre k)"
    and log: "recorded_log (bivec_ops inner outer) snap' = Inr log"
      "replay_recorded collect_tracer bits unit_nd U tape st log zero_counters () [] =
        Inr (with_counters st zero_counters, \<lparr>ram_log = []\<rparr>, (), pre (length sns))"
    using finished_run_collected [OF run small] unfolding sns_def s0_def by blast
  have total: "sb_total_len (ss_reads_buffer snap') = length xs" using xs(1) by (simp add: bivec_holds_def)
  have c: "counted_snapshots calls s0 sns count"
    using finished_run_counted [where calls = calls and tag = tag, OF chunks s0 calls pre(1,3)] unfolding count_eq .
  have counts: "\<forall>k \<le> length sns. count k = length (sel (pre k))"
  proof (intro allI impI)
    fix k assume "k \<le> length sns"
    then have k: "snapshots_collected bits U tape xs s0 sns k (pre k)" using pre(3) by blast
    then have "length (sel (pre k)) = records_tagged tag (pre k)"
      unfolding snapshots_collected_def by (intro sel) blast
    moreover have "count k = records_tagged tag (pre k)"
      using k unfolding snapshots_collected_def count_def by blast
    ultimately show "count k = length (sel (pre k))" by (simp only:)
  qed
  have last: "snapshot_at s0 sns (length sns) = last sns" using xs(3) by (simp add: snapshot_at_def last_conv_nth)
  then have NN: "counter_of tag (st_counters st) = count (length sns)" using xs(4) by (simp add: count_def)
  show ?thesis
  proof (cases "count (length sns) = 0")
    case True
    then have "replay_work T (bivec_ops inner outer) bits U tape calls finished snap' per cores = Inr []"
      using xs(3) NN True xs(4) unfolding replay_work_def Let_def sns_def [symmetric] calls by simp
    moreover have "sel (pre (length sns)) = []" using counts True by simp
    ultimately show ?thesis using log by (intro exI [of _ log] exI [of _ "pre (length sns)"] exI [of _ "[]"]) simp
  next
    case False
    then have pos: "0 < count (length sns)" by simp
    obtain n where n: "div_ceil (count (length sns)) per = Inr n" using per(1) by (simp add: div_ceil_def)
    obtain average where average: "div_ceil (count (length sns)) cores = Inr average" using per(2) by (simp add: div_ceil_def)
    note nb = div_ceil_bounds [OF n]
    have "length sns \<le> cores \<or> count (length sns - 1) < count (length sns)"
      using cover unfolding NN unfolding count_def sns_def s0_def .
    then obtain jobs where jobs: "plan_jobs calls per n average (last sns) cores s0 sns 0 =
        Inr (jobs, [], reads_after 0 sns (length sns))" "jobs_of s0 sns count per n 0 jobs (length sns)"
      using plan_covers [OF c per(1) xs(3) nb(2) pos _ average] counts pre(2) by auto
    have bs: "buffers_of per n (replicate n (replicate per None))" by (simp add: buffers_of_def)
    obtain bs' where bs': "run_jobs T (bivec_ops inner outer) bits U tape snap' jobs (replicate n (replicate per None)) = Inr bs'"
      "buffers_of per n bs'" "take (count (length sns)) (concat bs') = map Some (sel (pre (length sns)))"
      using jobs_done [OF c pre(1) counts nb(2) xs(1,2) jobs(2) _ _ bs] counts pre(2) by auto
    have ceil: "count (length sns) = (n - 1) * per + count (length sns) mod per"
      using ceil_last [OF n pos] N False unfolding NN by simp
    have "count (length sns) mod per \<le> per" using per(1) by simp
    from circuits_initialised [OF this, of bs' 0 n "sel (pre (length sns))"] obtain result where
      result: "init_circuits n per (count (length sns) mod per) 0 bs' = Inr result" "concat result = sel (pre (length sns))"
        "map length result = replicate (n - 1) per @ [count (length sns) mod per]"
      using bs'(2,3) counts ceil nb(3) [OF pos] by (auto simp: buffers_of_def)
    have sum: "sum_list (map length result) = count (length sns)"
      unfolding result(3) using ceil by (simp add: sum_list_replicate)
    have "map length (butlast result) = replicate (n - 1) per" using result(3) by (simp add: map_butlast)
    then have full: "\<forall>el \<in> set (butlast result). length el = per"
      by (metis in_set_replicate list.set_map imageI)
    have t: "unat (st_ts (sn_state s0)) < unat (st_ts (sn_state (last sns)))" "unat (st_ts (sn_state s0)) mod 4 = 0"
      "unat (st_ts (sn_state (last sns))) mod 4 = 0"
      using counted_snapshotsD(4) [OF c, of 0 "length sns"] counted_snapshotsD(2) [OF c, of 0]
        counted_snapshotsD(2) [OF c, of "length sns"] xs(3) last by simp_all
    have "replay_work T (bivec_ops inner outer) bits U tape calls finished snap' per cores = Inr result"
      using xs(3) calls NN xs(4) False n average unat_multiple_diff [OF t] jobs(1) bs'(1) finished total xs(5) result(1) sum
      unfolding replay_work_def Let_def sns_def [symmetric] s0_def [symmetric] by simp
    then show ?thesis using log result(2) full by blast
  qed
qed

end

section \<open>The kinds of the prover\<close>

interpretation non_mem_kind: record_kind "uninit_non_mem_holder family" "non_mems_of family" "\<lambda>fam. fam = family"
  "\<lambda>dt. False" for family
  by (rule record_kind.intro, rule uninit_non_mem_trace.witness_tracer_axioms, simp add: non_mems_of_def,
      rule uninit_non_mem_trace.kept_of(2), rule refl)

interpretation mem_kind: record_kind "uninit_mem_holder family" "mems_of family" "\<lambda>fam. fam = family"
  "\<lambda>dt. False" for family
  by (rule record_kind.intro, rule uninit_mem_trace.witness_tracer_axioms, simp add: mems_of_def,
      rule uninit_mem_trace.kept_of(3), rule refl)

interpretation blake_kind: record_kind uninit_blake_holder "delegations_of (ucast BLAKE2S_DELEGATION_CSR_REGISTER)"
  "\<lambda>fam. False" "\<lambda>dt. dt = ucast BLAKE2S_DELEGATION_CSR_REGISTER"
  by (rule record_kind.intro, rule uninit_blake_trace.witness_tracer_axioms, simp add: delegations_of_def,
      rule uninit_blake_trace.kept_of(1), rule refl)

interpretation bigint_kind: record_kind uninit_bigint_holder "delegations_of (ucast BIGINT_OPS_WITH_CONTROL_CSR_REGISTER)"
  "\<lambda>fam. False" "\<lambda>dt. dt = ucast BIGINT_OPS_WITH_CONTROL_CSR_REGISTER"
  by (rule record_kind.intro, rule uninit_bigint_trace.witness_tracer_axioms, simp add: delegations_of_def,
      rule uninit_bigint_trace.kept_of(1), rule refl)

interpretation keccak_kind: record_kind uninit_keccak_holder "delegations_of (ucast KECCAK_SPECIAL5_CSR_REGISTER)"
  "\<lambda>fam. False" "\<lambda>dt. dt = ucast KECCAK_SPECIAL5_CSR_REGISTER"
  by (rule record_kind.intro, rule uninit_keccak_trace.witness_tracer_axioms, simp add: delegations_of_def,
      rule uninit_keccak_trace.kept_of(1), rule refl)

text \<open>Every record of a family is of the family's sort, so the records of a sort are as many as the cycles counted.\<close>

lemma sorts_counted:
  "\<forall>r \<in> set rs. traced_sound U r \<Longrightarrow> non_mem_family fam \<Longrightarrow>
    length (non_mems_of fam rs) = records_tagged (CycleOf fam) rs"
  "\<forall>r \<in> set rs. traced_sound U r \<Longrightarrow> mem_family fam \<Longrightarrow>
    length (mems_of fam rs) = records_tagged (CycleOf fam) rs"
proof (induction rs)
  case (Cons r rs)
  {
    case 1
    then show ?case using Cons.IH(1) by (cases r) (auto simp: records_tagged_def non_mems_of_def)
  next
    case 2
    then show ?case using Cons.IH(2) by (cases r) (auto simp: records_tagged_def mems_of_def)
  }
qed (simp_all add: records_tagged_def non_mems_of_def mems_of_def)

lemma family_calls_counted:
  "fam \<noteq> REDUCED_MACHINE \<Longrightarrow> family_calls fam c = Inr (counter_of (CycleOf fam) c)"
  by (cases fam) (simp_all add: family_calls_def families_counters_def)

section \<open>A last circuit that is full\<close>

lemma write_chunks_length: "length (write_chunks chunks content bs) = length bs"
  by (induction chunks content bs rule: write_chunks.induct) simp_all

lemma run_jobs_length: "run_jobs T B bits U tape s jobs bs = Inr bs' \<Longrightarrow> length bs' = length bs"
proof (induction jobs arbitrary: bs)
  case (Cons job jobs)
  then obtain bs1 where "run_job T B bits U tape s job bs = Inr bs1" "run_jobs T B bits U tape s jobs bs1 = Inr bs'" by auto
  moreover from this(1) have "length bs1 = length bs" by (auto simp: run_job_def Let_def write_chunks_length)
  ultimately show ?case using Cons.IH by simp
qed simp

lemma init_circuits_lengths:
  "init_circuits num_circuits per last_size i bs = Inr result \<Longrightarrow> i + length bs = num_circuits \<Longrightarrow> bs \<noteq> [] \<Longrightarrow>
    sum_list (map length result) = (length bs - 1) * per + last_size"
proof (induction bs arbitrary: i result)
  case (Cons b bs)
  obtain el rest where el: "set_len (if i = num_circuits - 1 then last_size else per) b = Inr el"
    "init_circuits num_circuits per last_size (Suc i) bs = Inr rest" "result = el # rest"
    using Cons.prems(1) by auto
  then have len: "length el = (if i = num_circuits - 1 then last_size else per)"
    by (auto simp: set_len_def)
  show ?case
  proof (cases "bs = []")
    case True
    then show ?thesis using el len Cons.prems(2) by auto
  next
    case False
    then obtain m where m: "length bs = Suc m" by (cases bs) simp_all
    then have "sum_list (map length rest) = m * per + last_size"
      using Cons.IH [OF el(2)] Cons.prems(2) False by simp
    moreover have "i \<noteq> num_circuits - 1" using Cons.prems(2) m by simp
    ultimately show ?thesis using el(3) len m by simp
  qed
qed simp

text \<open>When the calls fill the last circuit, the size it is given is 0.\<close>

lemma full_last_circuit:
  assumes "ss_snapshots s \<noteq> []" "calls (st_counters (sn_state (last (ss_snapshots s)))) = Inr n" "0 < n" "n mod per = 0"
  shows "replay_work T B bits U tape calls finished s per cores \<noteq> Inr result"
proof
  assume "replay_work T B bits U tape calls finished s per cores = Inr result"
  then obtain q jobs bs' where q: "div_ceil n per = Inr q"
    and bs': "run_jobs T B bits U tape s jobs (replicate q (replicate per None)) = Inr bs'"
    and init: "init_circuits q per (n mod per) 0 bs' = Inr result" and sum: "sum_list (map length result) = n"
    using assms(1-3) by (auto simp: replay_work_def Let_def)
  note b = div_ceil_bounds [OF q]
  have len: "length bs' = q" using run_jobs_length [OF bs'] by simp
  then have "bs' \<noteq> []" using b(3) [OF assms(3)] by auto
  from init_circuits_lengths [OF init _ this] len sum assms(4) have "(q - 1) * per = n" by simp
  then show False using b(4) [OF assms(3)] by simp
qed

section \<open>A part of a run\<close>

lemma finished_run_span:
  assumes run: "finished_run bits inner outer families_counters ND U tape nd zero_counters st snap'"
    and small: "sb_total_len (ss_reads_buffer snap') \<le> inner" and k: "i < k" "k \<le> length (ss_snapshots snap')"
  defines "A \<equiv> snapshot_at (ss_initial_snapshot snap') (ss_snapshots snap') i"
    and "B \<equiv> snapshot_at (ss_initial_snapshot snap') (ss_snapshots snap') k"
  shows "\<exists>log recs ram. rb_make_range (bivec_ops inner outer) (sn_reads_end A) (sn_reads_end B) (ss_reads_buffer snap') =
      Inr log \<and>
    replay_basic_unrolled collect_tracer (replayer_ram_ops bits) unit_nd True U tape
      ((st_ts (sn_state B) - st_ts (sn_state A)) div TIMESTAMP_STEP) (sn_state A) \<lparr>ram_log = log\<rparr> () [] =
      Inr (with_counters (sn_state B) (st_counters (sn_state A)), ram, (), recs)"
proof -
  define sns where "sns = ss_snapshots snap'"
  define s0 where "s0 = ss_initial_snapshot snap'"
  obtain xs where xs: "bivec_holds inner outer (ss_reads_buffer snap') xs" "length xs \<le> inner"
    and chunks: "chunks_replayable bits U tape xs s0 sns"
    using finished_run_collected [OF run small] unfolding sns_def s0_def by blast
  have ik: "i < k" "k \<le> length sns" using k by (simp_all add: sns_def)
  have AB: "A = snapshot_at s0 sns i" "B = snapshot_at s0 sns k" by (simp_all add: A_def B_def s0_def sns_def)
  have s0: "sn_reads_end s0 = 0" "unat (st_ts (sn_state s0)) mod 4 = 0"
    using finished_run_spans [where ND = unit_nd and nd = "()", OF run]
    by (auto simp: s0_def initial_with_counters_def INITIAL_TIMESTAMP_def)
  have reads: "sn_reads_end A = reads_after 0 sns i" "sn_reads_end B = reads_after 0 sns k"
    using s0(1) ik by (simp_all add: AB snapshot_at_def reads_after_def)
  have tA: "unat (st_ts (sn_state A)) mod 4 = 0"
  proof (cases "i = 0")
    case False
    then show ?thesis using chunks_replayableD(5) [OF chunks, of 0 i] ik by (simp add: AB)
  qed (simp add: AB s0(2))
  have t: "unat (st_ts (sn_state B)) mod 4 = 0" "unat (st_ts (sn_state A)) \<le> unat (st_ts (sn_state B))"
    using chunks_replayableD(5,6) [OF chunks ik] by (simp_all add: AB)
  note le = chunks_replayableD(3,4) [OF chunks ik, folded reads]
  obtain log where log: "rb_make_range (bivec_ops inner outer) (sn_reads_end A) (sn_reads_end B) (ss_reads_buffer snap') = Inr log"
    "concat log = span_log xs (sn_reads_end A) (sn_reads_end B)"
    using bivec.range_holds [OF xs(1) le] by (auto simp: span_log_def)
  have one: "length log \<le> 1"
    using small_range_one_slice [OF _ le(1) _ log(1) [unfolded bivec_ops_def, simplified]] xs le(2)
    by (simp add: bivec_holds_def)
  obtain recs where "collected bits U tape (span_log xs (sn_reads_end A) (sn_reads_end B)) (sn_state A) (sn_state B) recs"
    using span_collected [OF chunks ik, folded reads, folded AB] by blast
  then have replay: "replay_by_timestamp_bound collect_tracer (replayer_ram_ops bits) unit_nd True U tape (st_ts (sn_state B))
      (sn_state A) (single_log (concat log)) () [] =
      Inr (with_counters (sn_state B) (st_counters (sn_state A)), single_log [], (), recs)"
    unfolding collected_def log(2) .
  have "\<exists>ram. replay_by_timestamp_bound collect_tracer (replayer_ram_ops bits) unit_nd True U tape (st_ts (sn_state B))
      (sn_state A) \<lparr>ram_log = log\<rparr> () [] = Inr (with_counters (sn_state B) (st_counters (sn_state A)), ram, (), recs)"
  proof (cases "concat log = []")
    case True
    then have "single_log (concat log) = \<lparr>ram_log = []\<rparr>" unfolding single_log_def by simp
    from no_log_loop [OF replay [unfolded this], of "\<lparr>ram_log = log\<rparr>"] show ?thesis by blast
  next
    case False
    then have "\<lparr>ram_log = log\<rparr> = single_log (concat log)" using one by (cases log) (auto simp: single_log_def)
    then show ?thesis using replay by auto
  qed
  then show ?thesis using log(1) unfolding replay_cycles_bound [OF t(1) tA t(2)] by blast
qed

end
