(* ===== verification/Spec2Isabelle.thy ===== *)
theory Spec2Isabelle
  imports IR_Properties M31_Properties VM_Delegation_Properties Replay_Properties Prover_Properties
begin

text \<open>
  The RISC-V transpiler and virtual machine of the airbender prover, with the prime field and the hash function
  its instructions and delegations compute.
\<close>

end
